(* ===== verification/Prelude.thy ===== *)
theory Prelude
  imports Main "HOL-Library.Word"
begin

unbundle bit_operations_syntax

text \<open>
  Shared vocabulary of the HekaOS development: the machine integers of the i386 target, the ways
  a kernel routine can fail to return, sequencing of fallible steps, counted loops, linked lists
  threaded through a store, and the generic facts on words and lists that the component theories
  use.
\<close>

section \<open>Machine types\<close>

type_synonym u8 = "8 word"
type_synonym u16 = "16 word"
type_synonym u32 = "32 word"

abbreviation PAGE_SIZE :: u32 where "PAGE_SIZE \<equiv> 4096"

section \<open>Failing computations\<close>

text \<open>
  A routine that does not return normally ends in one of these ways: \<open>kpanic\<close> was called (the
  machine is halted with that message), the MMU raised a fault in ring 0, a static array was
  indexed out of its bounds (undefined behaviour in C), a pointer that refers to no live object
  was dereferenced, or a loop never ends.
\<close>

datatype kerror =
    Kpanic string
  | PageFault u32
  | OutOfBounds u32
  | BadPointer u32
  | Diverge

type_synonym 'a res = "kerror + 'a"

definition bnd :: "'a res \<Rightarrow> ('a \<Rightarrow> 'b res) \<Rightarrow> 'b res" where
  "bnd r f = (case r of Inl e \<Rightarrow> Inl e | Inr x \<Rightarrow> f x)"

lemma bnd_simps [simp]:
  "bnd (Inl e) f = Inl e"
  "bnd (Inr x) f = f x"
  by (simp_all add: bnd_def)

lemma bnd_eq_Inr [simp]: "bnd r f = Inr y \<longleftrightarrow> (\<exists>x. r = Inr x \<and> f x = Inr y)"
  by (cases r) auto

lemma bnd_assoc: "bnd (bnd r f) g = bnd r (\<lambda>x. bnd (f x) g)"
  by (cases r) auto

definition of_option :: "kerror \<Rightarrow> 'a option \<Rightarrow> 'a res" where
  "of_option e x = (case x of None \<Rightarrow> Inl e | Some y \<Rightarrow> Inr y)"

lemma of_option_simps [simp]:
  "of_option e None = Inl e"
  "of_option e (Some y) = Inr y"
  by (simp_all add: of_option_def)

text \<open>
  The answer of a loop written with \<^theory_text>\<open>partial_function (option)\<close>: \<open>None\<close> is a loop that
  never ends.
\<close>

definition loop_res :: "'a res option \<Rightarrow> 'a res" where
  "loop_res x = (case x of None \<Rightarrow> Inl Diverge | Some r \<Rightarrow> r)"

lemma loop_res_simps [simp]:
  "loop_res None = Inl Diverge"
  "loop_res (Some r) = r"
  by (simp_all add: loop_res_def)

section \<open>Counted loops\<close>

declare upt_rec_numeral [simp del]

text \<open>
  \<open>for_each f xs s\<close> runs the loop body \<open>f\<close> on the successive values of the loop variable. The C
  loop \<open>for (uint32_t i = lo; i < hi; i++)\<close> visits exactly \<open>map of_nat [unat lo..<unat hi]\<close>: the
  counter stops at \<open>hi\<close> before it can wrap.
\<close>

primrec for_each :: "('i \<Rightarrow> 's \<Rightarrow> 's res) \<Rightarrow> 'i list \<Rightarrow> 's \<Rightarrow> 's res" where
  "for_each f [] s = Inr s"
| "for_each f (i # is) s = bnd (f i s) (for_each f is)"

definition u32_range :: "u32 \<Rightarrow> u32 \<Rightarrow> u32 list" where
  "u32_range lo hi = map of_nat [unat lo..<unat hi]"

lemma for_each_append: "for_each f (xs @ ys) s = bnd (for_each f xs s) (for_each f ys)"
  by (induction xs arbitrary: s) (simp_all add: bnd_assoc, simp add: bnd_def split: sum.splits)

lemma for_each_map: "for_each f (map g xs) s = for_each (\<lambda>i. f (g i)) xs s"
proof (induction xs arbitrary: s)
  case (Cons x xs)
  then show ?case by (simp add: bnd_def split: sum.splits)
qed simp

text \<open>The invariant rule: a loop whose body keeps an indexed invariant ends, and keeps it.\<close>

lemma for_each_invariant:
  assumes "P lo s" and "lo \<le> hi"
    and "\<And>i s. lo \<le> i \<Longrightarrow> i < hi \<Longrightarrow> P i s \<Longrightarrow> \<exists>s'. f i s = Inr s' \<and> P (Suc i) s'"
  shows "\<exists>s'. for_each f [lo..<hi] s = Inr s' \<and> P hi s'"
  using assms
proof (induction "hi - lo" arbitrary: lo s)
  case 0
  then show ?case by simp
next
  case (Suc n)
  then have lt: "lo < hi" by simp
  from Suc.prems(3) [of lo s] Suc.prems(1) lt obtain s' where
    s': "f lo s = Inr s'" "P (Suc lo) s'" by auto
  have "\<exists>s''. for_each f [Suc lo..<hi] s' = Inr s'' \<and> P hi s''"
    by (rule Suc.hyps(1)) (use Suc.hyps(2) s'(2) lt Suc.prems(3) in auto)
  with s' lt show ?case by (simp add: upt_conv_Cons)
qed

section \<open>Words\<close>

lemma unat_of_nat_u32: "n < 4294967296 \<Longrightarrow> unat (of_nat n :: u32) = n"
  by (simp add: unat_of_nat)

lemma unat_lt_u32: "unat (w :: u32) < 4294967296"
  using unsigned_less [of w] by simp

lemma test_mask_bit: "(w :: u32) AND push_bit n 1 = 0 \<longleftrightarrow> \<not> bit w n"
  by (simp add: bit_iff_and_push_bit_not_eq_0)

lemma test_exp_bit: "(w :: u32) AND 2 ^ n = 0 \<longleftrightarrow> \<not> bit w n"
  using test_mask_bit [of w n] by simp

lemma bit_exp_u32: "bit (2 ^ m :: u32) n \<longleftrightarrow> m = n \<and> n < 32"
  by (auto simp: bit_exp_iff)

lemma all_ones_bit: "(w :: u32) = 0xFFFFFFFF \<longleftrightarrow> (\<forall>n<32. bit w n)"
proof -
  have max: "(0xFFFFFFFF :: u32) = - 1" by simp
  show ?thesis
  proof
    assume "w = 0xFFFFFFFF"
    then show "\<forall>n<32. bit w n" unfolding max by simp
  next
    assume "\<forall>n<32. bit w n"
    then show "w = 0xFFFFFFFF" unfolding max by (intro bit_word_eqI) auto
  qed
qed

lemma page_offset_mod: "unat ((w :: u32) AND 0xFFF) = unat w mod 4096"
proof -
  have "w AND 0xFFF = take_bit 12 w" by (simp add: take_bit_eq_mask mask_eq_exp_minus_1)
  then show ?thesis by (simp add: take_bit_eq_mod unat_mod)
qed

lemma page_aligned_iff: "(w :: u32) AND 0xFFF = 0 \<longleftrightarrow> unat w mod 4096 = 0"
  using page_offset_mod [of w] by (metis unat_eq_zero)

lemma u32_range_of_nat:
  "hi < 4294967296 \<Longrightarrow> lo \<le> hi \<Longrightarrow> u32_range (of_nat lo) (of_nat hi) = map of_nat [lo..<hi]"
  by (simp add: u32_range_def unat_of_nat_u32)

section \<open>Chains\<close>

text \<open>
  \<open>chain nx p xs\<close>: following the link \<open>nx\<close> from the pointer \<open>p\<close> visits exactly the nodes \<open>xs\<close> and
  then reaches NULL.
\<close>

primrec chain :: "('p \<Rightarrow> 'p option) \<Rightarrow> 'p option \<Rightarrow> 'p list \<Rightarrow> bool" where
  "chain nx p [] \<longleftrightarrow> p = None"
| "chain nx p (x # xs) \<longleftrightarrow> p = Some x \<and> chain nx (nx x) xs"

lemma chain_None [simp]: "chain nx None xs \<longleftrightarrow> xs = []"
  by (cases xs) auto

lemma chain_Some: "chain nx (Some x) xs \<longleftrightarrow> (\<exists>ys. xs = x # ys \<and> chain nx (nx x) ys)"
  by (cases xs) auto

lemma chain_unique: "chain nx p xs \<Longrightarrow> chain nx p ys \<Longrightarrow> xs = ys"
proof (induction xs arbitrary: p ys)
  case (Cons x xs)
  then show ?case by (cases ys) auto
qed simp

lemma chain_cong: "(\<And>x. x \<in> set xs \<Longrightarrow> nx x = nx' x) \<Longrightarrow> chain nx p xs \<longleftrightarrow> chain nx' p xs"
proof (induction xs arbitrary: p)
  case (Cons x xs)
  then show ?case by simp
qed simp

lemma chain_suffix: "chain nx p (xs @ y # ys) \<Longrightarrow> chain nx (Some y) (y # ys)"
  by (induction xs arbitrary: p) auto

lemma chain_distinct: "chain nx p xs \<Longrightarrow> distinct xs"
proof (induction xs arbitrary: p)
  case (Cons x xs)
  have "x \<notin> set xs"
  proof
    assume "x \<in> set xs"
    then obtain us vs where xs: "xs = us @ x # vs" by (auto simp: in_set_conv_decomp)
    have "chain nx (Some x) (x # xs)" using Cons.prems by simp
    moreover have "chain nx (Some x) (x # vs)"
      using Cons.prems xs chain_suffix [of nx "nx x" us x vs] by simp
    ultimately have "x # xs = x # vs" by (rule chain_unique)
    then show False using xs by simp
  qed
  with Cons show ?case by auto
qed simp

lemma chain_fun_upd: "x \<notin> set xs \<Longrightarrow> chain (nx(x := v)) p xs \<longleftrightarrow> chain nx p xs"
  by (rule chain_cong) auto

text \<open>Taking out the node after \<open>a\<close>.\<close>

lemma chain_unlink:
  "chain nx p (xs @ a # b # ys) \<Longrightarrow> chain (nx(a := nx b)) p (xs @ a # ys)"
proof (induction xs arbitrary: p)
  case Nil
  then have "distinct (a # b # ys)" using chain_distinct [of nx p "a # b # ys"] by simp
  with Nil show ?case using chain_fun_upd [of a ys nx "nx b" "nx b"] by (simp add: fun_upd_def)
next
  case (Cons x xs)
  then have "x \<noteq> a" using chain_distinct [of nx p "x # xs @ a # b # ys"] by auto
  with Cons show ?case by simp
qed

text \<open>Every node but the first has a predecessor.\<close>

lemma in_chain_pred:
  assumes "chain nx p xs" and "x \<in> set xs" and "p \<noteq> Some x"
  obtains us a vs where "xs = us @ a # x # vs" and "nx a = Some x"
proof -
  obtain ws vs where xs: "xs = ws @ x # vs" using assms(2) by (auto simp: in_set_conv_decomp)
  have "ws \<noteq> []" using assms(1,3) xs by (cases ws) auto
  then obtain us a where ws: "ws = us @ [a]" by (metis append_butlast_last_id)
  have "chain nx (Some a) (a # x # vs)" using assms(1) xs ws chain_suffix [of nx p us a "x # vs"] by simp
  then show thesis using that [of us a vs] xs ws by simp
qed

text \<open>The walk to the node whose link is \<open>x\<close>, on the list of nodes.\<close>

lemma chain_links_to:
  assumes "chain nx p xs" and "a \<in> set xs" and "nx a = Some x"
  obtains us vs where "xs = us @ a # x # vs"
proof -
  obtain us vs where xs: "xs = us @ a # vs" using assms(2) by (auto simp: in_set_conv_decomp)
  have "chain nx (Some a) (a # vs)" using assms(1) xs chain_suffix by metis
  then have "chain nx (Some x) vs" using assms(3) by simp
  then obtain vs' where "vs = x # vs'" by (auto simp: chain_Some)
  then show thesis using that xs by blast
qed

end
