(* ===== verification/Bit_Array.thy ===== *)
theory Bit_Array
  imports Prelude
begin

text \<open>
  The contract of a bitmap of fixed capacity, as the frame allocator and the vmalloc zone keep one:
  setting and clearing one bit in range returns, changes that bit only and keeps the array
  well-formed. The lemmas lift the contract to the counted loops that set or clear a range.
\<close>

locale bit_array =
  fixes cap :: nat
    and wf :: "'b \<Rightarrow> bool"
    and tst :: "'b \<Rightarrow> nat \<Rightarrow> bool"
    and setb :: "u32 \<Rightarrow> 'b \<Rightarrow> 'b res"
    and clrb :: "u32 \<Rightarrow> 'b \<Rightarrow> 'b res"
  assumes cap_small: "cap < 4294967296"
    and set_ok: "wf b \<Longrightarrow> unat i < cap \<Longrightarrow>
      \<exists>b'. setb i b = Inr b' \<and> wf b' \<and> (\<forall>j<cap. tst b' j \<longleftrightarrow> j = unat i \<or> tst b j)"
    and clr_ok: "wf b \<Longrightarrow> unat i < cap \<Longrightarrow>
      \<exists>b'. clrb i b = Inr b' \<and> wf b' \<and> (\<forall>j<cap. tst b' j \<longleftrightarrow> j \<noteq> unat i \<and> tst b j)"
    and ext: "wf b \<Longrightarrow> wf b' \<Longrightarrow> (\<And>j. j < cap \<Longrightarrow> tst b j = tst b' j) \<Longrightarrow> b = b'"
begin

lemma set_range:
  assumes "wf b" and "lo \<le> hi" and "hi \<le> cap"
  shows "\<exists>b'. for_each setb (map of_nat [lo..<hi]) b = Inr b' \<and> wf b' \<and>
           (\<forall>j<cap. tst b' j \<longleftrightarrow> lo \<le> j \<and> j < hi \<or> tst b j)"
proof -
  let ?P = "\<lambda>i s. wf s \<and> (\<forall>j<cap. tst s j \<longleftrightarrow> lo \<le> j \<and> j < i \<or> tst b j)"
  have "\<exists>b'. for_each (\<lambda>i. setb (of_nat i)) [lo..<hi] b = Inr b' \<and> ?P hi b'"
  proof (rule for_each_invariant)
    fix i s
    assume i: "lo \<le> i" "i < hi" and P: "?P i s"
    with assms(3) cap_small have u: "unat (of_nat i :: u32) = i"
      by (simp add: unat_of_nat_u32)
    with i assms(3) P obtain s' where "setb (of_nat i) s = Inr s'" "wf s'"
      "\<forall>j<cap. tst s' j \<longleftrightarrow> j = i \<or> tst s j"
      using set_ok [of s "of_nat i"] by auto
    with P i show "\<exists>s'. setb (of_nat i) s = Inr s' \<and> ?P (Suc i) s'"
      by (auto simp: less_Suc_eq)
  qed (use assms in auto)
  then show ?thesis by (simp add: for_each_map)
qed

lemma clr_range:
  assumes "wf b" and "lo \<le> hi" and "hi \<le> cap"
  shows "\<exists>b'. for_each clrb (map of_nat [lo..<hi]) b = Inr b' \<and> wf b' \<and>
           (\<forall>j<cap. tst b' j \<longleftrightarrow> \<not> (lo \<le> j \<and> j < hi) \<and> tst b j)"
proof -
  let ?P = "\<lambda>i s. wf s \<and> (\<forall>j<cap. tst s j \<longleftrightarrow> \<not> (lo \<le> j \<and> j < i) \<and> tst b j)"
  have "\<exists>b'. for_each (\<lambda>i. clrb (of_nat i)) [lo..<hi] b = Inr b' \<and> ?P hi b'"
  proof (rule for_each_invariant)
    fix i s
    assume i: "lo \<le> i" "i < hi" and P: "?P i s"
    with assms(3) cap_small have u: "unat (of_nat i :: u32) = i"
      by (simp add: unat_of_nat_u32)
    with i assms(3) P obtain s' where "clrb (of_nat i) s = Inr s'" "wf s'"
      "\<forall>j<cap. tst s' j \<longleftrightarrow> j \<noteq> i \<and> tst s j"
      using clr_ok [of s "of_nat i"] by auto
    with P i show "\<exists>s'. clrb (of_nat i) s = Inr s' \<and> ?P (Suc i) s'"
      by (auto simp: less_Suc_eq)
  qed (use assms in auto)
  then show ?thesis by (simp add: for_each_map)
qed

text \<open>Clearing a range that was clear before it was set gives the array back.\<close>

lemma set_clr_range:
  assumes "wf b" and "lo \<le> hi" and "hi \<le> cap" and "\<And>j. lo \<le> j \<Longrightarrow> j < hi \<Longrightarrow> \<not> tst b j"
    and "for_each setb (map of_nat [lo..<hi]) b = Inr b'"
  shows "for_each clrb (map of_nat [lo..<hi]) b' = Inr b"
proof -
  from set_range [OF assms(1-3)] assms(5) have b': "wf b'"
    "\<forall>j<cap. tst b' j \<longleftrightarrow> lo \<le> j \<and> j < hi \<or> tst b j" by auto
  from clr_range [OF b'(1) assms(2,3)] obtain b'' where
    b'': "for_each clrb (map of_nat [lo..<hi]) b' = Inr b''" "wf b''"
    "\<forall>j<cap. tst b'' j \<longleftrightarrow> \<not> (lo \<le> j \<and> j < hi) \<and> tst b' j" by auto
  have "b'' = b" by (rule ext) (use b' b'' assms(1,4) in auto)
  with b''(1) show ?thesis by simp
qed

end

end
