(* ===== verification/Phys_Page_Frame.thy ===== *)
theory Phys_Page_Frame
  imports Bit_Array
begin

text \<open>
  The physical frame allocator, \<open>src/src/memory/phys_page_frame.c\<close>. Its only state is the static
  array \<open>frame_bitmap\<close>, one bit per 4 KiB frame of the managed 64 MiB, 1 for a used frame. The
  operations follow the C code word by word; an access outside the array is the error
  \<open>OutOfBounds\<close>. The lemmas relate them to the set of free frames.
\<close>

section \<open>The allocator\<close>

type_synonym bitmap = "u32 list"

abbreviation PHYS_MEM_SIZE :: u32 where "PHYS_MEM_SIZE \<equiv> 0x04000000"
abbreviation PHYS_REGION_START :: u32 where "PHYS_REGION_START \<equiv> 0x00400000"
abbreviation PHYS_FRAME_SIZE :: u32 where "PHYS_FRAME_SIZE \<equiv> 4096"
abbreviation PHYS_TOTAL_FRAMES :: u32 where "PHYS_TOTAL_FRAMES \<equiv> PHYS_MEM_SIZE div PHYS_FRAME_SIZE"
abbreviation PHYS_REGION_FRAMES :: u32 where
  "PHYS_REGION_FRAMES \<equiv> (PHYS_MEM_SIZE - PHYS_REGION_START) div PHYS_FRAME_SIZE"
abbreviation BITMAP_SIZE :: u32 where "BITMAP_SIZE \<equiv> PHYS_TOTAL_FRAMES div 32"

definition bitmap_set :: "u32 \<Rightarrow> bitmap \<Rightarrow> bitmap res" where
  "bitmap_set frame bm =
     (let w = unat (frame div 32) in
      if w < length bm then Inr (bm[w := bm ! w OR push_bit (unat (frame mod 32)) 1])
      else Inl (OutOfBounds frame))"

definition bitmap_clear :: "u32 \<Rightarrow> bitmap \<Rightarrow> bitmap res" where
  "bitmap_clear frame bm =
     (let w = unat (frame div 32) in
      if w < length bm then Inr (bm[w := bm ! w AND NOT (push_bit (unat (frame mod 32)) 1)])
      else Inl (OutOfBounds frame))"

definition bitmap_test :: "u32 \<Rightarrow> bitmap \<Rightarrow> u32 res" where
  "bitmap_test frame bm =
     (let w = unat (frame div 32) in
      if w < length bm then Inr (bm ! w AND push_bit (unat (frame mod 32)) 1)
      else Inl (OutOfBounds frame))"

definition bitmap_store :: "u32 \<Rightarrow> bitmap \<Rightarrow> bitmap res" where
  "bitmap_store i bm =
     (if unat i < length bm then Inr (bm[unat i := 0xFFFFFFFF]) else Inl (OutOfBounds i))"

definition phys_mem_init :: "bitmap \<Rightarrow> bitmap res" where
  "phys_mem_init bm =
     bnd (for_each bitmap_store (u32_range 0 BITMAP_SIZE) bm) (\<lambda>bm1.
     let reserved_frames = PHYS_REGION_START div PHYS_FRAME_SIZE in
     for_each bitmap_clear (u32_range reserved_frames PHYS_TOTAL_FRAMES) bm1)"

text \<open>
  \<open>phys_alloc_frame\<close>: the outer loop over bitmap words and the inner loop over the bits of one
  word. \<open>Some r\<close> is a \<open>return\<close> from inside the loops, \<open>None\<close> is falling out of them.
\<close>

primrec alloc_in_word :: "u32 \<Rightarrow> u32 list \<Rightarrow> bitmap \<Rightarrow> (u32 \<times> bitmap) option res" where
  "alloc_in_word i [] bm = Inr None"
| "alloc_in_word i (j # js) bm =
     (let frame = i * 32 + j in
      if frame \<ge> PHYS_TOTAL_FRAMES then Inr (Some (0, bm))
      else bnd (bitmap_test frame bm) (\<lambda>t.
           if t = 0 then bnd (bitmap_set frame bm) (\<lambda>bm'.
                           Inr (Some (frame * PHYS_FRAME_SIZE, bm')))
           else alloc_in_word i js bm))"

primrec alloc_scan :: "u32 list \<Rightarrow> bitmap \<Rightarrow> (u32 \<times> bitmap) option res" where
  "alloc_scan [] bm = Inr None"
| "alloc_scan (i # is) bm =
     (if unat i \<ge> length bm then Inl (OutOfBounds i)
      else if bm ! unat i = 0xFFFFFFFF then alloc_scan is bm
      else bnd (alloc_in_word i (u32_range 0 32) bm) (\<lambda>r.
           case r of None \<Rightarrow> alloc_scan is bm | Some x \<Rightarrow> Inr (Some x)))"

definition phys_alloc_frame :: "bitmap \<Rightarrow> (u32 \<times> bitmap) res" where
  "phys_alloc_frame bm =
     bnd (alloc_scan (u32_range 0 BITMAP_SIZE) bm) (\<lambda>r.
     case r of None \<Rightarrow> Inr (0, bm) | Some x \<Rightarrow> Inr x)"

definition phys_free_frame :: "u32 \<Rightarrow> bitmap \<Rightarrow> bitmap res" where
  "phys_free_frame addr bm =
     (if addr AND (PHYS_FRAME_SIZE - 1) \<noteq> 0 then Inr bm
      else let index = addr div PHYS_FRAME_SIZE in
           if index \<ge> PHYS_TOTAL_FRAMES \<or> index < PHYS_REGION_START div PHYS_FRAME_SIZE then Inr bm
           else bitmap_clear index bm)"

text \<open>The scan of \<open>phys_alloc_contiguous\<close> over the frame indices, with its locals \<open>count\<close>, \<open>start\<close>.\<close>

primrec contiguous_scan :: "u32 \<Rightarrow> u32 \<Rightarrow> u32 \<Rightarrow> u32 list \<Rightarrow> bitmap \<Rightarrow> (u32 \<times> bitmap) res" where
  "contiguous_scan n_frames count start [] bm = Inr (0, bm)"
| "contiguous_scan n_frames count start (i # is) bm =
     bnd (bitmap_test i bm) (\<lambda>t.
     if t = 0 then
       (let start' = (if count = 0 then i else start); count' = count + 1 in
        if count' = n_frames then
          bnd (for_each bitmap_set (u32_range start' (start' + n_frames)) bm) (\<lambda>bm'.
          Inr (start' * PHYS_FRAME_SIZE, bm'))
        else contiguous_scan n_frames count' start' is bm)
     else contiguous_scan n_frames 0 start is bm)"

definition phys_alloc_contiguous :: "u32 \<Rightarrow> bitmap \<Rightarrow> (u32 \<times> bitmap) res" where
  "phys_alloc_contiguous n_frames bm =
     (if n_frames = 0 then Inr (0, bm)
      else contiguous_scan n_frames 0 0 (u32_range 0 PHYS_TOTAL_FRAMES) bm)"

definition phys_free_contiguous :: "u32 \<Rightarrow> u32 \<Rightarrow> bitmap \<Rightarrow> bitmap res" where
  "phys_free_contiguous addr n_frames bm =
     (let reserved = PHYS_REGION_START div PHYS_FRAME_SIZE in
      if n_frames = 0 \<or> addr AND (PHYS_FRAME_SIZE - 1) \<noteq> 0 then Inr bm
      else let start = addr div PHYS_FRAME_SIZE in
           if start < reserved \<or> n_frames > PHYS_TOTAL_FRAMES - start then Inr bm
           else for_each bitmap_clear (u32_range start (start + n_frames)) bm)"

definition count_free_step :: "bitmap \<Rightarrow> u32 \<Rightarrow> u32 \<Rightarrow> u32 res" where
  "count_free_step bm i count =
     bnd (bitmap_test i bm) (\<lambda>t. Inr (if t = 0 then count + 1 else count))"

definition phys_free_count :: "bitmap \<Rightarrow> u32 res" where
  "phys_free_count bm = for_each (count_free_step bm) (u32_range 0 PHYS_TOTAL_FRAMES) 0"

section \<open>The abstract view: the set of free frames\<close>

definition frame_used :: "bitmap \<Rightarrow> nat \<Rightarrow> bool" where
  "frame_used bm f = bit (bm ! (f div 32)) (f mod 32)"

definition free_frames :: "bitmap \<Rightarrow> nat set" where
  "free_frames bm = {f. f < 16384 \<and> \<not> frame_used bm f}"

definition bitmap_wf :: "bitmap \<Rightarrow> bool" where
  "bitmap_wf bm \<longleftrightarrow> length bm = 512"

text \<open>The allocator invariant: the array has its size and the first 4 MiB are never free.\<close>

definition pmm_inv :: "bitmap \<Rightarrow> bool" where
  "pmm_inv bm \<longleftrightarrow> bitmap_wf bm \<and> (\<forall>f<1024. frame_used bm f)"

text \<open>A run of \<open>n\<close> free frames that begins at frame \<open>s\<close>.\<close>

definition free_run :: "bitmap \<Rightarrow> nat \<Rightarrow> nat \<Rightarrow> bool" where
  "free_run bm s n \<longleftrightarrow> {s..<s + n} \<subseteq> free_frames bm"

section \<open>Single bits\<close>

lemma frame_used_update:
  assumes "length bm = 512" and "f < 16384" and "j < 16384"
  shows "frame_used (bm[f div 32 := w]) j =
    (if j div 32 = f div 32 then bit w (j mod 32) else frame_used bm j)"
proof -
  from assms have "f div 32 < length bm" "j div 32 < length bm" by simp_all
  then show ?thesis by (auto simp: frame_used_def nth_list_update)
qed

lemma div_mod_32_eq: "j div 32 = f div 32 \<Longrightarrow> f mod 32 = j mod 32 \<Longrightarrow> j = (f::nat)"
  by (metis div_mult_mod_eq)

lemma bitmap_test_used:
  assumes "bitmap_wf bm" and "unat i < 16384"
  shows "\<exists>t. bitmap_test i bm = Inr t \<and> (t = 0 \<longleftrightarrow> \<not> frame_used bm (unat i))"
proof -
  have "unat (i div 32) = unat i div 32" "unat (i mod 32) = unat i mod 32"
    by (simp_all add: unat_div unat_mod)
  moreover from this assms have "unat i div 32 < length bm" by (simp add: bitmap_wf_def)
  ultimately show ?thesis
    by (simp add: bitmap_test_def frame_used_def test_exp_bit Let_def)
qed

lemma bitmap_set_used:
  assumes "bitmap_wf bm" and "unat i < 16384"
  shows "\<exists>b'. bitmap_set i bm = Inr b' \<and> bitmap_wf b' \<and>
    (\<forall>j<16384. frame_used b' j \<longleftrightarrow> j = unat i \<or> frame_used bm j)"
proof -
  let ?f = "unat i"
  let ?b = "bm[?f div 32 := bm ! (?f div 32) OR push_bit (?f mod 32) 1]"
  have u: "unat (i div 32) = ?f div 32" "unat (i mod 32) = ?f mod 32"
    by (simp_all add: unat_div unat_mod)
  from assms have len: "length bm = 512" and lt: "?f div 32 < 512" by (simp_all add: bitmap_wf_def)
  have "\<forall>j<16384. frame_used ?b j \<longleftrightarrow> j = ?f \<or> frame_used bm j"
    using frame_used_update [OF len assms(2)]
    by (auto simp: bit_or_iff bit_exp_u32 frame_used_def
        split: if_splits dest: div_mod_32_eq)
  with len lt u show ?thesis by (simp add: bitmap_set_def bitmap_wf_def Let_def)
qed

lemma bitmap_clear_used:
  assumes "bitmap_wf bm" and "unat i < 16384"
  shows "\<exists>b'. bitmap_clear i bm = Inr b' \<and> bitmap_wf b' \<and>
    (\<forall>j<16384. frame_used b' j \<longleftrightarrow> j \<noteq> unat i \<and> frame_used bm j)"
proof -
  let ?f = "unat i"
  let ?b = "bm[?f div 32 := bm ! (?f div 32) AND NOT (push_bit (?f mod 32) 1)]"
  have u: "unat (i div 32) = ?f div 32" "unat (i mod 32) = ?f mod 32"
    by (simp_all add: unat_div unat_mod)
  from assms have len: "length bm = 512" and lt: "?f div 32 < 512" by (simp_all add: bitmap_wf_def)
  have "\<forall>j<16384. frame_used ?b j \<longleftrightarrow> j \<noteq> ?f \<and> frame_used bm j"
    using frame_used_update [OF len assms(2)]
    by (auto simp: bit_and_iff bit_not_iff bit_exp_u32 frame_used_def
        split: if_splits dest: div_mod_32_eq)
  with len lt u show ?thesis by (simp add: bitmap_clear_def bitmap_wf_def Let_def)
qed

lemma bitmap_ext:
  assumes "bitmap_wf b" and "bitmap_wf b'" and "\<And>j. j < 16384 \<Longrightarrow> frame_used b j = frame_used b' j"
  shows "b = b'"
proof (rule nth_equalityI)
  show "length b = length b'" using assms by (simp add: bitmap_wf_def)
next
  fix w assume w: "w < length b"
  show "b ! w = b' ! w"
  proof (rule bit_word_eqI)
    fix n assume "n < LENGTH(32)"
    then show "bit (b ! w) n = bit (b' ! w) n"
      using w assms(3) [of "w * 32 + n"] assms(1) by (simp add: frame_used_def bitmap_wf_def)
  qed
qed

interpretation pmm: bit_array 16384 bitmap_wf frame_used bitmap_set bitmap_clear
  by unfold_locales (simp, rule bitmap_set_used, assumption+, rule bitmap_clear_used, assumption+,
      rule bitmap_ext, assumption+)

section \<open>The constants\<close>

lemma phys_constants [simp]:
  "PHYS_TOTAL_FRAMES = 16384" "BITMAP_SIZE = 512" "PHYS_REGION_FRAMES = 15360"
  "PHYS_REGION_START div PHYS_FRAME_SIZE = 1024"
  by simp_all

lemma u32_range_consts:
  "u32_range 0 512 = map of_nat [0..<512]"
  "u32_range 0 32 = map of_nat [0..<32]"
  "u32_range 0 16384 = map of_nat [0..<16384]"
  "u32_range 1024 16384 = map of_nat [1024..<16384]"
  by (simp_all add: u32_range_def)

lemma of_nat_ge_total: "n < 4294967296 \<Longrightarrow> (of_nat n :: u32) \<ge> 16384 \<longleftrightarrow> n \<ge> 16384"
  by (simp add: word_le_nat_alt unat_of_nat_u32)

section \<open>Single-frame allocation\<close>

definition first_free :: "bitmap \<Rightarrow> nat \<Rightarrow> nat \<Rightarrow> bool" where
  "first_free bm lo f \<longleftrightarrow> lo \<le> f \<and> \<not> frame_used bm f \<and> (\<forall>g. lo \<le> g \<and> g < f \<longrightarrow> frame_used bm g)"

lemma first_free_self: "\<not> frame_used bm f \<Longrightarrow> first_free bm f f"
  by (auto simp: first_free_def)

lemma first_free_lower:
  "first_free bm m f \<Longrightarrow> lo \<le> m \<Longrightarrow> (\<And>g. lo \<le> g \<Longrightarrow> g < m \<Longrightarrow> frame_used bm g) \<Longrightarrow> first_free bm lo f"
  by (auto simp: first_free_def) (meson not_le)

text \<open>What a scan of the frames \<open>lo..<hi\<close> returns: \<open>None\<close> when all are used, else the first free one.\<close>

definition scan_result :: "bitmap \<Rightarrow> nat \<Rightarrow> nat \<Rightarrow> (u32 \<times> bitmap) option \<Rightarrow> bool" where
  "scan_result bm lo hi r \<longleftrightarrow>
     (case r of None \<Rightarrow> \<forall>f. lo \<le> f \<and> f < hi \<longrightarrow> frame_used bm f
      | Some (a, bm') \<Rightarrow> \<exists>f<hi. first_free bm lo f \<and> a = of_nat f * 4096 \<and>
                          bitmap_set (of_nat f) bm = Inr bm')"

lemma scan_result_SomeI:
  "f < hi \<Longrightarrow> first_free bm lo f \<Longrightarrow> bitmap_set (of_nat f) bm = Inr bm' \<Longrightarrow>
   scan_result bm lo hi (Some (of_nat f * 4096, bm'))"
  by (auto simp: scan_result_def)

lemma scan_result_SomeE:
  assumes "scan_result bm lo hi (Some x)"
  obtains f bm' where "f < hi" "first_free bm lo f" "x = (of_nat f * 4096, bm')"
    "bitmap_set (of_nat f) bm = Inr bm'"
  using assms by (cases x) (auto simp: scan_result_def)

lemma scan_result_skip:
  assumes "scan_result bm m hi r" and "lo \<le> m" and "\<And>g. lo \<le> g \<Longrightarrow> g < m \<Longrightarrow> frame_used bm g"
  shows "scan_result bm lo hi r"
proof (cases r)
  case None
  with assms show ?thesis by (auto simp: scan_result_def) (meson not_le)
next
  case (Some x)
  with assms(1) first_free_lower [OF _ assms(2,3)] show ?thesis
    by (cases x) (auto simp: scan_result_def)
qed

lemma alloc_in_word_spec:
  assumes "bitmap_wf bm" and "i < 512" and "j \<le> 32"
  shows "\<exists>r. alloc_in_word (of_nat i) (map of_nat [j..<32]) bm = Inr r \<and>
           scan_result bm (32 * i + j) (32 * i + 32) r"
  using assms(3)
proof (induction "32 - j" arbitrary: j)
  case 0
  then show ?case by (auto simp: scan_result_def)
next
  case (Suc n)
  then have j: "j < 32" by simp
  let ?f = "32 * i + j"
  let ?rest = "map of_nat [Suc j..<32] :: u32 list"
  from assms(2) j have f: "?f < 16384" by simp
  have eq: "(of_nat i :: u32) * 32 + of_nat j = of_nat ?f" by (simp add: mult.commute)
  have u: "unat (of_nat ?f :: u32) = ?f" using f by (intro unat_of_nat_u32) simp
  have ge: "\<not> (of_nat ?f :: u32) \<ge> 16384"
    using f of_nat_ge_total [of ?f] by (simp del: of_nat_add of_nat_mult)
  obtain t where t: "bitmap_test (of_nat ?f) bm = Inr t" "t = 0 \<longleftrightarrow> \<not> frame_used bm ?f"
    using bitmap_test_used [OF assms(1), of "of_nat ?f"] f unfolding u by blast
  obtain b' where b': "bitmap_set (of_nat ?f) bm = Inr b'"
    using bitmap_set_used [OF assms(1), of "of_nat ?f"] f unfolding u by blast
  have unfold: "alloc_in_word (of_nat i) (map of_nat [j..<32]) bm =
      (if t = 0 then Inr (Some (of_nat ?f * 4096, b')) else alloc_in_word (of_nat i) ?rest bm)"
    using j ge t(1) b' by (simp add: upt_conv_Cons eq Let_def del: of_nat_add of_nat_mult)
  show ?case
  proof (cases "frame_used bm ?f")
    case False
    then have "scan_result bm ?f (32 * i + 32) (Some (of_nat ?f * 4096, b'))"
      using j b' by (intro scan_result_SomeI first_free_self) simp_all
    with unfold t(2) False show ?thesis by (simp del: of_nat_add of_nat_mult)
  next
    case True
    have "\<exists>r. alloc_in_word (of_nat i) ?rest bm = Inr r \<and>
           scan_result bm (32 * i + Suc j) (32 * i + 32) r"
      by (rule Suc.hyps(1)) (use Suc.hyps(2) j in auto)
    then obtain r where r: "alloc_in_word (of_nat i) ?rest bm = Inr r"
      "scan_result bm (32 * i + Suc j) (32 * i + 32) r" by blast
    have "scan_result bm ?f (32 * i + 32) r"
      by (rule scan_result_skip [OF r(2)]) (use True in \<open>auto simp: less_Suc_eq dest: le_antisym\<close>)
    with unfold t(2) True r(1) show ?thesis by simp
  qed
qed

lemma word_full: "bm ! i = 0xFFFFFFFF \<longleftrightarrow> (\<forall>f. 32 * i \<le> f \<and> f < 32 * i + 32 \<longrightarrow> frame_used bm f)"
proof
  assume "bm ! i = 0xFFFFFFFF"
  then have "\<forall>n<32. bit (bm ! i) n" by (simp only: all_ones_bit)
  then show "\<forall>f. 32 * i \<le> f \<and> f < 32 * i + 32 \<longrightarrow> frame_used bm f"
  proof (intro allI impI)
    fix f assume n: "\<forall>n<32. bit (bm ! i) n" and f: "32 * i \<le> f \<and> f < 32 * i + 32"
    then have "f div 32 = i" by (intro div_nat_eqI) simp_all
    with n show "frame_used bm f" by (simp add: frame_used_def)
  qed
next
  assume "\<forall>f. 32 * i \<le> f \<and> f < 32 * i + 32 \<longrightarrow> frame_used bm f"
  then have "\<And>n. n < 32 \<Longrightarrow> frame_used bm (32 * i + n)" by simp
  then show "bm ! i = 0xFFFFFFFF" by (simp add: all_ones_bit frame_used_def)
qed

lemma alloc_scan_spec:
  assumes "bitmap_wf bm" and "i \<le> 512"
  shows "\<exists>r. alloc_scan (map of_nat [i..<512]) bm = Inr r \<and> scan_result bm (32 * i) 16384 r"
  using assms(2)
proof (induction "512 - i" arbitrary: i)
  case 0
  then show ?case by (auto simp: scan_result_def)
next
  case (Suc n)
  then have i: "i < 512" by simp
  have u: "unat (of_nat i :: u32) = i" using i by (intro unat_of_nat_u32) simp
  have "\<exists>r. alloc_scan (map of_nat [Suc i..<512]) bm = Inr r \<and> scan_result bm (32 * Suc i) 16384 r"
    by (rule Suc.hyps(1)) (use Suc.hyps(2) i in auto)
  then obtain r where r: "alloc_scan (map of_nat [Suc i..<512]) bm = Inr r"
    "scan_result bm (32 * Suc i) 16384 r" by blast
  obtain q where q: "alloc_in_word (of_nat i) (u32_range 0 32) bm = Inr q"
    "scan_result bm (32 * i) (32 * i + 32) q"
    using alloc_in_word_spec [OF assms(1) i, of 0] by (auto simp: u32_range_consts)
  have unfold: "alloc_scan (map of_nat [i..<512]) bm =
     (if bm ! i = 0xFFFFFFFF then Inr r else case q of None \<Rightarrow> Inr r | Some x \<Rightarrow> Inr (Some x))"
    using i assms(1) u r(1) q(1) by (simp add: upt_conv_Cons bitmap_wf_def split: option.splits)
  have skip: "scan_result bm (32 * i) 16384 r"
    if "\<forall>f. 32 * i \<le> f \<and> f < 32 * i + 32 \<longrightarrow> frame_used bm f"
    by (rule scan_result_skip [OF r(2)]) (use that in auto)
  show ?case
  proof (cases "bm ! i = 0xFFFFFFFF")
    case True
    with unfold skip word_full show ?thesis by simp
  next
    case False
    show ?thesis
    proof (cases q)
      case None
      with q(2) have "scan_result bm (32 * i) 16384 r" by (intro skip) (simp add: scan_result_def)
      with unfold False None show ?thesis by simp
    next
      case (Some x)
      with q(2) i have "scan_result bm (32 * i) 16384 (Some x)"
        by (auto elim!: scan_result_SomeE intro: scan_result_SomeI)
      with unfold False Some show ?thesis by simp
    qed
  qed
qed

lemma free_frames_bounds: "f \<in> free_frames bm \<Longrightarrow> f < 16384"
  by (simp add: free_frames_def)

lemma finite_free_frames [simp]: "finite (free_frames bm)"
  by (rule finite_subset [of _ "{..<16384}"]) (auto simp: free_frames_def)

lemma unat_frame_addr: "f < 16384 \<Longrightarrow> unat (of_nat f * 4096 :: u32) = f * 4096"
proof -
  assume f: "f < 16384"
  have "(of_nat f * 4096 :: u32) = of_nat (f * 4096)" by simp
  then show ?thesis using f unat_of_nat_u32 [of "f * 4096"] by (simp only: mult_less_cancel2)
qed

text \<open>
  First fit: with a free frame the allocator returns the address of the lowest one and takes it
  out of the free set; with none it returns NULL and changes nothing.
\<close>

lemma phys_alloc_frame_spec:
  assumes "bitmap_wf bm"
  shows "free_frames bm = {} \<and> phys_alloc_frame bm = Inr (0, bm) \<or>
    (\<exists>f bm'. f \<in> free_frames bm \<and> f = Min (free_frames bm) \<and>
       phys_alloc_frame bm = Inr (of_nat f * 4096, bm') \<and> bitmap_wf bm' \<and>
       bitmap_set (of_nat f) bm = Inr bm' \<and> free_frames bm' = free_frames bm - {f})"
proof -
  obtain r where r: "alloc_scan (u32_range 0 512) bm = Inr r" "scan_result bm 0 16384 r"
    using alloc_scan_spec [OF assms, of 0] by (auto simp: u32_range_consts)
  show ?thesis
  proof (cases r)
    case None
    with r show ?thesis by (auto simp: phys_alloc_frame_def scan_result_def free_frames_def)
  next
    case (Some x)
    obtain a bm' where x: "x = (a, bm')" by (cases x)
    with r Some obtain f where f: "f < 16384" "first_free bm 0 f" "a = of_nat f * 4096"
      "bitmap_set (of_nat f) bm = Inr bm'" by (auto simp: scan_result_def)
    have u: "unat (of_nat f :: u32) = f" using f(1) by (intro unat_of_nat_u32) simp
    have bm': "bitmap_wf bm'" "\<forall>j<16384. frame_used bm' j \<longleftrightarrow> j = f \<or> frame_used bm j"
      using bitmap_set_used [OF assms, of "of_nat f"] f(1,4) unfolding u by auto
    have free: "f \<in> free_frames bm" using f(1,2) by (simp add: free_frames_def first_free_def)
    moreover have "f = Min (free_frames bm)"
      by (rule Min_eqI [symmetric]) (use free f(2) in \<open>auto simp: first_free_def free_frames_def intro: leI\<close>)
    moreover have "free_frames bm' = free_frames bm - {f}"
      using bm'(2) by (auto simp: free_frames_def)
    ultimately show ?thesis
      using r(1) Some x f(3,4) bm'(1) by (auto simp: phys_alloc_frame_def)
  qed
qed

section \<open>Freeing a frame\<close>

lemma frame_index_range:
  "(addr div 4096 :: u32) \<ge> 16384 \<longleftrightarrow> unat addr div 4096 \<ge> 16384"
  "(addr div 4096 :: u32) < 1024 \<longleftrightarrow> unat addr div 4096 < 1024"
  by (simp_all add: word_le_nat_alt word_less_nat_alt unat_div)

text \<open>The frame that a legitimate address stands for: aligned, above the reserved region, managed.\<close>

definition freeable :: "u32 \<Rightarrow> nat \<Rightarrow> bool" where
  "freeable addr f \<longleftrightarrow> unat addr = 4096 * f \<and> 1024 \<le> f \<and> f < 16384"

lemma phys_free_frame_ok:
  assumes "bitmap_wf bm" and "freeable addr f"
  shows "\<exists>bm'. phys_free_frame addr bm = Inr bm' \<and> bitmap_clear (of_nat f) bm = Inr bm' \<and>
    bitmap_wf bm' \<and> free_frames bm' = insert f (free_frames bm)"
proof -
  have idx: "addr div 4096 = of_nat f" and u: "unat (of_nat f :: u32) = f"
  proof -
    show "unat (of_nat f :: u32) = f"
      using assms(2) by (intro unat_of_nat_u32) (simp add: freeable_def)
    then show "addr div 4096 = of_nat f"
      using assms(2) by (intro word_unat_eq_iff [THEN iffD2]) (simp add: unat_div freeable_def)
  qed
  obtain bm' where bm': "bitmap_clear (of_nat f) bm = Inr bm'" "bitmap_wf bm'"
    "\<forall>j<16384. frame_used bm' j \<longleftrightarrow> j \<noteq> f \<and> frame_used bm j"
    using bitmap_clear_used [OF assms(1), of "of_nat f"] assms(2) unfolding u freeable_def by blast
  have "phys_free_frame addr bm = bitmap_clear (of_nat f) bm"
    using assms(2) frame_index_range [of addr]
    by (simp add: phys_free_frame_def page_aligned_iff idx freeable_def)
  with bm' assms(2) show ?thesis by (auto simp: free_frames_def freeable_def)
qed

lemma phys_free_frame_ignored:
  assumes "\<nexists>f. freeable addr f"
  shows "phys_free_frame addr bm = Inr bm"
proof -
  have "\<not> freeable addr (unat addr div 4096)" using assms by blast
  then have "unat addr mod 4096 \<noteq> 0 \<or> unat addr div 4096 \<ge> 16384 \<or> unat addr div 4096 < 1024"
    unfolding freeable_def using mult_div_mod_eq [of 4096 "unat addr"] by linarith
  then show ?thesis
    by (auto simp: phys_free_frame_def page_aligned_iff frame_index_range)
qed

section \<open>Runs of frames\<close>

definition first_run :: "bitmap \<Rightarrow> nat \<Rightarrow> (u32 \<times> bitmap) res \<Rightarrow> bool" where
  "first_run bm n r \<longleftrightarrow>
     (\<forall>s. \<not> free_run bm s n) \<and> r = Inr (0, bm)
   \<or> (\<exists>s bm'. free_run bm s n \<and> (\<forall>s'. free_run bm s' n \<longrightarrow> s \<le> s') \<and>
        for_each bitmap_set (map of_nat [s..<s + n]) bm = Inr bm' \<and> r = Inr (of_nat s * 4096, bm'))"

lemma free_run_bounds: "free_run bm s n \<Longrightarrow> 0 < n \<Longrightarrow> s + n \<le> 16384"
proof -
  assume "free_run bm s n" and "0 < n"
  then have "s + n - 1 \<in> free_frames bm" unfolding free_run_def by (elim subsetD) auto
  then show ?thesis using free_frames_bounds [of "s + n - 1" bm] by linarith
qed

lemma contiguous_scan_spec:
  assumes wf: "bitmap_wf bm" and n: "n = unat n_frames"
    and "i \<le> 16384" and "c < n" and "c \<le> i" and "c > 0 \<Longrightarrow> start = of_nat (i - c)"
    and "{i - c..<i} \<subseteq> free_frames bm"
    and "\<And>s. free_run bm s n \<Longrightarrow> i - c \<le> s"
  shows "first_run bm n (contiguous_scan n_frames (of_nat c) start (map of_nat [i..<16384]) bm)"
  using assms(3-)
proof (induction "16384 - i" arbitrary: i c start)
  case 0
  have "\<not> free_run bm s n" for s
  proof
    assume r: "free_run bm s n"
    with 0 have "i - c \<le> s" by blast
    moreover have "s + n \<le> 16384" by (rule free_run_bounds [OF r]) (use 0 in simp)
    ultimately show False using 0 by linarith
  qed
  with 0 show ?case by (simp add: first_run_def)
next
  case (Suc k)
  then have i: "i < 16384" by simp
  have nlt: "n < 4294967296" unfolding n by (rule unat_lt_u32)
  have u: "unat (of_nat i :: u32) = i" using i by (intro unat_of_nat_u32) simp
  obtain t where t: "bitmap_test (of_nat i) bm = Inr t" "t = 0 \<longleftrightarrow> \<not> frame_used bm i"
    using bitmap_test_used [OF wf, of "of_nat i"] i unfolding u by blast
  have c0: "(of_nat c :: u32) = 0 \<longleftrightarrow> c = 0"
    using nlt Suc.prems(2) unat_of_nat_u32 [of c] by (auto simp: unat_eq_zero [symmetric])
  have cn: "(of_nat c :: u32) + 1 = n_frames \<longleftrightarrow> Suc c = n"
  proof -
    have "(of_nat c :: u32) + 1 = of_nat (Suc c)" by (simp add: add.commute)
    moreover have "unat (of_nat (Suc c) :: u32) = Suc c"
      using nlt Suc.prems(2) by (intro unat_of_nat_u32) linarith
    ultimately show ?thesis using n by (metis word_unat_eq_iff)
  qed
  have st: "(if (of_nat c :: u32) = 0 then of_nat i else start) = of_nat (i - c)"
    using Suc.prems(4) c0 by auto
  show ?case
  proof (cases "frame_used bm i")
    case True
    have later: "Suc i - 0 \<le> s" if "free_run bm s n" for s
    proof (rule ccontr)
      assume "\<not> Suc i - 0 \<le> s"
      then have "s \<le> i" by simp
      moreover from that have "i - c \<le> s" by (rule Suc.prems(6))
      ultimately have "i \<in> {s..<s + n}" using Suc.prems(2) by simp
      with that have "i \<in> free_frames bm" unfolding free_run_def by blast
      with True show False by (simp add: free_frames_def)
    qed
    have "contiguous_scan n_frames (of_nat c) start (map of_nat [i..<16384]) bm =
        contiguous_scan n_frames (of_nat 0) start (map of_nat [Suc i..<16384]) bm"
      using i t True by (simp add: upt_conv_Cons)
    moreover have "first_run bm n
        (contiguous_scan n_frames (of_nat 0) start (map of_nat [Suc i..<16384]) bm)"
      by (rule Suc.hyps(1)) (use Suc.hyps(2) Suc.prems(2) i later in auto)
    ultimately show ?thesis by simp
  next
    case False
    then have fr: "i \<in> free_frames bm" using i by (simp add: free_frames_def)
    have run: "{i - c..<Suc i} \<subseteq> free_frames bm"
      using Suc.prems(5) fr by (auto simp: less_Suc_eq)
    show ?thesis
    proof (cases "Suc c = n")
      case True
      have fin: "i - c + n = Suc i" using True Suc.prems(3) by simp
      obtain bm' where bm': "for_each bitmap_set (map of_nat [i - c..<i - c + n]) bm = Inr bm'"
        using pmm.set_range [OF wf, of "i - c" "i - c + n"] i fin by auto
      have rng: "u32_range (of_nat (i - c)) (of_nat (i - c) + n_frames) = map of_nat [i - c..<i - c + n]"
      proof -
        have "(of_nat (i - c) :: u32) + n_frames = of_nat (i - c + n)" by (simp add: n)
        then show ?thesis using i fin by (simp only: u32_range_of_nat)
      qed
      have "contiguous_scan n_frames (of_nat c) start (map of_nat [i..<16384]) bm =
          Inr (of_nat (i - c) * 4096, bm')"
        using i t False st cn True bm' rng by (simp add: upt_conv_Cons Let_def)
      moreover have "free_run bm (i - c) n" using run fin by (simp add: free_run_def)
      ultimately show ?thesis using bm' Suc.prems(6) unfolding first_run_def by blast
    next
      case no: False
      have "contiguous_scan n_frames (of_nat c) start (map of_nat [i..<16384]) bm =
          contiguous_scan n_frames (of_nat (Suc c)) (of_nat (i - c)) (map of_nat [Suc i..<16384]) bm"
        using i t False st cn no by (simp add: upt_conv_Cons Let_def add.commute)
      moreover have "first_run bm n
          (contiguous_scan n_frames (of_nat (Suc c)) (of_nat (i - c)) (map of_nat [Suc i..<16384]) bm)"
        by (rule Suc.hyps(1)) (use Suc.hyps(2) Suc.prems i no run in auto)
      ultimately show ?thesis by (simp only:)
    qed
  qed
qed

lemma phys_alloc_contiguous_first_run:
  assumes "bitmap_wf bm" and "n_frames \<noteq> 0"
  shows "first_run bm (unat n_frames) (phys_alloc_contiguous n_frames bm)"
proof -
  have "0 < unat n_frames" using assms(2) by (simp add: unat_gt_0)
  with contiguous_scan_spec [OF assms(1) refl, of 0 0 n_frames 0] assms(2) show ?thesis
    by (simp add: phys_alloc_contiguous_def u32_range_consts)
qed

lemma set_run_free_frames:
  assumes "bitmap_wf bm" and "free_run bm s n" and "0 < n"
    and "for_each bitmap_set (map of_nat [s..<s + n]) bm = Inr bm'"
  shows "bitmap_wf bm' \<and> free_frames bm' = free_frames bm - {s..<s + n}"
proof -
  have "s + n \<le> 16384" using free_run_bounds [OF assms(2,3)] .
  with pmm.set_range [OF assms(1), of s "s + n"] assms(4) have
    "bitmap_wf bm'" "\<forall>j<16384. frame_used bm' j \<longleftrightarrow> s \<le> j \<and> j < s + n \<or> frame_used bm j" by auto
  then show ?thesis by (auto simp: free_frames_def)
qed

lemma clear_run_free_frames:
  assumes "bitmap_wf bm" and "s + n \<le> 16384"
  shows "\<exists>bm'. for_each bitmap_clear (map of_nat [s..<s + n]) bm = Inr bm' \<and>
    bitmap_wf bm' \<and> free_frames bm' = free_frames bm \<union> {s..<s + n}"
proof -
  from pmm.clr_range [OF assms(1), of s "s + n"] assms(2) obtain bm' where
    "for_each bitmap_clear (map of_nat [s..<s + n]) bm = Inr bm'" "bitmap_wf bm'"
    "\<forall>j<16384. frame_used bm' j \<longleftrightarrow> \<not> (s \<le> j \<and> j < s + n) \<and> frame_used bm j" by auto
  with assms(2) show ?thesis by (intro exI [of _ bm']) (auto simp: free_frames_def)
qed

text \<open>The guard of \<open>phys_free_contiguous\<close> on a base inside the managed region.\<close>

lemma phys_free_contiguous_run:
  assumes "unat addr = 4096 * s" and "1024 \<le> s" and "s \<le> 16384" and "n_frames \<noteq> 0"
  shows "phys_free_contiguous addr n_frames bm =
    (if s + unat n_frames \<le> 16384 then for_each bitmap_clear (map of_nat [s..<s + unat n_frames]) bm
     else Inr bm)"
proof -
  have us: "unat (of_nat s :: u32) = s" using assms(3) by (intro unat_of_nat_u32) simp
  have idx: "addr div 4096 = of_nat s"
    using assms(1) us by (intro word_unat_eq_iff [THEN iffD2]) (simp add: unat_div)
  have lt: "\<not> (of_nat s :: u32) < 1024" using assms(2) us by (simp add: word_less_nat_alt)
  have sub: "unat (16384 - of_nat s :: u32) = 16384 - s"
    using assms(3) us by (subst unat_sub) (simp_all add: word_le_nat_alt)
  have guard: "n_frames > 16384 - of_nat s \<longleftrightarrow> s + unat n_frames > 16384"
    using assms(3) sub by (auto simp: word_less_nat_alt)
  have rng: "u32_range (of_nat s) (of_nat s + n_frames) = map of_nat [s..<s + unat n_frames]"
    if "s + unat n_frames \<le> 16384"
  proof -
    have "(of_nat s :: u32) + n_frames = of_nat (s + unat n_frames)" by simp
    then show ?thesis using that by (simp only: u32_range_of_nat)
  qed
  show ?thesis
    using assms(1,4) guard rng lt
    by (auto simp: phys_free_contiguous_def page_aligned_iff idx Let_def not_less)
qed

section \<open>Counting and initialisation\<close>

lemma card_free_Suc:
  "card {f \<in> free_frames bm. f < Suc i} =
     card {f \<in> free_frames bm. f < i} + (if i \<in> free_frames bm then 1 else 0)"
proof -
  have "{f \<in> free_frames bm. f < Suc i} =
      (if i \<in> free_frames bm then insert i {f \<in> free_frames bm. f < i} else {f \<in> free_frames bm. f < i})"
    by (auto simp: less_Suc_eq)
  then show ?thesis by simp
qed

lemma phys_free_count_card:
  assumes "bitmap_wf bm"
  shows "phys_free_count bm = Inr (of_nat (card (free_frames bm)))"
proof -
  let ?P = "\<lambda>i c. c = (of_nat (card {f \<in> free_frames bm. f < i}) :: u32)"
  have "\<exists>c. for_each (\<lambda>i. count_free_step bm (of_nat i)) [0..<16384] 0 = Inr c \<and> ?P 16384 c"
  proof (rule for_each_invariant)
    fix i c assume i: "i < (16384::nat)" and c: "?P i c"
    have u: "unat (of_nat i :: u32) = i" using i by (intro unat_of_nat_u32) simp
    obtain t where "bitmap_test (of_nat i) bm = Inr t" "t = 0 \<longleftrightarrow> i \<in> free_frames bm"
      using bitmap_test_used [OF assms, of "of_nat i"] i unfolding u
      by (auto simp: free_frames_def)
    with c show "\<exists>c'. count_free_step bm (of_nat i) c = Inr c' \<and> ?P (Suc i) c'"
      by (simp add: count_free_step_def card_free_Suc add.commute)
  qed simp_all
  moreover have "{f \<in> free_frames bm. f < 16384} = free_frames bm" by (auto simp: free_frames_def)
  ultimately show ?thesis by (simp add: phys_free_count_def u32_range_consts for_each_map)
qed

lemma fill_words:
  assumes "bitmap_wf bm"
  shows "for_each bitmap_store (u32_range 0 512) bm = Inr (replicate 512 0xFFFFFFFF)"
proof -
  let ?P = "\<lambda>i b. length b = 512 \<and> (\<forall>j<i. b ! j = (0xFFFFFFFF :: u32))"
  have "\<exists>b. for_each (\<lambda>i. bitmap_store (of_nat i)) [0..<512] bm = Inr b \<and> ?P 512 b"
  proof (rule for_each_invariant [where P = ?P])
    fix i :: nat and b :: bitmap assume i: "i < 512" and P: "?P i b"
    have u: "unat (of_nat i :: u32) = i" using i by (intro unat_of_nat_u32) simp
    with i P show "\<exists>b'. bitmap_store (of_nat i) b = Inr b' \<and> ?P (Suc i) b'"
      by (auto simp: bitmap_store_def nth_list_update less_Suc_eq)
  qed (use assms in \<open>auto simp: bitmap_wf_def\<close>)
  then obtain b where b: "for_each (\<lambda>i. bitmap_store (of_nat i)) [0..<512] bm = Inr b" "?P 512 b"
    by blast
  then have "b = replicate 512 0xFFFFFFFF" by (intro nth_equalityI) auto
  with b(1) show ?thesis by (simp only: u32_range_consts for_each_map)
qed

lemma phys_mem_init_spec:
  assumes "bitmap_wf bm"
  shows "\<exists>bm'. phys_mem_init bm = Inr bm' \<and> pmm_inv bm' \<and> free_frames bm' = {1024..<16384}"
proof -
  let ?full = "replicate 512 0xFFFFFFFF :: bitmap"
  have full: "bitmap_wf ?full" "\<And>f. f < 16384 \<Longrightarrow> frame_used ?full f"
    using all_ones_bit [THEN iffD1, OF refl] by (auto simp: bitmap_wf_def frame_used_def)
  obtain bm' where bm': "for_each bitmap_clear (map of_nat [1024..<16384]) ?full = Inr bm'"
    "bitmap_wf bm'" "\<forall>j<16384. frame_used bm' j \<longleftrightarrow> \<not> (1024 \<le> j \<and> j < 16384) \<and> frame_used ?full j"
    using pmm.clr_range [OF full(1), of 1024 16384] by auto
  have "phys_mem_init bm = Inr bm'"
    using bm'(1) by (simp add: phys_mem_init_def fill_words [OF assms] u32_range_consts(4))
  moreover have "free_frames bm' = {1024..<16384}" "pmm_inv bm'"
    using bm' full by (auto simp: free_frames_def pmm_inv_def)
  ultimately show ?thesis by blast
qed

lemma pmm_inv_free: "pmm_inv bm \<longleftrightarrow> bitmap_wf bm \<and> free_frames bm \<subseteq> {1024..<16384}"
proof -
  have "free_frames bm \<subseteq> {1024..<16384} \<longleftrightarrow> (\<forall>f. f < 16384 \<and> \<not> frame_used bm f \<longrightarrow> 1024 \<le> f)"
    by (auto simp: free_frames_def)
  also have "\<dots> \<longleftrightarrow> (\<forall>f<1024. frame_used bm f)"
  proof (intro iffI allI impI)
    fix f :: nat assume *: "\<forall>f. f < 16384 \<and> \<not> frame_used bm f \<longrightarrow> 1024 \<le> f" and f: "f < 1024"
    from f have "f < 16384" by simp
    with * f show "frame_used bm f" using not_less by blast
  next
    fix f assume "\<forall>f<1024. frame_used bm f" "f < 16384 \<and> \<not> frame_used bm f"
    then show "1024 \<le> f" using not_less by blast
  qed
  finally show ?thesis by (simp add: pmm_inv_def)
qed

section \<open>A bitmap is its free set\<close>

lemma bitmap_of_ex:
  assumes "F \<subseteq> {..<16384}"
  shows "\<exists>bm. bitmap_wf bm \<and> free_frames bm = F"
proof -
  from assms have "finite F" using finite_subset by blast
  then show ?thesis using assms
  proof (induction F)
    case empty
    have "bitmap_wf (replicate 512 0xFFFFFFFF)" "free_frames (replicate 512 0xFFFFFFFF) = {}"
      using all_ones_bit [THEN iffD1, OF refl]
      by (auto simp: bitmap_wf_def free_frames_def frame_used_def)
    then show ?case by blast
  next
    case (insert f F)
    then obtain bm where bm: "bitmap_wf bm" "free_frames bm = F" by auto
    from insert.prems have f: "f < 16384" by simp
    then have u: "unat (of_nat f :: u32) = f" by (intro unat_of_nat_u32) simp
    obtain bm' where "bitmap_wf bm'" "\<forall>j<16384. frame_used bm' j \<longleftrightarrow> j \<noteq> f \<and> frame_used bm j"
      using bitmap_clear_used [OF bm(1), of "of_nat f"] f unfolding u by blast
    with bm f show ?case by (intro exI [of _ bm']) (auto simp: free_frames_def)
  qed
qed

lemma bitmap_eqI: "bitmap_wf b \<Longrightarrow> bitmap_wf b' \<Longrightarrow> free_frames b = free_frames b' \<Longrightarrow> b = b'"
  by (rule bitmap_ext) (auto simp: free_frames_def set_eq_iff)

definition bitmap_of :: "nat set \<Rightarrow> bitmap" where
  "bitmap_of F = (THE bm. bitmap_wf bm \<and> free_frames bm = F)"

lemma bitmap_of:
  assumes "F \<subseteq> {..<16384}"
  shows "bitmap_wf (bitmap_of F)" "free_frames (bitmap_of F) = F"
proof -
  have "\<exists>!bm. bitmap_wf bm \<and> free_frames bm = F"
    using bitmap_of_ex [OF assms] bitmap_eqI by metis
  from theI' [OF this] show "bitmap_wf (bitmap_of F)" "free_frames (bitmap_of F) = F"
    by (simp_all add: bitmap_of_def)
qed

lemma bitmap_of_free: "bitmap_wf bm \<Longrightarrow> bitmap_of (free_frames bm) = bm"
  using bitmap_of [of "free_frames bm"] free_frames_bounds by (intro bitmap_eqI) auto

text \<open>The operations as equations over the free set.\<close>

lemma phys_alloc_frame_eq:
  assumes "bitmap_wf bm"
  shows "phys_alloc_frame bm =
    Inr (if free_frames bm = {} then (0, bm)
         else (of_nat (Min (free_frames bm)) * 4096, bitmap_of (free_frames bm - {Min (free_frames bm)})))"
proof (cases "free_frames bm = {}")
  case True
  with phys_alloc_frame_spec [OF assms] show ?thesis by auto
next
  case False
  with phys_alloc_frame_spec [OF assms] obtain f bm' where f: "f = Min (free_frames bm)"
    "phys_alloc_frame bm = Inr (of_nat f * 4096, bm')" "bitmap_wf bm'"
    "free_frames bm' = free_frames bm - {f}" by auto
  from bitmap_of_free [OF f(3)] f False show ?thesis by simp
qed

lemma phys_free_frame_eq:
  assumes "bitmap_wf bm" and "1024 \<le> f" and "f < 16384"
  shows "phys_free_frame (of_nat f * 4096) bm = Inr (bitmap_of (insert f (free_frames bm)))"
proof -
  have "freeable (of_nat f * 4096) f"
    using assms(2,3) by (simp add: freeable_def unat_frame_addr)
  from phys_free_frame_ok [OF assms(1) this] obtain bm' where
    "phys_free_frame (of_nat f * 4096) bm = Inr bm'" "bitmap_wf bm'"
    "free_frames bm' = insert f (free_frames bm)" by blast
  with bitmap_of_free [of bm'] show ?thesis by simp
qed

lemma phys_alloc_contiguous_eq:
  assumes "bitmap_wf bm" and "n_frames \<noteq> 0" and "free_run bm s (unat n_frames)"
    and "\<And>s'. free_run bm s' (unat n_frames) \<Longrightarrow> s \<le> s'"
  shows "phys_alloc_contiguous n_frames bm =
    Inr (of_nat s * 4096, bitmap_of (free_frames bm - {s..<s + unat n_frames}))"
proof -
  have n: "0 < unat n_frames" using assms(2) by (simp add: unat_gt_0)
  from phys_alloc_contiguous_first_run [OF assms(1,2)] assms(3)
  obtain t bm' where t: "free_run bm t (unat n_frames)"
    "\<forall>s'. free_run bm s' (unat n_frames) \<longrightarrow> t \<le> s'"
    "for_each bitmap_set (map of_nat [t..<t + unat n_frames]) bm = Inr bm'"
    "phys_alloc_contiguous n_frames bm = Inr (of_nat t * 4096, bm')"
    unfolding first_run_def by blast
  have "t = s" using t(1,2) assms(3,4) by (intro antisym) auto
  with set_run_free_frames [OF assms(1) t(1) n t(3)] t(4) bitmap_of_free [of bm'] show ?thesis by simp
qed

lemma phys_alloc_contiguous_none:
  assumes "bitmap_wf bm" and "n_frames = 0 \<or> (\<forall>s. \<not> free_run bm s (unat n_frames))"
  shows "phys_alloc_contiguous n_frames bm = Inr (0, bm)"
proof (cases "n_frames = 0")
  case True
  then show ?thesis by (simp add: phys_alloc_contiguous_def)
next
  case False
  with phys_alloc_contiguous_first_run [OF assms(1)] assms(2) show ?thesis
    by (auto simp: first_run_def)
qed

lemma phys_free_contiguous_eq:
  assumes "bitmap_wf bm" and "1024 \<le> s" and "s + unat n_frames \<le> 16384" and "n_frames \<noteq> 0"
  shows "phys_free_contiguous (of_nat s * 4096) n_frames bm =
    Inr (bitmap_of (free_frames bm \<union> {s..<s + unat n_frames}))"
proof -
  have "0 < unat n_frames" using assms(4) by (simp add: unat_gt_0)
  then have "unat (of_nat s * 4096 :: u32) = 4096 * s" using assms(3) by (simp add: unat_frame_addr)
  with phys_free_contiguous_run [of "of_nat s * 4096" s n_frames bm] assms
    clear_run_free_frames [OF assms(1,3)] bitmap_of_free show ?thesis by fastforce
qed

lemma phys_mem_init_eq: "bitmap_wf bm \<Longrightarrow> phys_mem_init bm = Inr (bitmap_of {1024..<16384})"
  using phys_mem_init_spec [of bm] bitmap_of_free pmm_inv_free by metis

section \<open>The contract that clients of the allocator rely on\<close>

locale frame_allocator =
  fixes alloc :: "'s \<Rightarrow> (u32 \<times> 's) res"
    and release :: "u32 \<Rightarrow> 's \<Rightarrow> 's res"
    and inv :: "'s \<Rightarrow> bool"
    and frees :: "'s \<Rightarrow> nat set"
  assumes frees_range: "inv s \<Longrightarrow> frees s \<subseteq> {1024..<16384}"
    and alloc_none: "inv s \<Longrightarrow> frees s = {} \<Longrightarrow> alloc s = Inr (0, s)"
    and alloc_some: "inv s \<Longrightarrow> frees s \<noteq> {} \<Longrightarrow>
      \<exists>f s'. f \<in> frees s \<and> alloc s = Inr (of_nat f * 4096, s') \<and> inv s' \<and> frees s' = frees s - {f}"
    and release_ok: "inv s \<Longrightarrow> f \<in> {1024..<16384} \<Longrightarrow>
      \<exists>s'. release (of_nat f * 4096) s = Inr s' \<and> inv s' \<and> frees s' = insert f (frees s)"
    and state_eqI: "inv s \<Longrightarrow> inv s' \<Longrightarrow> frees s = frees s' \<Longrightarrow> s = s'"
begin

lemma frame_addr_nonnull: "f \<in> {1024..<16384} \<Longrightarrow> (of_nat f * 4096 :: u32) \<noteq> 0"
  using unat_frame_addr [of f] by (auto simp: unat_eq_zero [symmetric])

lemma frees_finite: "inv s \<Longrightarrow> finite (frees s)"
  using frees_range finite_subset by blast

lemma alloc_total: "inv s \<Longrightarrow> \<exists>a s'. alloc s = Inr (a, s') \<and> inv s'"
  using alloc_none alloc_some by (cases "frees s = {}") blast+

lemma alloc_nonnullE:
  assumes "inv s" and "alloc s = Inr (a, s')" and "a \<noteq> 0"
  obtains f where "f \<in> frees s" "a = of_nat f * 4096" "inv s'" "frees s' = frees s - {f}"
    "f \<in> {1024..<16384}"
proof -
  have "frees s \<noteq> {}" using assms alloc_none by auto
  from alloc_some [OF assms(1) this] assms(2) obtain f where
    f: "f \<in> frees s" "a = of_nat f * 4096" "inv s'" "frees s' = frees s - {f}" by auto
  with frees_range [OF assms(1)] have "f \<in> {1024..<16384}" by blast
  with f that show ?thesis by blast
qed

lemma alloc_nullE:
  assumes "inv s" and "alloc s = Inr (0, s')"
  shows "s' = s" "frees s = {}"
proof -
  show e: "frees s = {}"
  proof (rule ccontr)
    assume "frees s \<noteq> {}"
    from alloc_some [OF assms(1) this] assms(2) obtain f where
      "f \<in> frees s" "(of_nat f * 4096 :: u32) = 0" by auto
    with frees_range [OF assms(1)] frame_addr_nonnull show False by blast
  qed
  from alloc_none [OF assms(1) e] assms(2) show "s' = s" by simp
qed

lemma alloc_release:
  assumes "inv s" and "alloc s = Inr (a, s')" and "a \<noteq> 0"
  shows "release a s' = Inr s"
proof -
  from assms obtain f where f: "f \<in> frees s" "a = of_nat f * 4096" "inv s'" "frees s' = frees s - {f}"
    "f \<in> {1024..<16384}" by (rule alloc_nonnullE)
  from release_ok [OF f(3,5)] obtain s'' where s'': "release (of_nat f * 4096) s' = Inr s''" "inv s''"
    "frees s'' = insert f (frees s')" by blast
  have "s'' = s" by (rule state_eqI) (use s'' f assms(1) in auto)
  with s''(1) f(2) show ?thesis by simp
qed

end

interpretation frames: frame_allocator phys_alloc_frame phys_free_frame pmm_inv free_frames
proof
  fix s assume inv: "pmm_inv s"
  then have wf: "bitmap_wf s" by (simp add: pmm_inv_def)
  show "free_frames s \<subseteq> {1024..<16384}" using inv pmm_inv_free by blast
  show "free_frames s = {} \<Longrightarrow> phys_alloc_frame s = Inr (0, s)"
    using phys_alloc_frame_spec [OF wf] by auto
  show "\<exists>f s'. f \<in> free_frames s \<and> phys_alloc_frame s = Inr (of_nat f * 4096, s') \<and>
      pmm_inv s' \<and> free_frames s' = free_frames s - {f}" if "free_frames s \<noteq> {}"
    using phys_alloc_frame_spec [OF wf] that inv unfolding pmm_inv_free by blast
next
  fix s f assume inv: "pmm_inv s" and f: "f \<in> {1024..<16384::nat}"
  then have "freeable (of_nat f * 4096) f" by (simp add: freeable_def unat_frame_addr)
  from phys_free_frame_ok [OF _ this, of s] inv f show
    "\<exists>s'. phys_free_frame (of_nat f * 4096) s = Inr s' \<and> pmm_inv s' \<and>
      free_frames s' = insert f (free_frames s)" unfolding pmm_inv_free by auto
next
  fix s s' assume "pmm_inv s" "pmm_inv s'" "free_frames s = free_frames s'"
  then show "s = s'" by (intro bitmap_eqI) (simp_all add: pmm_inv_def)
qed

section \<open>What the allocator guarantees\<close>

text \<open>A bitmap with the single free frame 1024, for the witnesses below.\<close>

definition one_free :: bitmap where
  "one_free = (replicate 512 0xFFFFFFFF)[32 := 0xFFFFFFFE]"

lemma bit_fffffffe: "bit (0xFFFFFFFE :: u32) n \<longleftrightarrow> 0 < n \<and> n < 32"
proof -
  have "(0xFFFFFFFE :: u32) = NOT 1" by simp
  then have "bit (0xFFFFFFFE :: u32) n \<longleftrightarrow> bit (NOT 1 :: u32) n" by (simp only:)
  also have "\<dots> \<longleftrightarrow> 0 < n \<and> n < 32" unfolding bit_not_iff bit_1_iff by auto
  finally show ?thesis .
qed

lemma one_free: "pmm_inv one_free" "free_frames one_free = {1024}"
proof -
  have used: "frame_used one_free f \<longleftrightarrow> f \<noteq> 1024" if "f < 16384" for f
  proof (cases "f div 32 = 32")
    case True
    then have "frame_used one_free f \<longleftrightarrow> f mod 32 \<noteq> 0"
      using bit_fffffffe [of "f mod 32"] by (simp add: frame_used_def one_free_def)
    with True show ?thesis using mult_div_mod_eq [of 32 f] by auto
  next
    case False
    then have "frame_used one_free f"
      using that all_ones_bit [THEN iffD1, OF refl] by (simp add: frame_used_def one_free_def)
    with False show ?thesis by auto
  qed
  then show free: "free_frames one_free = {1024}" by (auto simp: free_frames_def)
  have "bitmap_wf one_free" by (simp add: bitmap_wf_def one_free_def)
  with free show "pmm_inv one_free" by (simp add: pmm_inv_free)
qed

text \<open>
  C28. \<open>phys_alloc_frame\<close> is a first-fit allocator: it never reads or writes outside the bitmap,
  returns NULL exactly when no frame is free (and then changes nothing), and otherwise returns the
  address of the lowest free frame, which lies in the managed region above the reserved 4 MiB, and
  marks exactly that frame used.
\<close>

theorem phys_alloc_frame_first_fit:
  assumes "pmm_inv bm"
  shows "\<exists>a bm'. phys_alloc_frame bm = Inr (a, bm') \<and> pmm_inv bm' \<and>
    (a = 0 \<longleftrightarrow> free_frames bm = {}) \<and> (a = 0 \<longrightarrow> bm' = bm) \<and>
    (a \<noteq> 0 \<longrightarrow> unat a = 4096 * Min (free_frames bm) \<and> 0x400000 \<le> a \<and> a < 0x4000000 \<and>
       free_frames bm' = free_frames bm - {Min (free_frames bm)})"
proof (cases "free_frames bm = {}")
  case True
  with assms frames.alloc_none show ?thesis by simp
next
  case False
  from assms have wf: "bitmap_wf bm" by (simp add: pmm_inv_def)
  obtain f bm' where f: "f \<in> free_frames bm" "f = Min (free_frames bm)"
    "phys_alloc_frame bm = Inr (of_nat f * 4096, bm')" "bitmap_wf bm'"
    "free_frames bm' = free_frames bm - {f}"
    using phys_alloc_frame_spec [OF wf] False by blast
  have rng: "f \<in> {1024..<16384}" using frames.frees_range [OF assms] f(1) by blast
  then have u: "unat (of_nat f * 4096 :: u32) = f * 4096" by (intro unat_frame_addr) simp
  have "pmm_inv bm'" using assms f(4,5) by (auto simp: pmm_inv_free)
  moreover have "0x400000 \<le> (of_nat f * 4096 :: u32)" "(of_nat f * 4096 :: u32) < 0x4000000"
    using rng by (simp_all add: word_le_nat_alt word_less_nat_alt u)
  ultimately show ?thesis
    using f(3) u f(2,5) frames.frame_addr_nonnull [OF rng] False by auto
qed

theorem phys_alloc_frame_first_fit_witness:
  "\<exists>bm'. phys_alloc_frame one_free = Inr (0x400000, bm') \<and> free_frames bm' = {}"
proof -
  from phys_alloc_frame_first_fit [OF one_free(1)] obtain a bm' where
    "phys_alloc_frame one_free = Inr (a, bm')" "a \<noteq> 0" "unat a = 4096 * 1024" "free_frames bm' = {}"
    by (auto simp: one_free(2))
  moreover from this have "a = 0x400000" by (intro word_unat_eq_iff [THEN iffD2]) simp
  ultimately show ?thesis by blast
qed

text \<open>
  \<open>phys_free_frame\<close> frees exactly the frame an aligned address of the managed region stands
  for, and ignores every other address (unaligned, reserved, NULL, out of range); it never leaves
  the bitmap and keeps the reserved region used.
\<close>

theorem phys_free_frame_effect:
  assumes "pmm_inv bm"
  shows "\<exists>bm'. phys_free_frame addr bm = Inr bm' \<and> pmm_inv bm' \<and>
    free_frames bm' = free_frames bm \<union>
      {f. unat addr = 4096 * f \<and> 1024 \<le> f \<and> f < 16384}"
proof (cases "\<exists>f. freeable addr f")
  case True
  then obtain f where f: "freeable addr f" by blast
  from assms have "bitmap_wf bm" by (simp add: pmm_inv_def)
  from phys_free_frame_ok [OF this f] obtain bm' where bm': "phys_free_frame addr bm = Inr bm'"
    "bitmap_wf bm'" "free_frames bm' = insert f (free_frames bm)" by blast
  moreover have "{g. unat addr = 4096 * g \<and> 1024 \<le> g \<and> g < 16384} = {f}"
    using f by (auto simp: freeable_def)
  moreover have "pmm_inv bm'" using bm' assms f by (auto simp: pmm_inv_free freeable_def)
  ultimately show ?thesis by auto
next
  case False
  then have "{g. unat addr = 4096 * g \<and> 1024 \<le> g \<and> g < 16384} = {}" by (auto simp: freeable_def)
  with False phys_free_frame_ignored assms show ?thesis by auto
qed

theorem phys_free_frame_effect_witness:
  "\<exists>bm'. phys_free_frame 0x401000 one_free = Inr bm' \<and> free_frames bm' = {1024, 1025}"
  using phys_free_frame_effect [OF one_free(1), of "0x401000"] by (auto simp: one_free(2))

text \<open>
  Allocating a frame and freeing it gives the bitmap back, bit for bit.
\<close>

theorem phys_alloc_free_roundtrip:
  assumes "pmm_inv bm" and "phys_alloc_frame bm = Inr (a, bm')" and "a \<noteq> 0"
  shows "phys_free_frame a bm' = Inr bm"
  using assms by (rule frames.alloc_release)

theorem phys_alloc_free_roundtrip_witness:
  "\<exists>a bm'. phys_alloc_frame one_free = Inr (a, bm') \<and> phys_free_frame a bm' = Inr one_free"
proof -
  obtain f bm' where f: "f \<in> free_frames one_free" "phys_alloc_frame one_free = Inr (of_nat f * 4096, bm')"
    using frames.alloc_some [OF one_free(1)] by (auto simp: one_free(2))
  then have "(of_nat f * 4096 :: u32) \<noteq> 0"
    by (intro frames.frame_addr_nonnull) (simp add: one_free(2))
  with phys_alloc_free_roundtrip [OF one_free(1) f(2)] f(2) show ?thesis by blast
qed

text \<open>
  C29. \<open>phys_alloc_contiguous\<close> finds the lowest run of \<open>n\<close> adjacent free frames: it returns NULL and
  changes nothing when there is none (or \<open>n = 0\<close>), and otherwise takes exactly that run out of the
  free set, and \<open>phys_free_contiguous\<close> on the result gives the bitmap back.
\<close>

theorem phys_alloc_contiguous_first_fit:
  assumes "pmm_inv bm"
  shows "\<exists>a bm'. phys_alloc_contiguous n bm = Inr (a, bm') \<and> pmm_inv bm' \<and>
    (a = 0 \<longleftrightarrow> n = 0 \<or> (\<forall>s. \<not> free_run bm s (unat n))) \<and> (a = 0 \<longrightarrow> bm' = bm) \<and>
    (a \<noteq> 0 \<longrightarrow> (\<exists>s. unat a = 4096 * s \<and> free_run bm s (unat n) \<and>
       (\<forall>s'. free_run bm s' (unat n) \<longrightarrow> s \<le> s') \<and>
       free_frames bm' = free_frames bm - {s..<s + unat n} \<and>
       phys_free_contiguous a n bm' = Inr bm))"
proof (cases "n = 0 \<or> (\<forall>s. \<not> free_run bm s (unat n))")
  case True
  from assms have "bitmap_wf bm" by (simp add: pmm_inv_def)
  from phys_alloc_contiguous_none [OF this True] True assms show ?thesis by auto
next
  case False
  from assms have wf: "bitmap_wf bm" by (simp add: pmm_inv_def)
  have n: "0 < unat n" using False by (simp add: unat_gt_0)
  from phys_alloc_contiguous_first_run [OF wf] False obtain s bm' where
    s: "free_run bm s (unat n)" "\<forall>s'. free_run bm s' (unat n) \<longrightarrow> s \<le> s'"
    "for_each bitmap_set (map of_nat [s..<s + unat n]) bm = Inr bm'"
    "phys_alloc_contiguous n bm = Inr (of_nat s * 4096, bm')"
    unfolding first_run_def by blast
  have bm': "bitmap_wf bm'" "free_frames bm' = free_frames bm - {s..<s + unat n}"
    using set_run_free_frames [OF wf s(1) n s(3)] by auto
  have le: "s + unat n \<le> 16384" using free_run_bounds [OF s(1) n] .
  have "s \<in> free_frames bm" using s(1) n unfolding free_run_def by auto
  then have rng: "s \<in> {1024..<16384}" using frames.frees_range [OF assms] by blast
  then have u: "unat (of_nat s * 4096 :: u32) = 4096 * s" by (simp add: unat_frame_addr)
  have "for_each bitmap_clear (map of_nat [s..<s + unat n]) bm' = Inr bm"
    by (rule pmm.set_clr_range [OF wf _ le _ s(3)])
      (use s(1) in \<open>auto simp: free_run_def free_frames_def subset_iff\<close>)
  then have "phys_free_contiguous (of_nat s * 4096) n bm' = Inr bm"
    using phys_free_contiguous_run [OF u, of n bm'] rng le False by simp
  moreover have "pmm_inv bm'" using assms bm' by (auto simp: pmm_inv_free)
  ultimately show ?thesis
    using s u bm'(2) frames.frame_addr_nonnull [OF rng] False
    by (intro exI [of _ "of_nat s * 4096"] exI [of _ bm']) auto
qed

theorem phys_alloc_contiguous_first_fit_witness:
  "\<exists>bm'. phys_alloc_contiguous 2 one_free = Inr (0, bm') \<and> bm' = one_free"
proof -
  have "\<not> free_run one_free s 2" for s
  proof
    assume "free_run one_free s 2"
    then have "{s..<s + 2} \<subseteq> {1024}" by (simp add: free_run_def one_free(2))
    moreover have "s \<in> {s..<s + 2}" "Suc s \<in> {s..<s + 2}" by simp_all
    ultimately have "s \<in> {1024}" "Suc s \<in> {1024}" by blast+
    then show False by simp
  qed
  with phys_alloc_contiguous_first_fit [OF one_free(1), of 2] show ?thesis by auto
qed

text \<open>
  The guard of \<open>phys_free_contiguous\<close> does not reject a base above the managed memory: the
  unsigned difference \<open>PHYS_TOTAL_FRAMES - start\<close> wraps around, so an aligned base beyond 64 MiB
  makes the function clear a bit outside \<open>frame_bitmap\<close> (\<open>phys_free_frame\<close> ignores the same
  address).
\<close>

theorem phys_free_contiguous_out_of_bounds:
  assumes "length bm = 512" and "unat addr = 4096 * s" and "16384 < s" and "0 < unat n"
    and "s + unat n < 1048576"
  shows "phys_free_contiguous addr n bm = Inl (OutOfBounds (of_nat s)) \<and> phys_free_frame addr bm = Inr bm"
proof
  have us: "unat (of_nat s :: u32) = s" using assms(5) by (intro unat_of_nat_u32) simp
  have idx: "addr div 4096 = of_nat s"
    using assms(2) us by (intro word_unat_eq_iff [THEN iffD2]) (simp add: unat_div)
  have lt: "\<not> (of_nat s :: u32) < 1024" using assms(3) us by (simp add: word_less_nat_alt)
  have "unat (16384 - of_nat s :: u32) = 4294967296 + 16384 - s"
    using assms(3,5) us by (subst unat_sub_if') (simp add: word_le_nat_alt)
  then have guard: "\<not> n > 16384 - of_nat s" using assms(5) by (simp add: word_less_nat_alt)
  have "(of_nat s :: u32) + n = of_nat (s + unat n)" by simp
  then have rng: "u32_range (of_nat s) (of_nat s + n) = of_nat s # map of_nat [Suc s..<s + unat n]"
    using assms(4,5) by (simp only: u32_range_of_nat) (simp add: u32_range_of_nat upt_conv_Cons)
  have "unat ((of_nat s :: u32) div 32) \<ge> 512" using assms(3) us by (simp add: unat_div)
  then have "bitmap_clear (of_nat s) bm = Inl (OutOfBounds (of_nat s))"
    using assms(1) by (simp add: bitmap_clear_def Let_def)
  then show "phys_free_contiguous addr n bm = Inl (OutOfBounds (of_nat s))"
    using assms(2,4) guard rng lt
    by (auto simp: phys_free_contiguous_def page_aligned_iff idx Let_def)
  show "phys_free_frame addr bm = Inr bm"
    by (rule phys_free_frame_ignored) (use assms(2,3) in \<open>auto simp: freeable_def\<close>)
qed

theorem phys_free_contiguous_out_of_bounds_witness:
  "phys_free_contiguous 0x10000000 1 one_free = Inl (OutOfBounds 65536)"
  using phys_free_contiguous_out_of_bounds [of one_free "0x10000000" 65536 1]
  by (simp add: one_free_def)

end
