(* ===== verification/Phys_Mem_Test.thy ===== *)
theory Phys_Mem_Test
  imports Phys_Page_Frame
begin

text \<open>
  The boot-time self-test of the frame allocator, \<open>phys_mem_test\<close> of
  \<open>src/src/memory/phys_page_frame.c\<close>, block by block: each block runs allocator operations and
  calls \<open>kpanic\<close> when a check fails. The log lines it prints on success change no allocator state
  and are left out. The theorem at the end shows that the test passes on the state that
  \<open>phys_mem_init\<close> leaves and that it gives this state back.
\<close>

definition check :: "string \<Rightarrow> bool \<Rightarrow> 's \<Rightarrow> 's res" where
  "check msg ok s = (if ok then Inr s else Inl (Kpanic msg))"

lemma check_simps [simp]: "check msg True s = Inr s" "check msg False s = Inl (Kpanic msg)"
  by (simp_all add: check_def)

definition phys_mem_test_count :: "bitmap \<Rightarrow> bitmap res" where
  "phys_mem_test_count bm =
     bnd (phys_free_count bm) (\<lambda>free.
     check ''PMM init: free count mismatch'' (free = PHYS_REGION_FRAMES) bm)"

definition phys_mem_test_valid :: "bitmap \<Rightarrow> bitmap res" where
  "phys_mem_test_valid bm =
     bnd (phys_alloc_frame bm) (\<lambda>(frame, bm).
     let ok = frame \<noteq> 0 \<and> frame AND (PHYS_FRAME_SIZE - 1) = 0 \<and> frame \<ge> PHYS_REGION_START
              \<and> frame < PHYS_MEM_SIZE in
     bnd (check ''PMM alloc: invalid frame address'' ok bm) (phys_free_frame frame))"

definition phys_mem_test_restore :: "bitmap \<Rightarrow> bitmap res" where
  "phys_mem_test_restore bm =
     bnd (phys_free_count bm) (\<lambda>before.
     bnd (phys_alloc_frame bm) (\<lambda>(frame, bm).
     bnd (phys_free_count bm) (\<lambda>during.
     bnd (phys_free_frame frame bm) (\<lambda>bm.
     bnd (phys_free_count bm) (\<lambda>after.
     check ''PMM alloc/free: free count inconsistent''
       (during = before - 1 \<and> after = before) bm)))))"

definition phys_mem_test_unique :: "bitmap \<Rightarrow> bitmap res" where
  "phys_mem_test_unique bm =
     bnd (phys_alloc_frame bm) (\<lambda>(a, bm).
     bnd (phys_alloc_frame bm) (\<lambda>(b, bm).
     bnd (phys_alloc_frame bm) (\<lambda>(c, bm).
     bnd (check ''PMM alloc unique: duplicate frames detected''
            (a \<noteq> b \<and> b \<noteq> c \<and> a \<noteq> c) bm) (\<lambda>bm.
     bnd (phys_free_frame c bm) (\<lambda>bm.
     bnd (phys_free_frame b bm) (\<lambda>bm.
     phys_free_frame a bm))))))"

text \<open>The four blocks that free an address the allocator must ignore.\<close>

definition free_rejected :: "string \<Rightarrow> (bitmap \<Rightarrow> bitmap res) \<Rightarrow> bitmap \<Rightarrow> bitmap res" where
  "free_rejected msg free_op bm =
     bnd (phys_free_count bm) (\<lambda>before.
     bnd (free_op bm) (\<lambda>bm.
     bnd (phys_free_count bm) (\<lambda>after.
     check msg (before = after) bm)))"

definition phys_mem_test_reject :: "bitmap \<Rightarrow> bitmap res" where
  "phys_mem_test_reject bm =
     bnd (free_rejected ''PMM free: unaligned address was accepted'' (phys_free_frame 0x00400001) bm) (\<lambda>bm.
     bnd (free_rejected ''PMM free: reserved region address was accepted'' (phys_free_frame 0x00001000) bm) (\<lambda>bm.
     bnd (free_rejected ''PMM free: out-of-range address was accepted'' (phys_free_frame 0x10000000) bm) (\<lambda>bm.
     free_rejected ''PMM free: null address was accepted'' (phys_free_frame 0x0) bm)))"

text \<open>The \<open>while (1)\<close> loop that allocates until NULL; \<open>None\<close> would be a loop that never ends.\<close>

partial_function (option) exhaust_loop :: "u32 \<Rightarrow> u32 \<Rightarrow> bitmap \<Rightarrow> (u32 \<times> bitmap) res option" where
  "exhaust_loop tot allocated bm =
     (case phys_alloc_frame bm of
        Inl e \<Rightarrow> Some (Inl e)
      | Inr (f, bm') \<Rightarrow>
          if f = 0 then Some (Inr (allocated, bm'))
          else if allocated + 1 > tot + 1 then Some (Inr (allocated + 1, bm'))
          else exhaust_loop tot (allocated + 1) bm')"

definition phys_mem_test_exhaust :: "bitmap \<Rightarrow> bitmap res" where
  "phys_mem_test_exhaust bm =
     bnd (phys_free_count bm) (\<lambda>tot.
     bnd (loop_res (exhaust_loop tot 0 bm)) (\<lambda>(allocated, bm).
     bnd (check ''PMM exhaust: frame count mismatch'' (allocated = tot) bm) (\<lambda>bm.
     bnd (phys_alloc_frame bm) (\<lambda>(f, bm).
     bnd (check ''PMM OOM: did not return null'' (f = 0) bm) (\<lambda>bm.
     bnd (phys_free_count bm) (\<lambda>c.
     bnd (check ''PMM exhaust: free count is not 0'' (c = 0) bm) (\<lambda>bm.
     bnd (phys_mem_init bm) (\<lambda>bm.
     bnd (phys_free_count bm) (\<lambda>c.
     check ''PMM reinit: state not restored'' (c = PHYS_REGION_FRAMES) bm)))))))))"

definition phys_mem_test_contig1 :: "bitmap \<Rightarrow> bitmap res" where
  "phys_mem_test_contig1 bm =
     bnd (phys_free_count bm) (\<lambda>before.
     bnd (phys_alloc_contiguous 1 bm) (\<lambda>(base, bm).
     bnd (phys_free_count bm) (\<lambda>after.
     let ok = base \<noteq> 0 \<and> base AND (PHYS_FRAME_SIZE - 1) = 0 \<and> base \<ge> PHYS_REGION_START
              \<and> base < PHYS_MEM_SIZE \<and> after = before - 1 in
     bnd (check ''PMM contiguous n=1: invalid result'' ok bm) (\<lambda>bm.
     bnd (phys_free_contiguous base 1 bm) (\<lambda>bm.
     bnd (phys_free_count bm) (\<lambda>c.
     check ''PMM contiguous n=1: free count not restored'' (c = before) bm))))))"

text \<open>\<open>all_set\<close>: the loop that tests every frame of the range and stops at the first free one.\<close>

primrec all_set :: "u32 list \<Rightarrow> bitmap \<Rightarrow> bool res" where
  "all_set [] bm = Inr True"
| "all_set (k # ks) bm = bnd (bitmap_test k bm) (\<lambda>t. if t = 0 then Inr False else all_set ks bm)"

definition phys_mem_test_contig8 :: "bitmap \<Rightarrow> bitmap res" where
  "phys_mem_test_contig8 bm =
     bnd (phys_free_count bm) (\<lambda>before.
     bnd (phys_alloc_contiguous 8 bm) (\<lambda>(base, bm).
     bnd (phys_free_count bm) (\<lambda>after.
     let ok = base \<noteq> 0 \<and> base AND (PHYS_FRAME_SIZE - 1) = 0 \<and> base \<ge> PHYS_REGION_START
              \<and> after = before - 8 in
     bnd (check ''PMM contiguous n=8: invalid result'' ok bm) (\<lambda>bm.
     let start_frame = base div PHYS_FRAME_SIZE in
     bnd (all_set (u32_range start_frame (start_frame + 8)) bm) (\<lambda>set.
     bnd (check ''PMM contiguous n=8: bitmap inconsistency'' set bm) (\<lambda>bm.
     bnd (phys_free_contiguous base 8 bm) (\<lambda>bm.
     bnd (phys_free_count bm) (\<lambda>c.
     check ''PMM contiguous n=8: free count not restored after free'' (c = before) bm))))))))"

definition phys_mem_test_contig_null :: "bitmap \<Rightarrow> bitmap res" where
  "phys_mem_test_contig_null bm =
     bnd (phys_alloc_contiguous 0 bm) (\<lambda>(base, bm).
     bnd (check ''PMM contiguous n=0: expected null'' (base = 0) bm) (\<lambda>bm.
     bnd (phys_alloc_contiguous (PHYS_TOTAL_FRAMES + 1) bm) (\<lambda>(base, bm).
     check ''PMM contiguous n>max: expected null'' (base = 0) bm)))"

definition phys_mem_test_frag :: "bitmap \<Rightarrow> bitmap res" where
  "phys_mem_test_frag bm =
     bnd (phys_alloc_frame bm) (\<lambda>(a, bm).
     bnd (phys_alloc_frame bm) (\<lambda>(b, bm).
     bnd (phys_alloc_frame bm) (\<lambda>(c, bm).
     bnd (phys_free_frame b bm) (\<lambda>bm.
     bnd (phys_free_count bm) (\<lambda>before.
     bnd (phys_alloc_contiguous 2 bm) (\<lambda>(run, bm).
     bnd (phys_free_count bm) (\<lambda>now.
     let ok = run \<noteq> 0 \<and> run AND (PHYS_FRAME_SIZE - 1) = 0 \<and> run \<ge> c + PHYS_FRAME_SIZE
              \<and> before - now = 2 in
     bnd (check ''PMM contiguous frag: fragmentation handling failed'' ok bm) (\<lambda>bm.
     let sf = run div PHYS_FRAME_SIZE in
     bnd (bitmap_test sf bm) (\<lambda>t0.
     bnd (bitmap_test (sf + 1) bm) (\<lambda>t1.
     bnd (check ''PMM contiguous frag: bitmap inconsistency after skip'' (t0 \<noteq> 0 \<and> t1 \<noteq> 0) bm) (\<lambda>bm.
     bnd (phys_free_contiguous run 2 bm) (\<lambda>bm.
     bnd (phys_free_frame a bm) (\<lambda>bm.
     phys_free_frame c bm)))))))))))))"

definition phys_mem_test_free_contig :: "bitmap \<Rightarrow> bitmap res" where
  "phys_mem_test_free_contig bm =
     bnd (free_rejected ''PMM free_contiguous: unaligned base was accepted''
            (phys_free_contiguous 0x00400001 1) bm) (\<lambda>bm.
     free_rejected ''PMM free_contiguous: reserved base was accepted''
            (phys_free_contiguous 0x00001000 1) bm)"

definition phys_mem_test :: "bitmap \<Rightarrow> bitmap res" where
  "phys_mem_test bm =
     bnd (phys_mem_test_count bm) (\<lambda>bm.
     bnd (phys_mem_test_valid bm) (\<lambda>bm.
     bnd (phys_mem_test_restore bm) (\<lambda>bm.
     bnd (phys_mem_test_unique bm) (\<lambda>bm.
     bnd (phys_mem_test_reject bm) (\<lambda>bm.
     bnd (phys_mem_test_exhaust bm) (\<lambda>bm.
     bnd (phys_mem_test_contig1 bm) (\<lambda>bm.
     bnd (phys_mem_test_contig8 bm) (\<lambda>bm.
     bnd (phys_mem_test_contig_null bm) (\<lambda>bm.
     bnd (phys_mem_test_frag bm) phys_mem_test_free_contig)))))))))"

section \<open>The test passes\<close>

abbreviation boot_bitmap :: bitmap where "boot_bitmap \<equiv> bitmap_of {1024..<16384}"

lemma tail_sub: "1024 \<le> a \<Longrightarrow> {a..<16384} \<subseteq> {..<16384::nat}"
  by auto

lemmas boot_wf = bitmap_of(1) [OF tail_sub [of 1024], simplified]
lemmas boot_free = bitmap_of(2) [OF tail_sub [of 1024], simplified]

lemma alloc_tail:
  assumes "1024 \<le> a" and "a < 16384"
  shows "phys_alloc_frame (bitmap_of {a..<16384}) = Inr (of_nat a * 4096, bitmap_of {Suc a..<16384})"
proof -
  have "Min {a..<16384} = a" using assms by (intro Min_eqI) auto
  moreover have "{a..<16384} - {a} = {Suc a..<16384}" by auto
  ultimately show ?thesis
    using assms phys_alloc_frame_eq [OF bitmap_of(1) [OF tail_sub [OF assms(1)]]]
    by (simp add: bitmap_of(2) [OF tail_sub [OF assms(1)]])
qed

lemma count_of: "F \<subseteq> {..<16384} \<Longrightarrow> phys_free_count (bitmap_of F) = Inr (of_nat (card F))"
  using phys_free_count_card [OF bitmap_of(1)] by (simp add: bitmap_of(2))

lemma free_of:
  assumes "F \<subseteq> {..<16384}" and "1024 \<le> f" and "f < 16384"
  shows "phys_free_frame (of_nat f * 4096) (bitmap_of F) = Inr (bitmap_of (insert f F))"
  using phys_free_frame_eq [OF bitmap_of(1) [OF assms(1)] assms(2,3)] bitmap_of(2) [OF assms(1)] by simp

lemma test_count_passes: "phys_mem_test_count boot_bitmap = Inr boot_bitmap"
  using count_of [OF tail_sub, of 1024] by (simp add: phys_mem_test_count_def)

lemma alloc_tail_1024 [simplified]:
  "phys_alloc_frame (bitmap_of {1024..<16384}) = Inr (of_nat 1024 * 4096, bitmap_of {1025..<16384})"
  "phys_alloc_frame (bitmap_of {1025..<16384}) = Inr (of_nat 1025 * 4096, bitmap_of {1026..<16384})"
  "phys_alloc_frame (bitmap_of {1026..<16384}) = Inr (of_nat 1026 * 4096, bitmap_of {1027..<16384})"
  using alloc_tail [of 1024] alloc_tail [of 1025] alloc_tail [of 1026] by simp_all

lemma free_tail_1024 [simplified]:
  "phys_free_frame (of_nat 1026 * 4096) (bitmap_of {1027..<16384}) = Inr (bitmap_of {1026..<16384})"
  "phys_free_frame (of_nat 1025 * 4096) (bitmap_of {1026..<16384}) = Inr (bitmap_of {1025..<16384})"
  "phys_free_frame (of_nat 1024 * 4096) (bitmap_of {1025..<16384}) = Inr (bitmap_of {1024..<16384})"
proof -
  have "insert a {Suc a..<16384} = {a..<16384}" if "a < 16384" for a :: nat using that by auto
  from this [of 1026] this [of 1025] this [of 1024]
  show "phys_free_frame (of_nat 1026 * 4096) (bitmap_of {1027..<16384}) = Inr (bitmap_of {1026..<16384})"
    "phys_free_frame (of_nat 1025 * 4096) (bitmap_of {1026..<16384}) = Inr (bitmap_of {1025..<16384})"
    "phys_free_frame (of_nat 1024 * 4096) (bitmap_of {1025..<16384}) = Inr (bitmap_of {1024..<16384})"
    using free_of [OF tail_sub, of 1027 1026] free_of [OF tail_sub, of 1026 1025]
      free_of [OF tail_sub, of 1025 1024] by simp_all
qed

lemma test_valid_passes: "phys_mem_test_valid boot_bitmap = Inr boot_bitmap"
  by (simp add: phys_mem_test_valid_def alloc_tail_1024 free_tail_1024)

lemma test_restore_passes: "phys_mem_test_restore boot_bitmap = Inr boot_bitmap"
  using count_of [OF tail_sub, of 1024] count_of [OF tail_sub, of 1025]
  by (simp add: phys_mem_test_restore_def alloc_tail_1024 free_tail_1024)

lemma test_unique_passes: "phys_mem_test_unique boot_bitmap = Inr boot_bitmap"
  by (simp add: phys_mem_test_unique_def alloc_tail_1024 free_tail_1024)

lemma free_rejected_passes:
  "bitmap_wf bm \<Longrightarrow> free_op bm = Inr bm \<Longrightarrow> free_rejected msg free_op bm = Inr bm"
  by (simp add: free_rejected_def phys_free_count_card)

lemma test_reject_passes: "phys_mem_test_reject boot_bitmap = Inr boot_bitmap"
  by (simp add: phys_mem_test_reject_def free_rejected_passes boot_wf phys_free_frame_def)

lemma exhaust_loop_all:
  assumes "1024 \<le> a" and "a \<le> 16384"
  shows "exhaust_loop 15360 (of_nat (a - 1024)) (bitmap_of {a..<16384}) = Some (Inr (15360, bitmap_of {}))"
  using assms
proof (induction "16384 - a" arbitrary: a)
  case 0
  then have "a = 16384" by simp
  moreover have "phys_alloc_frame (bitmap_of {}) = Inr (0, bitmap_of {})"
    using phys_alloc_frame_eq [OF bitmap_of(1) [of "{}"]] by (simp add: bitmap_of(2))
  ultimately show ?case by (simp add: exhaust_loop.simps)
next
  case (Suc n)
  then have a: "a < 16384" by simp
  have nn: "(of_nat a * 4096 :: u32) \<noteq> 0"
    using frames.frame_addr_nonnull [of a] a Suc.prems by simp
  have cnt: "(of_nat (a - 1024) :: u32) + 1 = of_nat (Suc a - 1024)"
    using Suc.prems by (simp add: Suc_diff_le add.commute)
  have "\<not> (of_nat (Suc a - 1024) :: u32) > 15360 + 1"
    using a by (simp add: word_less_nat_alt unat_of_nat_u32)
  then have "exhaust_loop 15360 (of_nat (a - 1024)) (bitmap_of {a..<16384}) =
      exhaust_loop 15360 (of_nat (Suc a - 1024)) (bitmap_of {Suc a..<16384})"
    using alloc_tail [OF Suc.prems(1) a] nn cnt by (subst exhaust_loop.simps) simp
  also have "\<dots> = Some (Inr (15360, bitmap_of {}))"
    by (rule Suc.hyps(1)) (use Suc.hyps(2) Suc.prems a in auto)
  finally show ?case .
qed

lemma test_exhaust_passes: "phys_mem_test_exhaust boot_bitmap = Inr boot_bitmap"
proof -
  have "phys_alloc_frame (bitmap_of {}) = Inr (0, bitmap_of {})"
    using phys_alloc_frame_eq [OF bitmap_of(1) [of "{}"]] by (simp add: bitmap_of(2))
  with exhaust_loop_all [of 1024] phys_mem_init_eq [OF bitmap_of(1) [of "{}"]]
    count_of [OF tail_sub, of 1024] count_of [of "{}"]
  show ?thesis by (simp add: phys_mem_test_exhaust_def)
qed

lemma run_of: "F \<subseteq> {..<16384} \<Longrightarrow> free_run (bitmap_of F) s n \<longleftrightarrow> {s..<s + n} \<subseteq> F"
  by (simp add: free_run_def bitmap_of(2))

lemma contig_boot:
  assumes "0 < n" and "n \<le> 8"
  shows "phys_alloc_contiguous (of_nat n) boot_bitmap = Inr (0x400000, bitmap_of {1024 + n..<16384})"
    and "phys_free_contiguous 0x400000 (of_nat n) (bitmap_of {1024 + n..<16384}) = Inr boot_bitmap"
proof -
  have u: "unat (of_nat n :: u32) = n" using assms by (intro unat_of_nat_u32) simp
  then have nz: "(of_nat n :: u32) \<noteq> 0" using assms(1) by (auto simp: unat_eq_zero [symmetric])
  have "phys_alloc_contiguous (of_nat n) boot_bitmap =
      Inr (of_nat 1024 * 4096, bitmap_of (free_frames boot_bitmap - {1024..<1024 + n}))"
  proof (rule phys_alloc_contiguous_eq [OF boot_wf nz, of 1024, unfolded u])
    show "free_run boot_bitmap 1024 n" using assms by (auto simp: run_of [OF tail_sub])
    fix s assume "free_run boot_bitmap s n"
    then have "s \<in> {1024..<16384}" using assms(1) by (auto simp: run_of [OF tail_sub] subset_iff)
    then show "1024 \<le> s" by simp
  qed
  moreover have "{1024..<16384} - {1024..<1024 + n} = {1024 + n..<16384}" using assms by auto
  ultimately show "phys_alloc_contiguous (of_nat n) boot_bitmap = Inr (0x400000, bitmap_of {1024 + n..<16384})"
    by (simp add: boot_free)
  have sub: "{1024 + n..<16384} \<subseteq> {..<16384}" by auto
  have "{1024 + n..<16384} \<union> {1024..<1024 + n} = {1024..<16384}" using assms by auto
  then show "phys_free_contiguous 0x400000 (of_nat n) (bitmap_of {1024 + n..<16384}) = Inr boot_bitmap"
    using phys_free_contiguous_eq [OF bitmap_of(1) [OF sub], of 1024 "of_nat n"] u nz assms
    by (simp add: bitmap_of(2) [OF sub])
qed

lemma test_contig1_passes: "phys_mem_test_contig1 boot_bitmap = Inr boot_bitmap"
  using contig_boot [of 1] count_of [OF tail_sub, of 1024] count_of [OF tail_sub, of 1025]
  by (simp add: phys_mem_test_contig1_def)

lemma all_set_used:
  assumes "bitmap_wf bm" and "\<And>k. k \<in> set ks \<Longrightarrow> unat k < 16384 \<and> frame_used bm (unat k)"
  shows "all_set ks bm = Inr True"
  using assms(2)
proof (induction ks)
  case (Cons k ks)
  then obtain t where "bitmap_test k bm = Inr t" "t \<noteq> 0"
    using bitmap_test_used [OF assms(1), of k] by auto
  with Cons show ?case by simp
qed simp

lemma used_of: "F \<subseteq> {..<16384} \<Longrightarrow> f < 16384 \<Longrightarrow> frame_used (bitmap_of F) f \<longleftrightarrow> f \<notin> F"
  using bitmap_of(2) [of F] by (auto simp: free_frames_def)

lemma test_contig8_passes: "phys_mem_test_contig8 boot_bitmap = Inr boot_bitmap"
proof -
  have sub: "{1032..<16384} \<subseteq> {..<16384::nat}" by auto
  have "all_set (u32_range 1024 1032) (bitmap_of {1032..<16384}) = Inr True"
  proof (rule all_set_used [OF bitmap_of(1) [OF sub]])
    fix k :: u32 assume "k \<in> set (u32_range 1024 1032)"
    then obtain m where m: "k = of_nat m" "1024 \<le> m" "m < 1032" by (auto simp: u32_range_def)
    then have "unat k = m" by (simp add: unat_of_nat_u32)
    with m show "unat k < 16384 \<and> frame_used (bitmap_of {1032..<16384}) (unat k)"
      by (simp add: used_of [OF sub])
  qed
  with contig_boot [of 8] count_of [OF tail_sub, of 1024] count_of [OF tail_sub, of 1032]
  show ?thesis by (simp add: phys_mem_test_contig8_def)
qed

lemma test_contig_null_passes: "phys_mem_test_contig_null boot_bitmap = Inr boot_bitmap"
proof -
  have "\<not> free_run boot_bitmap s (unat (16385 :: u32))" for s
    using free_run_bounds [of boot_bitmap s 16385] by auto
  then have "phys_alloc_contiguous 16385 boot_bitmap = Inr (0, boot_bitmap)"
    by (intro phys_alloc_contiguous_none boot_wf) simp
  moreover have "phys_alloc_contiguous 0 boot_bitmap = Inr (0, boot_bitmap)"
    by (simp add: phys_alloc_contiguous_def)
  ultimately show ?thesis by (simp add: phys_mem_test_contig_null_def)
qed

lemma test_frag_passes: "phys_mem_test_frag boot_bitmap = Inr boot_bitmap"
proof -
  let ?F = "insert 1025 {1027..<16384::nat}"
  let ?G = "insert 1025 {1029..<16384::nat}"
  have sF: "?F \<subseteq> {..<16384}" and sG: "?G \<subseteq> {..<16384}" by auto
  have cF: "card ?F = 15358" and cG: "card ?G = 15356" by simp_all
  have hole: "phys_free_frame 0x401000 (bitmap_of {1027..<16384}) = Inr (bitmap_of ?F)"
    using free_of [OF tail_sub, of 1027 1025] by simp
  have run: "phys_alloc_contiguous 2 (bitmap_of ?F) = Inr (0x403000, bitmap_of ?G)"
  proof -
    have "phys_alloc_contiguous 2 (bitmap_of ?F) =
        Inr (of_nat 1027 * 4096, bitmap_of (free_frames (bitmap_of ?F) - {1027..<1027 + unat (2::u32)}))"
    proof (rule phys_alloc_contiguous_eq [OF bitmap_of(1) [OF sF]])
      show "free_run (bitmap_of ?F) 1027 (unat (2::u32))" by (simp add: run_of [OF sF]) auto
      fix s assume "free_run (bitmap_of ?F) s (unat (2::u32))"
      then have "{s..<s + 2} \<subseteq> ?F" by (simp add: run_of [OF sF])
      moreover have "s \<in> {s..<s + 2}" "Suc s \<in> {s..<s + 2}" by simp_all
      ultimately have "s \<in> ?F" "Suc s \<in> ?F" by blast+
      then show "1027 \<le> s" by auto
    qed simp
    moreover have "?F - {1027..<1029} = ?G" by auto
    ultimately show ?thesis by (simp add: bitmap_of(2) [OF sF])
  qed
  have test: "\<exists>t. bitmap_test (of_nat f) (bitmap_of ?G) = Inr t \<and> t \<noteq> 0" if "f \<in> {1027, 1028}" for f
  proof -
    have "unat (of_nat f :: u32) = f" using that by (intro unat_of_nat_u32) auto
    with bitmap_test_used [OF bitmap_of(1) [OF sG], of "of_nat f"] that used_of [OF sG, of f]
    show ?thesis by auto
  qed
  obtain t0 t1 where t: "bitmap_test 1027 (bitmap_of ?G) = Inr t0" "t0 \<noteq> 0"
    "bitmap_test 1028 (bitmap_of ?G) = Inr t1" "t1 \<noteq> 0"
    using test [of 1027] test [of 1028] by auto
  have refree: "phys_free_contiguous 0x403000 2 (bitmap_of ?G) = Inr (bitmap_of ?F)"
  proof -
    have "?G \<union> {1027..<1029} = ?F" by auto
    then show ?thesis
      using phys_free_contiguous_eq [OF bitmap_of(1) [OF sG], of 1027 2]
      by (simp add: bitmap_of(2) [OF sG])
  qed
  have "insert 1024 ?F \<subseteq> {..<16384}" by auto
  moreover have "insert 1026 (insert 1024 ?F) = {1024..<16384}" by auto
  ultimately have ends: "phys_free_frame 0x400000 (bitmap_of ?F) = Inr (bitmap_of (insert 1024 ?F))"
    "phys_free_frame 0x402000 (bitmap_of (insert 1024 ?F)) = Inr boot_bitmap"
    using free_of [OF sF, of 1024] free_of [of "insert 1024 ?F" 1026] by simp_all
  show ?thesis
    using hole run t refree ends count_of [OF sF] count_of [OF sG] cF cG
    by (simp add: phys_mem_test_frag_def alloc_tail_1024)
qed

lemma test_free_contig_passes: "phys_mem_test_free_contig boot_bitmap = Inr boot_bitmap"
  by (simp add: phys_mem_test_free_contig_def free_rejected_passes boot_wf phys_free_contiguous_def)

text \<open>
  C30. The boot self-test of the frame allocator passes: run on any bitmap array that
  \<open>phys_mem_init\<close> has initialised, \<open>phys_mem_test\<close> reaches none of its \<open>kpanic\<close> calls, its
  allocate-until-NULL loop ends, and the bitmap it leaves is the initialised one.
\<close>

theorem phys_mem_test_passes:
  assumes "length bm = 512"
  shows "\<exists>bm0. phys_mem_init bm = Inr bm0 \<and> phys_mem_test bm0 = Inr bm0"
proof -
  from assms have "phys_mem_init bm = Inr boot_bitmap" by (intro phys_mem_init_eq) (simp add: bitmap_wf_def)
  moreover have "phys_mem_test boot_bitmap = Inr boot_bitmap"
    by (simp add: phys_mem_test_def test_count_passes test_valid_passes test_restore_passes
        test_unique_passes test_reject_passes test_exhaust_passes test_contig1_passes
        test_contig8_passes test_contig_null_passes test_frag_passes test_free_contig_passes)
  ultimately show ?thesis by blast
qed

theorem phys_mem_test_passes_witness:
  "\<exists>bm0. phys_mem_init (replicate 512 0) = Inr bm0 \<and> phys_mem_test bm0 = Inr bm0"
  by (rule phys_mem_test_passes) simp

end
