(* ===== verification/Paging.thy ===== *)
theory Paging
  imports Phys_Page_Frame
begin

text \<open>
  Two-level i386 paging, \<open>src/src/cpu/paging.c\<close>. The state holds the frame bitmap, physical memory
  as 32-bit words at word-aligned addresses, the control registers and the link-time addresses of
  the static arrays \<open>page_directories\<close> and \<open>first_page_table\<close>. Pointers that the C code follows
  through the recursive window or a scratch mapping are translated by \<open>mmu_walk\<close>, which reads the
  tables in physical memory as the hardware does; static kernel data is identity-mapped and is
  accessed at its physical address. The walk consults the tables on every access, so the model has
  no TLB and \<open>flush_tlb\<close> has no effect on it. CR0.WP is never set by the kernel: a ring 0 access
  needs the present bits only.
\<close>

section \<open>State and hardware translation\<close>

abbreviation (input) PD_ENTRIES :: u32 where "PD_ENTRIES \<equiv> 1024"
abbreviation (input) PT_ENTRIES :: u32 where "PT_ENTRIES \<equiv> 1024"
abbreviation (input) RECURSIVE_PT_BASE :: u32 where "RECURSIVE_PT_BASE \<equiv> 0xFFC00000"
abbreviation (input) RECURSIVE_PD_BASE :: u32 where "RECURSIVE_PD_BASE \<equiv> 0xFFFFF000"
abbreviation (input) PAGE_PRESENT :: u32 where "PAGE_PRESENT \<equiv> 0x01"
abbreviation (input) PAGE_RW :: u32 where "PAGE_RW \<equiv> 0x02"
abbreviation (input) PAGE_USER :: u32 where "PAGE_USER \<equiv> 0x04"
abbreviation (input) KERNEL_VIRT_BASE :: u32 where "KERNEL_VIRT_BASE \<equiv> 0xC0000000"
abbreviation (input) USER_CODE_BASE :: u32 where "USER_CODE_BASE \<equiv> 0x08048000"
abbreviation (input) USER_STACK_TOP :: u32 where "USER_STACK_TOP \<equiv> KERNEL_VIRT_BASE"
abbreviation (input) MAX_PROC :: u32 where "MAX_PROC \<equiv> 128"
abbreviation (input) FORK_SCRATCH_PT_VA :: u32 where "FORK_SCRATCH_PT_VA \<equiv> 0xEF200000"
abbreviation (input) FORK_SCRATCH_DATA_VA :: u32 where "FORK_SCRATCH_DATA_VA \<equiv> 0xEF201000"
abbreviation (input) KSTACK_PDE_INDEX :: u32 where "KSTACK_PDE_INDEX \<equiv> drop_bit 22 0xEF000000"

record mm =
  frame_bitmap :: bitmap
  pmem :: "u32 \<Rightarrow> u32"
  cr0 :: u32
  cr3 :: u32
  current_pid :: u32
  page_directories :: u32
  first_page_table :: u32

definition page_base :: "u32 \<Rightarrow> u32" where
  "page_base e = e AND NOT 0xFFF"

text \<open>The walk of the MMU: directory entry, table entry, page offset.\<close>

definition mmu_walk :: "mm \<Rightarrow> u32 \<Rightarrow> u32 option" where
  "mmu_walk s va =
     (if cr0 s AND 0x80000000 = 0 then Some va
      else let pde = pmem s (page_base (cr3 s) + 4 * drop_bit 22 va) in
           if pde AND 1 = 0 then None
           else let pte = pmem s (page_base pde + 4 * (drop_bit 12 va AND 0x3FF)) in
                if pte AND 1 = 0 then None else Some (page_base pte + (va AND 0xFFF)))"

definition vread :: "mm \<Rightarrow> u32 \<Rightarrow> u32 res" where
  "vread s va = (case mmu_walk s va of None \<Rightarrow> Inl (PageFault va) | Some pa \<Rightarrow> Inr (pmem s pa))"

definition vwrite :: "mm \<Rightarrow> u32 \<Rightarrow> u32 \<Rightarrow> mm res" where
  "vwrite s va x =
     (case mmu_walk s va of None \<Rightarrow> Inl (PageFault va)
      | Some pa \<Rightarrow> Inr (s\<lparr>pmem := (pmem s)(pa := x)\<rparr>))"

text \<open>Byte accesses select one of the four little-endian lanes of the word that holds the byte.\<close>

definition byte_lane :: "u32 \<Rightarrow> nat" where
  "byte_lane a = 8 * unat (a AND 3)"

definition vread8 :: "mm \<Rightarrow> u32 \<Rightarrow> u8 res" where
  "vread8 s va =
     (case mmu_walk s va of None \<Rightarrow> Inl (PageFault va)
      | Some pa \<Rightarrow> Inr (ucast (drop_bit (byte_lane pa) (pmem s (pa AND NOT 3)))))"

definition vwrite8 :: "mm \<Rightarrow> u32 \<Rightarrow> u8 \<Rightarrow> mm res" where
  "vwrite8 s va b =
     (case mmu_walk s va of None \<Rightarrow> Inl (PageFault va)
      | Some pa \<Rightarrow>
          let w = pa AND NOT 3; k = byte_lane pa in
          Inr (s\<lparr>pmem := (pmem s)(w := (pmem s w AND NOT (push_bit k 0xFF)) OR push_bit k (ucast b))\<rparr>))"

section \<open>The operations of paging.c\<close>

definition get_pt :: "u32 \<Rightarrow> u32" where
  "get_pt pdindex = RECURSIVE_PT_BASE + 4 * (PT_ENTRIES * pdindex)"

definition load_page_directory :: "u32 \<Rightarrow> mm \<Rightarrow> mm" where
  "load_page_directory pd s = s\<lparr>cr3 := pd\<rparr>"

definition enable_paging :: "mm \<Rightarrow> mm" where
  "enable_paging s = s\<lparr>cr0 := cr0 s OR 0x80000001\<rparr>"

definition pd_of :: "mm \<Rightarrow> u32 \<Rightarrow> u32" where
  "pd_of s pid = page_directories s + 4 * (PD_ENTRIES * pid)"

definition pstore :: "u32 \<Rightarrow> u32 \<Rightarrow> mm \<Rightarrow> mm" where
  "pstore pa x s = s\<lparr>pmem := (pmem s)(pa := x)\<rparr>"

definition paging_init :: "mm \<Rightarrow> mm" where
  "paging_init s =
     (let pd = pd_of s 0;
          s1 = fold (\<lambda>i. pstore (pd + 4 * i) PAGE_RW) (u32_range 0 PD_ENTRIES) s;
          s2 = fold (\<lambda>i. pstore (first_page_table s + 4 * i) ((i * PAGE_SIZE) OR (PAGE_PRESENT OR PAGE_RW)))
                 (u32_range 0 PT_ENTRIES) s1;
          s3 = pstore (pd + 4 * 0) (first_page_table s OR (PAGE_PRESENT OR PAGE_RW)) s2;
          s4 = pstore (pd + 4 * 1023) (pd OR (PAGE_PRESENT OR PAGE_RW)) s3 in
      enable_paging (load_page_directory pd s4))"

definition get_physaddr :: "mm \<Rightarrow> u32 \<Rightarrow> u32 res" where
  "get_physaddr s virtualaddr =
     (let pdindex = drop_bit 22 virtualaddr;
          ptindex = drop_bit 12 virtualaddr AND 0x03FF in
      bnd (vread s (RECURSIVE_PD_BASE + 4 * pdindex)) (\<lambda>pde.
      if pde AND 0x01 = 0 then Inr 0
      else bnd (vread s (get_pt pdindex + 4 * ptindex)) (\<lambda>pte.
           if pte AND 0x01 = 0 then Inr 0
           else Inr ((pte AND NOT 0xFFF) + (virtualaddr AND 0xFFF)))))"

text \<open>The second half of \<open>map_page\<close>, once a page table is in place.\<close>

definition map_pte :: "u32 \<Rightarrow> u32 \<Rightarrow> u32 \<Rightarrow> mm \<Rightarrow> mm res" where
  "map_pte physaddr virtualaddr flags s =
     (let ptindex = drop_bit 12 virtualaddr AND 0x03FF;
          pt = get_pt (drop_bit 22 virtualaddr) in
      bnd (vread s (pt + 4 * ptindex)) (\<lambda>pte.
      bnd (if pte AND 0x01 \<noteq> 0 then vwrite s (pt + 4 * ptindex) 0 else Inr s) (\<lambda>s.
      vwrite s (pt + 4 * ptindex) (physaddr OR (flags AND 0xFFF) OR 0x01))))"

definition map_page :: "u32 \<Rightarrow> u32 \<Rightarrow> u32 \<Rightarrow> mm \<Rightarrow> mm res" where
  "map_page physaddr virtualaddr flags s =
     (if physaddr AND 0xFFF \<noteq> 0 \<or> virtualaddr AND 0xFFF \<noteq> 0 then Inr s
      else let pdindex = drop_bit 22 virtualaddr in
        bnd (vread s (RECURSIVE_PD_BASE + 4 * pdindex)) (\<lambda>pde.
        if pde AND 0x01 = 0 then
          bnd (phys_alloc_frame (frame_bitmap s)) (\<lambda>(new_pt, bm).
          let s = s\<lparr>frame_bitmap := bm\<rparr> in
          if new_pt = 0 then Inr s
          else
            bnd (vwrite s (RECURSIVE_PD_BASE + 4 * pdindex)
                   (new_pt OR (PAGE_PRESENT OR PAGE_RW OR (flags AND PAGE_USER)))) (\<lambda>s.
            bnd (for_each (\<lambda>i s. vwrite s (get_pt pdindex + 4 * i) 0) (u32_range 0 PT_ENTRIES) s)
              (map_pte physaddr virtualaddr flags)))
        else map_pte physaddr virtualaddr flags s))"

definition unmap_page :: "u32 \<Rightarrow> mm \<Rightarrow> mm res" where
  "unmap_page virtualaddr s =
     (if virtualaddr AND 0xFFF \<noteq> 0 then Inr s
      else let pdindex = drop_bit 22 virtualaddr;
               ptindex = drop_bit 12 virtualaddr AND 0x03FF in
        bnd (vread s (RECURSIVE_PD_BASE + 4 * pdindex)) (\<lambda>pde.
        if pde AND 0x01 = 0 then Inr s
        else let pt = get_pt pdindex in
          bnd (vread s (pt + 4 * ptindex)) (\<lambda>pte.
          if pte AND 0x01 = 0 then Inr s else vwrite s (pt + 4 * ptindex) 0)))"

definition alloc_page :: "u32 \<Rightarrow> u32 \<Rightarrow> mm \<Rightarrow> (u32 \<times> mm) res" where
  "alloc_page virtualaddr flags s =
     bnd (phys_alloc_frame (frame_bitmap s)) (\<lambda>(frame, bm).
     let s = s\<lparr>frame_bitmap := bm\<rparr> in
     if frame = 0 then Inr (0, s)
     else
       bnd (map_page frame virtualaddr flags s) (\<lambda>s.
       bnd (get_physaddr s virtualaddr) (\<lambda>pa.
       if pa = 0 then
         bnd (phys_free_frame frame (frame_bitmap s)) (\<lambda>bm. Inr (0, s\<lparr>frame_bitmap := bm\<rparr>))
       else Inr (virtualaddr, s))))"

definition free_page :: "u32 \<Rightarrow> mm \<Rightarrow> mm res" where
  "free_page virtualaddr s =
     bnd (get_physaddr s virtualaddr) (\<lambda>phys.
     if phys = 0 then Inr s
     else bnd (unmap_page virtualaddr s) (\<lambda>s.
          bnd (phys_free_frame phys (frame_bitmap s)) (\<lambda>bm. Inr (s\<lparr>frame_bitmap := bm\<rparr>))))"

definition paging_proc_init :: "u32 \<Rightarrow> mm \<Rightarrow> (u32 \<times> mm) res" where
  "paging_proc_init pid s =
     (if pid \<ge> MAX_PROC then Inl (OutOfBounds pid)
      else let pd = pd_of s pid; pd0 = pd_of s 0;
               s1 = fold (\<lambda>i. pstore (pd + 4 * i) PAGE_RW) (u32_range 0 PD_ENTRIES) s;
               s2 = pstore (pd + 4 * 0) (pmem s1 (pd0 + 4 * 0)) s1;
               s3 = fold (\<lambda>i s. pstore (pd + 4 * i) (pmem s (pd0 + 4 * i)) s) (u32_range 768 1023) s2;
               s4 = pstore (pd + 4 * 1023) (pd OR (PAGE_PRESENT OR PAGE_RW)) s3 in
           Inr (pd, s4))"

definition paging_proc_switch :: "u32 \<Rightarrow> mm \<Rightarrow> mm res" where
  "paging_proc_switch pid s =
     (if pid \<ge> MAX_PROC then Inl (OutOfBounds pid)
      else Inr (load_page_directory (pd_of s pid) (s\<lparr>current_pid := pid\<rparr>)))"

text \<open>\<open>paging_fork_copy\<close>: the copy of one present page, of one table, and the loop over the directory.\<close>

definition copy_bytes :: "u32 \<Rightarrow> u32 \<Rightarrow> u32 \<Rightarrow> mm \<Rightarrow> mm res" where
  "copy_bytes dst src n s =
     for_each (\<lambda>b s. bnd (vread8 s (src + b)) (vwrite8 s (dst + b))) (u32_range 0 n) s"

definition zero_table :: "u32 \<Rightarrow> mm \<Rightarrow> mm res" where
  "zero_table pt s = for_each (\<lambda>i s. vwrite s (pt + 4 * i) 0) (u32_range 0 PT_ENTRIES) s"

primrec fork_copy_table :: "u32 \<Rightarrow> u32 list \<Rightarrow> mm \<Rightarrow> (bool \<times> mm) res" where
  "fork_copy_table pdi [] s = Inr (True, s)"
| "fork_copy_table pdi (pti # ptis) s =
     bnd (vread s (get_pt pdi + 4 * pti)) (\<lambda>parent_pte.
     if parent_pte AND PAGE_PRESENT = 0 then fork_copy_table pdi ptis s
     else
       bnd (phys_alloc_frame (frame_bitmap s)) (\<lambda>(child_frame, bm).
       let s = s\<lparr>frame_bitmap := bm\<rparr> in
       if child_frame = 0 then
         bnd (unmap_page FORK_SCRATCH_PT_VA s) (\<lambda>s. Inr (False, s))
       else
         bnd (map_page child_frame FORK_SCRATCH_DATA_VA (PAGE_PRESENT OR PAGE_RW) s) (\<lambda>s.
         let src_va = push_bit 22 pdi OR push_bit 12 pti in
         bnd (copy_bytes FORK_SCRATCH_DATA_VA src_va PAGE_SIZE s) (\<lambda>s.
         bnd (vwrite s (FORK_SCRATCH_PT_VA + 4 * pti) (child_frame OR (parent_pte AND 0xFFF))) (\<lambda>s.
         fork_copy_table pdi ptis s)))))"

primrec fork_copy_dir :: "u32 \<Rightarrow> u32 list \<Rightarrow> mm \<Rightarrow> (bool \<times> mm) res" where
  "fork_copy_dir child_pd [] s = Inr (True, s)"
| "fork_copy_dir child_pd (pdi # pdis) s =
     bnd (vread s (RECURSIVE_PD_BASE + 4 * pdi)) (\<lambda>parent_pde.
     if parent_pde AND PAGE_PRESENT = 0 then fork_copy_dir child_pd pdis s
     else
       bnd (phys_alloc_frame (frame_bitmap s)) (\<lambda>(child_pt_phys, bm).
       let s = s\<lparr>frame_bitmap := bm\<rparr> in
       if child_pt_phys = 0 then Inr (False, s)
       else
         bnd (map_page child_pt_phys FORK_SCRATCH_PT_VA (PAGE_PRESENT OR PAGE_RW) s) (\<lambda>s.
         bnd (zero_table FORK_SCRATCH_PT_VA s) (\<lambda>s.
         let s = pstore (child_pd + 4 * pdi) (child_pt_phys OR (parent_pde AND 0xFFF)) s in
         bnd (fork_copy_table pdi (u32_range 0 PT_ENTRIES) s) (\<lambda>(ok, s).
         if ok then fork_copy_dir child_pd pdis s else Inr (False, s))))))"

definition paging_fork_copy :: "u32 \<Rightarrow> mm \<Rightarrow> (int \<times> mm) res" where
  "paging_fork_copy child_pid s =
     (if child_pid \<ge> MAX_PROC then Inl (OutOfBounds child_pid)
      else let child_pd = pd_of s child_pid in
        bnd (vread s (RECURSIVE_PD_BASE + 4 * KSTACK_PDE_INDEX)) (\<lambda>kpde.
        let s = pstore (child_pd + 4 * KSTACK_PDE_INDEX) kpde s in
        bnd (fork_copy_dir child_pd (u32_range 1 768) s) (\<lambda>(ok, s).
        if ok then bnd (unmap_page FORK_SCRATCH_PT_VA s) (\<lambda>s.
                   bnd (unmap_page FORK_SCRATCH_DATA_VA s) (\<lambda>s. Inr (0, s)))
        else Inr (-1, s))))"

definition fill_user_page :: "u32 \<Rightarrow> u32 \<Rightarrow> mm \<Rightarrow> mm res" where
  "fill_user_page src copy_size s =
     (let dst = FORK_SCRATCH_DATA_VA in
      if src \<noteq> 0 \<and> copy_size > 0 then
        bnd (for_each (\<lambda>b s. bnd (vread8 s (src + b)) (vwrite8 s (dst + b))) (u32_range 0 copy_size) s)
          (for_each (\<lambda>b s. vwrite8 s (dst + b) 0) (u32_range copy_size PAGE_SIZE))
      else for_each (\<lambda>b s. vwrite8 s (dst + b) 0) (u32_range 0 PAGE_SIZE) s)"

text \<open>The table for the entry \<open>pdi\<close> of a directory, none when there is no frame for a new one.\<close>

definition ensure_user_pt :: "u32 \<Rightarrow> u32 \<Rightarrow> mm \<Rightarrow> (u32 option \<times> mm) res" where
  "ensure_user_pt pd pdi s =
     (let pde = pmem s (pd + 4 * pdi) in
      if pde AND PAGE_PRESENT = 0 then
        bnd (phys_alloc_frame (frame_bitmap s)) (\<lambda>(new_pt, bm).
        let s = s\<lparr>frame_bitmap := bm\<rparr> in
        if new_pt = 0 then Inr (None, s)
        else
          bnd (map_page new_pt FORK_SCRATCH_PT_VA (PAGE_PRESENT OR PAGE_RW) s) (\<lambda>s.
          bnd (zero_table FORK_SCRATCH_PT_VA s) (\<lambda>s.
          bnd (unmap_page FORK_SCRATCH_PT_VA s) (\<lambda>s.
          Inr (Some new_pt, pstore (pd + 4 * pdi) (new_pt OR (PAGE_PRESENT OR PAGE_RW OR PAGE_USER)) s)))))
      else Inr (Some (pde AND NOT 0xFFF), s))"

definition load_user_page :: "u32 \<Rightarrow> u32 \<Rightarrow> u32 \<Rightarrow> u32 \<Rightarrow> mm \<Rightarrow> (int \<times> mm) res" where
  "load_user_page pid va src copy_size s =
     (if pid \<ge> MAX_PROC then Inl (OutOfBounds pid)
      else let pd = pd_of s pid; pdi = drop_bit 22 va; pti = drop_bit 12 va AND 0x3FF in
        bnd (ensure_user_pt pd pdi s) (\<lambda>(pt, s).
        case pt of None \<Rightarrow> Inr (-1, s)
        | Some pt_phys \<Rightarrow>
          bnd (phys_alloc_frame (frame_bitmap s)) (\<lambda>(frame, bm).
          let s = s\<lparr>frame_bitmap := bm\<rparr> in
          if frame = 0 then Inr (-1, s)
          else
            bnd (map_page pt_phys FORK_SCRATCH_PT_VA (PAGE_PRESENT OR PAGE_RW) s) (\<lambda>s.
            bnd (vwrite s (FORK_SCRATCH_PT_VA + 4 * pti)
                   (frame OR (PAGE_PRESENT OR PAGE_RW OR PAGE_USER))) (\<lambda>s.
            bnd (unmap_page FORK_SCRATCH_PT_VA s) (\<lambda>s.
            bnd (map_page frame FORK_SCRATCH_DATA_VA (PAGE_PRESENT OR PAGE_RW) s) (\<lambda>s.
            bnd (fill_user_page src copy_size s) (\<lambda>s.
            bnd (unmap_page FORK_SCRATCH_DATA_VA s) (\<lambda>s. Inr (0, s)))))))))) "

definition paging_load_user_image :: "u32 \<Rightarrow> u32 \<Rightarrow> u32 \<Rightarrow> mm \<Rightarrow> (int \<times> mm) res" where
  "paging_load_user_image pid src sz s =
     (if sz = 0 \<or> sz > PAGE_SIZE then Inr (-1, s)
      else bnd (load_user_page pid USER_CODE_BASE src sz s) (\<lambda>(r, s).
           if r \<noteq> 0 then Inr (-1, s)
           else bnd (load_user_page pid (USER_STACK_TOP - PAGE_SIZE) 0 0 s) (\<lambda>(r, s).
                if r \<noteq> 0 then Inr (-1, s) else Inr (0, s))))"

primrec free_table_frames :: "u32 list \<Rightarrow> mm \<Rightarrow> mm res" where
  "free_table_frames [] s = Inr s"
| "free_table_frames (pti # ptis) s =
     bnd (vread s (FORK_SCRATCH_PT_VA + 4 * pti)) (\<lambda>pte.
     if pte AND PAGE_PRESENT = 0 then free_table_frames ptis s
     else bnd (phys_free_frame (pte AND NOT 0xFFF) (frame_bitmap s)) (\<lambda>bm.
          free_table_frames ptis (s\<lparr>frame_bitmap := bm\<rparr>)))"

definition teardown_pde :: "u32 \<Rightarrow> u32 \<Rightarrow> mm \<Rightarrow> mm res" where
  "teardown_pde target_pd pdi s =
     (let pde = pmem s (target_pd + 4 * pdi) in
      if pde AND PAGE_PRESENT = 0 then Inr s
      else let pt_phys = pde AND NOT 0xFFF in
        bnd (map_page pt_phys FORK_SCRATCH_PT_VA (PAGE_PRESENT OR PAGE_RW) s) (\<lambda>s.
        bnd (free_table_frames (u32_range 0 PT_ENTRIES) s) (\<lambda>s.
        bnd (unmap_page FORK_SCRATCH_PT_VA s) (\<lambda>s.
        bnd (phys_free_frame pt_phys (frame_bitmap s)) (\<lambda>bm.
        Inr (pstore (target_pd + 4 * pdi) PAGE_RW (s\<lparr>frame_bitmap := bm\<rparr>)))))))"

definition paging_proc_teardown :: "u32 \<Rightarrow> mm \<Rightarrow> mm res" where
  "paging_proc_teardown pid s =
     (if pid \<ge> MAX_PROC then Inl (OutOfBounds pid)
      else let target_pd = pd_of s pid in
           for_each (teardown_pde target_pd) (u32_range 1 768) s)"

section \<open>Page-table words\<close>

abbreviation present :: "u32 \<Rightarrow> bool" where
  "present e \<equiv> e AND 1 \<noteq> 0"

lemma present_or: "present (a OR b) \<longleftrightarrow> present a \<or> present b"
  by (simp add: and_one_eq mod_2_eq_odd even_or_iff)

lemma or_1_2: "(1 :: u32) OR (2 OR x) = 3 OR x"
  by (simp add: or.assoc [symmetric])

lemma mask_fff: "(0xFFF :: u32) = mask 12"
  by (simp add: mask_eq_exp_minus_1)

lemma bit_fff: "bit (0xFFF :: u32) n \<longleftrightarrow> n < 12"
  by (auto simp: mask_fff bit_mask_iff)

lemma bit_and_fff: "bit (w AND (0xFFF :: u32)) n \<longleftrightarrow> n < 12 \<and> bit w n"
  by (auto simp only: bit_and_iff bit_fff)

lemma unat_drop_bit: "unat (drop_bit n w :: u32) = unat w div 2 ^ n"
  by (simp only: unat_drop_bit_eq) (simp add: drop_bit_eq_div)

lemma unat_and_3ff: "unat ((w :: u32) AND 0x3FF) = unat w mod 1024"
proof -
  have "w AND 0x3FF = take_bit 10 w" by (simp add: take_bit_eq_mask mask_eq_exp_minus_1)
  then show ?thesis by (simp add: take_bit_eq_mod unat_mod)
qed

lemma bit_page_base: "bit (page_base e) n \<longleftrightarrow> 12 \<le> n \<and> bit e n"
proof -
  have "bit (page_base e) n \<longleftrightarrow> bit e n \<and> \<not> n < 12"
    unfolding page_base_def bit_and_iff bit_not_iff bit_fff
    using bit_imp_le_length [of e n] by auto
  then show ?thesis by auto
qed

lemma and_neg_page [simp]: "e AND - 4096 = page_base e"
  by (simp add: page_base_def)

lemma page_base_drop: "page_base e = push_bit 12 (drop_bit 12 e)"
  by (rule bit_word_eqI) (auto simp: bit_page_base bit_push_bit_iff bit_drop_bit_eq)

lemma page_base_split: "page_base e + (e AND 0xFFF) = e"
  using bits_ident [of 12 e] by (simp add: page_base_drop take_bit_eq_mask mask_eq_exp_minus_1)

lemma page_base_aligned [simp]: "page_base e AND 0xFFF = 0"
  by (rule bit_word_eqI) (auto simp: bit_page_base bit_and_fff)

lemma page_base_self: "a AND 0xFFF = 0 \<Longrightarrow> page_base a = a"
  using page_base_split [of a] by simp

lemma page_base_idem [simp]: "page_base (page_base e) = page_base e"
  by (simp add: page_base_self)

lemma page_base_or:
  assumes "a AND 0xFFF = 0"
  shows "page_base (a OR (f AND 0xFFF)) = a"
proof -
  have "page_base (a OR (f AND 0xFFF)) = page_base a"
    by (rule bit_word_eqI) (auto simp: bit_page_base bit_or_iff bit_and_fff)
  with assms show ?thesis by (simp add: page_base_self)
qed

lemma unat_page_base: "unat (page_base e) = 4096 * (unat e div 4096)"
proof -
  have "page_base e = drop_bit 12 e * 4096" by (simp add: page_base_drop push_bit_eq_mult)
  moreover have "unat e div 4096 * 4096 < 4294967296"
    using unat_lt_u32 [of e] div_times_less_eq_dividend [of "unat e" 4096] by linarith
  moreover have "unat (drop_bit 12 e) = unat e div 4096" by (simp only: unat_drop_bit) simp
  ultimately show ?thesis by (simp only: unat_word_ariths) simp
qed

text \<open>The address of entry \<open>i\<close> of a table, without wrap-around, so that distinct entries never alias.\<close>

lemma aligned_frame:
  assumes "(a :: u32) AND 0xFFF = 0"
  obtains q where "unat a = 4096 * q" "q < 1048576"
proof -
  have "unat a mod 4096 = 0" using assms by (simp add: page_aligned_iff)
  then obtain q where "unat a = 4096 * q" by auto
  with that show thesis using unat_lt_u32 [of a] by simp
qed

lemma slot_unat:
  fixes a i :: u32
  assumes "a AND 0xFFF = 0" and "unat i < 1024"
  shows "unat (a + 4 * i) = unat a + 4 * unat i"
proof -
  obtain q where q: "unat a = 4096 * q" "q < 1048576" using aligned_frame [OF assms(1)] .
  have i: "unat (4 * i) = 4 * unat i" using assms(2) by (simp add: unat_word_ariths)
  have "unat a + 4 * unat i < 4294967296" using q assms(2) by simp
  then show ?thesis using i by (simp add: unat_word_ariths)
qed

lemma slot_inject:
  assumes "a AND 0xFFF = 0" and "b AND 0xFFF = 0" and "unat i < 1024" and "unat j < 1024"
  shows "(a :: u32) + 4 * i = b + 4 * j \<longleftrightarrow> a = b \<and> i = j"
proof
  assume eq: "a + 4 * i = b + 4 * j"
  obtain p q where pq: "unat a = 4096 * p" "unat b = 4096 * q"
    using aligned_frame assms(1,2) by metis
  have "unat a + 4 * unat i = unat b + 4 * unat j"
    using slot_unat [OF assms(1,3)] slot_unat [OF assms(2,4)] eq by simp
  with pq have *: "1024 * p + unat i = 1024 * q + unat j" by simp
  have "p = (1024 * p + unat i) div 1024" "q = (1024 * q + unat j) div 1024"
    using assms(3,4) by simp_all
  with * have "p = q" by simp
  with * pq show "a = b \<and> i = j" by (simp add: word_unat_eq_iff)
qed simp

lemma quad_inject: "unat i < 1024 \<Longrightarrow> unat j < 1024 \<Longrightarrow> (4 :: u32) * i = 4 * j \<longleftrightarrow> i = j"
  using slot_inject [of 0 0 i j] by simp

section \<open>The recursive window\<close>

lemma window_unat:
  assumes "unat d < 1024" and "unat i < 1024"
  shows "unat (get_pt d + 4 * i) = 0xFFC00000 + 4096 * unat d + 4 * unat i"
proof -
  have "unat (4 * (1024 * d)) = 4096 * unat d" "unat (4 * i) = 4 * unat i"
    using assms by (simp_all add: unat_word_ariths)
  with assms show ?thesis by (simp add: get_pt_def unat_word_ariths)
qed

lemma window_split:
  assumes "unat d < 1024" and "unat i < 1024"
  shows "drop_bit 22 (get_pt d + 4 * i) = 1023"
    and "drop_bit 12 (get_pt d + 4 * i) AND 0x3FF = d"
    and "(get_pt d + 4 * i) AND 0xFFF = 4 * i"
proof -
  have i: "unat (4 * i) = 4 * unat i" using assms by (simp add: unat_word_ariths)
  show "drop_bit 22 (get_pt d + 4 * i) = 1023"
    using assms by (simp add: word_unat_eq_iff unat_drop_bit window_unat)
  show "drop_bit 12 (get_pt d + 4 * i) AND 0x3FF = d"
  proof -
    have "4290772992 + 4096 * unat d + 4 * unat i = 4096 * (1047552 + unat d) + 4 * unat i" by simp
    then have "(4290772992 + 4096 * unat d + 4 * unat i) div 4096 = 1047552 + unat d"
      using assms(2) by (simp only: div_mult_self4)
    moreover have "(1047552 + unat d) mod 1024 = unat d"
      using assms(1) mod_mult_self3 [of 1023 1024 "unat d"] by simp
    ultimately show ?thesis
      using assms by (simp add: word_unat_eq_iff unat_drop_bit unat_and_3ff window_unat)
  qed
  show "(get_pt d + 4 * i) AND 0xFFF = 4 * i"
  proof -
    have "4290772992 + 4096 * unat d + 4 * unat i = 4 * unat i + (1047552 + unat d) * 4096" by simp
    then have "(4290772992 + 4096 * unat d + 4 * unat i) mod 4096 = 4 * unat i"
      using assms(2) by (simp only: mod_mult_self1) simp
    then show ?thesis using assms i by (simp add: word_unat_eq_iff page_offset_mod window_unat)
  qed
qed

lemma pd_window: "0xFFFFF000 + 4 * i = get_pt 1023 + 4 * i"
  by (simp add: get_pt_def)


section \<open>The view of the current address space\<close>

definition pde_at :: "mm \<Rightarrow> u32 \<Rightarrow> u32" where
  "pde_at s d = pmem s (cr3 s + 4 * d)"

definition pte_at :: "mm \<Rightarrow> u32 \<Rightarrow> u32 \<Rightarrow> u32" where
  "pte_at s d t = pmem s (page_base (pde_at s d) + 4 * t)"

definition frame_no :: "u32 \<Rightarrow> nat" where
  "frame_no a = unat a div 4096"

text \<open>
  The invariant of the current address space: paging is on, the directory is page-aligned, its last
  entry maps the directory itself, and the frames that hold the directory and the tables are
  allocated and pairwise different.
\<close>

definition wf_mm :: "mm \<Rightarrow> bool" where
  "wf_mm s \<longleftrightarrow> pmm_inv (frame_bitmap s) \<and> cr0 s AND 0x80000000 \<noteq> 0 \<and> cr3 s AND 0xFFF = 0 \<and>
     pde_at s 1023 = cr3 s OR 3 \<and>
     (\<forall>d. unat d < 1024 \<longrightarrow> present (pde_at s d) \<longrightarrow>
        frame_no (page_base (pde_at s d)) \<notin> free_frames (frame_bitmap s)) \<and>
     (\<forall>d d'. unat d < 1024 \<longrightarrow> unat d' < 1024 \<longrightarrow> d \<noteq> d' \<longrightarrow>
        present (pde_at s d) \<longrightarrow> present (pde_at s d') \<longrightarrow>
        page_base (pde_at s d) \<noteq> page_base (pde_at s d'))"

lemma wf_mmD:
  assumes "wf_mm s"
  shows "pmm_inv (frame_bitmap s)" "cr0 s AND 0x80000000 \<noteq> 0" "cr3 s AND 0xFFF = 0"
    "pde_at s 1023 = cr3 s OR 3"
    "\<And>d. unat d < 1024 \<Longrightarrow> present (pde_at s d) \<Longrightarrow>
        frame_no (page_base (pde_at s d)) \<notin> free_frames (frame_bitmap s)"
    "\<And>d d'. unat d < 1024 \<Longrightarrow> unat d' < 1024 \<Longrightarrow> d \<noteq> d' \<Longrightarrow>
        present (pde_at s d) \<Longrightarrow> present (pde_at s d') \<Longrightarrow>
        page_base (pde_at s d) \<noteq> page_base (pde_at s d')"
  using assms unfolding wf_mm_def by blast+

lemma wf_mm_cong:
  assumes wf: "wf_mm s" and eqs: "frame_bitmap s' = frame_bitmap s" "cr0 s' = cr0 s" "cr3 s' = cr3 s"
    and pde: "\<And>d. unat d < 1024 \<Longrightarrow> pde_at s' d = pde_at s d"
  shows "wf_mm s'"
proof -
  have last: "pde_at s' 1023 = pde_at s 1023" by (rule pde) simp
  show ?thesis
    unfolding wf_mm_def eqs last
    using wf_mmD(1-4) [OF wf] wf_mmD(5,6) [OF wf] by (intro conjI allI impI) (simp_all only: pde not_False_eq_True)
qed

lemma page_base_or3:
  assumes "a AND 0xFFF = 0"
  shows "page_base (a OR 3) = a"
  using page_base_or [OF assms, of 3] by simp

lemma self_entry:
  assumes "wf_mm s"
  shows "present (pde_at s 1023)" "page_base (pde_at s 1023) = cr3 s" "pte_at s 1023 d = pde_at s d"
    "page_base (cr3 s) = cr3 s"
  using wf_mmD(3,4) [OF assms]
  by (simp_all add: present_or page_base_or3 page_base_self pte_at_def, simp add: pde_at_def)

lemma table_not_dir:
  assumes "wf_mm s" and "unat d < 1023" and "present (pde_at s d)"
  shows "page_base (pde_at s d) \<noteq> cr3 s"
  using wf_mmD(6) [OF assms(1), of d 1023] self_entry [OF assms(1)] assms(2,3) by force

lemma mmu_walk_entries:
  assumes "wf_mm s"
  shows "mmu_walk s va =
    (let d = drop_bit 22 va; e = pte_at s d (drop_bit 12 va AND 0x3FF) in
     if present (pde_at s d) \<and> present e then Some (page_base e + (va AND 0xFFF)) else None)"
  using wf_mmD(2) [OF assms] self_entry(4) [OF assms]
  by (simp add: mmu_walk_def Let_def pde_at_def pte_at_def)

text \<open>
  The recursive window: through it the kernel reaches entry \<open>i\<close> of the table of directory slot \<open>d\<close>,
  and for \<open>d = 1023\<close> the directory itself.
\<close>

lemma window_walk:
  assumes "wf_mm s" and "unat d < 1024" and "unat i < 1024"
  shows "mmu_walk s (get_pt d + 4 * i) =
    (if present (pde_at s d) then Some (page_base (pde_at s d) + 4 * i) else None)"
  using self_entry [OF assms(1)] by (simp add: mmu_walk_entries [OF assms(1)] window_split assms Let_def)

lemma pd_window_walk:
  assumes "wf_mm s" and "unat i < 1024"
  shows "mmu_walk s (0xFFFFF000 + 4 * i) = Some (cr3 s + 4 * i)"
  using window_walk [OF assms(1) _ assms(2), of 1023] self_entry [OF assms(1)] by (simp add: pd_window)

definition set_pte :: "u32 \<Rightarrow> u32 \<Rightarrow> u32 \<Rightarrow> mm \<Rightarrow> mm" where
  "set_pte d t x s = s\<lparr>pmem := (pmem s)(page_base (pde_at s d) + 4 * t := x)\<rparr>"

definition set_pde :: "u32 \<Rightarrow> u32 \<Rightarrow> mm \<Rightarrow> mm" where
  "set_pde d x s = s\<lparr>pmem := (pmem s)(cr3 s + 4 * d := x)\<rparr>"

lemma set_pte_regs [simp]:
  "frame_bitmap (set_pte d t x s) = frame_bitmap s" "cr0 (set_pte d t x s) = cr0 s"
  "cr3 (set_pte d t x s) = cr3 s" "current_pid (set_pte d t x s) = current_pid s"
  "page_directories (set_pte d t x s) = page_directories s"
  "first_page_table (set_pte d t x s) = first_page_table s"
  by (simp_all add: set_pte_def)

lemma window_read:
  assumes "wf_mm s" and "unat d < 1024" and "unat i < 1024"
  shows "vread s (get_pt d + 4 * i) =
    (if present (pde_at s d) then Inr (pte_at s d i) else Inl (PageFault (get_pt d + 4 * i)))"
  by (simp add: vread_def window_walk [OF assms] pte_at_def)

lemma window_write:
  assumes "wf_mm s" and "unat d < 1024" and "unat i < 1024"
  shows "vwrite s (get_pt d + 4 * i) x =
    (if present (pde_at s d) then Inr (set_pte d i x s) else Inl (PageFault (get_pt d + 4 * i)))"
  by (simp add: vwrite_def window_walk [OF assms] set_pte_def)

lemma pd_read:
  assumes "wf_mm s" and "unat d < 1024"
  shows "vread s (0xFFFFF000 + 4 * d) = Inr (pde_at s d)"
  by (simp add: vread_def pd_window_walk [OF assms] pde_at_def)

lemma pd_write:
  assumes "wf_mm s" and "unat d < 1024"
  shows "vwrite s (0xFFFFF000 + 4 * d) x = Inr (set_pde d x s)"
  by (simp add: vwrite_def pd_window_walk [OF assms] set_pde_def)

lemma pde_set_pte:
  assumes "wf_mm s" and "unat d < 1023" and "unat t < 1024" and "present (pde_at s d)" and "unat d' < 1024"
  shows "pde_at (set_pte d t x s) d' = pde_at s d'"
  using table_not_dir [OF assms(1,2,4)] wf_mmD(3) [OF assms(1)] assms(3,5)
  by (simp add: pde_at_def set_pte_def slot_inject)

lemma pte_set_pte:
  assumes "wf_mm s" and "unat d < 1023" and "unat t < 1024" and "present (pde_at s d)"
    and "unat d' < 1024" and "present (pde_at s d')" and "unat t' < 1024"
  shows "pte_at (set_pte d t x s) d' t' = (if d' = d \<and> t' = t then x else pte_at s d' t')"
  using pde_set_pte [OF assms(1-4,5), of x] wf_mmD(6) [OF assms(1), of d d'] assms
  by (auto simp: pte_at_def) (auto simp: set_pte_def slot_inject)

lemma wf_set_pte:
  assumes "wf_mm s" and "unat d < 1023" and "unat t < 1024" and "present (pde_at s d)"
  shows "wf_mm (set_pte d t x s)"
  by (rule wf_mm_cong [OF assms(1)]) (simp_all add: pde_set_pte [OF assms])


section \<open>Mapping one page\<close>

abbreviation dir_index :: "u32 \<Rightarrow> u32" where "dir_index va \<equiv> drop_bit 22 va"
abbreviation tab_index :: "u32 \<Rightarrow> u32" where "tab_index va \<equiv> drop_bit 12 va AND 0x3FF"

lemma dir_index_lt: "unat (drop_bit 22 (va :: u32)) < 1024"
proof -
  have "unat va div 4194304 < 1024" using unat_lt_u32 [of va] by simp
  then show ?thesis by (simp only: unat_drop_bit) simp
qed

lemma tab_index_lt: "unat (drop_bit 12 (va :: u32) AND 0x3FF) < 1024"
  by (simp add: unat_and_3ff)

text \<open>A virtual page is given by its two indices.\<close>

lemma index_pair_inject:
  fixes i j i' j' :: nat
  assumes "j < 1024" and "j' < 1024"
  shows "1024 * i + j = 1024 * i' + j' \<longleftrightarrow> i = i' \<and> j = j'"
proof
  assume eq: "1024 * i + j = 1024 * i' + j'"
  have "i = (1024 * i + j) div 1024" "i' = (1024 * i' + j') div 1024" using assms by simp_all
  with eq have "i = i'" by simp
  with eq show "i = i' \<and> j = j'" by simp
qed simp

lemma index_unat:
  "unat (dir_index va) = unat va div 4194304" "unat (tab_index va) = unat va div 4096 mod 1024"
  by (simp_all only: unat_drop_bit unat_and_3ff) simp_all

lemma page_base_indices: "unat (page_base va) = 4096 * (1024 * unat (dir_index va) + unat (tab_index va))"
proof -
  have "unat va div 4096 = 1024 * (unat va div 4194304) + unat va div 4096 mod 1024"
    using mult_div_mod_eq [of 1024 "unat va div 4096"] by (simp add: div_mult2_eq [symmetric])
  then show ?thesis by (simp only: unat_page_base index_unat)
qed

lemma page_of_indices:
  "page_base va = page_base vb \<longleftrightarrow> dir_index va = dir_index vb \<and> tab_index va = tab_index vb"
proof -
  have "page_base va = page_base vb \<longleftrightarrow>
      1024 * unat (dir_index va) + unat (tab_index va) = 1024 * unat (dir_index vb) + unat (tab_index vb)"
    by (simp only: word_unat_eq_iff [of "page_base va"] page_base_indices mult_cancel1) simp
  then show ?thesis
    by (simp only: index_pair_inject [OF tab_index_lt tab_index_lt] word_unat_eq_iff)
qed

text \<open>The table entry that \<open>map_page\<close> writes.\<close>

abbreviation (input) pte_word :: "u32 \<Rightarrow> u32 \<Rightarrow> u32" where
  "pte_word physaddr flags \<equiv> physaddr OR (flags AND 0xFFF) OR 1"

lemma pte_word_base:
  assumes "physaddr AND 0xFFF = 0"
  shows "page_base (pte_word physaddr flags) = physaddr" "present (pte_word physaddr flags)"
proof -
  have "(flags AND 0xFFF) OR 1 = (flags OR 1) AND (0xFFF :: u32)"
    by (simp add: bit.conj_disj_distrib2)
  then show "page_base (pte_word physaddr flags) = physaddr"
    using page_base_or [OF assms, of "flags OR 1"] by (simp only: or.assoc)
qed (simp add: present_or)

lemma set_pte_twice:
  assumes "wf_mm s" and "unat d < 1023" and "unat t < 1024" and "present (pde_at s d)"
  shows "set_pte d t y (set_pte d t x s) = set_pte d t y s"
  using pde_set_pte [OF assms, of d x] assms(2) by (simp add: set_pte_def)

lemma map_pte_eq:
  assumes "wf_mm s" and "unat (dir_index va) < 1023" and "present (pde_at s (dir_index va))"
  shows "map_pte physaddr va flags s =
    Inr (set_pte (dir_index va) (tab_index va) (pte_word physaddr flags) s)"
proof -
  let ?d = "dir_index va" and ?t = "tab_index va"
  have d: "unat ?d < 1024" using assms(2) by simp
  note t = tab_index_lt [of va]
  note wf' = wf_set_pte [OF assms(1,2) t assms(3), of 0]
  have p': "present (pde_at (set_pte ?d ?t 0 s) ?d)"
    using pde_set_pte [OF assms(1,2) t assms(3) d] assms(3) by simp
  show ?thesis
    using window_read [OF assms(1) d t] window_write [OF assms(1) d t] window_write [OF wf' d t]
      set_pte_twice [OF assms(1,2) t assms(3)] assms(3) p'
    by (simp add: map_pte_def Let_def)
qed

text \<open>A zeroed table: the loop of \<open>map_page\<close> over the entries of a fresh table.\<close>

definition clear_table :: "u32 \<Rightarrow> nat \<Rightarrow> mm \<Rightarrow> mm" where
  "clear_table d n s =
     s\<lparr>pmem := \<lambda>a. if \<exists>i<n. a = page_base (pde_at s d) + 4 * of_nat i then 0 else pmem s a\<rparr>"

lemma clear_table_regs [simp]:
  "frame_bitmap (clear_table d n s) = frame_bitmap s" "cr0 (clear_table d n s) = cr0 s"
  "cr3 (clear_table d n s) = cr3 s" "current_pid (clear_table d n s) = current_pid s"
  "page_directories (clear_table d n s) = page_directories s"
  "first_page_table (clear_table d n s) = first_page_table s"
  by (simp_all add: clear_table_def)

lemma pmem_clear_table:
  "pmem (clear_table d n s) a = (if \<exists>i<n. a = page_base (pde_at s d) + 4 * of_nat i then 0 else pmem s a)"
  by (simp add: clear_table_def)

lemma pde_clear_table:
  assumes "wf_mm s" and "unat d < 1023" and "present (pde_at s d)" and "n \<le> 1024" and "unat d' < 1024"
  shows "pde_at (clear_table d n s) d' = pde_at s d'"
proof -
  have "cr3 s + 4 * d' \<noteq> page_base (pde_at s d) + 4 * of_nat i" if "i < n" for i
    using table_not_dir [OF assms(1-3)] wf_mmD(3) [OF assms(1)] assms(4,5) that
    by (subst slot_inject) (auto simp: unat_of_nat_u32)
  then show ?thesis by (auto simp: pde_at_def clear_table_def)
qed

lemma wf_clear_table:
  assumes "wf_mm s" and "unat d < 1023" and "present (pde_at s d)" and "n \<le> 1024"
  shows "wf_mm (clear_table d n s)"
  by (rule wf_mm_cong [OF assms(1)]) (simp_all add: pde_clear_table [OF assms])

lemma pte_clear_table:
  assumes "wf_mm s" and "unat d < 1023" and "present (pde_at s d)"
    and "unat d' < 1024" and "present (pde_at s d')" and "unat t < 1024"
  shows "pte_at (clear_table d 1024 s) d' t = (if d' = d then 0 else pte_at s d' t)"
proof -
  have eq: "(\<exists>i<1024. page_base (pde_at s d') + 4 * t = page_base (pde_at s d) + 4 * of_nat i) \<longleftrightarrow> d' = d"
  proof
    assume "\<exists>i<1024. page_base (pde_at s d') + 4 * t = page_base (pde_at s d) + 4 * of_nat i"
    then have "page_base (pde_at s d') = page_base (pde_at s d)"
      using assms(6) by (auto simp: slot_inject unat_of_nat_u32)
    then show "d' = d" using wf_mmD(6) [OF assms(1), of d d'] assms by force
  next
    assume "d' = d"
    with assms(6) show "\<exists>i<1024. page_base (pde_at s d') + 4 * t = page_base (pde_at s d) + 4 * of_nat i"
      by (intro exI [of _ "unat t"]) simp
  qed
  have "pte_at (clear_table d 1024 s) d' t = pmem (clear_table d 1024 s) (page_base (pde_at s d') + 4 * t)"
    using pde_clear_table [OF assms(1-3) _ assms(4)] by (simp add: pte_at_def)
  then show ?thesis by (simp only: pmem_clear_table eq) (simp add: pte_at_def)
qed

lemma clear_table_Suc:
  assumes "wf_mm s" and "unat d < 1023" and "present (pde_at s d)" and "n < 1024"
  shows "set_pte d (of_nat n) 0 (clear_table d n s) = clear_table d (Suc n) s"
proof -
  have "pde_at (clear_table d n s) d = pde_at s d"
    using pde_clear_table [OF assms(1-3), of n d] assms(2,4) by simp
  moreover have "(pmem (clear_table d n s))(page_base (pde_at s d) + 4 * of_nat n := 0) =
      pmem (clear_table d (Suc n) s)"
    by (rule ext) (auto simp: pmem_clear_table less_Suc_eq)
  ultimately show ?thesis by (simp add: set_pte_def clear_table_def)
qed

lemma zero_loop:
  assumes "wf_mm s" and "unat d < 1023" and "present (pde_at s d)"
  shows "for_each (\<lambda>i s. vwrite s (get_pt d + 4 * i) 0) (u32_range 0 1024) s = Inr (clear_table d 1024 s)"
proof -
  let ?P = "\<lambda>n s'. s' = clear_table d n s"
  have d: "unat d < 1024" using assms(2) by simp
  have "\<exists>s'. for_each (\<lambda>i s. vwrite s (get_pt d + 4 * of_nat i) 0) [0..<1024] s = Inr s' \<and> ?P 1024 s'"
  proof (rule for_each_invariant [where P = ?P])
    show "s = clear_table d 0 s" by (simp add: clear_table_def)
    fix i s' assume i: "i < (1024::nat)" and P: "?P i s'"
    have "vwrite s' (get_pt d + 4 * of_nat i) 0 = Inr (set_pte d (of_nat i) 0 s')"
      using window_write [of s' d "of_nat i"] wf_clear_table [OF assms] pde_clear_table [OF assms] assms(3) d i P
      by (simp add: unat_of_nat_u32)
    with clear_table_Suc [OF assms i] P
    show "\<exists>s''. vwrite s' (get_pt d + 4 * of_nat i) 0 = Inr s'' \<and> ?P (Suc i) s''" by simp
  qed simp
  moreover have "u32_range 0 1024 = map of_nat [0..<1024]"
    using u32_range_of_nat [of 1024 0] by simp
  ultimately show ?thesis by (simp add: for_each_map)
qed


text \<open>Installing a fresh table in an empty directory slot keeps the invariant.\<close>

lemma pde_set_pde:
  assumes "wf_mm s" and "unat d < 1024" and "unat d' < 1024"
  shows "pde_at (set_pde d x s) d' = (if d' = d then x else pde_at s d')"
  using wf_mmD(3) [OF assms(1)] assms(2,3) by (auto simp: pde_at_def set_pde_def slot_inject quad_inject)

definition install_table :: "u32 \<Rightarrow> u32 \<Rightarrow> u32 \<Rightarrow> bitmap \<Rightarrow> mm \<Rightarrow> mm" where
  "install_table d new_pt flags bm s =
     set_pde d (new_pt OR (3 OR (flags AND 4))) (s\<lparr>frame_bitmap := bm\<rparr>)"

lemma install_table_regs [simp]:
  "frame_bitmap (install_table d p f bm s) = bm" "cr0 (install_table d p f bm s) = cr0 s"
  "cr3 (install_table d p f bm s) = cr3 s" "current_pid (install_table d p f bm s) = current_pid s"
  "page_directories (install_table d p f bm s) = page_directories s"
  "first_page_table (install_table d p f bm s) = first_page_table s"
  by (simp_all add: install_table_def set_pde_def)

lemma pde_word_base:
  assumes "p AND 0xFFF = 0"
  shows "page_base (p OR (3 OR (flags AND 4))) = p" "present (p OR (3 OR (flags AND 4)))"
proof -
  have "(3 OR (flags AND 4)) AND (0xFFF :: u32) = 3 OR (flags AND 4)"
    by (simp add: bit.conj_disj_distrib2 and.assoc)
  then show "page_base (p OR (3 OR (flags AND 4))) = p"
    using page_base_or [OF assms, of "3 OR (flags AND 4)"] by simp
qed (simp add: present_or)

lemma frame_addr_aligned:
  assumes "f < 16384"
  shows "(of_nat f * 4096 :: u32) AND 0xFFF = 0" "frame_no (of_nat f * 4096) = f"
  using unat_frame_addr [OF assms] by (simp_all add: page_aligned_iff frame_no_def)

lemma install_table_view:
  fixes flags :: u32
  assumes "wf_mm s" and "unat d < 1023" and "\<not> present (pde_at s d)"
    and "f \<in> free_frames (frame_bitmap s)" and "pmm_inv bm" and "free_frames bm = free_frames (frame_bitmap s) - {f}"
  defines "s' \<equiv> install_table d (of_nat f * 4096) flags bm s"
  shows "wf_mm s'" and "\<And>d'. unat d' < 1024 \<Longrightarrow>
      pde_at s' d' = (if d' = d then of_nat f * 4096 OR (3 OR (flags AND 4)) else pde_at s d')"
    and "\<And>d' t. unat d' < 1024 \<Longrightarrow> unat t < 1024 \<Longrightarrow> d' \<noteq> d \<Longrightarrow> d' \<noteq> 1023 \<Longrightarrow> present (pde_at s d') \<Longrightarrow>
      pte_at s' d' t = pte_at s d' t"
proof -
  let ?e = "of_nat f * 4096 OR (3 OR (flags AND 4)) :: u32"
  have f: "f < 16384" using assms(4) free_frames_bounds by simp
  have e: "page_base ?e = of_nat f * 4096" "present ?e"
    using pde_word_base frame_addr_aligned(1) [OF f] by blast+
  have pde_bm: "pde_at (s\<lparr>frame_bitmap := bm\<rparr>) = pde_at s" by (simp add: fun_eq_iff pde_at_def)
  show pde: "pde_at s' d' = (if d' = d then ?e else pde_at s d')" if "unat d' < 1024" for d'
    using wf_mmD(3) [OF assms(1)] assms(2) that
    by (auto simp: s'_def install_table_def set_pde_def pde_at_def slot_inject quad_inject)
  have fresh: "page_base (pde_at s d') \<noteq> of_nat f * 4096" if "unat d' < 1024" "present (pde_at s d')" for d'
    using wf_mmD(5) [OF assms(1) that] assms(4) frame_addr_aligned(2) [OF f] by auto
  have d: "unat d < 1024" "d \<noteq> 1023" using assms(2) by auto
  show "wf_mm s'"
    unfolding wf_mm_def
  proof (intro conjI allI impI)
    show "pde_at s' 1023 = cr3 s' OR 3"
      using wf_mmD(4) [OF assms(1)] pde [of 1023] d by (simp add: s'_def)
    show "frame_no (page_base (pde_at s' d')) \<notin> free_frames (frame_bitmap s')"
      if "unat d' < 1024" "present (pde_at s' d')" for d'
      using pde [OF that(1)] that wf_mmD(5) [OF assms(1), of d'] e frame_addr_aligned(2) [OF f] assms(6)
      by (auto simp: s'_def split: if_splits)
    show "page_base (pde_at s' i) \<noteq> page_base (pde_at s' j)"
      if "unat i < 1024" "unat j < 1024" "i \<noteq> j" "present (pde_at s' i)" "present (pde_at s' j)" for i j
      using that wf_mmD(6) [OF assms(1) that(1-3)] fresh [of i] fresh [of j] e
      by (auto simp: pde split: if_splits)
  qed (use assms(5) wf_mmD [OF assms(1)] in \<open>simp_all add: s'_def\<close>)
  show "pte_at s' d' t = pte_at s d' t"
    if "unat d' < 1024" "unat t < 1024" "d' \<noteq> d" "d' \<noteq> 1023" "present (pde_at s d')" for d' t
  proof -
    have "unat d' < 1023" using that(1,4) by (simp add: word_unat_eq_iff)
    with table_not_dir [OF assms(1) _ that(5)] have "page_base (pde_at s d') \<noteq> cr3 s" by simp
    with pde [OF that(1)] that(2,3) d wf_mmD(3) [OF assms(1)] show ?thesis
      by (simp add: pte_at_def) (simp add: s'_def install_table_def set_pde_def slot_inject quad_inject)
  qed
qed


text \<open>
  What \<open>map_page\<close> does to the tables: with a table in place it writes one entry, without one it
  first installs and zeroes the lowest free frame as the table, and with no frame left it does
  nothing.
\<close>

lemma map_page_present:
  assumes "wf_mm s" and "physaddr AND 0xFFF = 0" and "va AND 0xFFF = 0"
    and "unat (dir_index va) < 1023" and "present (pde_at s (dir_index va))"
  shows "map_page physaddr va flags s =
    Inr (set_pte (dir_index va) (tab_index va) (pte_word physaddr flags) s)"
  using pd_read [OF assms(1) dir_index_lt] map_pte_eq [OF assms(1,4,5)] assms(2,3,5)
  by (simp add: map_page_def Let_def)

lemma map_page_no_frame:
  assumes "wf_mm s" and "\<not> present (pde_at s (dir_index va))" and "free_frames (frame_bitmap s) = {}"
  shows "map_page physaddr va flags s = Inr s"
  using pd_read [OF assms(1) dir_index_lt] assms(2) frames.alloc_none [OF wf_mmD(1) [OF assms(1)] assms(3)]
  by (simp add: map_page_def Let_def)

lemma map_page_absent:
  assumes "wf_mm s" and "physaddr AND 0xFFF = 0" and "va AND 0xFFF = 0"
    and "unat (dir_index va) < 1023" and "\<not> present (pde_at s (dir_index va))"
    and "free_frames (frame_bitmap s) \<noteq> {}"
  obtains f bm where "f \<in> free_frames (frame_bitmap s)" "pmm_inv bm"
    "free_frames bm = free_frames (frame_bitmap s) - {f}"
    "map_page physaddr va flags s =
      Inr (set_pte (dir_index va) (tab_index va) (pte_word physaddr flags)
            (clear_table (dir_index va) 1024 (install_table (dir_index va) (of_nat f * 4096) flags bm s)))"
proof -
  let ?d = "dir_index va"
  obtain f bm where f: "f \<in> free_frames (frame_bitmap s)"
    "phys_alloc_frame (frame_bitmap s) = Inr (of_nat f * 4096, bm)" "pmm_inv bm"
    "free_frames bm = free_frames (frame_bitmap s) - {f}"
    using frames.alloc_some [OF wf_mmD(1) [OF assms(1)] assms(6)] by blast
  have fr: "f \<in> {1024..<16384}" using frames.frees_range [OF wf_mmD(1) [OF assms(1)]] f(1) by blast
  let ?s1 = "install_table ?d (of_nat f * 4096) flags bm s"
  note view = install_table_view [OF assms(1,4,5) f(1,3,4), where flags = flags]
  have p1: "present (pde_at ?s1 ?d)"
    using view(2) [OF dir_index_lt [of va]] pde_word_base(2) [OF frame_addr_aligned(1)] fr by simp
  note wf2 = wf_clear_table [OF view(1) assms(4) p1, of 1024]
  have p2: "present (pde_at (clear_table ?d 1024 ?s1) ?d)"
    using pde_clear_table [OF view(1) assms(4) p1 _ dir_index_lt, of 1024 va] p1 by simp
  have cr3_walk: "mmu_walk (s\<lparr>frame_bitmap := bm\<rparr>) a = mmu_walk s a" for a
    by (simp add: mmu_walk_def Let_def)
  have wr: "vwrite (s\<lparr>frame_bitmap := bm\<rparr>) (0xFFFFF000 + 4 * ?d) (of_nat f * 4096 OR (3 OR (flags AND 4))) = Inr ?s1"
    using pd_window_walk [OF assms(1) dir_index_lt [of va]]
    by (simp add: vwrite_def cr3_walk install_table_def set_pde_def)
  have "map_page physaddr va flags s =
      Inr (set_pte ?d (tab_index va) (pte_word physaddr flags) (clear_table ?d 1024 ?s1))"
    using pd_read [OF assms(1) dir_index_lt [of va]] f(2) frames.frame_addr_nonnull [OF fr] assms(2,3,5) wr
      zero_loop [OF view(1) assms(4) p1] map_pte_eq [OF wf2 _ p2] assms(4)
    by (simp add: map_page_def Let_def or.assoc or_1_2)
  with f that show thesis by blast
qed


lemma set_pte_walk:
  fixes x :: u32
  assumes "wf_mm s" and "unat (dir_index v) < 1023" and "present (pde_at s (dir_index v))"
    and "unat (dir_index va) < 1023"
  defines "s' \<equiv> set_pte (dir_index v) (tab_index v) x s"
  shows "mmu_walk s' va =
    (if page_base va = page_base v then if present x then Some (page_base x + (va AND 0xFFF)) else None
     else mmu_walk s va)"
proof -
  have wf: "wf_mm s'" unfolding s'_def by (rule wf_set_pte [OF assms(1,2) tab_index_lt assms(3)])
  have pde: "pde_at s' (dir_index va) = pde_at s (dir_index va)"
    unfolding s'_def by (rule pde_set_pte [OF assms(1,2) tab_index_lt assms(3) dir_index_lt])
  show ?thesis
  proof (cases "present (pde_at s (dir_index va))")
    case True
    have "pte_at s' (dir_index va) (tab_index va) =
        (if page_base va = page_base v then x else pte_at s (dir_index va) (tab_index va))"
      unfolding s'_def page_of_indices
      by (rule pte_set_pte [OF assms(1,2) tab_index_lt assms(3) dir_index_lt True tab_index_lt])
    with True pde show ?thesis by (simp add: mmu_walk_entries [OF wf] mmu_walk_entries [OF assms(1)] Let_def)
  next
    case False
    with assms(3) have "page_base va \<noteq> page_base v" by (auto simp: page_of_indices)
    with False pde show ?thesis by (simp add: mmu_walk_entries [OF wf] mmu_walk_entries [OF assms(1)] Let_def)
  qed
qed

text \<open>The frames that hold the directory and the page tables.\<close>

definition table_frames :: "mm \<Rightarrow> nat set" where
  "table_frames s = {frame_no (page_base (pde_at s d)) | d. unat d < 1024 \<and> present (pde_at s d)}"

lemma table_framesI: "unat d < 1024 \<Longrightarrow> present (pde_at s d) \<Longrightarrow> frame_no (page_base (pde_at s d)) \<in> table_frames s"
  by (auto simp: table_frames_def)

lemma table_frames_used: "wf_mm s \<Longrightarrow> table_frames s \<inter> free_frames (frame_bitmap s) = {}"
  using wf_mmD(5) [of s] by (auto simp: table_frames_def)

lemma table_frames_cong:
  assumes "\<And>d. unat d < 1024 \<Longrightarrow> pde_at s' d = pde_at s d"
  shows "table_frames s' = table_frames s"
  using assms by (auto simp: table_frames_def) (metis)+

lemma table_frames_insert:
  assumes "unat d < 1024" and "\<not> present (pde_at s d)" and "present e"
    and "\<And>d'. unat d' < 1024 \<Longrightarrow> pde_at s' d' = (if d' = d then e else pde_at s d')"
  shows "table_frames s' = insert (frame_no (page_base e)) (table_frames s)"
proof -
  have "table_frames s' = (\<lambda>d. frame_no (page_base (pde_at s' d))) ` {d'. unat d' < 1024 \<and> present (pde_at s' d')}"
    by (auto simp: table_frames_def)
  also have "{d'. unat d' < 1024 \<and> present (pde_at s' d')} = insert d {d'. unat d' < 1024 \<and> present (pde_at s d')}"
    using assms by (auto split: if_splits)
  also have "(\<lambda>d. frame_no (page_base (pde_at s' d))) ` \<dots> =
      insert (frame_no (page_base e)) ((\<lambda>d. frame_no (page_base (pde_at s d))) ` {d'. unat d' < 1024 \<and> present (pde_at s d')})"
  proof -
    have "(\<lambda>d. frame_no (page_base (pde_at s' d))) ` {d'. unat d' < 1024 \<and> present (pde_at s d')} =
        (\<lambda>d. frame_no (page_base (pde_at s d))) ` {d'. unat d' < 1024 \<and> present (pde_at s d')}"
      by (rule image_cong [OF refl]) (use assms in auto)
    then show ?thesis using assms(1,4) by (simp only: image_insert) simp
  qed
  also have "\<dots> = insert (frame_no (page_base e)) (table_frames s)" by (auto simp: table_frames_def)
  finally show ?thesis .
qed

lemma new_table_walk:
  fixes flags :: u32
  assumes "wf_mm s" and "unat d < 1023" and "\<not> present (pde_at s d)"
    and "f \<in> free_frames (frame_bitmap s)" and "pmm_inv bm" and "free_frames bm = free_frames (frame_bitmap s) - {f}"
  defines "s' \<equiv> clear_table d 1024 (install_table d (of_nat f * 4096) flags bm s)"
  shows "wf_mm s'" and "present (pde_at s' d)"
    and "unat (dir_index va) < 1023 \<Longrightarrow> mmu_walk s' va = mmu_walk s va"
    and "table_frames s' = insert f (table_frames s)"
proof -
  let ?s1 = "install_table d (of_nat f * 4096) flags bm s"
  note view = install_table_view [OF assms(1-6), where flags = flags]
  have f: "f < 16384" using assms(4) free_frames_bounds by simp
  have d: "unat d < 1024" using assms(2) by simp
  have p1: "present (pde_at ?s1 d)"
    using view(2) [OF d] pde_word_base(2) [OF frame_addr_aligned(1) [OF f]] by simp
  show wf: "wf_mm s'" unfolding s'_def by (rule wf_clear_table [OF view(1) assms(2) p1 order_refl])
  have pde: "pde_at s' d' = pde_at ?s1 d'" if "unat d' < 1024" for d'
    unfolding s'_def by (rule pde_clear_table [OF view(1) assms(2) p1 order_refl that])
  show "present (pde_at s' d)" using pde [OF d] p1 by simp
  note e = pde_word_base [OF frame_addr_aligned(1) [OF f], of flags]
  show "table_frames s' = insert f (table_frames s)"
    using table_frames_insert [OF d assms(3) e(2), of s'] pde view(2) e(1) frame_addr_aligned(2) [OF f] by simp
  assume va: "unat (dir_index va) < 1023"
  show "mmu_walk s' va = mmu_walk s va"
  proof (cases "dir_index va = d")
    case True
    have "pte_at s' d (tab_index va) = 0"
      unfolding s'_def using pte_clear_table [OF view(1) assms(2) p1 d p1 tab_index_lt] by simp
    with True assms(3) show ?thesis
      by (simp add: mmu_walk_entries [OF wf] mmu_walk_entries [OF assms(1)] Let_def)
  next
    case False
    have e: "pde_at s' (dir_index va) = pde_at s (dir_index va)"
      using pde [OF dir_index_lt] view(2) [OF dir_index_lt [of va]] False by simp
    have n: "dir_index va \<noteq> 1023" using va by auto
    have "pte_at s' (dir_index va) (tab_index va) = pte_at s (dir_index va) (tab_index va)"
      if "present (pde_at s (dir_index va))"
      unfolding s'_def using pte_clear_table [OF view(1) assms(2) p1 dir_index_lt [of va] _ tab_index_lt [of va]]
        view(2,3) [OF dir_index_lt [of va]] tab_index_lt [of va] False n that by auto
    with e show ?thesis by (auto simp: mmu_walk_entries [OF wf] mmu_walk_entries [OF assms(1)] Let_def)
  qed
qed

text \<open>The translations that a mapping of one page produces, and nothing else.\<close>

definition remapped :: "u32 \<Rightarrow> u32 option \<Rightarrow> mm \<Rightarrow> mm \<Rightarrow> bool" where
  "remapped va target s s' \<longleftrightarrow>
     (\<forall>v. unat (dir_index v) < 1023 \<longrightarrow>
        mmu_walk s' v = (if page_base v = va then map_option (\<lambda>p. p + (v AND 0xFFF)) target else mmu_walk s v))"

definition same_regs :: "mm \<Rightarrow> mm \<Rightarrow> bool" where
  "same_regs s s' \<longleftrightarrow> cr0 s' = cr0 s \<and> cr3 s' = cr3 s \<and> current_pid s' = current_pid s \<and>
     page_directories s' = page_directories s \<and> first_page_table s' = first_page_table s"

lemma map_page_spec:
  assumes "wf_mm s" and "physaddr AND 0xFFF = 0" and "va AND 0xFFF = 0"
    and "unat (dir_index va) < 1023"
  shows "\<exists>s'. map_page physaddr va flags s = Inr s' \<and>
    (if present (pde_at s (dir_index va)) \<or> free_frames (frame_bitmap s) \<noteq> {}
     then wf_mm s' \<and> same_regs s s' \<and> remapped va (Some physaddr) s s' \<and>
       (if present (pde_at s (dir_index va)) then frame_bitmap s' = frame_bitmap s \<and> table_frames s' = table_frames s
        else \<exists>f\<in>free_frames (frame_bitmap s). free_frames (frame_bitmap s') = free_frames (frame_bitmap s) - {f} \<and>
               table_frames s' = insert f (table_frames s))
     else s' = s)"
proof -
  let ?d = "dir_index va" and ?t = "tab_index va"
  have pb: "page_base va = va" using assms(3) by (rule page_base_self)
  note w = pte_word_base [OF assms(2), of flags]
  have step: "wf_mm (set_pte ?d ?t (pte_word physaddr flags) s0) \<and>
      table_frames (set_pte ?d ?t (pte_word physaddr flags) s0) = table_frames s0 \<and>
      remapped va (Some physaddr) s0 (set_pte ?d ?t (pte_word physaddr flags) s0)"
    if "wf_mm s0" "present (pde_at s0 ?d)" for s0
    using wf_set_pte [OF that(1) assms(4) tab_index_lt that(2)] set_pte_walk [OF that(1) assms(4) that(2)] w pb
      table_frames_cong [OF pde_set_pte [OF that(1) assms(4) tab_index_lt that(2)]]
    by (simp add: remapped_def)
  show ?thesis
  proof (cases "present (pde_at s ?d)")
    case True
    with map_page_present [OF assms True, of flags] step [OF assms(1) True] show ?thesis
      by (simp add: same_regs_def)
  next
    case absent: False
    show ?thesis
    proof (cases "free_frames (frame_bitmap s) = {}")
      case True
      with map_page_no_frame [OF assms(1) absent True] absent show ?thesis by simp
    next
      case False
      from map_page_absent [OF assms absent False] obtain f bm where f: "f \<in> free_frames (frame_bitmap s)"
        "pmm_inv bm" "free_frames bm = free_frames (frame_bitmap s) - {f}"
        "map_page physaddr va flags s = Inr (set_pte ?d ?t (pte_word physaddr flags)
           (clear_table ?d 1024 (install_table ?d (of_nat f * 4096) flags bm s)))" .
      note new = new_table_walk [OF assms(1,4) absent f(1-3), where flags = flags]
      from step [OF new(1,2)] new(3,4) f absent show ?thesis
        by (auto simp: same_regs_def remapped_def)
    qed
  qed
qed

lemma unmap_page_spec:
  assumes "wf_mm s" and "va AND 0xFFF = 0" and "unat (dir_index va) < 1023"
  shows "\<exists>s'. unmap_page va s = Inr s' \<and> wf_mm s' \<and> same_regs s s' \<and>
    frame_bitmap s' = frame_bitmap s \<and> remapped va None s s'"
proof -
  let ?d = "dir_index va" and ?t = "tab_index va"
  have pb: "page_base va = va" using assms(2) by (rule page_base_self)
  have unchanged: "remapped va None s s" if none: "mmu_walk s va = None"
  proof -
    have "mmu_walk s v = None" if "page_base v = va" for v
    proof -
      have "dir_index v = ?d \<and> tab_index v = ?t" using page_of_indices [of v va] that pb by simp
      then show ?thesis using none by (simp add: mmu_walk_entries [OF assms(1)] Let_def split: if_splits)
    qed
    then show ?thesis by (simp add: remapped_def)
  qed
  show ?thesis
  proof (cases "present (pde_at s ?d) \<and> present (pte_at s ?d ?t)")
    case True
    then have "unmap_page va s = Inr (set_pte ?d ?t 0 s)"
      using pd_read [OF assms(1) dir_index_lt] window_read [OF assms(1) dir_index_lt tab_index_lt]
        window_write [OF assms(1) dir_index_lt tab_index_lt] assms(2)
      by (simp add: unmap_page_def Let_def)
    moreover have "wf_mm (set_pte ?d ?t 0 s)" using wf_set_pte [OF assms(1,3) tab_index_lt] True by blast
    moreover have "remapped va None s (set_pte ?d ?t 0 s)"
      using set_pte_walk [OF assms(1,3), of _ 0] True pb by (auto simp: remapped_def)
    ultimately show ?thesis by (simp add: same_regs_def)
  next
    case False
    then have "unmap_page va s = Inr s"
      using pd_read [OF assms(1) dir_index_lt] window_read [OF assms(1) dir_index_lt tab_index_lt] assms(2)
      by (auto simp: unmap_page_def Let_def)
    moreover have "mmu_walk s va = None" using False by (auto simp: mmu_walk_entries [OF assms(1)] Let_def)
    ultimately show ?thesis using unchanged assms(1) by (simp add: same_regs_def)
  qed
qed

end
