(* ===== verification/Address_Space.thy ===== *)
theory Address_Space
  imports Paging
begin

text \<open>
  The contract of the paging layer towards the kernel allocators: \<open>get_physaddr\<close> agrees with the
  hardware walk, \<open>alloc_page\<close> maps exactly one fresh frame or changes nothing, \<open>free_page\<close> undoes it,
  and no two kernel pages share a frame. The contract is stated as a locale and discharged for the
  model of \<open>paging.c\<close>.
\<close>

section \<open>get_physaddr is the hardware walk\<close>

lemma get_physaddr_walk:
  assumes "wf_mm s"
  shows "get_physaddr s va = Inr (case mmu_walk s va of None \<Rightarrow> 0 | Some pa \<Rightarrow> pa)"
  using pd_read [OF assms dir_index_lt [of va]]
    window_read [OF assms dir_index_lt [of va] tab_index_lt [of va]]
  by (simp add: get_physaddr_def mmu_walk_entries [OF assms] Let_def)

section \<open>Allocating and freeing one page\<close>

lemma mmu_walk_bitmap [simp]: "mmu_walk (s\<lparr>frame_bitmap := bm\<rparr>) va = mmu_walk s va"
  by (simp add: mmu_walk_def Let_def)

lemma pde_at_bitmap [simp]: "pde_at (s\<lparr>frame_bitmap := bm\<rparr>) d = pde_at s d"
  by (simp add: pde_at_def)

lemma table_frames_bitmap [simp]: "table_frames (s\<lparr>frame_bitmap := bm\<rparr>) = table_frames s"
  by (simp add: table_frames_def)

lemma wf_mm_bitmap:
  assumes "wf_mm s" and "pmm_inv bm" and "table_frames s \<inter> free_frames bm = {}"
  shows "wf_mm (s\<lparr>frame_bitmap := bm\<rparr>)"
proof -
  have "frame_no (page_base (pde_at s d)) \<notin> free_frames bm" if "unat d < 1024" "present (pde_at s d)" for d
    using table_framesI [OF that] assms(3) by blast
  with wf_mmD(2-4,6) [OF assms(1)] assms(2) show ?thesis unfolding wf_mm_def by simp
qed

lemma wf_mm_shrink:
  assumes "wf_mm s" and "pmm_inv bm" and "free_frames bm \<subseteq> free_frames (frame_bitmap s)"
  shows "wf_mm (s\<lparr>frame_bitmap := bm\<rparr>)"
  by (rule wf_mm_bitmap [OF assms(1,2)]) (use table_frames_used [OF assms(1)] assms(3) in blast)

lemma remapped_self:
  assumes "remapped va (Some p) s s'" and "va AND 0xFFF = 0" and "unat (dir_index va) < 1023"
  shows "mmu_walk s' va = Some p"
  using assms by (simp add: remapped_def page_base_self)

lemma absent_walk:
  assumes "wf_mm s" and "\<not> present (pde_at s (dir_index va))"
  shows "mmu_walk s va = None"
  using assms(2) by (simp add: mmu_walk_entries [OF assms(1)] Let_def)

text \<open>
  \<open>alloc_page\<close> succeeds when there is a frame for the page and, where the table is missing, a second
  one for it; it then maps a fresh frame. Otherwise it gives the frame back and the state is
  unchanged.
\<close>

definition page_frames_needed :: "u32 \<Rightarrow> mm \<Rightarrow> nat" where
  "page_frames_needed va s = (if present (pde_at s (dir_index va)) then 1 else 2)"

lemma alloc_page_spec:
  assumes "wf_mm s" and "va AND 0xFFF = 0" and "unat (dir_index va) < 1023"
  shows "if card (free_frames (frame_bitmap s)) < page_frames_needed va s then alloc_page va flags s = Inr (0, s)
    else \<exists>f s'. f \<in> free_frames (frame_bitmap s) \<and> alloc_page va flags s = Inr (va, s') \<and> wf_mm s' \<and>
      same_regs s s' \<and> remapped va (Some (of_nat f * 4096)) s s' \<and>
      (\<exists>T \<subseteq> free_frames (frame_bitmap s) - {f}. Suc (card T) = page_frames_needed va s \<and>
        free_frames (frame_bitmap s') = free_frames (frame_bitmap s) - {f} - T \<and>
        table_frames s' = table_frames s \<union> T)"
proof (cases "free_frames (frame_bitmap s) = {}")
  case True
  then show ?thesis
    using frames.alloc_none [OF wf_mmD(1) [OF assms(1)] True]
    by (simp add: alloc_page_def page_frames_needed_def)
next
  case False
  let ?F = "free_frames (frame_bitmap s)"
  have inv: "pmm_inv (frame_bitmap s)" using wf_mmD(1) [OF assms(1)] .
  obtain f bm where f: "f \<in> ?F" "phys_alloc_frame (frame_bitmap s) = Inr (of_nat f * 4096, bm)"
    "pmm_inv bm" "free_frames bm = ?F - {f}"
    using frames.alloc_some [OF inv False] by blast
  have fr: "f \<in> {1024..<16384}" using frames.frees_range [OF inv] f(1) by blast
  note nz = frames.frame_addr_nonnull [OF fr]
  let ?s1 = "s\<lparr>frame_bitmap := bm\<rparr>"
  have wf1: "wf_mm ?s1" by (rule wf_mm_shrink [OF assms(1) f(3)]) (use f(4) in auto)
  have al: "(of_nat f * 4096 :: u32) AND 0xFFF = 0" using frame_addr_aligned(1) fr by simp
  have sel: "frame_bitmap ?s1 = bm" by simp
  obtain s' where s': "map_page (of_nat f * 4096) va flags ?s1 = Inr s'"
    "if present (pde_at s (dir_index va)) \<or> ?F - {f} \<noteq> {}
     then wf_mm s' \<and> same_regs ?s1 s' \<and> remapped va (Some (of_nat f * 4096)) ?s1 s' \<and>
       (if present (pde_at s (dir_index va)) then frame_bitmap s' = bm \<and> table_frames s' = table_frames s
        else \<exists>g\<in>?F - {f}. free_frames (frame_bitmap s') = ?F - {f} - {g} \<and> table_frames s' = insert g (table_frames s))
     else s' = ?s1"
    using map_page_spec [OF wf1 al assms(2,3), of flags] unfolding pde_at_bitmap table_frames_bitmap sel f(4)
    by (elim exE conjE)
  have card_F: "card ?F = Suc (card (?F - {f}))" using card_Suc_Diff1 [OF finite_free_frames f(1)] by simp
  show ?thesis
  proof (cases "present (pde_at s (dir_index va)) \<or> ?F - {f} \<noteq> {}")
    case True
    note m1 = s'(2) [unfolded if_P [OF True]]
    have m: "wf_mm s'" "same_regs s s'" "remapped va (Some (of_nat f * 4096)) s s'"
      using m1 by (simp_all add: same_regs_def remapped_def)
    have "alloc_page va flags s = Inr (va, s')"
      using f(2) s'(1) nz get_physaddr_walk [OF m(1), of va] remapped_self [OF m(3) assms(2,3)]
      by (simp add: alloc_page_def)
    moreover have "\<exists>T \<subseteq> ?F - {f}. Suc (card T) = page_frames_needed va s \<and> free_frames (frame_bitmap s') = ?F - {f} - T \<and>
        table_frames s' = table_frames s \<union> T"
    proof (cases "present (pde_at s (dir_index va))")
      case True
      with m1 f(4) show ?thesis by (intro exI [of _ "{}"]) (simp add: page_frames_needed_def)
    next
      case absent: False
      with m1 obtain g where "g \<in> ?F - {f}" "free_frames (frame_bitmap s') = ?F - {f} - {g}"
        "table_frames s' = insert g (table_frames s)" by auto
      with absent show ?thesis by (intro exI [of _ "{g}"]) (simp add: page_frames_needed_def)
    qed
    moreover have enough: "\<not> card ?F < page_frames_needed va s"
      using True card_F by (auto simp: page_frames_needed_def card_gt_0_iff simp del: Diff_eq_empty_iff)
    ultimately show ?thesis unfolding if_not_P [OF enough] using m f(1) by blast
  next
    case False
    have e: "s' = ?s1" using s'(2) [unfolded if_not_P [OF False]] .
    from False have a: "\<not> present (pde_at s (dir_index va))" "?F - {f} = {}" by auto
    have "mmu_walk s' va = None" using absent_walk [OF wf1] a(1) e by simp
    then have "alloc_page va flags s = Inr (0, s)"
      using f(2) s'(1) nz get_physaddr_walk [OF wf1, of va] frames.alloc_release [OF inv f(2) nz] e
      by (simp add: alloc_page_def)
    with a card_F show ?thesis by (simp add: page_frames_needed_def)
  qed
qed


text \<open>\<open>free_page\<close> on a mapped page: the page is gone, its frame is free again, nothing else moves.\<close>

lemma free_page_unmapped:
  assumes "wf_mm s" and "mmu_walk s va = None"
  shows "free_page va s = Inr s"
  using get_physaddr_walk [OF assms(1), of va] assms(2) by (simp add: free_page_def)

lemma walk_aligned:
  assumes "wf_mm s" and "va AND 0xFFF = 0" and "mmu_walk s va = Some pa"
  shows "pa AND 0xFFF = 0"
  using assms(2,3) by (auto simp: mmu_walk_entries [OF assms(1)] Let_def split: if_splits)

lemma free_page_spec:
  assumes "wf_mm s" and "va AND 0xFFF = 0" and "unat (dir_index va) < 1023"
    and "mmu_walk s va = Some (of_nat f * 4096)" and "f \<in> {1024..<16384}"
    and "f \<notin> table_frames s"
  shows "\<exists>s'. free_page va s = Inr s' \<and> wf_mm s' \<and> same_regs s s' \<and> remapped va None s s' \<and>
    table_frames s' = table_frames s \<and>
    free_frames (frame_bitmap s') = insert f (free_frames (frame_bitmap s))"
proof -
  let ?d = "dir_index va" and ?t = "tab_index va"
  have here: "present (pde_at s ?d)" "present (pte_at s ?d ?t)"
    using assms(4) by (auto simp: mmu_walk_entries [OF assms(1)] Let_def split: if_splits)
  have un: "unmap_page va s = Inr (set_pte ?d ?t 0 s)"
    using pd_read [OF assms(1) dir_index_lt] window_read [OF assms(1) dir_index_lt tab_index_lt]
      window_write [OF assms(1) dir_index_lt tab_index_lt] assms(2) here
    by (simp add: unmap_page_def Let_def)
  obtain bm where bm: "phys_free_frame (of_nat f * 4096) (frame_bitmap s) = Inr bm" "pmm_inv bm"
    "free_frames bm = insert f (free_frames (frame_bitmap s))"
    using frames.release_ok [OF wf_mmD(1) [OF assms(1)] assms(5)] by blast
  let ?s1 = "set_pte ?d ?t 0 s"
  have wf1: "wf_mm ?s1" using wf_set_pte [OF assms(1,3) tab_index_lt here(1)] .
  have tabs: "table_frames ?s1 = table_frames s"
    by (rule table_frames_cong) (rule pde_set_pte [OF assms(1,3) tab_index_lt here(1)])
  have "wf_mm (?s1\<lparr>frame_bitmap := bm\<rparr>)"
    by (rule wf_mm_bitmap [OF wf1 bm(2)]) (use table_frames_used [OF assms(1)] assms(6) bm(3) tabs in auto)
  moreover have "free_page va s = Inr (?s1\<lparr>frame_bitmap := bm\<rparr>)"
    using get_physaddr_walk [OF assms(1), of va] assms(4) frames.frame_addr_nonnull [OF assms(5)] un bm(1)
    by (simp add: free_page_def)
  moreover have "remapped va None s (?s1\<lparr>frame_bitmap := bm\<rparr>)"
    using set_pte_walk [OF assms(1,3) here(1), of _ 0] page_base_self [OF assms(2)] by (auto simp: remapped_def)
  ultimately show ?thesis using tabs bm(3) by (auto simp: same_regs_def)
qed

section \<open>Isolation of kernel pages\<close>

text \<open>The pages above 3 GiB and below the recursive window.\<close>

definition kernel_page :: "u32 \<Rightarrow> bool" where
  "kernel_page va \<longleftrightarrow> va AND 0xFFF = 0 \<and> 0xC0000000 \<le> va \<and> va < 0xFFC00000"

definition mapped_pages :: "mm \<Rightarrow> u32 set" where
  "mapped_pages s = {va. kernel_page va \<and> mmu_walk s va \<noteq> None}"

text \<open>
  Every mapped kernel page has a frame of its own: a managed frame that is not free, holds no page
  table and backs no other kernel page.
\<close>

definition isolated :: "mm \<Rightarrow> bool" where
  "isolated s \<longleftrightarrow>
     (\<forall>va\<in>mapped_pages s. \<exists>f\<in>{1024..<16384}. mmu_walk s va = Some (of_nat f * 4096) \<and>
        f \<notin> free_frames (frame_bitmap s) \<and> f \<notin> table_frames s) \<and>
     inj_on (mmu_walk s) (mapped_pages s)"

definition page_inv :: "mm \<Rightarrow> bool" where
  "page_inv s \<longleftrightarrow> wf_mm s \<and> isolated s"

lemma kernel_page_index: "kernel_page va \<Longrightarrow> va AND 0xFFF = 0" "kernel_page va \<Longrightarrow> unat (dir_index va) < 1023"
  "kernel_page va \<Longrightarrow> va \<noteq> 0"
proof -
  assume k: "kernel_page va"
  then show "va AND 0xFFF = 0" "va \<noteq> 0" by (auto simp: kernel_page_def)
  have "unat va < 4290772992" using k by (simp add: kernel_page_def word_less_nat_alt)
  then have "unat va div 4194304 < 1023" by simp
  then show "unat (dir_index va) < 1023" by (simp only: index_unat)
qed


lemma frame_addr_inject:
  "f < 16384 \<Longrightarrow> g < 16384 \<Longrightarrow> (of_nat f * 4096 :: u32) = of_nat g * 4096 \<longleftrightarrow> f = g"
  using frame_addr_aligned(2) by metis

lemma remapped_kernel:
  assumes "remapped va target s s'" and "kernel_page va" and "kernel_page v"
  shows "mmu_walk s' v = (if v = va then target else mmu_walk s v)"
  using assms kernel_page_index [OF assms(2)] kernel_page_index [OF assms(3)]
  by (cases target) (auto simp: remapped_def page_base_self)

lemma alloc_page_kernel:
  assumes "page_inv s" and "kernel_page va" and "va \<notin> mapped_pages s"
  shows "\<exists>r s'. alloc_page va flags s = Inr (r, s') \<and> page_inv s' \<and>
    (r = 0 \<and> s' = s \<and> card (free_frames (frame_bitmap s)) < page_frames_needed va s \<or>
     r = va \<and> mapped_pages s' = insert va (mapped_pages s) \<and>
       card (free_frames (frame_bitmap s)) = card (free_frames (frame_bitmap s')) + page_frames_needed va s)"
proof -
  let ?F = "free_frames (frame_bitmap s)"
  have wf: "wf_mm s" and iso: "isolated s" using assms(1) by (auto simp: page_inv_def)
  note k = kernel_page_index [OF assms(2)]
  show ?thesis
  proof (cases "card ?F < page_frames_needed va s")
    case True
    with alloc_page_spec [OF wf k(1,2), of flags] assms(1) show ?thesis by simp
  next
    case False
    with alloc_page_spec [OF wf k(1,2), of flags] obtain f s' T where
      f: "f \<in> ?F" "alloc_page va flags s = Inr (va, s')" "wf_mm s'"
        "remapped va (Some (of_nat f * 4096)) s s'" and
      T: "T \<subseteq> ?F - {f}" "Suc (card T) = page_frames_needed va s"
        "free_frames (frame_bitmap s') = ?F - {f} - T" "table_frames s' = table_frames s \<union> T" by auto
    have fr: "f \<in> {1024..<16384}" using frames.frees_range [OF wf_mmD(1) [OF wf]] f(1) by blast
    have walk: "mmu_walk s' v = (if v = va then Some (of_nat f * 4096) else mmu_walk s v)" if "kernel_page v" for v
      using remapped_kernel [OF f(4) assms(2) that] .
    have mp: "mapped_pages s' = insert va (mapped_pages s)"
      using assms(2) by (auto simp: mapped_pages_def walk)
    have old: "\<exists>g\<in>{1024..<16384}. mmu_walk s' v = Some (of_nat g * 4096) \<and> g \<notin> ?F \<and> g \<notin> table_frames s"
      if "v \<in> mapped_pages s" for v
      using that iso assms(3) walk by (auto simp: isolated_def mapped_pages_def)
    have "isolated s'"
      unfolding isolated_def mp
    proof (intro conjI ballI)
      fix v assume "v \<in> insert va (mapped_pages s)"
      then consider "v = va" | "v \<in> mapped_pages s" by blast
      then show "\<exists>g\<in>{1024..<16384}. mmu_walk s' v = Some (of_nat g * 4096) \<and>
          g \<notin> free_frames (frame_bitmap s') \<and> g \<notin> table_frames s'"
      proof cases
        case 1
        then show ?thesis using fr walk [OF assms(2)] T f(1) table_frames_used [OF wf] by auto
      next
        case 2
        then show ?thesis using old [OF 2] T by auto
      qed
    next
      have "inj_on (mmu_walk s') (mapped_pages s)"
        using iso assms(3) walk by (auto simp: isolated_def inj_on_def mapped_pages_def)
      moreover have "mmu_walk s' va \<notin> mmu_walk s' ` mapped_pages s"
      proof
        assume "mmu_walk s' va \<in> mmu_walk s' ` mapped_pages s"
        then obtain v where v: "v \<in> mapped_pages s" "mmu_walk s' va = mmu_walk s' v" by auto
        from old [OF v(1)] obtain g where "g \<in> {1024..<16384}" "mmu_walk s' v = Some (of_nat g * 4096)" "g \<notin> ?F" by blast
        with v(2) walk [OF assms(2)] fr f(1) frame_addr_inject [of f g] show False by simp
      qed
      ultimately show "inj_on (mmu_walk s') (insert va (mapped_pages s))" using assms(3) by simp
    qed
    moreover have "card ?F = card (free_frames (frame_bitmap s')) + page_frames_needed va s"
    proof -
      have "card (?F - {f} - T) = card ?F - 1 - card T" "card T \<le> card ?F - 1"
        using T(1) f(1) by (auto simp: card_Diff_subset finite_subset dest: card_mono [rotated])
      moreover have "0 < card ?F" using f(1) by (auto simp: card_gt_0_iff)
      ultimately show ?thesis using T(2,3) by simp
    qed
    ultimately show ?thesis using f(2,3) mp by (auto simp: page_inv_def)
  qed
qed

lemma free_page_kernel:
  assumes "page_inv s" and "va \<in> mapped_pages s"
  shows "\<exists>s'. free_page va s = Inr s' \<and> page_inv s' \<and> mapped_pages s' = mapped_pages s - {va} \<and>
    card (free_frames (frame_bitmap s')) = Suc (card (free_frames (frame_bitmap s)))"
proof -
  have wf: "wf_mm s" and iso: "isolated s" using assms(1) by (auto simp: page_inv_def)
  have k: "kernel_page va" using assms(2) by (simp add: mapped_pages_def)
  obtain f where f: "f \<in> {1024..<16384}" "mmu_walk s va = Some (of_nat f * 4096)"
    "f \<notin> free_frames (frame_bitmap s)" "f \<notin> table_frames s"
    using iso assms(2) by (auto simp: isolated_def)
  from free_page_spec [OF wf kernel_page_index(1,2) [OF k] f(2,1,4)] obtain s' where
    s': "free_page va s = Inr s'" "wf_mm s'" "remapped va None s s'" "table_frames s' = table_frames s"
      "free_frames (frame_bitmap s') = insert f (free_frames (frame_bitmap s))" by blast
  have walk: "mmu_walk s' v = (if v = va then None else mmu_walk s v)" if "kernel_page v" for v
    using remapped_kernel [OF s'(3) k that] .
  have mp: "mapped_pages s' = mapped_pages s - {va}" by (auto simp: mapped_pages_def walk split: if_splits)
  have "isolated s'"
    unfolding isolated_def mp
  proof (intro conjI ballI)
    fix v assume v: "v \<in> mapped_pages s - {va}"
    then obtain g where g: "g \<in> {1024..<16384}" "mmu_walk s v = Some (of_nat g * 4096)"
      "g \<notin> free_frames (frame_bitmap s)" "g \<notin> table_frames s"
      using iso by (auto simp: isolated_def)
    have "g \<noteq> f"
    proof
      assume "g = f"
      then have "mmu_walk s v = mmu_walk s va" using g(2) f(2) by simp
      then show False using iso v assms(2) by (auto simp: isolated_def inj_on_def)
    qed
    then show "\<exists>g\<in>{1024..<16384}. mmu_walk s' v = Some (of_nat g * 4096) \<and>
        g \<notin> free_frames (frame_bitmap s') \<and> g \<notin> table_frames s'"
      using g v s'(4,5) by (intro bexI [of _ g]) (auto simp: walk mapped_pages_def)
  next
    have "inj_on (mmu_walk s) (mapped_pages s)" using iso by (simp add: isolated_def)
    then show "inj_on (mmu_walk s') (mapped_pages s - {va})"
      by (auto simp: inj_on_def walk mapped_pages_def)
  qed
  with s' f(3) mp show ?thesis by (simp add: page_inv_def)
qed

text \<open>A page that is allocated and freed leaves the translation as it was.\<close>

lemma alloc_free_page:
  assumes "page_inv s" and "kernel_page va" and "va \<notin> mapped_pages s" and "alloc_page va flags s = Inr (va, s1)"
  shows "\<exists>s2. free_page va s1 = Inr s2 \<and> page_inv s2 \<and>
    (\<forall>v. kernel_page v \<longrightarrow> mmu_walk s2 v = mmu_walk s v) \<and>
    card (free_frames (frame_bitmap s)) + 1 = card (free_frames (frame_bitmap s2)) + page_frames_needed va s"
proof -
  have nz: "va \<noteq> 0" using kernel_page_index(3) [OF assms(2)] .
  have a: "page_inv s1" "mapped_pages s1 = insert va (mapped_pages s)"
      "card (free_frames (frame_bitmap s)) = card (free_frames (frame_bitmap s1)) + page_frames_needed va s"
    using alloc_page_kernel [OF assms(1-3), of flags] assms(4) nz by auto
  have wf: "wf_mm s" "wf_mm s1" using assms(1) a(1) by (auto simp: page_inv_def)
  have up: "\<exists>f. remapped va (Some (of_nat f * 4096)) s s1"
    using alloc_page_spec [OF wf(1) kernel_page_index(1,2) [OF assms(2)], of flags] assms(4) nz
    by (auto split: if_splits)
  obtain f where f: "f \<in> {1024..<16384}" "mmu_walk s1 va = Some (of_nat f * 4096)" "f \<notin> table_frames s1"
    using a(1,2) by (auto simp: page_inv_def isolated_def)
  from free_page_spec [OF wf(2) kernel_page_index(1,2) [OF assms(2)] f(2,1,3)] obtain s2 where
    s2: "free_page va s1 = Inr s2" "remapped va None s1 s2" by blast
  have "mmu_walk s va = None" using assms(2,3) by (auto simp: mapped_pages_def)
  then have "\<forall>v. kernel_page v \<longrightarrow> mmu_walk s2 v = mmu_walk s v"
    using up remapped_kernel [OF _ assms(2)] s2(2) by auto
  with s2(1) free_page_kernel [OF a(1), of va] a(2,3) show ?thesis by auto
qed

text \<open>Every mapped kernel page takes a frame of its own out of the 15360 managed ones.\<close>

lemma mapped_pages_card:
  assumes "page_inv s"
  shows "finite (mapped_pages s) \<and> card (free_frames (frame_bitmap s)) + card (mapped_pages s) \<le> 15360"
proof -
  let ?F = "free_frames (frame_bitmap s)" and ?g = "\<lambda>va. frame_no (the (mmu_walk s va))"
  have wf: "wf_mm s" and iso: "isolated s" using assms by (auto simp: page_inv_def)
  have img: "?g ` mapped_pages s \<subseteq> {1024..<16384} - ?F"
    using iso frame_addr_aligned(2) by (auto simp: isolated_def)
  have inj: "inj_on ?g (mapped_pages s)"
  proof (rule inj_onI)
    fix x y assume xy: "x \<in> mapped_pages s" "y \<in> mapped_pages s" "?g x = ?g y"
    obtain f g where "f < 16384" "mmu_walk s x = Some (of_nat f * 4096)" "g < 16384" "mmu_walk s y = Some (of_nat g * 4096)"
      using iso xy(1,2) unfolding isolated_def by (metis atLeastLessThan_iff)
    with xy(3) have "mmu_walk s x = mmu_walk s y" using frame_addr_aligned(2) by simp
    with xy iso show "x = y" by (auto simp: isolated_def inj_on_def)
  qed
  have fin: "finite ({1024..<16384} - ?F)" by simp
  have sub: "?F \<subseteq> {1024..<16384}" using frames.frees_range [OF wf_mmD(1) [OF wf]] .
  have "card (mapped_pages s) \<le> card ({1024..<16384} - ?F)" by (rule card_inj_on_le [OF inj img fin])
  also have "\<dots> = 15360 - card ?F" using sub by (simp add: card_Diff_subset)
  finally have "card (mapped_pages s) \<le> 15360 - card ?F" .
  moreover have "card ?F \<le> 15360" using card_mono [OF _ sub] by simp
  moreover have "finite (mapped_pages s)" using inj_on_finite [OF inj img fin] .
  ultimately show ?thesis by simp
qed

section \<open>The contract\<close>

text \<open>
  What the kernel allocators rely on: a fallible \<open>alloc\<close> that adds one page to the mapped set or
  changes nothing, and a \<open>release\<close> that takes a mapped page out of it.
\<close>

locale page_provider =
  fixes alloc :: "u32 \<Rightarrow> u32 \<Rightarrow> 's \<Rightarrow> (u32 \<times> 's) res"
    and release :: "u32 \<Rightarrow> 's \<Rightarrow> 's res"
    and inv :: "'s \<Rightarrow> bool"
    and pages :: "'s \<Rightarrow> u32 set"
    and frames_left :: "'s \<Rightarrow> nat"
  assumes alloc_fresh: "inv s \<Longrightarrow> kernel_page va \<Longrightarrow> va \<notin> pages s \<Longrightarrow>
      \<exists>r s'. alloc va flags s = Inr (r, s') \<and> inv s' \<and>
        (r = 0 \<and> s' = s \<and> frames_left s < 2 \<or>
         r = va \<and> pages s' = insert va (pages s) \<and> frames_left s' < frames_left s \<and> frames_left s \<le> frames_left s' + 2)"
    and release_mapped: "inv s \<Longrightarrow> va \<in> pages s \<Longrightarrow>
      \<exists>s'. release va s = Inr s' \<and> inv s' \<and> pages s' = pages s - {va} \<and> frames_left s < frames_left s'"
    and pages_kernel: "va \<in> pages s \<Longrightarrow> kernel_page va"
    and capacity: "inv s \<Longrightarrow> finite (pages s) \<and> frames_left s + card (pages s) \<le> 15360"
begin

lemma alloc_cases:
  assumes "inv s" and "kernel_page va" and "va \<notin> pages s"
  obtains (fail) "alloc va flags s = Inr (0, s)" "frames_left s < 2"
    | (ok) s' where "alloc va flags s = Inr (va, s')" "va \<noteq> 0" "inv s'" "pages s' = insert va (pages s)"
        "frames_left s' < frames_left s" "frames_left s \<le> frames_left s' + 2"
  using alloc_fresh [OF assms, of flags] kernel_page_index(3) [OF assms(2)] by metis

text \<open>
  A run of allocations that stops at the first failure, as the callers do: it maps the whole run or
  ends in the caller's panic.
\<close>

definition alloc_step :: "string \<Rightarrow> u32 \<Rightarrow> (nat \<Rightarrow> u32) \<Rightarrow> nat \<Rightarrow> 's \<Rightarrow> 's res" where
  "alloc_step msg flags v i s = bnd (alloc (v i) flags s) (\<lambda>(r, s). if r = 0 then Inl (Kpanic msg) else Inr s)"

lemma alloc_run:
  assumes "inv s" and "\<And>i. i < n \<Longrightarrow> kernel_page (v i) \<and> v i \<notin> pages s" and "inj_on v {..<n}"
  shows "for_each (alloc_step msg flags v) [0..<n] s = Inl (Kpanic msg) \<and> frames_left s < 2 * n \<or>
    (\<exists>s'. for_each (alloc_step msg flags v) [0..<n] s = Inr s' \<and> inv s' \<and>
       pages s' = pages s \<union> v ` {..<n} \<and> frames_left s' + n \<le> frames_left s \<and> frames_left s \<le> frames_left s' + 2 * n)"
  using assms(2,3)
proof (induction n)
  case 0
  with assms(1) show ?case by auto
next
  case (Suc n)
  then have ih: "for_each (alloc_step msg flags v) [0..<n] s = Inl (Kpanic msg) \<and> frames_left s < 2 * n \<or>
    (\<exists>s'. for_each (alloc_step msg flags v) [0..<n] s = Inr s' \<and> inv s' \<and>
       pages s' = pages s \<union> v ` {..<n} \<and> frames_left s' + n \<le> frames_left s \<and> frames_left s \<le> frames_left s' + 2 * n)"
    using inj_on_subset [OF Suc.prems(2), of "{..<n}"] by auto
  show ?case
  proof (cases "for_each (alloc_step msg flags v) [0..<n] s = Inl (Kpanic msg)")
    case True
    then show ?thesis using ih by (simp add: for_each_append)
  next
    case False
    with ih obtain s' where s': "for_each (alloc_step msg flags v) [0..<n] s = Inr s'" "inv s'"
      "pages s' = pages s \<union> v ` {..<n}" "frames_left s' + n \<le> frames_left s" "frames_left s \<le> frames_left s' + 2 * n" by auto
    have "v n \<notin> v ` {..<n}"
      using Suc.prems(2) by (auto simp: inj_on_def lessThan_Suc dest: less_imp_neq)
    then have new: "kernel_page (v n)" "v n \<notin> pages s'"
      using Suc.prems(1) s'(3) by auto
    have run: "for_each (alloc_step msg flags v) [0..<Suc n] s = bnd (alloc_step msg flags v n s') Inr"
      using s'(1) by (simp add: for_each_append bnd_def split: sum.splits)
    from s'(2) new show ?thesis
    proof (cases rule: alloc_cases [where flags = flags])
      case fail
      then have "alloc_step msg flags v n s' = Inl (Kpanic msg)" by (simp add: alloc_step_def)
      then show ?thesis unfolding run using fail(2) s'(5) by simp
    next
      case (ok s2)
      then have "alloc_step msg flags v n s' = Inr s2" by (simp add: alloc_step_def)
      then show ?thesis unfolding run using ok s'(3-5) by (auto simp: lessThan_Suc)
    qed
  qed
qed

lemma alloc_run_exhausts:
  assumes "inv s" and "\<And>i. i < m \<Longrightarrow> kernel_page (v i) \<and> v i \<notin> pages s" and "inj_on v {..<m}"
    and "frames_left s < m" and "m \<le> n"
  shows "for_each (alloc_step msg flags v) [0..<n] s = Inl (Kpanic msg)"
proof -
  have "for_each (alloc_step msg flags v) [0..<m] s = Inl (Kpanic msg)"
    using alloc_run [OF assms(1-3), of msg flags] assms(4) by auto
  moreover have "[0..<n] = [0..<m] @ [m..<n]" using assms(5) by (metis le_add_diff_inverse upt_add_eq_append zero_le)
  ultimately show ?thesis by (simp add: for_each_append)
qed

text \<open>Releasing every page of a list of distinct mapped pages.\<close>

lemma release_all:
  assumes "inv s" and "distinct vs" and "set vs \<subseteq> pages s"
  shows "\<exists>s'. for_each release vs s = Inr s' \<and> inv s' \<and> pages s' = pages s - set vs"
  using assms
proof (induction vs arbitrary: s)
  case (Cons v vs)
  then obtain s1 where s1: "release v s = Inr s1" "inv s1" "pages s1 = pages s - {v}"
    using release_mapped [of s v] by auto
  with Cons.prems Cons.IH [of s1] obtain s' where
    "for_each release vs s1 = Inr s'" "inv s'" "pages s' = pages s1 - set vs" by auto
  with s1 show ?case by auto
qed simp

end

interpretation kpages: page_provider alloc_page free_page page_inv mapped_pages
  "\<lambda>s. card (free_frames (frame_bitmap s))"
proof
  fix s va flags assume "page_inv s" "kernel_page va" "va \<notin> mapped_pages s"
  from alloc_page_kernel [OF this, of flags]
  show "\<exists>r s'. alloc_page va flags s = Inr (r, s') \<and> page_inv s' \<and>
      (r = 0 \<and> s' = s \<and> card (free_frames (frame_bitmap s)) < 2 \<or>
       r = va \<and> mapped_pages s' = insert va (mapped_pages s) \<and>
         card (free_frames (frame_bitmap s')) < card (free_frames (frame_bitmap s)) \<and>
         card (free_frames (frame_bitmap s)) \<le> card (free_frames (frame_bitmap s')) + 2)"
    by (elim exE conjE, intro exI conjI) (auto simp: page_frames_needed_def split: if_splits)
next
  fix s va assume "page_inv s" "va \<in> mapped_pages s"
  from free_page_kernel [OF this]
  show "\<exists>s'. free_page va s = Inr s' \<and> page_inv s' \<and> mapped_pages s' = mapped_pages s - {va} \<and>
      card (free_frames (frame_bitmap s)) < card (free_frames (frame_bitmap s'))" by auto
next
  show "va \<in> mapped_pages s \<Longrightarrow> kernel_page va" for va s by (simp add: mapped_pages_def)
next
  show "page_inv s \<Longrightarrow> finite (mapped_pages s) \<and> card (free_frames (frame_bitmap s)) + card (mapped_pages s) \<le> 15360" for s
    using mapped_pages_card by blast
qed


section \<open>Filling a table in physical memory\<close>

lemma pstore_simps [simp]:
  "pmem (pstore a x s) = (pmem s)(a := x)" "frame_bitmap (pstore a x s) = frame_bitmap s"
  "cr0 (pstore a x s) = cr0 s" "cr3 (pstore a x s) = cr3 s" "current_pid (pstore a x s) = current_pid s"
  "page_directories (pstore a x s) = page_directories s" "first_page_table (pstore a x s) = first_page_table s"
  by (simp_all add: pstore_def)

lemma pmem_pstore_slot:
  assumes "a AND 0xFFF = 0" and "unat i < 1024" and "c AND 0xFFF = 0" and "unat j < 1024"
  shows "pmem (pstore (a + 4 * i) x s) (c + 4 * j) = (if c = a \<and> j = i then x else pmem s (c + 4 * j))"
  using slot_inject [OF assms(3,1,4,2)] by simp

lemma pmem_control:
  "pmem (enable_paging s) = pmem s" "pmem (load_page_directory pd s) = pmem s"
  by (simp_all add: enable_paging_def load_page_directory_def)

definition fill :: "u32 \<Rightarrow> (u32 \<Rightarrow> u32) \<Rightarrow> u32 list \<Rightarrow> mm \<Rightarrow> mm" where
  "fill b g is s = fold (\<lambda>i. pstore (b + 4 * i) (g i)) is s"

lemma fill_regs [simp]:
  "frame_bitmap (fill b g is s) = frame_bitmap s" "cr0 (fill b g is s) = cr0 s"
  "cr3 (fill b g is s) = cr3 s" "current_pid (fill b g is s) = current_pid s"
  "page_directories (fill b g is s) = page_directories s" "first_page_table (fill b g is s) = first_page_table s"
  by (induction "is" arbitrary: s) (simp_all add: fill_def)

lemma pmem_fill:
  assumes "b AND 0xFFF = 0" and "c AND 0xFFF = 0" and "unat j < 1024" and "\<forall>i\<in>set is. unat i < 1024"
  shows "pmem (fill b g is s) (c + 4 * j) = (if c = b \<and> j \<in> set is then g j else pmem s (c + 4 * j))"
  using assms(4)
proof (induction "is" arbitrary: s)
  case (Cons i "is")
  have "pmem (fill b g (i # is) s) (c + 4 * j) = pmem (fill b g is (pstore (b + 4 * i) (g i) s)) (c + 4 * j)"
    by (simp add: fill_def)
  with Cons show ?case using assms(1-3) by (auto simp: slot_inject quad_inject)
qed (simp add: fill_def)

lemma copy_is_fill:
  assumes "b AND 0xFFF = 0" and "c AND 0xFFF = 0" and "b \<noteq> c" and "\<forall>i\<in>set is. unat i < 1024"
  shows "fold (\<lambda>i s. pstore (b + 4 * i) (pmem s (c + 4 * i)) s) is s = fill b (\<lambda>i. pmem s (c + 4 * i)) is s"
  using assms(4)
proof (induction "is" arbitrary: s)
  case (Cons i "is")
  let ?s1 = "pstore (b + 4 * i) (pmem s (c + 4 * i)) s"
  have "fill b (\<lambda>i. pmem ?s1 (c + 4 * i)) is ?s1 = fill b (\<lambda>i. pmem s (c + 4 * i)) is ?s1"
    unfolding fill_def
    by (rule fold_cong) (use Cons.prems assms(1-3) in \<open>auto simp: slot_inject\<close>)
  with Cons show ?case by (simp add: fill_def)
qed (simp add: fill_def)

lemma u32_range_set: "set (u32_range lo hi) = {i. lo \<le> i \<and> i < hi}"
proof -
  have "\<exists>n\<in>{unat lo..<unat hi}. i = of_nat n" if "lo \<le> i" "i < hi" for i
    using that by (intro bexI [of _ "unat i"]) (auto simp: word_le_nat_alt word_less_nat_alt)
  moreover have "lo \<le> of_nat n \<and> of_nat n < hi" if "n \<in> {unat lo..<unat hi}" for n
  proof -
    have "n < 4294967296" using that unat_lt_u32 [of hi] by simp
    with that show ?thesis by (simp add: word_le_nat_alt word_less_nat_alt unat_of_nat_u32)
  qed
  ultimately show ?thesis by (auto simp: u32_range_def)
qed

lemma table_range: "\<forall>i\<in>set (u32_range lo hi). unat i < 1024" if "hi \<le> 1024"
  using that by (auto simp: u32_range_set word_le_nat_alt word_less_nat_alt)

section \<open>The boot address space\<close>

text \<open>
  Where the linker puts the static tables: page-aligned, below 4 MiB, the directories as one block
  that the first page table does not overlap.
\<close>

definition static_tables :: "mm \<Rightarrow> bool" where
  "static_tables s \<longleftrightarrow> page_directories s AND 0xFFF = 0 \<and> first_page_table s AND 0xFFF = 0 \<and>
     unat (page_directories s) + 524288 \<le> 4194304 \<and> unat (first_page_table s) + 4096 \<le> 4194304 \<and>
     (unat (first_page_table s) + 4096 \<le> unat (page_directories s) \<or>
      unat (page_directories s) + 524288 \<le> unat (first_page_table s))"

lemma pd_of_unat:
  assumes "static_tables s" and "pid < 128"
  shows "unat (pd_of s pid) = unat (page_directories s) + 4096 * unat pid" "pd_of s pid AND 0xFFF = 0"
proof -
  have p: "unat pid < 128" using assms(2) by (simp add: word_less_nat_alt)
  have m: "unat (page_directories s) mod 4096 = 0" using assms(1) by (simp add: static_tables_def page_aligned_iff)
  have "unat (4 * (1024 * pid)) = 4096 * unat pid" using p by (simp add: unat_word_ariths)
  moreover have "unat (page_directories s) + 4096 * unat pid < 4294967296"
    using assms(1) p by (simp add: static_tables_def)
  ultimately show u: "unat (pd_of s pid) = unat (page_directories s) + 4096 * unat pid"
    by (simp add: pd_of_def unat_word_ariths)
  show "pd_of s pid AND 0xFFF = 0" using u m by (simp add: page_aligned_iff)
qed


lemma paging_init_fill:
  "paging_init s = enable_paging (load_page_directory (pd_of s 0)
     (pstore (pd_of s 0 + 4 * 1023) (pd_of s 0 OR 3)
       (pstore (pd_of s 0 + 4 * 0) (first_page_table s OR 3)
         (fill (first_page_table s) (\<lambda>i. i * 4096 OR 3) (u32_range 0 1024)
           (fill (pd_of s 0) (\<lambda>_. 2) (u32_range 0 1024) s)))))"
  by (simp add: paging_init_def fill_def Let_def)

lemma paging_init_entries:
  assumes "static_tables s"
  defines "s' \<equiv> paging_init s"
  shows "cr3 s' = pd_of s 0" "frame_bitmap s' = frame_bitmap s" "cr0 s' AND 0x80000000 \<noteq> 0"
    and "\<And>d. unat d < 1024 \<Longrightarrow>
      pde_at s' d = (if d = 1023 then pd_of s 0 OR 3 else if d = 0 then first_page_table s OR 3 else 2)"
    and "\<And>t. unat t < 1024 \<Longrightarrow> pte_at s' 0 t = t * 4096 OR 3"
proof -
  let ?pd = "pd_of s 0" and ?pt = "first_page_table s"
  have al: "?pd AND 0xFFF = 0" "?pt AND 0xFFF = 0"
    using pd_of_unat(2) [OF assms(1)] assms(1) by (auto simp: static_tables_def)
  have ne: "?pt \<noteq> ?pd"
  proof
    assume "?pt = ?pd"
    then have "unat ?pt = unat (page_directories s)" using pd_of_unat(1) [OF assms(1), of 0] by simp
    then show False using assms(1) by (auto simp: static_tables_def)
  qed
  have rng: "\<forall>i\<in>set (u32_range 0 1024). unat i < 1024" by (rule table_range) simp
  have inr: "i \<in> set (u32_range 0 1024)" if "unat i < 1024" for i
    using that by (simp add: u32_range_set word_less_nat_alt)
  show c: "cr3 s' = ?pd" and "frame_bitmap s' = frame_bitmap s"
    by (simp_all add: s'_def paging_init_fill enable_paging_def load_page_directory_def)
  have "cr0 s' = cr0 s OR 0x80000001"
    by (simp add: s'_def paging_init_fill enable_paging_def load_page_directory_def)
  moreover have "(x OR 0x80000001) AND (0x80000000 :: u32) \<noteq> 0" for x
    using test_exp_bit [of "x OR 0x80000001" 31] by (simp add: bit_or_iff)
  ultimately show "cr0 s' AND 0x80000000 \<noteq> 0" by simp
  have pm: "pmem s' (b + 4 * i) =
      (if b = ?pd \<and> i = 1023 then ?pd OR 3 else if b = ?pd \<and> i = 0 then ?pt OR 3
       else if b = ?pt then i * 4096 OR 3 else if b = ?pd then 2 else pmem s (b + 4 * i))"
    if "b AND 0xFFF = 0" "unat i < 1024" for b i
  proof -
    have "unat (1023 :: u32) < 1024" "unat (0 :: u32) < 1024" by simp_all
    note stores = this [THEN pmem_pstore_slot [OF al(1) _ that]]
    show ?thesis
      unfolding s'_def paging_init_fill pmem_control
      by (simp only: stores pmem_fill [OF al(2) that rng] pmem_fill [OF al(1) that rng] inr [OF that(2)] simp_thms)
  qed
  show pde: "pde_at s' d = (if d = 1023 then ?pd OR 3 else if d = 0 then ?pt OR 3 else 2)"
    if "unat d < 1024" for d
    using pm [OF al(1) that] ne by (simp add: pde_at_def c)
  show "pte_at s' 0 t = t * 4096 OR 3" if "unat t < 1024" for t
    using pde [of 0] pm [OF al(2) that] ne page_base_or3 [OF al(2)] by (simp add: pte_at_def)
qed


lemma static_not_free:
  assumes "pmm_inv bm" and "unat a < 4194304"
  shows "frame_no a \<notin> free_frames bm"
proof
  assume "frame_no a \<in> free_frames bm"
  with frames.frees_range [OF assms(1)] have "1024 \<le> frame_no a" by auto
  with assms(2) show False by (simp add: frame_no_def)
qed

lemma static_tables_below:
  assumes "static_tables s"
  shows "unat (first_page_table s) < 4194304" "pid < 128 \<Longrightarrow> unat (pd_of s pid) < 4194304"
    "pid < 128 \<Longrightarrow> first_page_table s \<noteq> pd_of s pid"
proof -
  show "unat (first_page_table s) < 4194304" using assms by (simp add: static_tables_def)
  assume "pid < 128"
  then have p: "unat pid < 128" "unat (pd_of s pid) = unat (page_directories s) + 4096 * unat pid"
    using pd_of_unat(1) [OF assms] by (auto simp: word_less_nat_alt)
  then show "unat (pd_of s pid) < 4194304" using assms by (simp add: static_tables_def)
  show "first_page_table s \<noteq> pd_of s pid"
  proof
    assume "first_page_table s = pd_of s pid"
    then show False using p assms by (auto simp: static_tables_def)
  qed
qed

lemma paging_init_wf:
  assumes "static_tables s" and "pmm_inv (frame_bitmap s)"
  shows "wf_mm (paging_init s)"
proof -
  let ?s = "paging_init s"
  note e = paging_init_entries [OF assms(1)] and low = static_tables_below [OF assms(1)]
  have al: "pd_of s 0 AND 0xFFF = 0" "first_page_table s AND 0xFFF = 0"
    using pd_of_unat(2) [OF assms(1)] assms(1) by (auto simp: static_tables_def)
  have base: "page_base (pd_of s 0 OR 3) = pd_of s 0" "page_base (first_page_table s OR 3) = first_page_table s"
    using page_base_or3 al by auto
  have here: "d = 0 \<or> d = 1023" if "unat d < 1024" "present (pde_at ?s d)" for d
    using that e(4) [OF that(1)] by (auto split: if_splits)
  show ?thesis
    unfolding wf_mm_def
  proof (intro conjI allI impI)
    show "frame_no (page_base (pde_at ?s d)) \<notin> free_frames (frame_bitmap ?s)"
      if "unat d < 1024" "present (pde_at ?s d)" for d
      using here [OF that] e(2,4) base low static_not_free [OF assms(2)] by auto
    show "page_base (pde_at ?s d) \<noteq> page_base (pde_at ?s d')"
      if "unat d < 1024" "unat d' < 1024" "d \<noteq> d'" "present (pde_at ?s d)" "present (pde_at ?s d')" for d d'
      using here [OF that(1,4)] here [OF that(2,5)] that(3) e(4) base low(3) [of 0] by auto
  qed (use e assms(2) al in \<open>simp_all\<close>)
qed

lemma identity_entry:
  assumes "unat va < 4194304"
  shows "dir_index va = 0" "page_base (tab_index va * 4096 OR 3) + (va AND 0xFFF) = va"
proof -
  show d: "dir_index va = 0" using assms by (simp only: word_unat_eq_iff index_unat) simp
  have t: "unat (tab_index va * 4096) = 4096 * unat (tab_index va)"
    using tab_index_lt [of va] by (simp add: unat_word_ariths)
  then have "unat (tab_index va * 4096) = unat (page_base va)" using page_base_indices [of va] d by simp
  then have e: "tab_index va * 4096 = page_base va" by (simp add: word_unat_eq_iff)
  show "page_base (tab_index va * 4096 OR 3) + (va AND 0xFFF) = va"
    unfolding e by (simp add: page_base_or3 page_base_split)
qed

lemma paging_init_walk:
  assumes "static_tables s" and "pmm_inv (frame_bitmap s)" and "unat (dir_index va) < 1023"
  shows "mmu_walk (paging_init s) va = (if unat va < 4194304 then Some va else None)"
proof (cases "unat va < 4194304")
  case True
  note e = paging_init_entries [OF assms(1)]
  from True show ?thesis
    using identity_entry [OF True] e(4) [of 0] e(5) [OF tab_index_lt, of va]
    by (simp add: mmu_walk_entries [OF paging_init_wf [OF assms(1,2)]] Let_def present_or)
next
  case False
  then have "1 \<le> unat va div 4194304" by (simp add: Suc_le_eq div_greater_zero_iff)
  then have "dir_index va \<noteq> 0" using index_unat(1) [of va] by auto
  moreover have "dir_index va \<noteq> 1023" using assms(3) by auto
  ultimately show ?thesis
    using False paging_init_entries(4) [OF assms(1) dir_index_lt, of va]
    by (simp add: mmu_walk_entries [OF paging_init_wf [OF assms(1,2)]] Let_def)
qed

lemma paging_init_page_inv:
  assumes "static_tables s" and "pmm_inv (frame_bitmap s)"
  shows "page_inv (paging_init s)" "mapped_pages (paging_init s) = {}"
proof -
  show e: "mapped_pages (paging_init s) = {}"
  proof -
    have "mmu_walk (paging_init s) va = None" if "kernel_page va" for va
    proof -
      have "\<not> unat va < 4194304" using that by (simp add: kernel_page_def word_le_nat_alt)
      then show ?thesis using paging_init_walk [OF assms kernel_page_index(2) [OF that]] by simp
    qed
    then show ?thesis by (auto simp: mapped_pages_def)
  qed
  then show "page_inv (paging_init s)"
    using paging_init_wf [OF assms] by (simp add: page_inv_def isolated_def)
qed

text \<open>A concrete boot state: directories at 1 MiB, first table at 2 MiB.\<close>

definition boot_mm :: "bitmap \<Rightarrow> mm" where
  "boot_mm bm = \<lparr>frame_bitmap = bm, pmem = \<lambda>_. 0, cr0 = 1, cr3 = 0, current_pid = 0,
     page_directories = 0x100000, first_page_table = 0x200000\<rparr>"

lemma boot_mm: "static_tables (boot_mm bm)" "frame_bitmap (boot_mm bm) = bm"
  by (simp_all add: boot_mm_def static_tables_def)


section \<open>The address space of a new process\<close>

lemma paging_proc_init_fill:
  assumes "static_tables s" and "pid < 128" and "pid \<noteq> 0"
  shows "paging_proc_init pid s = Inr (pd_of s pid,
     pstore (pd_of s pid + 4 * 1023) (pd_of s pid OR 3)
       (fill (pd_of s pid) (\<lambda>i. pmem s (pd_of s 0 + 4 * i)) (u32_range 768 1023)
         (pstore (pd_of s pid + 4 * 0) (pmem s (pd_of s 0 + 4 * 0))
           (fill (pd_of s pid) (\<lambda>_. 2) (u32_range 0 1024) s))))"
proof -
  let ?pd = "pd_of s pid" and ?p0 = "pd_of s 0"
  have al: "?pd AND 0xFFF = 0" "?p0 AND 0xFFF = 0" using pd_of_unat(2) [OF assms(1)] assms(2) by auto
  have "unat pid \<noteq> 0" using assms(3) by (simp add: unat_eq_zero)
  then have "unat ?pd \<noteq> unat ?p0"
    using pd_of_unat(1) [OF assms(1,2)] pd_of_unat(1) [OF assms(1), of 0] by simp
  then have ne: "?pd \<noteq> ?p0" by auto
  have all: "\<forall>i\<in>set (u32_range 0 1024). unat i < 1024" and hi: "\<forall>i\<in>set (u32_range 768 1023). unat i < 1024"
    by (rule table_range, simp)+
  let ?s1 = "fill ?pd (\<lambda>_. 2) (u32_range 0 1024) s"
  let ?s2 = "pstore (?pd + 4 * 0) (pmem s (?p0 + 4 * 0)) ?s1"
  have p0_1: "pmem ?s1 (?p0 + 4 * i) = pmem s (?p0 + 4 * i)" if "unat i < 1024" for i
    using pmem_fill [OF al that all] ne by simp
  have "pmem ?s2 (?p0 + 4 * i) = pmem s (?p0 + 4 * i)" if "unat i < 1024" for i
    using pmem_pstore_slot [OF al(1) _ al(2) that, of 0] p0_1 [OF that] ne by simp
  then have "fill ?pd (\<lambda>i. pmem ?s2 (?p0 + 4 * i)) (u32_range 768 1023) ?s2 =
      fill ?pd (\<lambda>i. pmem s (?p0 + 4 * i)) (u32_range 768 1023) ?s2"
    unfolding fill_def by (intro fold_cong) (use hi in auto)
  then show ?thesis
    using copy_is_fill [OF al ne hi, of ?s2] assms(2) p0_1 [of 0]
    by (simp add: paging_proc_init_def Let_def fill_def [symmetric] not_le [symmetric])
qed

text \<open>
  Slots 0 and 768 to 1022 (the identity map and the kernel half) are those of process 0, the user
  half is empty, the last slot maps the new directory; no other table changes.
\<close>

lemma paging_proc_init_entries:
  assumes "static_tables s" and "pid < 128" and "pid \<noteq> 0"
  obtains s' where "paging_proc_init pid s = Inr (pd_of s pid, s')" "same_regs s s'"
    "frame_bitmap s' = frame_bitmap s"
    "\<And>d. unat d < 1024 \<Longrightarrow> pmem s' (pd_of s pid + 4 * d) =
      (if d = 1023 then pd_of s pid OR 3 else if d = 0 \<or> 768 \<le> d then pmem s (pd_of s 0 + 4 * d) else 2)"
    "\<And>b t. b AND 0xFFF = 0 \<Longrightarrow> unat t < 1024 \<Longrightarrow> b \<noteq> pd_of s pid \<Longrightarrow> pmem s' (b + 4 * t) = pmem s (b + 4 * t)"
proof -
  let ?pd = "pd_of s pid"
  have al: "?pd AND 0xFFF = 0" using pd_of_unat(2) [OF assms(1,2)] .
  obtain s' where s': "paging_proc_init pid s = Inr (?pd, s')"
    "s' = pstore (?pd + 4 * 1023) (?pd OR 3)
       (fill ?pd (\<lambda>i. pmem s (pd_of s 0 + 4 * i)) (u32_range 768 1023)
         (pstore (?pd + 4 * 0) (pmem s (pd_of s 0 + 4 * 0)) (fill ?pd (\<lambda>_. 2) (u32_range 0 1024) s)))"
    using paging_proc_init_fill [OF assms] by blast
  have all: "\<forall>i\<in>set (u32_range 0 1024). unat i < 1024" and hi: "\<forall>i\<in>set (u32_range 768 1023). unat i < 1024"
    by (rule table_range, simp)+
  have c: "unat (1023 :: u32) < 1024" "unat (0 :: u32) < 1024" by simp_all
  have pm: "pmem s' (b + 4 * i) = (if b = ?pd \<and> i = 1023 then ?pd OR 3
      else if b = ?pd \<and> i \<in> set (u32_range 768 1023) then pmem s (pd_of s 0 + 4 * i)
      else if b = ?pd \<and> i = 0 then pmem s (pd_of s 0 + 4 * 0)
      else if b = ?pd \<and> i \<in> set (u32_range 0 1024) then 2 else pmem s (b + 4 * i))"
    if "b AND 0xFFF = 0" "unat i < 1024" for b i
    unfolding s'(2)
    by (simp only: c [THEN pmem_pstore_slot [OF al _ that]] pmem_fill [OF al that all] pmem_fill [OF al that hi])
  show thesis
  proof (rule that [OF s'(1)])
    show "same_regs s s'" "frame_bitmap s' = frame_bitmap s" by (simp_all add: s'(2) same_regs_def)
    show "pmem s' (?pd + 4 * d) =
      (if d = 1023 then ?pd OR 3 else if d = 0 \<or> 768 \<le> d then pmem s (pd_of s 0 + 4 * d) else 2)"
      if "unat d < 1024" for d
    proof -
      have "d < 1023 \<longleftrightarrow> d \<noteq> 1023" using that by (auto simp: word_less_nat_alt word_unat_eq_iff)
      moreover have "d < 1024" using that by (simp add: word_less_nat_alt)
      ultimately show ?thesis using pm [OF al that] by (auto simp: u32_range_set)
    qed
    show "pmem s' (b + 4 * t) = pmem s (b + 4 * t)" if "b AND 0xFFF = 0" "unat t < 1024" "b \<noteq> ?pd" for b t
      using pm [OF that(1,2)] that(3) by simp
  qed
qed

text \<open>
  After the switch to it, the new address space satisfies the invariant of the current address
  space, sees process 0's kernel half and identity map, and has no user page.
\<close>

definition shared_half :: "u32 \<Rightarrow> bool" where
  "shared_half va \<longleftrightarrow> dir_index va = 0 \<or> 768 \<le> unat (dir_index va) \<and> unat (dir_index va) < 1023"

lemma new_process_space:
  assumes "static_tables s" and "pid < 128" and "pid \<noteq> 0"
    and wf0: "wf_mm (load_page_directory (pd_of s 0) s)"
    and tabs: "\<And>d. unat d < 1023 \<Longrightarrow> present (pde_at (load_page_directory (pd_of s 0) s) d) \<Longrightarrow>
      page_base (pde_at (load_page_directory (pd_of s 0) s) d) \<noteq> pd_of s pid"
  shows "\<exists>s1 s2. paging_proc_init pid s = Inr (pd_of s pid, s1) \<and> paging_proc_switch pid s1 = Inr s2 \<and>
    wf_mm s2 \<and> cr3 s2 = pd_of s pid \<and> current_pid s2 = pid \<and>
    (\<forall>va. unat (dir_index va) < 1023 \<longrightarrow> mmu_walk s2 va =
      (if shared_half va then mmu_walk (load_page_directory (pd_of s 0) s) va else None))"
proof -
  let ?pd = "pd_of s pid" and ?s0 = "load_page_directory (pd_of s 0) s"
  from paging_proc_init_entries [OF assms(1-3)] obtain s1 where
    s1: "paging_proc_init pid s = Inr (?pd, s1)" "same_regs s s1" "frame_bitmap s1 = frame_bitmap s"
    and pd: "\<And>d. unat d < 1024 \<Longrightarrow> pmem s1 (?pd + 4 * d) =
      (if d = 1023 then ?pd OR 3 else if d = 0 \<or> 768 \<le> d then pmem s (pd_of s 0 + 4 * d) else 2)"
    and oth: "\<And>b t. b AND 0xFFF = 0 \<Longrightarrow> unat t < 1024 \<Longrightarrow> b \<noteq> ?pd \<Longrightarrow> pmem s1 (b + 4 * t) = pmem s (b + 4 * t)"
    by blast
  have al: "?pd AND 0xFFF = 0" using pd_of_unat(2) [OF assms(1,2)] .
  define s2 where "s2 = s1\<lparr>current_pid := pid, cr3 := ?pd\<rparr>"
  have sw: "paging_proc_switch pid s1 = Inr s2"
    using assms(2) s1(2) by (simp add: paging_proc_switch_def load_page_directory_def s2_def pd_of_def same_regs_def
      not_le [symmetric])
  have regs: "cr0 s2 = cr0 ?s0" "frame_bitmap s2 = frame_bitmap ?s0" "cr3 s2 = ?pd"
    using s1(2,3) by (simp_all add: s2_def same_regs_def load_page_directory_def)
  have pde: "pde_at s2 d = (if d = 1023 then ?pd OR 3 else if d = 0 \<or> 768 \<le> d then pde_at ?s0 d else 2)"
    if "unat d < 1024" for d
    using pd [OF that] by (simp add: pde_at_def s2_def load_page_directory_def)
  have base: "page_base (?pd OR 3) = ?pd" using al by (rule page_base_or3)
  have live: "d = 1023 \<or> unat d < 1023 \<and> pde_at s2 d = pde_at ?s0 d \<and> present (pde_at ?s0 d)"
    if "unat d < 1024" "present (pde_at s2 d)" for d
  proof -
    have "d = 1023 \<or> unat d < 1023" using that(1) by (auto simp: word_unat_eq_iff)
    with that(2) pde [OF that(1)] show ?thesis by (auto split: if_splits)
  qed
  have free: "frame_no ?pd \<notin> free_frames (frame_bitmap ?s0)"
    using static_not_free [OF wf_mmD(1) [OF wf0]] static_tables_below(2) [OF assms(1,2)] by blast
  have "wf_mm s2"
    unfolding wf_mm_def regs
  proof (intro conjI allI impI)
    show "pde_at s2 1023 = ?pd OR 3" using pde [of 1023] by simp
    show "frame_no (page_base (pde_at s2 d)) \<notin> free_frames (frame_bitmap ?s0)"
      if "unat d < 1024" "present (pde_at s2 d)" for d
      using live [OF that] free base wf_mmD(5) [OF wf0 that(1)] \<open>pde_at s2 1023 = ?pd OR 3\<close> by auto
    show "page_base (pde_at s2 d) \<noteq> page_base (pde_at s2 d')"
      if "unat d < 1024" "unat d' < 1024" "d \<noteq> d'" "present (pde_at s2 d)" "present (pde_at s2 d')" for d d'
      using live [OF that(1,4)] live [OF that(2,5)] that(3) tabs [of d] tabs [of d'] base
        wf_mmD(6) [OF wf0 that(1-3)] \<open>pde_at s2 1023 = ?pd OR 3\<close> by auto
  qed (use wf_mmD [OF wf0] al in simp_all)
  moreover have "mmu_walk s2 va = (if shared_half va then mmu_walk ?s0 va else None)"
    if va: "unat (dir_index va) < 1023" for va
  proof -
    have n: "dir_index va \<noteq> 1023" using va by auto
    have sh: "shared_half va \<longleftrightarrow> dir_index va = 0 \<or> 768 \<le> dir_index va"
      using va by (auto simp: shared_half_def word_le_nat_alt)
    have "pte_at s2 (dir_index va) (tab_index va) = pte_at ?s0 (dir_index va) (tab_index va)"
      if "shared_half va" "present (pde_at ?s0 (dir_index va))"
      using oth [OF _ tab_index_lt tabs [OF va that(2)], of va] pde [OF dir_index_lt, of va] that(1) sh n
      by (simp add: pte_at_def) (simp add: s2_def load_page_directory_def)
    then show ?thesis
      using pde [OF dir_index_lt, of va] n sh
      by (auto simp: mmu_walk_entries [OF \<open>wf_mm s2\<close>] mmu_walk_entries [OF wf0] Let_def)
  qed
  ultimately show ?thesis using s1(1) sw by (auto simp: s2_def)
qed

section \<open>Properties\<close>

definition boot_space :: mm where
  "boot_space = paging_init (boot_mm one_free)"

lemma boot_space: "page_inv boot_space" "wf_mm boot_space" "mapped_pages boot_space = {}"
  "free_frames (frame_bitmap boot_space) = {1024}"
  using paging_init_page_inv [of "boot_mm one_free"] paging_init_entries(2) [of "boot_mm one_free"]
    boot_mm one_free by (auto simp: boot_space_def page_inv_def)

definition boot_full :: mm where
  "boot_full = paging_init (boot_mm (bitmap_of {1024..<16384}))"

lemma boot_full: "page_inv boot_full" "mapped_pages boot_full = {}"
  "free_frames (frame_bitmap boot_full) = {1024..<16384}"
proof -
  have "{1024..<16384} \<subseteq> {..<16384::nat}" by auto
  note bm = bitmap_of [OF this]
  then have "pmm_inv (bitmap_of {1024..<16384})" by (simp add: pmm_inv_free)
  then show "page_inv boot_full" "mapped_pages boot_full = {}"
    "free_frames (frame_bitmap boot_full) = {1024..<16384}"
    using paging_init_page_inv [of "boot_mm (bitmap_of {1024..<16384})"]
      paging_init_entries(2) [of "boot_mm (bitmap_of {1024..<16384})"] boot_mm bm
    by (auto simp: boot_full_def)
qed

lemma kernel_page_d0: "kernel_page 0xD0000000"
  by (simp add: kernel_page_def)

text \<open>
  \<open>paging_init\<close> turns paging on over a directory that identity-maps the first 4 MiB and nothing
  else below the recursive window, and establishes the invariant of the address space.
\<close>

theorem paging_init_identity:
  assumes "static_tables s" and "pmm_inv (frame_bitmap s)"
  shows "page_inv (paging_init s) \<and>
    (\<forall>va. va < 0xFFC00000 \<longrightarrow> mmu_walk (paging_init s) va = (if va < 0x400000 then Some va else None))"
proof (intro conjI allI impI)
  show "page_inv (paging_init s)" using paging_init_page_inv(1) [OF assms] .
  fix va :: u32 assume "va < 0xFFC00000"
  then have "unat va div 4194304 < 1023" by (simp add: word_less_nat_alt)
  then have "unat (dir_index va) < 1023" by (simp only: index_unat)
  from paging_init_walk [OF assms this]
  show "mmu_walk (paging_init s) va = (if va < 0x400000 then Some va else None)"
    by (simp add: word_less_nat_alt)
qed

theorem paging_init_identity_witness:
  "mmu_walk (paging_init (boot_mm one_free)) 0x1234 = Some 0x1234 \<and>
   mmu_walk (paging_init (boot_mm one_free)) 0x400000 = None"
  using paging_init_identity [of "boot_mm one_free"] boot_mm one_free(1) by simp

text \<open>
  C18. Through the recursive window \<open>get_physaddr\<close> computes what the hardware walk computes, 0 where
  the hardware would fault; it never faults itself.
\<close>

theorem get_physaddr_is_hardware_walk:
  assumes "wf_mm s"
  shows "get_physaddr s va = Inr (case mmu_walk s va of None \<Rightarrow> 0 | Some pa \<Rightarrow> pa)"
  using get_physaddr_walk [OF assms] .

theorem get_physaddr_is_hardware_walk_witness:
  "get_physaddr boot_space 0x1234 = Inr 0x1234"
  using get_physaddr_is_hardware_walk [OF boot_space(2), of "0x1234"]
    paging_init_walk [of "boot_mm one_free" "0x1234"] boot_mm one_free(1)
  by (simp add: boot_space_def index_unat)

text \<open>
  C17. \<open>map_page\<close> of an aligned page maps that page to the given frame and leaves the translation of
  every other page below the recursive window as it was, also when it has to add a page table, which
  costs exactly one free frame; with no frame left for the table it changes nothing.
\<close>

theorem map_page_maps_exactly_one_page:
  assumes "wf_mm s" and "physaddr AND 0xFFF = 0" and "va AND 0xFFF = 0" and "unat (dir_index va) < 1023"
  shows "\<exists>s'. map_page physaddr va flags s = Inr s' \<and> wf_mm s' \<and>
    (if present (pde_at s (dir_index va)) \<or> free_frames (frame_bitmap s) \<noteq> {}
     then (\<forall>v. unat (dir_index v) < 1023 \<longrightarrow> mmu_walk s' v =
             (if page_base v = va then Some (physaddr + (v AND 0xFFF)) else mmu_walk s v)) \<and>
          card (free_frames (frame_bitmap s)) =
            card (free_frames (frame_bitmap s')) + (if present (pde_at s (dir_index va)) then 0 else 1)
     else s' = s)"
proof -
  let ?p = "present (pde_at s (dir_index va))" and ?F = "free_frames (frame_bitmap s)"
  from map_page_spec [OF assms, of flags] obtain s' where s': "map_page physaddr va flags s = Inr s'"
    "if ?p \<or> ?F \<noteq> {} then wf_mm s' \<and> same_regs s s' \<and> remapped va (Some physaddr) s s' \<and>
       (if ?p then frame_bitmap s' = frame_bitmap s \<and> table_frames s' = table_frames s
        else \<exists>f\<in>?F. free_frames (frame_bitmap s') = ?F - {f} \<and> table_frames s' = insert f (table_frames s))
     else s' = s" by (elim exE conjE)
  show ?thesis
  proof (cases "?p \<or> ?F \<noteq> {}")
    case True
    note m = s'(2) [unfolded if_P [OF True]]
    have "card ?F = card (free_frames (frame_bitmap s')) + (if ?p then 0 else 1)"
    proof (cases ?p)
      case False
      with m obtain f where f: "f \<in> ?F" "free_frames (frame_bitmap s') = ?F - {f}" by auto
      with False card_Suc_Diff1 [OF finite_free_frames f(1)] show ?thesis by simp
    qed (use m in simp)
    with m s'(1) True show ?thesis by (auto simp: remapped_def)
  next
    case False
    with s' assms(1) show ?thesis by (intro exI [of _ s']) simp
  qed
qed

theorem map_page_maps_exactly_one_page_witness:
  "\<exists>s'. map_page 0x5000 0xD0000000 3 boot_space = Inr s' \<and> mmu_walk s' 0xD0000010 = Some 0x5010 \<and>
     mmu_walk s' 0x1234 = Some 0x1234"
proof -
  have d: "unat (dir_index 0xD0000000) < 1023" "unat (dir_index 0xD0000010) < 1023" "unat (dir_index 0x1234) < 1023"
    by (simp_all only: index_unat) simp_all
  have w: "mmu_walk boot_space 0x1234 = Some 0x1234"
    using paging_init_walk [of "boot_mm one_free" "0x1234"] boot_mm one_free(1) d(3) by (simp add: boot_space_def)
  have b: "page_base 0xD0000010 = 0xD0000000" "page_base 0x1234 \<noteq> 0xD0000000" by (simp_all add: page_base_def del: and_neg_page)
  have "free_frames (frame_bitmap boot_space) \<noteq> {}" using boot_space(4) by simp
  with map_page_maps_exactly_one_page [OF boot_space(2), of "0x5000" "0xD0000000" 3] d(1) obtain s' where
    s': "map_page 0x5000 0xD0000000 3 boot_space = Inr s'"
    "\<forall>v. unat (dir_index v) < 1023 \<longrightarrow> mmu_walk s' v =
             (if page_base v = 0xD0000000 then Some (0x5000 + (v AND 0xFFF)) else mmu_walk boot_space v)"
    by auto
  from s'(2) d(2,3) b w have "mmu_walk s' 0xD0000010 = Some 0x5010" "mmu_walk s' 0x1234 = Some 0x1234" by simp_all
  with s'(1) show ?thesis by blast
qed

text \<open>
  C16. \<open>alloc_page\<close> on an unmapped kernel page either maps exactly that page, to a frame that was
  free, that no other kernel page shares and that holds no page table, or returns NULL with the
  whole state, frame bitmap included, as it was; NULL only when the frames do not suffice.
\<close>

theorem alloc_page_fresh_or_unchanged:
  assumes "page_inv s" and "kernel_page va" and "va \<notin> mapped_pages s"
  shows "\<exists>r s'. alloc_page va flags s = Inr (r, s') \<and> page_inv s' \<and>
    (r = 0 \<and> s' = s \<and> card (free_frames (frame_bitmap s)) < page_frames_needed va s \<or>
     r = va \<and> mapped_pages s' = insert va (mapped_pages s) \<and>
       card (free_frames (frame_bitmap s)) = card (free_frames (frame_bitmap s')) + page_frames_needed va s)"
  using alloc_page_kernel [OF assms] .

theorem alloc_page_fresh_or_unchanged_witness:
  "alloc_page 0xD0000000 3 boot_space = Inr (0, boot_space)"
proof -
  have "dir_index 0xD0000000 = (832 :: u32)" by (simp only: word_unat_eq_iff index_unat) simp
  then have "page_frames_needed 0xD0000000 boot_space = 2"
    using paging_init_entries(4) [of "boot_mm one_free" 832] boot_mm
    by (simp add: page_frames_needed_def boot_space_def)
  with alloc_page_fresh_or_unchanged [OF boot_space(1) kernel_page_d0, of 3] boot_space(3,4)
  show ?thesis by auto
qed

text \<open>
  Allocating a kernel page and freeing it restores the translation of every kernel page; all
  frames come back except one per page table that had to be created.
\<close>

theorem alloc_free_page_roundtrip:
  assumes "page_inv s" and "kernel_page va" and "va \<notin> mapped_pages s" and "alloc_page va flags s = Inr (va, s1)"
  shows "\<exists>s2. free_page va s1 = Inr s2 \<and> page_inv s2 \<and>
    (\<forall>v. kernel_page v \<longrightarrow> mmu_walk s2 v = mmu_walk s v) \<and>
    card (free_frames (frame_bitmap s)) + 1 = card (free_frames (frame_bitmap s2)) + page_frames_needed va s"
  using alloc_free_page [OF assms] .

theorem alloc_free_page_roundtrip_witness:
  "\<exists>s1 s2. alloc_page 0xD0000000 3 boot_full = Inr (0xD0000000, s1) \<and> free_page 0xD0000000 s1 = Inr s2 \<and>
     (\<forall>v. kernel_page v \<longrightarrow> mmu_walk s2 v = None)"
proof -
  have "page_frames_needed 0xD0000000 boot_full \<le> 2" by (simp add: page_frames_needed_def)
  then have "\<not> card (free_frames (frame_bitmap boot_full)) < page_frames_needed 0xD0000000 boot_full"
    by (simp add: boot_full(3))
  with alloc_page_kernel [OF boot_full(1) kernel_page_d0, of 3] boot_full(2) obtain s1 where
    s1: "alloc_page 0xD0000000 3 boot_full = Inr (0xD0000000, s1)" by auto
  have none: "\<forall>v. kernel_page v \<longrightarrow> mmu_walk boot_full v = None" using boot_full(2) by (auto simp: mapped_pages_def)
  from alloc_free_page_roundtrip [OF boot_full(1) kernel_page_d0 _ s1] boot_full(2) none s1 show ?thesis by auto
qed

text \<open>
  A new process's directory, once switched to, is a well-formed address space in which the
  identity map and the kernel half translate as in process 0 and every user page is unmapped.
\<close>

theorem paging_proc_init_shares_kernel_half:
  assumes "static_tables s" and "pid < 128" and "pid \<noteq> 0"
    and "wf_mm (load_page_directory (pd_of s 0) s)"
    and "\<And>d. unat d < 1023 \<Longrightarrow> present (pde_at (load_page_directory (pd_of s 0) s) d) \<Longrightarrow>
      page_base (pde_at (load_page_directory (pd_of s 0) s) d) \<noteq> pd_of s pid"
  shows "\<exists>s1 s2. paging_proc_init pid s = Inr (pd_of s pid, s1) \<and> paging_proc_switch pid s1 = Inr s2 \<and>
    wf_mm s2 \<and> cr3 s2 = pd_of s pid \<and> current_pid s2 = pid \<and>
    (\<forall>va. unat (dir_index va) < 1023 \<longrightarrow> mmu_walk s2 va =
      (if shared_half va then mmu_walk (load_page_directory (pd_of s 0) s) va else None))"
  using new_process_space [OF assms] .

theorem paging_proc_init_shares_kernel_half_witness:
  "\<exists>s1 s2. paging_proc_init 1 boot_space = Inr (0x101000, s1) \<and> paging_proc_switch 1 s1 = Inr s2 \<and>
     mmu_walk s2 0x1234 = Some 0x1234 \<and> mmu_walk s2 0x08048000 = None"
proof -
  have cr: "cr3 boot_space = 0x100000" and regs: "page_directories boot_space = 0x100000"
      "first_page_table boot_space = 0x200000"
    by (simp_all add: boot_space_def paging_init_fill enable_paging_def load_page_directory_def pd_of_def boot_mm_def)
  have st: "static_tables boot_space" by (simp add: static_tables_def regs)
  have ld: "load_page_directory (pd_of boot_space 0) boot_space = boot_space"
    using cr by (simp add: load_page_directory_def pd_of_def regs)
  have tabs: "page_base (pde_at boot_space d) \<noteq> pd_of boot_space 1"
    if "unat d < 1023" "present (pde_at boot_space d)" for d
  proof -
    have "pde_at boot_space d = 0x200003"
      using paging_init_entries(4) [of "boot_mm one_free" d] boot_mm(1) that
      by (auto simp: boot_space_def boot_mm_def split: if_splits)
    then show ?thesis by (simp add: page_base_def pd_of_def regs del: and_neg_page)
  qed
  have i: "dir_index 0x1234 = (0 :: u32)" "unat (dir_index 0x1234) < 1023"
      "unat (dir_index 0x08048000) < 1023" "\<not> shared_half 0x08048000" "shared_half 0x1234"
    by (simp_all only: shared_half_def word_unat_eq_iff index_unat) simp_all
  have w: "mmu_walk boot_space 0x1234 = Some 0x1234"
    using paging_init_walk [of "boot_mm one_free" "0x1234"] boot_mm one_free(1) i by (simp add: boot_space_def)
  have p1: "pd_of boot_space 1 = 0x101000" by (simp add: pd_of_def regs)
  from paging_proc_init_shares_kernel_half [OF st, of 1, unfolded ld p1] boot_space(2) tabs [unfolded p1] i w
  show ?thesis by auto
qed

text \<open>
  On an address that is not page-aligned but lies in a mapped page, \<open>alloc_page\<close> reports success
  although nothing was mapped, and the frame it took is lost.
\<close>

theorem alloc_page_unaligned_leaks:
  assumes "wf_mm s" and "va AND 0xFFF \<noteq> 0" and "mmu_walk s va = Some pa" and "pa \<noteq> 0"
    and "free_frames (frame_bitmap s) \<noteq> {}"
  shows "\<exists>s'. alloc_page va flags s = Inr (va, s') \<and> mmu_walk s' = mmu_walk s \<and>
    card (free_frames (frame_bitmap s)) = Suc (card (free_frames (frame_bitmap s')))"
proof -
  let ?F = "free_frames (frame_bitmap s)"
  have inv: "pmm_inv (frame_bitmap s)" using wf_mmD(1) [OF assms(1)] .
  obtain f bm where f: "f \<in> ?F" "phys_alloc_frame (frame_bitmap s) = Inr (of_nat f * 4096, bm)"
    "pmm_inv bm" "free_frames bm = ?F - {f}"
    using frames.alloc_some [OF inv assms(5)] by blast
  have fr: "f \<in> {1024..<16384}" using frames.frees_range [OF inv] f(1) by blast
  let ?s1 = "s\<lparr>frame_bitmap := bm\<rparr>"
  have wf1: "wf_mm ?s1" by (rule wf_mm_shrink [OF assms(1) f(3)]) (use f(4) in auto)
  have "map_page (of_nat f * 4096) va flags ?s1 = Inr ?s1" using assms(2) by (simp add: map_page_def)
  then have "alloc_page va flags s = Inr (va, ?s1)"
    using f(2) frames.frame_addr_nonnull [OF fr] get_physaddr_walk [OF wf1, of va] assms(3,4)
    by (simp add: alloc_page_def)
  moreover have "card ?F = Suc (card (free_frames (frame_bitmap ?s1)))"
    using f(1,4) card_Suc_Diff1 [OF finite_free_frames f(1)] by simp
  ultimately show ?thesis by (auto simp: fun_eq_iff)
qed

theorem alloc_page_unaligned_leaks_witness:
  "\<exists>s'. alloc_page 0x1234 3 boot_space = Inr (0x1234, s') \<and> free_frames (frame_bitmap s') = {}"
proof -
  have w: "mmu_walk boot_space 0x1234 = Some 0x1234"
    using paging_init_walk [of "boot_mm one_free" "0x1234"] boot_mm one_free(1)
    by (simp add: boot_space_def index_unat)
  from alloc_page_unaligned_leaks [OF boot_space(2) _ w, of 3] boot_space(4) obtain s' where
    "alloc_page 0x1234 3 boot_space = Inr (0x1234, s')" "card {1024::nat} = Suc (card (free_frames (frame_bitmap s')))"
    by auto
  then show ?thesis by auto
qed

end
