(* ===== verification/Kmem_Dyn_Alloc.thy ===== *)
theory Kmem_Dyn_Alloc
  imports Address_Space
begin

text \<open>
  The general-purpose kernel heap, \<open>src/src/memory/kmem_dyn_alloc.c\<close>: a doubly linked list of block
  headers threaded through the heap pages, first-fit allocation with splitting, coalescing on free
  and growth by whole pages. Headers live in a store indexed by their address; a pointer to an
  address where no header was ever written is \<open>BadPointer\<close>. Headers that a merge absorbs stay in the
  store, as they stay in memory. The log lines of the initialisation are left out.
\<close>

section \<open>State\<close>

record kmem_block =
  bsize :: u32
  bused :: u32
  bnext :: u32
  bprev :: u32

record kmem =
  kmem_heap_head :: u32
  kmem_heap_end :: u32
  kblocks :: "u32 \<Rightarrow> kmem_block option"

abbreviation (input) KHEAP_VIRT_BASE :: u32 where "KHEAP_VIRT_BASE \<equiv> 0xC0000000"
abbreviation (input) KHEAP_VIRT_MAX :: u32 where "KHEAP_VIRT_MAX \<equiv> 0xCFFFFFFF"
abbreviation (input) BLOCK_HDR :: u32 where "BLOCK_HDR \<equiv> 16"
abbreviation (input) BLOCK_MIN :: u32 where "BLOCK_MIN \<equiv> 24"

definition ALIGN8 :: "u32 \<Rightarrow> u32" where
  "ALIGN8 sz = (sz + 7) AND NOT 7"

definition hdr :: "u32 \<Rightarrow> kmem \<Rightarrow> kmem_block res" where
  "hdr p k = of_option (BadPointer p) (kblocks k p)"

definition put_hdr :: "u32 \<Rightarrow> kmem_block \<Rightarrow> kmem \<Rightarrow> kmem" where
  "put_hdr p b k = k\<lparr>kblocks := (kblocks k)(p \<mapsto> b)\<rparr>"

text \<open>\<open>if (nx) nx->prev = v\<close>, which the code does after each change of a successor.\<close>

definition set_prev :: "u32 \<Rightarrow> u32 \<Rightarrow> kmem \<Rightarrow> kmem res" where
  "set_prev nx v k =
     (if nx \<noteq> 0 then bnd (hdr nx k) (\<lambda>n. Inr (put_hdr nx (n\<lparr>bprev := v\<rparr>) k)) else Inr k)"

section \<open>Operations\<close>

text \<open>The walk to the last block (\<open>last\<close>, 0 for NULL).\<close>

partial_function (option) last_block :: "kmem \<Rightarrow> u32 \<Rightarrow> u32 \<Rightarrow> u32 res option" where
  "last_block k lst cur =
     (if cur = 0 then Some (Inr lst)
      else case kblocks k cur of None \<Rightarrow> Some (Inl (BadPointer cur))
           | Some b \<Rightarrow> last_block k cur (bnext b))"

text \<open>The first-fit search.\<close>

partial_function (option) find_fit :: "kmem \<Rightarrow> u32 \<Rightarrow> u32 \<Rightarrow> u32 res option" where
  "find_fit k sz blk =
     (if blk = 0 then Some (Inr 0)
      else case kblocks k blk of None \<Rightarrow> Some (Inl (BadPointer blk))
           | Some b \<Rightarrow> if bused b = 0 \<and> bsize b \<ge> sz then Some (Inr blk) else find_fit k sz (bnext b))"

definition grow_page :: "u32 \<Rightarrow> u32 \<Rightarrow> mm \<Rightarrow> mm res" where
  "grow_page heap_end i s =
     bnd (alloc_page (heap_end + i * PAGE_SIZE) (PAGE_PRESENT OR PAGE_RW) s) (\<lambda>(r, s).
     if r = 0 then Inl (Kpanic ''kmem_dyn_alloc: alloc_page failed in heap_grow'') else Inr s)"

text \<open>The list surgery of \<open>kmem_heap_grow\<close> once the pages are there.\<close>

definition append_region :: "u32 \<Rightarrow> kmem \<Rightarrow> kmem res" where
  "append_region amount k =
     bnd (loop_res (last_block k 0 (kmem_heap_head k))) (\<lambda>lst.
     bnd (if lst = 0 then Inr False
          else bnd (hdr lst k) (\<lambda>b. Inr (bused b = 0 \<and> lst + BLOCK_HDR + bsize b = kmem_heap_end k)))
       (\<lambda>extend.
     bnd (if extend then
            bnd (hdr lst k) (\<lambda>b. Inr (put_hdr lst (b\<lparr>bsize := bsize b + amount\<rparr>) k))
          else
            let blk = kmem_heap_end k;
                k = put_hdr blk \<lparr>bsize = amount - BLOCK_HDR, bused = 0, bnext = 0, bprev = lst\<rparr> k in
            if lst \<noteq> 0 then bnd (hdr lst k) (\<lambda>b. Inr (put_hdr lst (b\<lparr>bnext := blk\<rparr>) k))
            else Inr (k\<lparr>kmem_heap_head := blk\<rparr>)) (\<lambda>k.
     Inr (k\<lparr>kmem_heap_end := kmem_heap_end k + amount\<rparr>))))"

definition kmem_heap_grow :: "u32 \<Rightarrow> kmem \<Rightarrow> mm \<Rightarrow> (kmem \<times> mm) res" where
  "kmem_heap_grow nbytes k s =
     (let pages0 = (nbytes + BLOCK_HDR + PAGE_SIZE - 1) div PAGE_SIZE;
          pages = (if pages0 = 0 then 1 else pages0);
          amount = pages * PAGE_SIZE in
      if kmem_heap_end k + amount > KHEAP_VIRT_MAX
      then Inl (Kpanic ''kmem_dyn_alloc: kernel heap limit reached'')
      else
        bnd (for_each (grow_page (kmem_heap_end k)) (u32_range 0 pages) s) (\<lambda>s.
        bnd (append_region amount k) (\<lambda>k. Inr (k, s))))"

definition kmem_dyn_alloc_init :: "kmem \<Rightarrow> mm \<Rightarrow> (kmem \<times> mm) res" where
  "kmem_dyn_alloc_init k s =
     kmem_heap_grow 0 (k\<lparr>kmem_heap_head := 0, kmem_heap_end := KHEAP_VIRT_BASE\<rparr>) s"

definition kmem_brk :: "u32 \<Rightarrow> kmem \<Rightarrow> mm \<Rightarrow> (u32 \<times> kmem \<times> mm) res" where
  "kmem_brk nbytes k s =
     (if nbytes = 0 then Inr (kmem_heap_end k, k, s)
      else bnd (kmem_heap_grow nbytes k s) (\<lambda>(k, s). Inr (kmem_heap_end k, k, s)))"

text \<open>The second half of \<open>kmem_alloc\<close>: split the chosen block when the rest can hold a block.\<close>

definition take_block :: "u32 \<Rightarrow> u32 \<Rightarrow> kmem \<Rightarrow> (u32 \<times> kmem) res" where
  "take_block blk sz k =
     bnd (hdr blk k) (\<lambda>b.
     bnd (if bsize b \<ge> sz + BLOCK_MIN then
            let split = blk + BLOCK_HDR + sz;
                k = put_hdr split \<lparr>bsize = bsize b - sz - BLOCK_HDR, bused = 0, bnext = bnext b, bprev = blk\<rparr> k in
            bnd (set_prev (bnext b) split k) (\<lambda>k.
            Inr (put_hdr blk (b\<lparr>bnext := split, bsize := sz\<rparr>) k))
          else Inr k) (\<lambda>k.
     bnd (hdr blk k) (\<lambda>b. Inr (blk + BLOCK_HDR, put_hdr blk (b\<lparr>bused := 1\<rparr>) k))))"

definition kmem_alloc :: "u32 \<Rightarrow> kmem \<Rightarrow> mm \<Rightarrow> (u32 \<times> kmem \<times> mm) res" where
  "kmem_alloc sz0 k s =
     (if sz0 = 0 then Inr (0, k, s)
      else let sz = ALIGN8 sz0 in
        bnd (loop_res (find_fit k sz (kmem_heap_head k))) (\<lambda>blk.
        bnd (if blk \<noteq> 0 then Inr (blk, k, s)
             else bnd (kmem_heap_grow sz k s) (\<lambda>(k, s).
                  bnd (loop_res (find_fit k sz (kmem_heap_head k))) (\<lambda>blk.
                  if blk = 0 then Inl (Kpanic ''kmem_dyn_alloc: out of memory'') else Inr (blk, k, s))))
          (\<lambda>(blk, k, s).
        bnd (take_block blk sz k) (\<lambda>(p, k). Inr (p, k, s)))))"

text \<open>The two halves of the coalescing in \<open>kmem_free\<close>: absorb a free successor, be absorbed by a free predecessor.\<close>

definition merge_next :: "u32 \<Rightarrow> kmem \<Rightarrow> kmem res" where
  "merge_next blk k =
     bnd (hdr blk k) (\<lambda>b.
     if bnext b = 0 then Inr k
     else bnd (hdr (bnext b) k) (\<lambda>nxt.
          if bused nxt \<noteq> 0 then Inr k
          else set_prev (bnext nxt) blk
                 (put_hdr blk (b\<lparr>bsize := bsize b + (BLOCK_HDR + bsize nxt), bnext := bnext nxt\<rparr>) k)))"

definition merge_prev :: "u32 \<Rightarrow> kmem \<Rightarrow> kmem res" where
  "merge_prev blk k =
     bnd (hdr blk k) (\<lambda>b.
     if bprev b = 0 then Inr k
     else bnd (hdr (bprev b) k) (\<lambda>prv.
          if bused prv \<noteq> 0 then Inr k
          else set_prev (bnext b) (bprev b)
                 (put_hdr (bprev b) (prv\<lparr>bsize := bsize prv + (BLOCK_HDR + bsize b), bnext := bnext b\<rparr>) k)))"

definition kmem_free :: "u32 \<Rightarrow> kmem \<Rightarrow> kmem res" where
  "kmem_free addr k =
     (if addr = 0 then Inr k
      else let blk = addr - BLOCK_HDR in
        bnd (hdr blk k) (\<lambda>b.
        if bused b = 0 then Inl (Kpanic ''kmem_free: double free detected'')
        else bnd (merge_next blk (put_hdr blk (b\<lparr>bused := 0\<rparr>) k)) (merge_prev blk)))"

definition kmem_size :: "u32 \<Rightarrow> kmem \<Rightarrow> u32 res" where
  "kmem_size addr k =
     (if addr = 0 then Inr 0 else bnd (hdr (addr - BLOCK_HDR) k) (\<lambda>b. Inr (bsize b)))"

record kmem_stats =
  heap_end :: u32
  total_blocks :: u32
  used_blocks :: u32
  free_blocks :: u32
  used_bytes :: u32
  free_bytes :: u32

partial_function (option) query_walk :: "kmem \<Rightarrow> u32 \<Rightarrow> kmem_stats \<Rightarrow> kmem_stats res option" where
  "query_walk k blk st =
     (if blk = 0 then Some (Inr st)
      else case kblocks k blk of None \<Rightarrow> Some (Inl (BadPointer blk))
           | Some b \<Rightarrow>
               let st = st\<lparr>total_blocks := total_blocks st + 1\<rparr>;
                   st = (if bused b \<noteq> 0
                         then st\<lparr>used_blocks := used_blocks st + 1, used_bytes := used_bytes st + bsize b\<rparr>
                         else st\<lparr>free_blocks := free_blocks st + 1, free_bytes := free_bytes st + bsize b\<rparr>) in
               query_walk k (bnext b) st)"

definition kmem_dyn_alloc_query :: "kmem \<Rightarrow> kmem_stats res" where
  "kmem_dyn_alloc_query k =
     loop_res (query_walk k (kmem_heap_head k)
       \<lparr>heap_end = kmem_heap_end k, total_blocks = 0, used_blocks = 0, free_blocks = 0,
        used_bytes = 0, free_bytes = 0\<rparr>)"

section \<open>The list model\<close>

text \<open>
  A heap as a list of blocks: payload size and whether it is in use. Block addresses follow from the
  sizes, since blocks tile the heap from its base.
\<close>

type_synonym blocks = "(nat \<times> bool) list"

primrec bend :: "nat \<Rightarrow> blocks \<Rightarrow> nat" where
  "bend lo [] = lo"
| "bend lo (b # bl) = bend (lo + 16 + fst b) bl"

text \<open>First fit with splitting: the index of the chosen block's address and the new list.\<close>

primrec alloc_blocks :: "nat \<Rightarrow> nat \<Rightarrow> blocks \<Rightarrow> (nat \<times> blocks) option" where
  "alloc_blocks sz lo [] = None"
| "alloc_blocks sz lo (b # bl) =
     (if \<not> snd b \<and> sz \<le> fst b
      then Some (lo, (if sz + 24 \<le> fst b then (sz, True) # (fst b - sz - 16, False) # bl
                      else (fst b, True) # bl))
      else map_option (\<lambda>(a, bl'). (a, b # bl')) (alloc_blocks sz (lo + 16 + fst b) bl))"

text \<open>Marking a block free and merging it with its free neighbours.\<close>

fun join_head :: "nat \<times> bool \<Rightarrow> blocks \<Rightarrow> blocks" where
  "join_head (n, False) ((m, False) # bl) = (n + 16 + m, False) # bl"
| "join_head b bl = b # bl"

primrec free_blocks_at :: "nat \<Rightarrow> nat \<Rightarrow> blocks \<Rightarrow> blocks" where
  "free_blocks_at a lo [] = []"
| "free_blocks_at a lo (b # bl) =
     (if lo = a then join_head (fst b, False) bl
      else join_head b (free_blocks_at a (lo + 16 + fst b) bl))"

text \<open>Growth: the new bytes extend a free last block or form a block of their own.\<close>

definition grow_blocks :: "nat \<Rightarrow> blocks \<Rightarrow> blocks" where
  "grow_blocks amount bl =
     (if bl \<noteq> [] \<and> \<not> snd (last bl) then butlast bl @ [(fst (last bl) + amount, False)]
      else bl @ [(amount - 16, False)])"

fun no_adjacent_free :: "blocks \<Rightarrow> bool" where
  "no_adjacent_free ((n, u) # (m, v) # bl) = ((u \<or> v) \<and> no_adjacent_free ((m, v) # bl))"
| "no_adjacent_free _ = True"

end
