(* ===== verification/Kmem_Heap.thy ===== *)
theory Kmem_Heap
  imports Kmem_Dyn_Alloc
begin

text \<open>
  The heap of \<open>kmem_dyn_alloc.c\<close> refines a list of blocks. The representation relation ties the
  headers in memory to such a list; each operation of the model is shown to perform the matching
  operation on the list, and the allocator's guarantees (alignment, disjointness, coalescing,
  accounting) are read off the list.
\<close>

text \<open>A heap address given as a natural number.\<close>

definition ptr :: "nat \<Rightarrow> u32" where
  "ptr n = of_nat n"

lemma ptr_inject: "m < 4294967296 \<Longrightarrow> n < 4294967296 \<Longrightarrow> ptr m = ptr n \<longleftrightarrow> m = n"
  unfolding ptr_def by (metis unat_of_nat_u32)

lemma unat_ptr: "m < 3489660928 \<Longrightarrow> unat (ptr m) = m"
  by (simp add: ptr_def unat_of_nat_u32)

lemma ptr_nonzero: "0 < m \<Longrightarrow> m < 4294967296 \<Longrightarrow> ptr m \<noteq> 0"
  using ptr_inject [of m 0] by (simp add: ptr_def)

lemma ptr_add: "ptr m + of_nat n = ptr (m + n)" "ptr m + numeral w = ptr (m + numeral w)"
  by (simp_all add: ptr_def)

section \<open>Headers in memory represent a list of blocks\<close>

definition bhdr :: "nat \<Rightarrow> bool \<Rightarrow> u32 \<Rightarrow> u32 \<Rightarrow> kmem_block" where
  "bhdr n u nx pr = \<lparr>bsize = of_nat n, bused = (if u then 1 else 0), bnext = nx, bprev = pr\<rparr>"

lemma bhdr_simps [simp]:
  "bsize (bhdr n u nx pr) = of_nat n" "bused (bhdr n u nx pr) = 0 \<longleftrightarrow> \<not> u"
  "bnext (bhdr n u nx pr) = nx" "bprev (bhdr n u nx pr) = pr"
  "(bhdr n u nx pr)\<lparr>bnext := nx'\<rparr> = bhdr n u nx' pr" "(bhdr n u nx pr)\<lparr>bprev := pr'\<rparr> = bhdr n u nx pr'"
  "(bhdr n u nx pr)\<lparr>bused := 0\<rparr> = bhdr n False nx pr" "(bhdr n u nx pr)\<lparr>bused := 1\<rparr> = bhdr n True nx pr"
  "(bhdr n u nx pr)\<lparr>bsize := of_nat m\<rparr> = bhdr m u nx pr"
  by (simp_all add: bhdr_def)

lemma bhdr_fold:
  "\<lparr>bsize = of_nat n, bused = 0, bnext = nx, bprev = pr\<rparr> = bhdr n False nx pr"
  by (simp add: bhdr_def)

lemma put_hdr_twice [simp]: "put_hdr p b (put_hdr p c k) = put_hdr p b k"
  by (simp add: put_hdr_def)

primrec seg :: "(u32 \<Rightarrow> kmem_block option) \<Rightarrow> u32 \<Rightarrow> nat \<Rightarrow> blocks \<Rightarrow> u32 \<Rightarrow> bool" where
  "seg h pr lo [] nx = True"
| "seg h pr lo (b # bl) nx =
     (h (ptr lo) = Some (bhdr (fst b) (snd b) (if bl = [] then nx else ptr (lo + 16 + fst b)) pr) \<and>
      seg h (ptr lo) (lo + 16 + fst b) bl nx)"

primrec lastp :: "u32 \<Rightarrow> nat \<Rightarrow> blocks \<Rightarrow> u32" where
  "lastp pr lo [] = pr"
| "lastp pr lo (b # bl) = lastp (ptr lo) (lo + 16 + fst b) bl"

lemma bend_append [simp]: "bend lo (xs @ ys) = bend (bend lo xs) ys"
  by (induction xs arbitrary: lo) simp_all

lemma bend_total: "bend lo bl = lo + (\<Sum>b\<leftarrow>bl. 16 + fst b)"
  by (induction bl arbitrary: lo) simp_all

lemma lastp_append [simp]: "lastp pr lo (xs @ ys) = lastp (lastp pr lo xs) (bend lo xs) ys"
  by (induction xs arbitrary: lo pr) simp_all

lemma bend_ge: "lo \<le> bend lo bl"
proof (induction bl arbitrary: lo)
  case (Cons b bl)
  from Cons [of "lo + 16 + fst b"] show ?case by simp
qed simp

lemma seg_append:
  "seg h pr lo (xs @ ys) nx \<longleftrightarrow>
     seg h pr lo xs (if ys = [] then nx else ptr (bend lo xs)) \<and> seg h (lastp pr lo xs) (bend lo xs) ys nx"
  by (induction xs arbitrary: lo pr) auto

lemma seg_upd:
  assumes "m < lo \<or> bend lo bl \<le> m" and "m < 4294967296" and "bend lo bl \<le> 4294967296"
  shows "seg (h(ptr m := v)) pr lo bl nx = seg h pr lo bl nx"
  using assms
proof (induction bl arbitrary: lo pr)
  case (Cons b bl)
  have "lo + 16 + fst b \<le> bend lo (b # bl)" using bend_ge [of "lo + 16 + fst b" bl] by simp
  then have "ptr lo \<noteq> ptr m" using Cons.prems by (subst ptr_inject) auto
  with Cons show ?case by auto
qed simp

text \<open>Redirecting the back pointer of the first block.\<close>

lemma seg_set_prev:
  assumes "seg h pr lo (b # bl) nx" and "bend lo (b # bl) \<le> 4294967296"
  obtains c where "h (ptr lo) = Some c" "bprev c = pr"
    "\<And>pr'. seg (h(ptr lo := Some (c\<lparr>bprev := pr'\<rparr>))) pr' lo (b # bl) nx"
proof -
  let ?c = "bhdr (fst b) (snd b) (if bl = [] then nx else ptr (lo + 16 + fst b)) pr"
  have c: "h (ptr lo) = Some ?c" and rest: "seg h (ptr lo) (lo + 16 + fst b) bl nx" using assms(1) by auto
  have le: "lo + 16 + fst b \<le> bend lo (b # bl)" using bend_ge [of "lo + 16 + fst b" bl] by simp
  have "seg (h(ptr lo := Some (?c\<lparr>bprev := pr'\<rparr>))) pr' lo (b # bl) nx" for pr'
    using rest seg_upd [of lo "lo + 16 + fst b" bl h] le assms(2) by simp
  with that [OF c] show thesis by simp
qed

text \<open>The blocks of a well-formed heap: sizes are positive multiples of 8 and no two free ones touch.\<close>

definition blocks_ok :: "blocks \<Rightarrow> bool" where
  "blocks_ok bl \<longleftrightarrow> (\<forall>b\<in>set bl. 8 dvd fst b \<and> 8 \<le> fst b) \<and> no_adjacent_free bl"

abbreviation heap_base :: nat where "heap_base \<equiv> 0xC0000000"
abbreviation heap_limit :: nat where "heap_limit \<equiv> 0xD0000000"

definition kmem_rep :: "kmem \<Rightarrow> blocks \<Rightarrow> bool" where
  "kmem_rep k bl \<longleftrightarrow>
     kmem_heap_head k = (if bl = [] then 0 else ptr heap_base) \<and>
     kmem_heap_end k = ptr (bend heap_base bl) \<and> bend heap_base bl < heap_limit \<and>
     seg (kblocks k) 0 heap_base bl 0"

section \<open>First fit\<close>

lemma alloc_blocks_Some:
  assumes "alloc_blocks sz lo bl = Some (a, bl')"
  obtains xs n ys where "bl = xs @ (n, False) # ys" "a = bend lo xs" "sz \<le> n"
    "bl' = xs @ (if sz + 24 \<le> n then [(sz, True), (n - sz - 16, False)] else [(n, True)]) @ ys"
    "\<And>b. b \<in> set xs \<Longrightarrow> snd b \<or> fst b < sz"
  using assms
proof (induction bl arbitrary: lo bl' thesis)
  case (Cons b bl)
  show ?case
  proof (cases "\<not> snd b \<and> sz \<le> fst b")
    case True
    with Cons.prems(2) show ?thesis
      by (intro Cons.prems(1) [of "[]" "fst b" bl]) (auto simp: prod_eq_iff)
  next
    case False
    with Cons.prems(2) obtain bl2 where bl2: "alloc_blocks sz (lo + 16 + fst b) bl = Some (a, bl2)" "bl' = b # bl2"
      by (auto split: if_splits)
    show ?thesis
    proof (rule Cons.IH [OF _ bl2(1)])
      fix xs n ys
      assume "bl = xs @ (n, False) # ys" "a = bend (lo + 16 + fst b) xs" "sz \<le> n"
        "bl2 = xs @ (if sz + 24 \<le> n then [(sz, True), (n - sz - 16, False)] else [(n, True)]) @ ys"
        "\<And>b. b \<in> set xs \<Longrightarrow> snd b \<or> fst b < sz"
      with bl2(2) False show ?thesis by (intro Cons.prems(1) [of "b # xs" n ys]) auto
    qed
  qed
qed simp

lemma find_fit_blocks:
  assumes "seg (kblocks k) pr lo bl 0" and "0 < lo" and "bend lo bl < 4294967296" and "sz < 4294967296"
  shows "find_fit k (of_nat sz) (if bl = [] then 0 else ptr lo) =
    Some (Inr (case alloc_blocks sz lo bl of None \<Rightarrow> 0 | Some (a, _) \<Rightarrow> ptr a))"
  using assms(1-3)
proof (induction bl arbitrary: lo pr)
  case Nil
  then show ?case by (simp add: find_fit.simps)
next
  case (Cons b bl)
  let ?nx = "if bl = [] then 0 else ptr (lo + 16 + fst b) :: u32"
  have le: "lo + 16 + fst b \<le> bend lo (b # bl)" using bend_ge [of "lo + 16 + fst b" bl] by simp
  have nz: "ptr lo \<noteq> 0"
    using ptr_nonzero Cons.prems(2,3) le by simp
  have h: "kblocks k (ptr lo) = Some (bhdr (fst b) (snd b) ?nx pr)" using Cons.prems(1) by simp
  have cmp: "(of_nat (fst b) :: u32) \<ge> of_nat sz \<longleftrightarrow> sz \<le> fst b"
    using Cons.prems(3) le assms(4) by (simp add: word_le_nat_alt unat_of_nat_u32)
  have ih: "find_fit k (of_nat sz) ?nx =
      Some (Inr (case alloc_blocks sz (lo + 16 + fst b) bl of None \<Rightarrow> 0 | Some (a, _) \<Rightarrow> ptr a))"
    using Cons.IH [of "ptr lo" "lo + 16 + fst b"] Cons.prems by simp
  have "find_fit k (of_nat sz) (ptr lo) =
      (if \<not> snd b \<and> sz \<le> fst b then Some (Inr (ptr lo)) else find_fit k (of_nat sz) ?nx)"
    using nz h cmp by (subst find_fit.simps) simp
  then show ?case by (auto simp: ih split: option.splits)
qed


text \<open>A heap seen from one of its blocks.\<close>

lemma kmem_rep_split:
  "kmem_rep k (xs @ b # ys) \<longleftrightarrow>
     kmem_heap_head k = ptr heap_base \<and> kmem_heap_end k = ptr (bend (bend heap_base xs + 16 + fst b) ys) \<and>
     bend (bend heap_base xs + 16 + fst b) ys < heap_limit \<and>
     seg (kblocks k) 0 heap_base xs (ptr (bend heap_base xs)) \<and>
     kblocks k (ptr (bend heap_base xs)) =
       Some (bhdr (fst b) (snd b) (if ys = [] then 0 else ptr (bend heap_base xs + 16 + fst b)) (lastp 0 heap_base xs)) \<and>
     seg (kblocks k) (ptr (bend heap_base xs)) (bend heap_base xs + 16 + fst b) ys 0"
  by (auto simp: kmem_rep_def seg_append)

lemma put_hdr_simps [simp]:
  "kmem_heap_head (put_hdr p b k) = kmem_heap_head k" "kmem_heap_end (put_hdr p b k) = kmem_heap_end k"
  "kblocks (put_hdr p b k) = (kblocks k)(p \<mapsto> b)"
  by (simp_all add: put_hdr_def)

lemma hdr_put [simp]: "hdr p (put_hdr p b k) = Inr b"
  by (simp add: hdr_def)

lemma hdr_Some: "kblocks k p = Some b \<Longrightarrow> hdr p k = Inr b"
  by (simp add: hdr_def)

lemma seg_relink:
  assumes "seg h pr lo ys 0" and "bend lo ys < 4294967296" and "0 < lo"
    and "kblocks k = h" and "nx = (if ys = [] then 0 else ptr lo)"
  shows "\<exists>k'. set_prev nx pr' k = Inr k' \<and>
    kmem_heap_head k' = kmem_heap_head k \<and> kmem_heap_end k' = kmem_heap_end k \<and>
    seg (kblocks k') pr' lo ys 0 \<and>
    (\<forall>m. m < lo \<longrightarrow> kblocks k' (ptr m) = h (ptr m)) \<and>
    (\<forall>p i zs q. bend i zs \<le> lo \<longrightarrow> seg (kblocks k') p i zs q = seg h p i zs q)"
proof (cases ys)
  case Nil
  with assms show ?thesis by (auto simp: set_prev_def)
next
  case (Cons b bl)
  have lo: "lo < 4294967296" using bend_ge [of lo ys] assms(2) by simp
  obtain c where c: "h (ptr lo) = Some c" "seg (h(ptr lo := Some (c\<lparr>bprev := pr'\<rparr>))) pr' lo (b # bl) 0"
    using seg_set_prev [of h pr lo b bl 0] assms(1,2) Cons by (metis less_imp_le)
  have nx: "nx = ptr lo" "nx \<noteq> 0" using assms(3,5) Cons ptr_nonzero [OF _ lo] by auto
  let ?k = "put_hdr nx (c\<lparr>bprev := pr'\<rparr>) k"
  have "kblocks ?k (ptr m) = h (ptr m)" if "m < lo" for m
    using that lo ptr_inject [of m lo] assms(4) nx(1) by simp
  moreover have "seg (kblocks ?k) p i zs q = seg h p i zs q" if "bend i zs \<le> lo" for p i zs q
    using seg_upd [of lo i zs h] that lo assms(4) nx(1) by simp
  ultimately show ?thesis
    using c nx assms(4) Cons hdr_Some [of k nx c] by (intro exI [of _ ?k]) (simp add: set_prev_def del: fun_upd_apply seg.simps)
qed

lemma take_block_rep:
  assumes rep: "kmem_rep k (xs @ (n, False) # ys)" and "sz \<le> n"
  defines "A \<equiv> bend heap_base xs"
  shows "\<exists>k'. take_block (ptr A) (of_nat sz) k = Inr (ptr (A + 16), k') \<and>
    kmem_rep k' (xs @ (if sz + 24 \<le> n then [(sz, True), (n - sz - 16, False)] else [(n, True)]) @ ys)"
proof -
  let ?pr = "lastp 0 heap_base xs"
  define nx where "nx = (if ys = [] then 0 else ptr (A + 16 + n))"
  have h: "kblocks k (ptr A) = Some (bhdr n False nx ?pr)"
    and sx: "seg (kblocks k) 0 heap_base xs (ptr A)" and sy: "seg (kblocks k) (ptr A) (A + 16 + n) ys 0"
    and ends: "kmem_heap_head k = ptr heap_base" "kmem_heap_end k = ptr (bend (A + 16 + n) ys)"
      "bend (A + 16 + n) ys < heap_limit"
    using rep unfolding kmem_rep_split A_def nx_def by auto
  have b: "A + 16 + n \<le> bend (A + 16 + n) ys" "heap_base \<le> A" using bend_ge A_def by auto
  have small: "A + 16 + n < heap_limit" using b ends(3) by simp
  have cmp: "(of_nat n :: u32) \<ge> of_nat sz + 24 \<longleftrightarrow> sz + 24 \<le> n"
  proof -
    have "unat (of_nat sz + 24 :: u32) = sz + 24"
      using assms(2) small unat_of_nat_u32 [of "sz + 24"] by simp
    then show ?thesis using small by (simp add: word_le_nat_alt unat_of_nat_u32)
  qed
  show ?thesis
  proof (cases "sz + 24 \<le> n")
    case False
    let ?k = "put_hdr (ptr A) (bhdr n True nx ?pr) k"
    have "take_block (ptr A) (of_nat sz) k = Inr (ptr (A + 16), ?k)"
      using hdr_Some [OF h] cmp False by (simp add: take_block_def ptr_add)
    moreover have "kmem_rep ?k (xs @ (n, True) # ys)"
      unfolding kmem_rep_split using ends sx sy small b
      by (simp add: A_def [symmetric] nx_def seg_upd)
    ultimately show ?thesis using False by auto
  next
    case True
    let ?S = "A + 16 + sz" and ?r = "n - sz - 16"
    have S: "?S + 16 + ?r = A + 16 + n" using True by simp
    have words: "ptr A + 16 + of_nat sz = ptr ?S" "of_nat n - of_nat sz - 16 = (of_nat ?r :: u32)"
      using True by (simp_all add: ptr_add of_nat_diff)
    have new: "\<lparr>bsize = of_nat n - of_nat sz - 16, bused = 0, bnext = q, bprev = ptr A\<rparr> = bhdr ?r False q (ptr A)" for q
      using words(2) by (simp add: bhdr_def)
    let ?k1 = "put_hdr (ptr ?S) (bhdr ?r False nx (ptr A)) k"
    have sy1: "seg (kblocks ?k1) (ptr A) (A + 16 + n) ys 0"
      using sy True small ends(3) by (simp add: seg_upd)
    obtain k2 where k2: "set_prev nx (ptr ?S) ?k1 = Inr k2" "kmem_heap_head k2 = kmem_heap_head k" "kmem_heap_end k2 = kmem_heap_end k"
      "seg (kblocks k2) (ptr ?S) (A + 16 + n) ys 0"
      "\<And>m. m < A + 16 + n \<Longrightarrow> kblocks k2 (ptr m) = kblocks ?k1 (ptr m)"
      "\<And>p i zs q. bend i zs \<le> A + 16 + n \<Longrightarrow> seg (kblocks k2) p i zs q = seg (kblocks ?k1) p i zs q"
      using seg_relink [OF sy1 _ _ refl nx_def, of "ptr ?S"] ends(3) by auto
    let ?k = "put_hdr (ptr A) (bhdr sz True (ptr ?S) ?pr) k2"
    have "take_block (ptr A) (of_nat sz) k = Inr (ptr (A + 16), ?k)"
      using hdr_Some [OF h] cmp True k2(1) words
      by (simp add: take_block_def Let_def new ptr_add)
    moreover have "kmem_rep ?k (xs @ (sz, True) # (?r, False) # ys)"
    proof -
      have sx2: "seg (kblocks ?k) 0 heap_base xs (ptr A)"
        using sx k2(6) [of heap_base xs] small b True by (simp add: seg_upd A_def [symmetric])
      have "kblocks ?k (ptr ?S) = Some (bhdr ?r False nx (ptr A))"
        using k2(5) [of ?S] True small ptr_inject [of ?S A] by simp
      moreover have "seg (kblocks ?k) (ptr ?S) (?S + 16 + ?r) ys 0"
        unfolding S using k2(4) small ends(3) by (simp add: seg_upd)
      ultimately show ?thesis
        unfolding kmem_rep_split using sx2 ends k2(2,3) S
        by (simp add: A_def [symmetric] nx_def ac_simps split: if_splits)
    qed
    ultimately show ?thesis using True by auto
  qed
qed


section \<open>Lists of blocks\<close>

lemma no_adjacent_free_Cons:
  "no_adjacent_free (b # bl) \<longleftrightarrow> (bl = [] \<or> snd b \<or> snd (hd bl)) \<and> no_adjacent_free bl"
  by (cases b; cases bl) auto

lemma no_adjacent_free_append:
  "no_adjacent_free (xs @ ys) \<longleftrightarrow> no_adjacent_free xs \<and> no_adjacent_free ys \<and>
     (xs = [] \<or> ys = [] \<or> snd (last xs) \<or> snd (hd ys))"
  by (induction xs) (auto simp: no_adjacent_free_Cons)

lemma blocks_ok_append:
  "blocks_ok (xs @ ys) \<longleftrightarrow> blocks_ok xs \<and> blocks_ok ys \<and> (xs = [] \<or> ys = [] \<or> snd (last xs) \<or> snd (hd ys))"
  by (auto simp: blocks_ok_def no_adjacent_free_append)

lemma blocks_ok_Cons:
  "blocks_ok (b # bl) \<longleftrightarrow> 8 dvd fst b \<and> 8 \<le> fst b \<and> blocks_ok bl \<and> (bl = [] \<or> snd b \<or> snd (hd bl))"
  by (auto simp: blocks_ok_def no_adjacent_free_Cons)

lemma blocks_ok_Nil [simp]: "blocks_ok []"
  by (simp add: blocks_ok_def)

lemma alloc_blocks_ok:
  assumes "blocks_ok bl" and "8 dvd sz" and "8 \<le> sz" and "alloc_blocks sz lo bl = Some (a, bl')"
  shows "blocks_ok bl'" "bend lo bl' = bend lo bl"
proof -
  from alloc_blocks_Some [OF assms(4)] obtain xs n ys where
    e: "bl = xs @ (n, False) # ys" "sz \<le> n"
      "bl' = xs @ (if sz + 24 \<le> n then [(sz, True), (n - sz - 16, False)] else [(n, True)]) @ ys" by metis
  have "8 dvd n" using assms(1) e(1) by (auto simp: blocks_ok_append blocks_ok_Cons)
  then have "8 dvd n - sz - 16" using assms(2) by (intro dvd_diff_nat) auto
  with assms(1-3) e show "blocks_ok bl'"
    by (auto simp: blocks_ok_append blocks_ok_Cons)
  show "bend lo bl' = bend lo bl" using e by (auto simp: ac_simps)
qed

lemma grow_blocks_ok:
  assumes "blocks_ok bl" and "8 dvd amount" and "24 \<le> amount"
  shows "blocks_ok (grow_blocks amount bl)" "bend lo (grow_blocks amount bl) = bend lo bl + amount"
proof -
  have "8 dvd amount - 16" using assms(2) by (intro dvd_diff_nat) auto
  then show "blocks_ok (grow_blocks amount bl)"
    using assms by (cases bl rule: rev_cases)
      (auto simp: grow_blocks_def blocks_ok_append blocks_ok_Cons)
  show "bend lo (grow_blocks amount bl) = bend lo bl + amount"
    using assms(3) by (cases bl rule: rev_cases) (auto simp: grow_blocks_def)
qed

section \<open>Growth\<close>

lemma last_block_rep:
  assumes "seg (kblocks k) pr lo bl 0" and "0 < lo" and "bend lo bl < 4294967296"
  shows "last_block k pr (if bl = [] then 0 else ptr lo) = Some (Inr (lastp pr lo bl))"
  using assms
proof (induction bl arbitrary: lo pr)
  case Nil
  then show ?case by (simp add: last_block.simps)
next
  case (Cons b bl)
  have "lo + 16 + fst b \<le> bend lo (b # bl)" using bend_ge [of "lo + 16 + fst b" bl] by simp
  then have "ptr lo \<noteq> 0" using ptr_nonzero Cons.prems(2,3) by simp
  moreover have "last_block k (ptr lo) (if bl = [] then 0 else ptr (lo + 16 + fst b)) =
      Some (Inr (lastp (ptr lo) (lo + 16 + fst b) bl))"
    using Cons.IH [of "ptr lo" "lo + 16 + fst b"] Cons.prems by simp
  ultimately show ?case using Cons.prems(1) by (subst last_block.simps) simp
qed

lemma append_region_rep:
  assumes rep: "kmem_rep k bl" and "24 \<le> amount" and "bend heap_base bl + amount < heap_limit"
  shows "\<exists>k'. append_region (of_nat amount) k = Inr k' \<and> kmem_rep k' (grow_blocks amount bl)"
proof (cases bl rule: rev_cases)
  case Nil
  let ?b = "bhdr (amount - 16) False 0 0"
  have w: "\<lparr>bsize = of_nat amount - 16, bused = 0, bnext = 0, bprev = 0\<rparr> = ?b"
    using assms(2) by (simp add: bhdr_def of_nat_diff)
  have "append_region (of_nat amount) k = Inr (put_hdr (ptr heap_base) ?b k
      \<lparr>kmem_heap_head := ptr heap_base, kmem_heap_end := ptr (heap_base + amount)\<rparr>)"
    using rep Nil by (simp add: append_region_def kmem_rep_def last_block.simps w ptr_add Let_def)
  moreover have "kmem_rep (put_hdr (ptr heap_base) ?b k
      \<lparr>kmem_heap_head := ptr heap_base, kmem_heap_end := ptr (heap_base + amount)\<rparr>) (grow_blocks amount bl)"
    using Nil assms(2,3) by (simp add: kmem_rep_def grow_blocks_def)
  ultimately show ?thesis by blast
next
  case (snoc xs b)
  let ?A = "bend heap_base xs" and ?pr = "lastp 0 heap_base xs"
  let ?E = "?A + 16 + fst b"
  have r: "kmem_heap_head k = ptr heap_base" "kmem_heap_end k = ptr ?E" "?E < heap_limit"
    and sx: "seg (kblocks k) 0 heap_base xs (ptr ?A)"
    and h: "kblocks k (ptr ?A) = Some (bhdr (fst b) (snd b) 0 ?pr)"
    using rep unfolding snoc kmem_rep_split by auto
  have ge: "heap_base \<le> ?A" by (rule bend_ge)
  have lst: "last_block k 0 (ptr heap_base) = Some (Inr (ptr ?A))"
    using last_block_rep [of k 0 heap_base bl] rep snoc r(3) by (simp add: kmem_rep_def)
  have nz: "ptr ?A \<noteq> 0" using ptr_nonzero ge r(3) by simp
  have A_E: "ptr ?A \<noteq> ptr ?E" using ptr_inject [of ?A ?E] r(3) by simp
  show ?thesis
  proof (cases "snd b")
    case False
    let ?k = "put_hdr (ptr ?A) (bhdr (fst b + amount) False 0 ?pr) k\<lparr>kmem_heap_end := ptr (?E + amount)\<rparr>"
    have sz: "(bhdr (fst b) False 0 ?pr)\<lparr>bsize := of_nat (fst b) + of_nat amount\<rparr> = bhdr (fst b + amount) False 0 ?pr"
      by (simp add: bhdr_def)
    have "append_region (of_nat amount) k = Inr ?k"
      using r lst nz hdr_Some [OF h] False by (simp add: append_region_def ptr_add sz)
    moreover have "kmem_rep ?k (xs @ [(fst b + amount, False)])"
      unfolding kmem_rep_split using r sx assms(3) snoc ge by (simp add: seg_upd ac_simps)
    ultimately show ?thesis using snoc False by (simp add: grow_blocks_def)
  next
    case True
    let ?n = "bhdr (amount - 16) False 0 (ptr ?A)"
    have w: "\<lparr>bsize = of_nat amount - 16, bused = 0, bnext = 0, bprev = ptr ?A\<rparr> = ?n"
      using assms(2) by (simp add: bhdr_def of_nat_diff)
    let ?k1 = "put_hdr (ptr ?E) ?n k"
    let ?k = "put_hdr (ptr ?A) (bhdr (fst b) True (ptr ?E) ?pr) ?k1\<lparr>kmem_heap_end := ptr (?E + amount)\<rparr>"
    have h1: "hdr (ptr ?A) ?k1 = Inr (bhdr (fst b) True 0 ?pr)"
      using h A_E True by (simp add: hdr_def)
    have "append_region (of_nat amount) k = Inr ?k"
      using r lst nz hdr_Some [OF h] h1 True by (simp add: append_region_def Let_def ptr_add w)
    moreover have "kmem_rep ?k (xs @ (fst b, True) # [(amount - 16, False)])"
      unfolding kmem_rep_split using r sx assms(2,3) snoc ge A_E by (simp add: seg_upd ac_simps)
    moreover have "bl @ [(amount - 16, False)] = xs @ (fst b, True) # [(amount - 16, False)]"
      using snoc True by (simp add: prod_eq_iff)
    ultimately show ?thesis using snoc True by (simp add: grow_blocks_def)
  qed
qed


text \<open>
  The heap invariant: the headers represent well-formed blocks that tile the heap up to its end, and
  of the heap region exactly the pages below that end are mapped.
\<close>

definition kheap_inv :: "kmem \<Rightarrow> mm \<Rightarrow> blocks \<Rightarrow> bool" where
  "kheap_inv k s bl \<longleftrightarrow> kmem_rep k bl \<and> blocks_ok bl \<and> 4096 dvd bend heap_base bl \<and> page_inv s \<and>
     (\<forall>va. kernel_page va \<and> unat va < heap_limit \<longrightarrow> (va \<in> mapped_pages s \<longleftrightarrow> unat va < bend heap_base bl))"

definition grow_pages :: "u32 \<Rightarrow> nat" where
  "grow_pages nbytes = max 1 (unat ((nbytes + 4111) div 4096))"

lemma grow_pages_bound: "1 \<le> grow_pages nbytes" "grow_pages nbytes < 1048576"
proof -
  show "1 \<le> grow_pages nbytes" by (simp add: grow_pages_def)
  have "unat (nbytes + 4111) div 4096 < 1048576" using unat_lt_u32 [of "nbytes + 4111"] by simp
  then show "grow_pages nbytes < 1048576" by (simp add: grow_pages_def unat_div)
qed

text \<open>No wrap-around for requests that can be met.\<close>

lemma grow_pages_enough:
  assumes "unat nbytes + 4111 < 4294967296"
  shows "unat nbytes + 16 \<le> 4096 * grow_pages nbytes"
proof -
  have "unat ((nbytes + 4111) div 4096) = (unat nbytes + 4111) div 4096"
    using assms by (simp add: unat_div unat_word_ariths)
  moreover have "unat nbytes + 4111 < 4096 * ((unat nbytes + 4111) div 4096) + 4096"
    using mult_div_mod_eq [of 4096 "unat nbytes + 4111"] mod_less_divisor [of 4096 "unat nbytes + 4111"] by linarith
  moreover have "unat ((nbytes + 4111) div 4096) \<le> grow_pages nbytes" by (simp add: grow_pages_def)
  ultimately show ?thesis by simp
qed

lemma grow_page_step:
  "grow_page (ptr E) (of_nat i) =
     kpages.alloc_step ''kmem_dyn_alloc: alloc_page failed in heap_grow'' 3 (\<lambda>i. ptr (E + 4096 * i)) i"
  by (rule ext) (simp add: grow_page_def kpages.alloc_step_def ptr_def mult.commute)

lemma heap_page:
  assumes "heap_base \<le> a" and "a < heap_limit" and "4096 dvd a"
  shows "kernel_page (ptr a)" "unat (ptr a) = a"
proof -
  show u: "unat (ptr a) = a" using assms(2) unfolding ptr_def by (simp add: unat_of_nat_u32)
  then show "kernel_page (ptr a)"
    using assms by (simp add: kernel_page_def page_aligned_iff word_le_nat_alt word_less_nat_alt)
qed

lemma grow_loop:
  assumes inv: "kheap_inv k s bl"
  defines "E \<equiv> bend heap_base bl"
  shows "if E + 4096 * n < heap_limit
    then for_each (grow_page (ptr E)) (map of_nat [0..<n]) s = Inl (Kpanic ''kmem_dyn_alloc: alloc_page failed in heap_grow'') \<and>
        card (free_frames (frame_bitmap s)) < 2 * n \<or>
      (\<exists>s'. for_each (grow_page (ptr E)) (map of_nat [0..<n]) s = Inr s' \<and> page_inv s' \<and>
        mapped_pages s' = mapped_pages s \<union> (\<lambda>i. ptr (E + 4096 * i)) ` {..<n})
    else for_each (grow_page (ptr E)) (map of_nat [0..<n]) s = Inl (Kpanic ''kmem_dyn_alloc: alloc_page failed in heap_grow'')"
proof -
  let ?v = "\<lambda>i. ptr (E + 4096 * i)"
  have pinv: "page_inv s" and dv: "4096 dvd E" and le: "E < heap_limit" and ge: "heap_base \<le> E"
    and mp: "\<And>va. kernel_page va \<Longrightarrow> unat va < heap_limit \<Longrightarrow> va \<in> mapped_pages s \<longleftrightarrow> unat va < E"
    using inv bend_ge [of heap_base bl] by (auto simp: kheap_inv_def kmem_rep_def E_def)
  have fresh: "kernel_page (?v i) \<and> ?v i \<notin> mapped_pages s" if "E + 4096 * i < heap_limit" for i
    using heap_page [of "E + 4096 * i"] mp [of "?v i"] that ge dv by simp
  have inj: "inj_on ?v {..<m}" if "E + 4096 * m \<le> heap_limit" for m
    using that by (intro inj_onI) (subst (asm) ptr_inject, auto)
  have run: "for_each (grow_page (ptr E)) (map of_nat [0..<n]) s =
      for_each (kpages.alloc_step ''kmem_dyn_alloc: alloc_page failed in heap_grow'' 3 ?v) [0..<n] s"
    by (simp add: for_each_map grow_page_step)
  show ?thesis
  proof (cases "E + 4096 * n < heap_limit")
    case True
    have f: "kernel_page (?v i) \<and> ?v i \<notin> mapped_pages s" if "i < n" for i
      by (rule fresh) (use True that in linarith)
    have "inj_on ?v {..<n}" by (rule inj) (use True in linarith)
    from kpages.alloc_run [OF pinv f this, of "''kmem_dyn_alloc: alloc_page failed in heap_grow''" 3] show ?thesis
      unfolding run if_P [OF True] by blast
  next
    case False
    obtain q where q: "E = 4096 * q" using dv by blast
    define m where "m = 851968 - q"
    have m: "E + 4096 * m = heap_limit" "q = 786432 + (q - 786432)" "0 < m" using q le ge by (auto simp: m_def)
    have old: "(\<lambda>i. ptr (heap_base + 4096 * i)) ` {..<q - 786432} \<subseteq> mapped_pages s"
    proof (clarify)
      fix i assume "i < q - 786432"
      then have "heap_base + 4096 * i < E" using q ge by simp
      then show "ptr (heap_base + 4096 * i) \<in> mapped_pages s"
        using heap_page [of "heap_base + 4096 * i"] mp le by simp
    qed
    have "inj_on (\<lambda>i. ptr (heap_base + 4096 * i)) {..<q - 786432}"
      using q le by (intro inj_onI) (subst (asm) ptr_inject, auto)
    then have "q - 786432 \<le> card (mapped_pages s)"
      using card_inj_on_le [OF _ old] kpages.capacity [OF pinv] by simp
    then have few: "card (free_frames (frame_bitmap s)) < m"
      using kpages.capacity [OF pinv] m q by (simp add: m_def)
    have "m \<le> n" using False m(1) by simp
    with kpages.alloc_run_exhausts [OF pinv _ inj [of m] few] fresh m(1) False show ?thesis
      unfolding run by simp
  qed
qed


text \<open>When growth fails: the zone or the frames are used up.\<close>

definition no_growth :: "u32 \<Rightarrow> mm \<Rightarrow> blocks \<Rightarrow> bool" where
  "no_growth nbytes s bl \<longleftrightarrow> heap_limit \<le> bend heap_base bl + 4096 * grow_pages nbytes \<or>
     card (free_frames (frame_bitmap s)) < 2 * grow_pages nbytes"

lemma heap_grow_spec:
  assumes inv: "kheap_inv k s bl"
  shows "(\<exists>m. kmem_heap_grow nbytes k s = Inl (Kpanic m)) \<and> no_growth nbytes s bl \<or>
    (\<exists>k' s'. kmem_heap_grow nbytes k s = Inr (k', s') \<and>
       kheap_inv k' s' (grow_blocks (4096 * grow_pages nbytes) bl) \<and>
       mapped_pages s' = mapped_pages s \<union> (\<lambda>i. ptr (bend heap_base bl + 4096 * i)) ` {..<grow_pages nbytes})"
proof -
  let ?n = "grow_pages nbytes" and ?E = "bend heap_base bl"
  have rep: "kmem_rep k bl" and ok: "blocks_ok bl" and dv: "4096 dvd ?E"
    using inv by (auto simp: kheap_inv_def)
  note n = grow_pages_bound [of nbytes]
  have e: "kmem_heap_end k = ptr ?E" and le: "?E < heap_limit" using rep by (auto simp: kmem_rep_def)
  have pages: "(if (nbytes + 16 + 4096 - 1) div 4096 = 0 then 1 else (nbytes + 16 + 4096 - 1) div 4096) = (of_nat ?n :: u32)"
  proof -
    have w: "nbytes + 16 + 4096 - 1 = nbytes + 4111" by simp
    have "of_nat (unat ((nbytes + 4111) div 4096)) = ((nbytes + 4111) div 4096 :: u32)" by simp
    then show ?thesis unfolding w grow_pages_def by (auto simp: max_def Suc_le_eq unat_gt_0)
  qed
  have rng: "u32_range 0 (of_nat ?n) = map of_nat [0..<?n]"
    using u32_range_of_nat [of ?n 0] n(2) by simp
  have amt: "of_nat ?n * 4096 = (of_nat (4096 * ?n) :: u32)" by (simp add: mult.commute)
  define grow where "grow = for_each (grow_page (ptr ?E)) (map of_nat [0..<?n]) s"
  have g: "kmem_heap_grow nbytes k s =
      (if ptr ?E + of_nat (4096 * ?n) > 0xCFFFFFFF then Inl (Kpanic ''kmem_dyn_alloc: kernel heap limit reached'')
       else bnd grow (\<lambda>s. bnd (append_region (of_nat (4096 * ?n)) k) (\<lambda>k. Inr (k, s))))"
    unfolding kmem_heap_grow_def Let_def pages rng amt e grow_def ..
  show ?thesis
  proof (cases "?E + 4096 * ?n < heap_limit")
    case False
    then have "grow = Inl (Kpanic ''kmem_dyn_alloc: alloc_page failed in heap_grow'')"
      using grow_loop [OF inv, of ?n] by (simp add: grow_def)
    then show ?thesis unfolding g using False by (simp add: no_growth_def)
  next
    case True
    have w: "unat (ptr ?E + of_nat (4096 * ?n)) = ?E + 4096 * ?n"
      using True by (simp only: ptr_add unat_ptr)
    show ?thesis
    proof (cases "grow = Inl (Kpanic ''kmem_dyn_alloc: alloc_page failed in heap_grow'')")
      case failed: True
      then show ?thesis unfolding g using grow_loop [OF inv, of ?n] True by (auto simp: no_growth_def grow_def)
    next
      case False
      with grow_loop [OF inv, of ?n] True obtain s' where s': "grow = Inr s'" "page_inv s'"
        "mapped_pages s' = mapped_pages s \<union> (\<lambda>i. ptr (?E + 4096 * i)) ` {..<?n}"
        by (auto simp: grow_def)
      have n4: "24 \<le> 4096 * ?n" "8 dvd 4096 * ?n" using n(1) by auto
      from append_region_rep [OF rep n4(1)] True obtain k' where
        k': "append_region (of_nat (4096 * ?n)) k = Inr k'" "kmem_rep k' (grow_blocks (4096 * ?n) bl)" by auto
      note gb = grow_blocks_ok [OF ok n4(2,1)]
      have "kheap_inv k' s' (grow_blocks (4096 * ?n) bl)"
        unfolding kheap_inv_def gb(2)
      proof (intro conjI allI impI)
        show "4096 dvd ?E + 4096 * ?n" using dv by simp
        fix va assume va: "kernel_page va \<and> unat va < heap_limit"
        have old: "va \<in> mapped_pages s \<longleftrightarrow> unat va < ?E" using inv va by (simp add: kheap_inv_def)
        have new: "va \<in> (\<lambda>i. ptr (?E + 4096 * i)) ` {..<?n} \<longleftrightarrow> ?E \<le> unat va \<and> unat va < ?E + 4096 * ?n"
        proof
          assume "va \<in> (\<lambda>i. ptr (?E + 4096 * i)) ` {..<?n}"
          then obtain i where i: "i < ?n" "va = ptr (?E + 4096 * i)" by auto
          then have "unat va = ?E + 4096 * i" using True by (simp add: unat_ptr)
          with i show "?E \<le> unat va \<and> unat va < ?E + 4096 * ?n" by simp
        next
          assume b: "?E \<le> unat va \<and> unat va < ?E + 4096 * ?n"
          have "4096 dvd unat va" using va by (simp add: kernel_page_def page_aligned_iff mod_eq_0_iff_dvd)
          then have "4096 dvd unat va - ?E" using dv by (rule dvd_diff_nat)
          then obtain i where "unat va - ?E = 4096 * i" by blast
          with b have i: "unat va = ?E + 4096 * i" "i < ?n" by auto
          have "va = of_nat (unat va)" by simp
          then have "va = ptr (?E + 4096 * i)" unfolding i(1) ptr_def .
          with i(2) show "va \<in> (\<lambda>i. ptr (?E + 4096 * i)) ` {..<?n}" by blast
        qed
        show "va \<in> mapped_pages s' \<longleftrightarrow> unat va < ?E + 4096 * ?n"
          unfolding s'(3) using old new by auto
      qed (use k' gb s'(2) in auto)
      moreover have "kmem_heap_grow nbytes k s = Inr (k', s')"
        unfolding g using w True s'(1) k'(1) by (simp add: word_less_nat_alt)
      ultimately show ?thesis using s'(3) by blast
    qed
  qed
qed


section \<open>Allocation\<close>

lemma ALIGN8_unat:
  assumes "unat sz + 7 < 4294967296"
  shows "unat (ALIGN8 sz) = 8 * ((unat sz + 7) div 8)"
proof -
  have "x AND NOT 7 = push_bit 3 (drop_bit 3 x)" for x :: u32
  proof (rule bit_word_eqI)
    fix n assume n: "n < LENGTH(32)"
    have "(7 :: u32) = mask 3" by (simp add: mask_eq_exp_minus_1)
    then show "bit (x AND NOT 7) n = bit (push_bit 3 (drop_bit 3 x)) n"
      using n by (auto simp only: bit_and_iff bit_not_iff bit_mask_iff bit_push_bit_iff bit_drop_bit_eq)
        (auto simp: not_less)
  qed
  then have "ALIGN8 sz = drop_bit 3 (sz + 7) * 8" by (simp add: ALIGN8_def push_bit_eq_mult)
  moreover have u: "unat (sz + 7) = unat sz + 7" using assms by (simp add: unat_word_ariths)
  moreover have "unat (drop_bit 3 (sz + 7)) = (unat sz + 7) div 8" by (simp only: unat_drop_bit u) simp
  moreover have "(unat sz + 7) div 8 * 8 < 4294967296"
    using assms div_times_less_eq_dividend [of "unat sz + 7" 8] by linarith
  ultimately show ?thesis by (simp only: unat_word_ariths) simp
qed

definition round8 :: "nat \<Rightarrow> nat" where
  "round8 n = 8 * ((n + 7) div 8)"

lemma round8: "8 dvd round8 n" "n \<le> round8 n" "round8 n < n + 8" "0 < n \<Longrightarrow> 8 \<le> round8 n"
  by (auto simp: round8_def)

lemma kmem_alloc_from_fit:
  assumes "kheap_inv k s bl" and "8 dvd sz" and "8 \<le> sz" and "sz < 4294967296"
    and "alloc_blocks sz heap_base bl = Some (a, bl')"
  shows "loop_res (find_fit k (of_nat sz) (kmem_heap_head k)) = Inr (ptr a)" "ptr a \<noteq> 0"
    and "\<exists>k'. take_block (ptr a) (of_nat sz) k = Inr (ptr (a + 16), k') \<and> kheap_inv k' s bl'"
proof -
  have rep: "kmem_rep k bl" using assms(1) by (simp add: kheap_inv_def)
  have seg: "seg (kblocks k) 0 heap_base bl 0" "bend heap_base bl < 4294967296"
    "kmem_heap_head k = (if bl = [] then 0 else ptr heap_base)"
    using rep by (auto simp: kmem_rep_def)
  have base: "0 < heap_base" by simp
  show "loop_res (find_fit k (of_nat sz) (kmem_heap_head k)) = Inr (ptr a)"
    unfolding seg(3) find_fit_blocks [OF seg(1) base seg(2) assms(4)] using assms(5) by simp
  from alloc_blocks_Some [OF assms(5)] obtain xs n ys where
    e: "bl = xs @ (n, False) # ys" "a = bend heap_base xs" "sz \<le> n"
      "bl' = xs @ (if sz + 24 \<le> n then [(sz, True), (n - sz - 16, False)] else [(n, True)]) @ ys" by metis
  have "heap_base \<le> a" "a < 4294967296"
    using bend_ge [of heap_base xs] bend_ge [of a "(n, False) # ys"] seg(2) e(1,2) by auto
  then show "ptr a \<noteq> 0" using ptr_nonzero by simp
  from take_block_rep [of k xs n ys sz] rep e obtain k' where
    k': "take_block (ptr a) (of_nat sz) k = Inr (ptr (a + 16), k')" "kmem_rep k' bl'" by auto
  have "kheap_inv k' s bl'"
    using assms(1) k'(2) alloc_blocks_ok [OF assms(1) [unfolded kheap_inv_def, THEN conjunct2, THEN conjunct1] assms(2,3,5)]
    by (simp add: kheap_inv_def)
  with k'(1) show "\<exists>k'. take_block (ptr a) (of_nat sz) k = Inr (ptr (a + 16), k') \<and> kheap_inv k' s bl'" by blast
qed

lemma ALIGN8_round8:
  assumes "0 < unat sz" and "unat sz + 7 < 4294967296"
  shows "8 dvd round8 (unat sz)" "8 \<le> round8 (unat sz)" "round8 (unat sz) < 4294967296"
    "ALIGN8 sz = of_nat (round8 (unat sz))"
proof -
  have u: "unat (ALIGN8 sz) = round8 (unat sz)" using ALIGN8_unat [OF assms(2)] by (simp add: round8_def)
  show n: "8 dvd round8 (unat sz)" "8 \<le> round8 (unat sz)" "round8 (unat sz) < 4294967296"
    using round8(1,4) assms(1) unat_lt_u32 [of "ALIGN8 sz"] u by auto
  show "ALIGN8 sz = of_nat (round8 (unat sz))"
    using u unat_of_nat_u32 [OF n(3)] by (simp add: word_unat_eq_iff)
qed

lemma kmem_alloc_fits:
  assumes "kheap_inv k s bl" and "0 < unat sz" and "unat sz + 7 < 4294967296"
    and "alloc_blocks (round8 (unat sz)) heap_base bl = Some (a, bl')"
  shows "\<exists>k'. kmem_alloc sz k s = Inr (ptr (a + 16), k', s) \<and> kheap_inv k' s bl'"
proof -
  note n = ALIGN8_round8 [OF assms(2,3)]
  have nz: "sz \<noteq> 0" using assms(2) by auto
  from kmem_alloc_from_fit [OF assms(1) n(1-3) assms(4)] obtain k' where
    "loop_res (find_fit k (of_nat (round8 (unat sz))) (kmem_heap_head k)) = Inr (ptr a)" "ptr a \<noteq> 0"
    "take_block (ptr a) (of_nat (round8 (unat sz))) k = Inr (ptr (a + 16), k')" "kheap_inv k' s bl'" by blast
  then show ?thesis using nz by (simp add: kmem_alloc_def n(4))
qed

text \<open>The allocator on lists: first fit, after growing once when nothing fits.\<close>

definition kmem_alloc_blocks :: "nat \<Rightarrow> blocks \<Rightarrow> (nat \<times> blocks) option" where
  "kmem_alloc_blocks sz bl =
     (case alloc_blocks sz heap_base bl of
        Some r \<Rightarrow> Some r
      | None \<Rightarrow> alloc_blocks sz heap_base (grow_blocks (4096 * grow_pages (of_nat sz)) bl))"

text \<open>When a request of \<open>n\<close> bytes can fail: the zone has no room for it and a page, or frames are short.\<close>

definition starved :: "nat \<Rightarrow> mm \<Rightarrow> blocks \<Rightarrow> bool" where
  "starved n s bl \<longleftrightarrow> heap_limit \<le> bend heap_base bl + n + 4111 \<or> 2048 * card (free_frames (frame_bitmap s)) < n + 4111"

lemma no_growth_starved:
  assumes "no_growth (of_nat n) s bl" and "n < 4294967296"
  shows "starved n s bl"
proof (cases "n + 4111 < 4294967296")
  case True
  have "unat ((of_nat n + 4111 :: u32) div 4096) = (n + 4111) div 4096"
    using True by (simp add: unat_div unat_word_ariths unat_of_nat_u32)
  then have "grow_pages (of_nat n) = (n + 4111) div 4096" by (simp add: grow_pages_def)
  then have "4096 * grow_pages (of_nat n) \<le> n + 4111" by (metis times_div_less_eq_dividend)
  then show ?thesis using assms(1) unfolding no_growth_def starved_def by linarith
next
  case False
  then show ?thesis using bend_ge [of heap_base bl] by (simp add: starved_def)
qed

lemma alloc_blocks_fits: "(m, False) \<in> set bl \<Longrightarrow> n \<le> m \<Longrightarrow> alloc_blocks n lo bl \<noteq> None"
  by (induction bl arbitrary: lo) auto

lemma grown_fits:
  assumes "alloc_blocks n lo (grow_blocks (4096 * grow_pages (of_nat n)) bl) = None" and "n < 4294967296"
  shows "starved n s bl"
proof (cases "n + 4111 < 4294967296")
  case True
  let ?a = "4096 * grow_pages (of_nat n)"
  have "n + 16 \<le> ?a" using grow_pages_enough [of "of_nat n"] True by (simp add: unat_of_nat_u32)
  moreover have "\<exists>m. (m, False) \<in> set (grow_blocks ?a bl) \<and> ?a - 16 \<le> m"
    by (cases bl rule: rev_cases) (auto simp: grow_blocks_def)
  ultimately obtain m where "(m, False) \<in> set (grow_blocks ?a bl)" "n \<le> m" by (metis add_diff_cancel_right' diff_le_mono le_trans)
  from alloc_blocks_fits [OF this, of lo] assms(1) show ?thesis by simp
next
  case False
  then show ?thesis using bend_ge [of heap_base bl] by (simp add: starved_def)
qed

lemma kmem_alloc_spec:
  assumes inv: "kheap_inv k s bl" and "0 < unat sz" and "unat sz + 7 < 4294967296"
  shows "(\<exists>m. kmem_alloc sz k s = Inl (Kpanic m)) \<and> starved (round8 (unat sz)) s bl \<or>
    (\<exists>a bl' k' s'. kmem_alloc_blocks (round8 (unat sz)) bl = Some (a, bl') \<and>
       kmem_alloc sz k s = Inr (ptr (a + 16), k', s') \<and> kheap_inv k' s' bl')"
proof -
  let ?n = "round8 (unat sz)"
  note n = ALIGN8_round8(1-3) [OF assms(2,3)] and al = ALIGN8_round8(4) [OF assms(2,3)]
  have nz: "sz \<noteq> 0" using assms(2) by auto
  show ?thesis
  proof (cases "alloc_blocks ?n heap_base bl")
    case (Some r)
    obtain a bl' where r: "r = (a, bl')" by force
    with kmem_alloc_fits [OF assms] Some show ?thesis by (fastforce simp: kmem_alloc_blocks_def)
  next
    case None
    have rep: "kmem_rep k bl" using inv by (simp add: kheap_inv_def)
    have miss: "loop_res (find_fit k (of_nat ?n) (kmem_heap_head k)) = Inr 0" if "kmem_rep k bl" "alloc_blocks ?n heap_base bl = None"
      for k bl
      using find_fit_blocks [of k 0 heap_base bl ?n] that n(3) by (simp add: kmem_rep_def)
    have step: "kmem_alloc sz k s = bnd (bnd (kmem_heap_grow (of_nat ?n) k s) (\<lambda>(k, s).
          bnd (loop_res (find_fit k (of_nat ?n) (kmem_heap_head k))) (\<lambda>blk.
          if blk = 0 then Inl (Kpanic ''kmem_dyn_alloc: out of memory'') else Inr (blk, k, s))))
        (\<lambda>(blk, k, s). bnd (take_block blk (of_nat ?n) k) (\<lambda>(p, k). Inr (p, k, s)))"
      using nz miss [OF rep None] by (simp add: kmem_alloc_def al Let_def)
    from heap_grow_spec [OF inv, of "of_nat ?n"] show ?thesis
    proof (elim disjE exE conjE)
      fix m assume "kmem_heap_grow (of_nat ?n) k s = Inl (Kpanic m)" "no_growth (of_nat ?n) s bl"
      then show ?thesis unfolding step using no_growth_starved n(3) by simp
    next
      fix k1 s1
      let ?bl1 = "grow_blocks (4096 * grow_pages (of_nat ?n)) bl"
      assume g: "kmem_heap_grow (of_nat ?n) k s = Inr (k1, s1)" and inv1: "kheap_inv k1 s1 ?bl1"
      show ?thesis
      proof (cases "alloc_blocks ?n heap_base ?bl1")
        case None
        with inv1 miss [of k1 ?bl1] g grown_fits [OF None n(3)] show ?thesis unfolding step by (simp add: kheap_inv_def)
      next
        case (Some r)
        obtain a bl' where r: "r = (a, bl')" by force
        from kmem_alloc_from_fit [OF inv1 n] Some r obtain k' where
          "loop_res (find_fit k1 (of_nat ?n) (kmem_heap_head k1)) = Inr (ptr a)" "ptr a \<noteq> 0"
          "take_block (ptr a) (of_nat ?n) k1 = Inr (ptr (a + 16), k')" "kheap_inv k' s1 bl'" by blast
        with g have "kmem_alloc sz k s = Inr (ptr (a + 16), k', s1) \<and> kheap_inv k' s1 bl'"
          unfolding step by simp
        then show ?thesis using None Some r by (auto simp: kmem_alloc_blocks_def)
      qed
    qed
  qed
qed


section \<open>Freeing\<close>

text \<open>Two neighbouring free blocks become one.\<close>

lemma absorb_rep:
  assumes rep: "kmem_rep k (xs @ (a, False) # (b, False) # ys)"
  defines "A \<equiv> bend heap_base xs" and "nx \<equiv> (if ys = [] then 0 else ptr (bend heap_base xs + 16 + a + 16 + b))"
  shows "\<exists>k'. set_prev nx (ptr A) (put_hdr (ptr A) (bhdr (a + 16 + b) False nx (lastp 0 heap_base xs)) k) = Inr k' \<and>
    kmem_rep k' (xs @ (a + 16 + b, False) # ys)"
proof -
  let ?E = "A + 16 + a + 16 + b" and ?h = "bhdr (a + 16 + b) False nx (lastp 0 heap_base xs)"
  let ?k1 = "put_hdr (ptr A) ?h k"
  have sx: "seg (kblocks k) 0 heap_base xs (ptr A)" and sy: "seg (kblocks k) (ptr (A + 16 + a)) ?E ys 0"
    and ends: "kmem_heap_head k = ptr heap_base" "kmem_heap_end k = ptr (bend ?E ys)" "bend ?E ys < heap_limit"
    using rep unfolding kmem_rep_split A_def by auto
  have nx: "nx = (if ys = [] then 0 else ptr ?E)" unfolding nx_def A_def ..
  have le: "?E < heap_limit" using bend_ge [of ?E ys] ends(3) by simp
  have sy1: "seg (kblocks ?k1) (ptr (A + 16 + a)) ?E ys 0" using sy le ends(3) by (simp add: seg_upd)
  obtain k' where k': "set_prev nx (ptr A) ?k1 = Inr k'" "kmem_heap_head k' = kmem_heap_head k"
    "kmem_heap_end k' = kmem_heap_end k" "seg (kblocks k') (ptr A) ?E ys 0"
    "\<And>m. m < ?E \<Longrightarrow> kblocks k' (ptr m) = kblocks ?k1 (ptr m)"
    "\<And>p i zs q. bend i zs \<le> ?E \<Longrightarrow> seg (kblocks k') p i zs q = seg (kblocks ?k1) p i zs q"
    using seg_relink [OF sy1 _ _ refl nx, of "ptr A"] ends(3) by auto
  have "seg (kblocks k') 0 heap_base xs (ptr A)"
    using k'(6) [of heap_base xs] sx le by (simp add: seg_upd A_def)
  moreover have "kblocks k' (ptr A) = Some ?h" using k'(5) [of A] by simp
  ultimately have "kmem_rep k' (xs @ (a + 16 + b, False) # ys)"
    unfolding kmem_rep_split using ends k'(2-4) by (simp add: A_def nx_def ac_simps)
  with k'(1) show ?thesis by blast
qed

fun merge_right :: "nat \<Rightarrow> blocks \<Rightarrow> nat \<times> blocks" where
  "merge_right n ((m, False) # ys) = (n + 16 + m, ys)"
| "merge_right n ys = (n, ys)"

definition merge_left :: "blocks \<Rightarrow> nat \<Rightarrow> blocks \<Rightarrow> blocks" where
  "merge_left xs n ys =
     (if xs \<noteq> [] \<and> \<not> snd (last xs) then butlast xs @ (fst (last xs) + 16 + n, False) # ys
      else xs @ (n, False) # ys)"

lemma bhdr_grow:
  "(bhdr n u nx pr)\<lparr>bsize := of_nat n + (16 + of_nat m), bnext := nx'\<rparr> = bhdr (n + 16 + m) u nx' pr"
  by (simp add: bhdr_def)

lemma merge_next_rep:
  assumes rep: "kmem_rep k (xs @ (n, False) # ys)"
  shows "\<exists>k'. merge_next (ptr (bend heap_base xs)) k = Inr k' \<and>
    kmem_rep k' (xs @ (fst (merge_right n ys), False) # snd (merge_right n ys))"
proof -
  let ?A = "bend heap_base xs" and ?pr = "lastp 0 heap_base xs"
  have h: "hdr (ptr ?A) k = Inr (bhdr n False (if ys = [] then 0 else ptr (?A + 16 + n)) ?pr)"
    using rep unfolding kmem_rep_split by (simp add: hdr_def)
  show ?thesis
  proof (cases ys)
    case Nil
    with h rep show ?thesis by (simp add: merge_next_def)
  next
    case (Cons y ys2)
    obtain m u where y: "y = (m, u)" by force
    have lim: "?A + 16 + n < heap_limit"
      using rep bend_ge [of "?A + 16 + n" ys] unfolding kmem_rep_split by simp
    then have nz: "ptr (?A + 16 + n) \<noteq> 0" using ptr_nonzero by simp
    have h2: "hdr (ptr (?A + 16 + n)) k = Inr (bhdr m u (if ys2 = [] then 0 else ptr (?A + 16 + n + 16 + m)) (ptr ?A))"
      using rep Cons y unfolding kmem_rep_split by (simp add: hdr_def)
    show ?thesis
    proof (cases u)
      case True
      with h h2 nz Cons y rep show ?thesis by (simp add: merge_next_def)
    next
      case False
      with absorb_rep [of k xs n m ys2] rep Cons y h h2 nz show ?thesis
        by (simp add: merge_next_def bhdr_grow)
    qed
  qed
qed

lemma lastp_snoc: "lastp pr lo (xs @ [x]) = ptr (bend lo xs)"
  by simp

lemma merge_prev_rep:
  assumes rep: "kmem_rep k (xs @ (n, False) # ys)"
  shows "\<exists>k'. merge_prev (ptr (bend heap_base xs)) k = Inr k' \<and> kmem_rep k' (merge_left xs n ys)"
proof -
  let ?A = "bend heap_base xs" and ?nx = "if ys = [] then 0 else ptr (bend heap_base xs + 16 + n)"
  have h: "hdr (ptr ?A) k = Inr (bhdr n False ?nx (lastp 0 heap_base xs))"
    using rep unfolding kmem_rep_split by (simp add: hdr_def)
  show ?thesis
  proof (cases xs rule: rev_cases)
    case Nil
    with h rep show ?thesis by (simp add: merge_prev_def merge_left_def)
  next
    case (snoc zs z)
    obtain p u where z: "z = (p, u)" by force
    let ?P = "bend heap_base zs"
    have rep2: "kmem_rep k (zs @ (p, u) # (n, False) # ys)" using rep snoc z by simp
    have A: "?A = ?P + 16 + p" using snoc z by simp
    have "?P < heap_limit" "heap_base \<le> ?P"
      using rep2 bend_ge [of "?P + 16 + p" "(n, False) # ys"] bend_ge [of heap_base zs] unfolding kmem_rep_split by auto
    then have nz: "ptr ?P \<noteq> 0" using ptr_nonzero by simp
    have hp: "hdr (ptr ?P) k = Inr (bhdr p u (ptr (?P + 16 + p)) (lastp 0 heap_base zs))"
      using rep2 unfolding kmem_rep_split by (simp add: hdr_def)
    have pr: "lastp 0 heap_base xs = ptr ?P" using snoc by simp
    show ?thesis
    proof (cases u)
      case True
      with h hp pr nz rep snoc z show ?thesis by (simp add: merge_prev_def merge_left_def)
    next
      case False
      define nx2 where "nx2 = (if ys = [] then 0 else ptr (?P + 16 + p + 16 + n))"
      from absorb_rep [of k zs p n ys] rep2 False obtain k' where
        k': "set_prev nx2 (ptr ?P) (put_hdr (ptr ?P) (bhdr (p + 16 + n) False nx2 (lastp 0 heap_base zs)) k) = Inr k'"
        "kmem_rep k' (zs @ (p + 16 + n, False) # ys)" unfolding nx2_def [symmetric] by auto
      have "merge_prev (ptr ?A) k = Inr k'"
        using h [unfolded A nx2_def [symmetric] pr] hp nz k'(1) False
        by (simp add: merge_prev_def bhdr_grow A)
      with k'(2) snoc z False show ?thesis by (simp add: merge_left_def)
    qed
  qed
qed

lemma free_blocks_at_split:
  assumes "no_adjacent_free (xs @ (n, True) # ys)"
  shows "free_blocks_at (bend lo xs) lo (xs @ (n, True) # ys) =
    merge_left xs (fst (merge_right n ys)) (snd (merge_right n ys))"
  using assms
proof (induction xs arbitrary: lo)
  case Nil
  then show ?case by (cases "(n, ys)" rule: merge_right.cases) (auto simp: merge_left_def)
next
  case (Cons x xs)
  have "lo < bend lo (x # xs)" using bend_ge [of "lo + 16 + fst x" xs] by simp
  moreover have naf: "no_adjacent_free (xs @ (n, True) # ys)" "xs = [] \<or> snd x \<or> snd (hd xs)"
    using Cons.prems by (cases xs; simp add: no_adjacent_free_Cons)+
  ultimately have "free_blocks_at (bend lo (x # xs)) lo ((x # xs) @ (n, True) # ys) =
      join_head x (merge_left xs (fst (merge_right n ys)) (snd (merge_right n ys)))"
    using Cons.IH [of "lo + 16 + fst x"] by simp
  also have "\<dots> = merge_left (x # xs) (fst (merge_right n ys)) (snd (merge_right n ys))"
    using naf(2)
  proof (cases xs rule: rev_cases)
    case Nil
    then show ?thesis by (cases x; cases "snd x") (auto simp: merge_left_def)
  next
    case (snoc zs z)
    then show ?thesis using naf(2)
      by (cases x; cases "snd x"; cases zs; cases "hd xs"; cases "snd (hd xs)") (auto simp: merge_left_def)
  qed
  finally show ?case .
qed


lemma merge_ok:
  assumes "blocks_ok (xs @ (n, True) # ys)"
  defines "bl' \<equiv> merge_left xs (fst (merge_right n ys)) (snd (merge_right n ys))"
  shows "blocks_ok bl'" "bend lo bl' = bend lo (xs @ (n, True) # ys)"
proof -
  have y: "blocks_ok ((fst (merge_right n ys), False) # snd (merge_right n ys))"
      "fst (merge_right n ys) + (\<Sum>b\<leftarrow>snd (merge_right n ys). 16 + fst b) = n + (\<Sum>b\<leftarrow>ys. 16 + fst b)"
    using assms(1) by (cases "(n, ys)" rule: merge_right.cases; auto simp: blocks_ok_append blocks_ok_Cons)+
  have x: "blocks_ok xs" using assms(1) by (simp add: blocks_ok_append)
  show "blocks_ok bl'"
    using x y(1) by (cases xs rule: rev_cases)
      (auto simp: bl'_def merge_left_def blocks_ok_append blocks_ok_Cons)
  show "bend lo bl' = bend lo (xs @ (n, True) # ys)"
    using y(2) by (cases xs rule: rev_cases) (auto simp: bl'_def merge_left_def bend_total)
qed

lemma kmem_free_spec:
  assumes inv: "kheap_inv k s (xs @ (n, True) # ys)"
  defines "A \<equiv> bend heap_base xs"
  shows "\<exists>k'. kmem_free (ptr (A + 16)) k = Inr k' \<and>
    kheap_inv k' s (free_blocks_at A heap_base (xs @ (n, True) # ys))"
proof -
  let ?bl = "xs @ (n, True) # ys" and ?n = "fst (merge_right n ys)" and ?ys = "snd (merge_right n ys)"
  have rep: "kmem_rep k ?bl" and ok: "blocks_ok ?bl" using inv by (auto simp: kheap_inv_def)
  have f: "free_blocks_at A heap_base ?bl = merge_left xs ?n ?ys"
    unfolding A_def by (rule free_blocks_at_split) (use ok in \<open>simp add: blocks_ok_def\<close>)
  define nx where "nx = (if ys = [] then 0 else ptr (A + 16 + n))"
  have h: "hdr (ptr A) k = Inr (bhdr n True nx (lastp 0 heap_base xs))"
    and lim: "A + 16 + n < heap_limit" "heap_base \<le> A"
    using rep bend_ge [of "A + 16 + n" ys] bend_ge [of heap_base xs]
    unfolding kmem_rep_split A_def [symmetric] nx_def by (auto simp: hdr_def)
  let ?k0 = "put_hdr (ptr A) (bhdr n False nx (lastp 0 heap_base xs)) k"
  have "kmem_rep ?k0 (xs @ (n, False) # ys)"
    using rep lim unfolding kmem_rep_split A_def [symmetric] nx_def by (simp add: seg_upd A_def [symmetric])
  from merge_next_rep [OF this] obtain k1 where
    k1: "merge_next (ptr A) ?k0 = Inr k1" "kmem_rep k1 (xs @ (?n, False) # ?ys)" by (auto simp: A_def)
  from merge_prev_rep [OF k1(2)] obtain k2 where
    k2: "merge_prev (ptr A) k1 = Inr k2" "kmem_rep k2 (merge_left xs ?n ?ys)" by (auto simp: A_def)
  have "ptr (A + 16) - 16 = ptr A" by (simp add: ptr_def)
  then have "kmem_free (ptr (A + 16)) k = Inr k2"
    using ptr_nonzero [of "A + 16"] lim h k1(1) k2(1) by (simp add: kmem_free_def)
  moreover have "kheap_inv k2 s (merge_left xs ?n ?ys)"
    using inv k2(2) merge_ok(1) [OF ok] merge_ok(2) [OF ok] by (simp add: kheap_inv_def)
  ultimately show ?thesis unfolding f by blast
qed

text \<open>Allocating and freeing again gives the block list back.\<close>

lemma alloc_free_blocks:
  assumes "blocks_ok bl" and "alloc_blocks sz heap_base bl = Some (a, bl')"
  shows "free_blocks_at a heap_base bl' = bl"
proof -
  from alloc_blocks_Some [OF assms(2)] obtain xs n ys where
    e: "bl = xs @ (n, False) # ys" "a = bend heap_base xs" "sz \<le> n"
      "bl' = xs @ (if sz + 24 \<le> n then [(sz, True), (n - sz - 16, False)] else [(n, True)]) @ ys" by metis
  have ok: "xs = [] \<or> snd (last xs)" "ys = [] \<or> snd (hd ys)" "no_adjacent_free xs" "no_adjacent_free ys"
    using assms(1) e(1) by (auto simp: blocks_ok_def no_adjacent_free_append no_adjacent_free_Cons)
  show ?thesis
  proof (cases "sz + 24 \<le> n")
    case True
    have "no_adjacent_free (xs @ (sz, True) # (n - sz - 16, False) # ys)"
      using ok by (auto simp: no_adjacent_free_append no_adjacent_free_Cons)
    from free_blocks_at_split [OF this, of heap_base] True e ok(1) show ?thesis
      by (auto simp: merge_left_def)
  next
    case False
    have "no_adjacent_free (xs @ (n, True) # ys)"
      using ok by (auto simp: no_adjacent_free_append no_adjacent_free_Cons)
    moreover have "merge_right n ys = (n, ys)" using ok(2) by (cases "(n, ys)" rule: merge_right.cases) auto
    ultimately show ?thesis using free_blocks_at_split [of xs n ys heap_base] False e ok(1)
      by (auto simp: merge_left_def)
  qed
qed

section \<open>Accounting\<close>

definition sum_used :: "blocks \<Rightarrow> nat" where "sum_used bl = (\<Sum>b\<leftarrow>bl. if snd b then fst b else 0)"
definition sum_free :: "blocks \<Rightarrow> nat" where "sum_free bl = (\<Sum>b\<leftarrow>bl. if snd b then 0 else fst b)"
definition count_used :: "blocks \<Rightarrow> nat" where "count_used bl = length (filter snd bl)"

lemma query_walk_rep:
  assumes "seg (kblocks k) pr lo bl 0" and "0 < lo" and "bend lo bl < 4294967296"
  shows "query_walk k (if bl = [] then 0 else ptr lo) st =
    Some (Inr (st\<lparr>total_blocks := total_blocks st + of_nat (length bl),
      used_blocks := used_blocks st + of_nat (count_used bl),
      free_blocks := free_blocks st + of_nat (length bl - count_used bl),
      used_bytes := used_bytes st + of_nat (sum_used bl), free_bytes := free_bytes st + of_nat (sum_free bl)\<rparr>))"
  using assms
proof (induction bl arbitrary: lo pr st)
  case Nil
  then show ?case by (simp add: query_walk.simps sum_used_def sum_free_def count_used_def)
next
  case (Cons b bl)
  have "lo + 16 + fst b \<le> bend lo (b # bl)" using bend_ge [of "lo + 16 + fst b" bl] by simp
  then have nz: "ptr lo \<noteq> 0" using ptr_nonzero Cons.prems(2,3) by simp
  have ih: "query_walk k (if bl = [] then 0 else ptr (lo + 16 + fst b)) st =
    Some (Inr (st\<lparr>total_blocks := total_blocks st + of_nat (length bl),
      used_blocks := used_blocks st + of_nat (count_used bl),
      free_blocks := free_blocks st + of_nat (length bl - count_used bl),
      used_bytes := used_bytes st + of_nat (sum_used bl), free_bytes := free_bytes st + of_nat (sum_free bl)\<rparr>))" for st
    using Cons.IH [of "ptr lo" "lo + 16 + fst b"] Cons.prems by simp
  have le: "count_used bl \<le> length bl" by (simp add: count_used_def)
  show ?case
    using nz Cons.prems(1) le
    by (subst query_walk.simps)
      (simp add: ih Let_def sum_used_def sum_free_def count_used_def Suc_diff_le ac_simps)
qed

lemma bend_sum: "bend lo bl = lo + sum_used bl + sum_free bl + 16 * length bl"
  by (induction bl arbitrary: lo) (auto simp: sum_used_def sum_free_def)


section \<open>Properties\<close>

text \<open>The payloads in use, as start address and length.\<close>

primrec payloads :: "nat \<Rightarrow> blocks \<Rightarrow> (nat \<times> nat) set" where
  "payloads lo [] = {}"
| "payloads lo (b # bl) = (if snd b then {(lo + 16, fst b)} else {}) \<union> payloads (lo + 16 + fst b) bl"

lemma payloads_append [simp]: "payloads lo (xs @ ys) = payloads lo xs \<union> payloads (bend lo xs) ys"
  by (induction xs arbitrary: lo) auto

lemma payloads_range: "(q, m) \<in> payloads lo bl \<Longrightarrow> lo + 16 \<le> q \<and> q + m \<le> bend lo bl"
proof (induction bl arbitrary: lo)
  case (Cons b bl)
  then show ?case using bend_ge [of "lo + 16 + fst b" bl] by (fastforce split: if_splits)
qed simp

lemma bend_dvd8:
  assumes "blocks_ok bl" and "8 dvd lo"
  shows "8 dvd bend lo bl"
  using assms
proof (induction bl arbitrary: lo)
  case (Cons b bl)
  then show ?case by (simp add: blocks_ok_Cons)
qed simp

lemma alloc_blocks_payload:
  assumes "blocks_ok bl" and "alloc_blocks sz lo bl = Some (a, bl')" and "8 dvd lo"
  shows "\<exists>len\<ge>sz. payloads lo bl' = insert (a + 16, len) (payloads lo bl) \<and> 8 dvd a + 16 \<and>
    lo \<le> a \<and> a + 16 + len \<le> bend lo bl' \<and>
    (\<forall>(q, m)\<in>payloads lo bl. q + m \<le> a \<or> a + 16 + len \<le> q)"
proof -
  from alloc_blocks_Some [OF assms(2)] obtain xs n ys where
    e: "bl = xs @ (n, False) # ys" "a = bend lo xs" "sz \<le> n"
      "bl' = xs @ (if sz + 24 \<le> n then [(sz, True), (n - sz - 16, False)] else [(n, True)]) @ ys" by metis
  have "8 dvd a" using bend_dvd8 [of xs lo] assms(1,3) e by (simp add: blocks_ok_append)
  then have al: "8 dvd a + 16" by simp
  have old: "payloads lo bl = payloads lo xs \<union> payloads (a + 16 + n) ys" using e(1,2) by simp
  have apart: "q + m \<le> a \<or> a + 16 + n \<le> q" if "(q, m) \<in> payloads lo bl" for q m
    using that payloads_range [of q m lo xs] payloads_range [of q m "a + 16 + n" ys] e(2) unfolding old by auto
  let ?len = "if sz + 24 \<le> n then sz else n"
  have "payloads lo bl' = insert (a + 16, ?len) (payloads lo bl)"
    unfolding old using e(2,3,4) by (simp add: ac_simps)
  moreover have "a + 16 + ?len \<le> bend lo bl'"
    using e(2,3,4) bend_ge [of "a + 16 + n" ys] by (simp add: ac_simps)
  moreover have "\<forall>(q, m)\<in>payloads lo bl. q + m \<le> a \<or> a + 16 + ?len \<le> q"
    using apart e(3) by (auto dest!: apart)
  ultimately show ?thesis using al e(3) bend_ge [of lo xs] e(2) by (intro exI [of _ ?len] conjI) simp_all
qed

text \<open>A heap of one free page, for the concrete instances.\<close>

definition one_page_heap :: kmem where
  "one_page_heap = \<lparr>kmem_heap_head = 0xC0000000, kmem_heap_end = 0xC0001000,
     kblocks = [0xC0000000 \<mapsto> \<lparr>bsize = 4080, bused = 0, bnext = 0, bprev = 0\<rparr>]\<rparr>"

lemma one_page_heap_frames: "\<exists>s. kheap_inv one_page_heap s [(4080, False)] \<and> 15358 \<le> card (free_frames (frame_bitmap s))"
proof -
  have k: "kernel_page 0xC0000000" by (simp add: kernel_page_def)
  have two: "page_frames_needed 0xC0000000 boot_full \<le> 2" by (simp add: page_frames_needed_def)
  then have "\<not> card (free_frames (frame_bitmap boot_full)) < page_frames_needed 0xC0000000 boot_full"
    by (simp add: boot_full(3))
  with alloc_page_kernel [OF boot_full(1) k, of 3] boot_full(2) obtain s where
    s: "page_inv s" "mapped_pages s = {0xC0000000}" "15360 = card (free_frames (frame_bitmap s)) + page_frames_needed 0xC0000000 boot_full"
    by (auto simp: boot_full(3))
  have "va \<in> mapped_pages s \<longleftrightarrow> unat va < 3221229568" if "kernel_page va" for va
  proof -
    have "unat va mod 4096 = 0" "3221225472 \<le> unat va"
      using that by (auto simp: kernel_page_def page_aligned_iff word_le_nat_alt)
    moreover obtain q where "unat va = 4096 * q" using calculation(1) by auto
    ultimately have "unat va < 3221229568 \<longleftrightarrow> unat va = 3221225472" by auto
    then show ?thesis using s(2) by (simp add: word_unat_eq_iff)
  qed
  then have "kheap_inv one_page_heap s [(4080, False)]"
    using s(1) by (simp add: kheap_inv_def kmem_rep_def one_page_heap_def blocks_ok_Cons ptr_def bhdr_def)
  moreover have "15358 \<le> card (free_frames (frame_bitmap s))" using s(3) two by linarith
  ultimately show ?thesis by blast
qed

lemma one_page_heap: "\<exists>s. kheap_inv one_page_heap s [(4080, False)]"
  using one_page_heap_frames by blast

text \<open>
  C5. \<open>kmem_alloc\<close> implements first fit with splitting on the list of blocks: when a block fits it
  always returns one and grows nothing; otherwise it grows the heap once and serves the request from
  the grown list. It panics only when nothing fits and the zone has no room for the request and one
  page more, or fewer than two free frames are left per page of it; it never faults, follows a bad
  pointer or loops. The request is of 1 to 0xFFFFFFF8 bytes; a larger one wraps to size 0
  (\<open>kmem_alloc_huge_wraps\<close>).
\<close>

theorem kmem_alloc_refines_first_fit:
  assumes "kheap_inv k s bl" and "0 < sz" and "sz \<le> 0xFFFFFFF8"
  shows "case alloc_blocks (round8 (unat sz)) heap_base bl of
      Some (a, bl') \<Rightarrow> \<exists>k'. kmem_alloc sz k s = Inr (of_nat (a + 16), k', s) \<and> kheap_inv k' s bl'
    | None \<Rightarrow> (\<exists>m. kmem_alloc sz k s = Inl (Kpanic m)) \<and>
        (0xD0000000 \<le> bend heap_base bl + round8 (unat sz) + 4111 \<or>
         2048 * card (free_frames (frame_bitmap s)) < round8 (unat sz) + 4111) \<or>
        (\<exists>a bl' k' s'. alloc_blocks (round8 (unat sz)) heap_base
             (grow_blocks (4096 * grow_pages (of_nat (round8 (unat sz)))) bl) = Some (a, bl') \<and>
           kmem_alloc sz k s = Inr (of_nat (a + 16), k', s') \<and> kheap_inv k' s' bl')"
proof -
  have sz: "0 < unat sz" "unat sz + 7 < 4294967296"
    using assms(2,3) by (auto simp: word_less_nat_alt word_le_nat_alt)
  show ?thesis
  proof (cases "alloc_blocks (round8 (unat sz)) heap_base bl")
    case None
    with kmem_alloc_spec [OF assms(1) sz] show ?thesis
      unfolding kmem_alloc_blocks_def ptr_def starved_def by (simp only: option.case)
  next
    case (Some r)
    obtain a bl' where r: "r = (a, bl')" by force
    from kmem_alloc_fits [OF assms(1) sz Some [unfolded r]] show ?thesis
      unfolding Some r ptr_def by simp
  qed
qed

theorem kmem_alloc_refines_first_fit_witness:
  "\<exists>s k'. kmem_alloc 100 one_page_heap s = Inr (0xC0000010, k', s) \<and>
     kheap_inv k' s [(104, True), (3960, False)]"
proof -
  obtain s where s: "kheap_inv one_page_heap s [(4080, False)]" using one_page_heap by blast
  have "alloc_blocks (round8 100) heap_base [(4080, False)] = Some (heap_base, [(104, True), (3960, False)])"
    by (simp add: round8_def)
  with kmem_alloc_refines_first_fit [OF s, of 100] show ?thesis by auto
qed

text \<open>
  C7. A block that \<open>kmem_alloc\<close> returns for a request of 1 to 0xFFFFFFF8 bytes is 8-byte aligned, lies
  inside the heap, holds at least the requested bytes and overlaps no block that was already in use, nor
  any header. The bound on the request is needed: from 0xFFFFFFF9 bytes on the size wraps to 0 when it is
  rounded up, and the block returned is an empty one (\<open>kmem_alloc_huge_wraps\<close>).
\<close>

theorem kmem_alloc_block_is_disjoint:
  assumes "kheap_inv k s bl" and "0 < sz" and "sz \<le> 0xFFFFFFF8" and "kmem_alloc sz k s = Inr (p, k', s')"
  shows "\<exists>bl' len. kheap_inv k' s' bl' \<and> payloads heap_base bl' = insert (unat p, len) (payloads heap_base bl) \<and>
    unat sz \<le> len \<and> 8 dvd unat p \<and> heap_base + 16 \<le> unat p \<and> unat p + len \<le> unat (kmem_heap_end k') \<and>
    (\<forall>(q, m)\<in>payloads heap_base bl. q + m + 16 \<le> unat p \<or> unat p + len \<le> q)"
proof -
  have sz: "0 < unat sz" "unat sz + 7 < 4294967296"
    using assms(2,3) by (auto simp: word_less_nat_alt word_le_nat_alt)
  have ok: "blocks_ok bl" using assms(1) by (simp add: kheap_inv_def)
  from kmem_alloc_spec [OF assms(1) sz] assms(4) obtain a bl' where
    a: "kmem_alloc_blocks (round8 (unat sz)) bl = Some (a, bl')" "p = ptr (a + 16)" "kheap_inv k' s' bl'" by auto
  let ?g = "grow_blocks (4096 * grow_pages (of_nat (round8 (unat sz)))) bl"
  have n4: "8 dvd 4096 * grow_pages (of_nat (round8 (unat sz)))" "24 \<le> 4096 * grow_pages (of_nat (round8 (unat sz)))"
    using grow_pages_bound(1) [of "of_nat (round8 (unat sz))"] by auto
  obtain bl1 where bl1: "alloc_blocks (round8 (unat sz)) heap_base bl1 = Some (a, bl')" "blocks_ok bl1"
    "payloads heap_base bl1 = payloads heap_base bl"
  proof -
    have "payloads lo (grow_blocks m bl) = payloads lo bl" for lo m
      by (cases bl rule: rev_cases) (auto simp: grow_blocks_def)
    with a(1) ok grow_blocks_ok(1) [OF ok n4] that show thesis
      by (auto simp: kmem_alloc_blocks_def split: option.splits)
  qed
  from alloc_blocks_payload [OF bl1(2,1)] obtain len where
    len: "round8 (unat sz) \<le> len" "payloads heap_base bl' = insert (a + 16, len) (payloads heap_base bl1)"
      "8 dvd a + 16" "heap_base \<le> a" "a + 16 + len \<le> bend heap_base bl'"
      "\<forall>(q, m)\<in>payloads heap_base bl1. q + m \<le> a \<or> a + 16 + len \<le> q" by auto
  have lim: "bend heap_base bl' < heap_limit" "kmem_heap_end k' = ptr (bend heap_base bl')"
    using a(3) by (auto simp: kheap_inv_def kmem_rep_def)
  have u: "unat p = a + 16" "unat (kmem_heap_end k') = bend heap_base bl'"
    using a(2) lim len(5) by (simp_all add: unat_ptr)
  have "unat sz \<le> len" using len(1) round8(2) [of "unat sz"] by simp
  with len a(3) bl1(3) u show ?thesis by (intro exI [of _ bl'] exI [of _ len]) auto
qed

theorem kmem_alloc_block_is_disjoint_witness:
  "\<exists>s k' bl'. kmem_alloc 100 one_page_heap s = Inr (0xC0000010, k', s) \<and> kheap_inv k' s bl' \<and>
     (\<exists>len\<ge>100. payloads heap_base bl' = {(0xC0000010, len)})"
proof -
  obtain s where s: "kheap_inv one_page_heap s [(4080, False)]" using one_page_heap by blast
  have "alloc_blocks (round8 (unat (100 :: u32))) heap_base [(4080, False)] =
      Some (heap_base, [(104, True), (3960, False)])" by (simp add: round8_def)
  from kmem_alloc_fits [OF s _ _ this] obtain k' where
    k': "kmem_alloc 100 one_page_heap s = Inr (0xC0000010, k', s)" by (auto simp: ptr_def)
  with kmem_alloc_block_is_disjoint [OF s, of 100] show ?thesis by auto
qed


text \<open>
  C6. \<open>kmem_free\<close> of a block in use marks it free and merges it with its free neighbours on both
  sides; no two free blocks ever touch afterwards, and the payloads in use are the others.
\<close>

theorem kmem_free_refines_coalescing:
  assumes "kheap_inv k s (xs @ (n, True) # ys)"
  shows "\<exists>k'. kmem_free (of_nat (bend heap_base xs + 16)) k = Inr k' \<and>
    kheap_inv k' s (free_blocks_at (bend heap_base xs) heap_base (xs @ (n, True) # ys)) \<and>
    payloads heap_base (free_blocks_at (bend heap_base xs) heap_base (xs @ (n, True) # ys)) =
      payloads heap_base xs \<union> payloads (bend heap_base xs + 16 + n) ys"
proof -
  have naf: "no_adjacent_free (xs @ (n, True) # ys)" using assms by (simp add: kheap_inv_def blocks_ok_def)
  let ?n = "fst (merge_right n ys)" and ?ys = "snd (merge_right n ys)"
  have r: "payloads (lo + 16 + ?n) ?ys = payloads (lo + 16 + n) ys" for lo
    by (cases "(n, ys)" rule: merge_right.cases) (auto simp: ac_simps)
  have l: "payloads lo (merge_left xs ?n ?ys) = payloads lo xs \<union> payloads (bend lo xs + 16 + ?n) ?ys" for lo
    by (cases xs rule: rev_cases) (auto simp: merge_left_def ac_simps)
  show ?thesis
    using kmem_free_spec [OF assms] free_blocks_at_split [OF naf, of heap_base] l r by (simp add: ptr_def)
qed

theorem kmem_free_refines_coalescing_witness:
  "\<exists>s k1 k2. kmem_alloc 100 one_page_heap s = Inr (0xC0000010, k1, s) \<and>
     kmem_free 0xC0000010 k1 = Inr k2 \<and> kheap_inv k2 s [(4080, False)]"
proof -
  obtain s where s: "kheap_inv one_page_heap s [(4080, False)]" using one_page_heap by blast
  have "alloc_blocks (round8 (unat (100 :: u32))) heap_base [(4080, False)] =
      Some (heap_base, [(104, True), (3960, False)])" by (simp add: round8_def)
  from kmem_alloc_fits [OF s _ _ this] obtain k1 where
    k1: "kmem_alloc 100 one_page_heap s = Inr (0xC0000010, k1, s)" "kheap_inv k1 s [(104, True), (3960, False)]"
    by (auto simp: ptr_def)
  with kmem_free_refines_coalescing [of k1 s "[]" 104 "[(3960, False)]"] show ?thesis by auto
qed

text \<open>
  Freeing what a non-growing \<open>kmem_alloc\<close> returned restores the block list exactly: the split is
  undone and nothing is left fragmented.
\<close>

theorem kmem_alloc_free_roundtrip:
  assumes "kheap_inv k s bl" and "0 < sz" and "sz \<le> 0xFFFFFFF8"
    and "alloc_blocks (round8 (unat sz)) heap_base bl \<noteq> None" and "kmem_alloc sz k s = Inr (p, k1, s1)"
  shows "\<exists>k2. kmem_free p k1 = Inr k2 \<and> kheap_inv k2 s bl \<and> s1 = s"
proof -
  have sz: "0 < unat sz" "unat sz + 7 < 4294967296"
    using assms(2,3) by (auto simp: word_less_nat_alt word_le_nat_alt)
  obtain a bl' where a: "alloc_blocks (round8 (unat sz)) heap_base bl = Some (a, bl')" using assms(4) by auto
  from kmem_alloc_fits [OF assms(1) sz a] assms(5) have
    p: "p = ptr (a + 16)" "s1 = s" "kheap_inv k1 s bl'" by auto
  obtain xs m zs where e: "a = bend heap_base xs" "bl' = xs @ (m, True) # zs"
  proof (rule alloc_blocks_Some [OF a])
    fix xs n ys
    let ?c = "round8 (unat sz) + 24 \<le> n"
    assume "a = bend heap_base xs"
      "bl' = xs @ (if ?c then [(round8 (unat sz), True), (n - round8 (unat sz) - 16, False)] else [(n, True)]) @ ys"
    then show thesis
      by (intro that [of xs "if ?c then round8 (unat sz) else n"
            "(if ?c then [(n - round8 (unat sz) - 16, False)] else []) @ ys"]) simp_all
  qed
  have ok: "blocks_ok bl" using assms(1) by (simp add: kheap_inv_def)
  show ?thesis
    using kmem_free_spec [of k1 s xs m zs] p e alloc_free_blocks [OF ok a] by auto
qed

theorem kmem_alloc_free_roundtrip_witness:
  "\<exists>s k1 k2. kmem_alloc 8 one_page_heap s = Inr (0xC0000010, k1, s) \<and> kmem_free 0xC0000010 k1 = Inr k2 \<and>
     kheap_inv k2 s [(4080, False)]"
proof -
  obtain s where s: "kheap_inv one_page_heap s [(4080, False)]" using one_page_heap by blast
  have a: "alloc_blocks (round8 (unat (8 :: u32))) heap_base [(4080, False)] =
      Some (heap_base, [(8, True), (4056, False)])" by (simp add: round8_def)
  from kmem_alloc_fits [OF s _ _ a] obtain k1 where
    k1: "kmem_alloc 8 one_page_heap s = Inr (0xC0000010, k1, s)" by (auto simp: ptr_def)
  from kmem_alloc_free_roundtrip [OF s _ _ _ k1] a k1 show ?thesis by auto
qed

text \<open>
  Freeing a block of the heap that is already free is caught: \<open>kmem_free\<close> panics.
\<close>

theorem kmem_double_free_detected:
  assumes "kheap_inv k s (xs @ (n, False) # ys)"
  shows "kmem_free (of_nat (bend heap_base xs + 16)) k = Inl (Kpanic ''kmem_free: double free detected'')"
proof -
  have rep: "kmem_rep k (xs @ (n, False) # ys)" using assms by (simp add: kheap_inv_def)
  let ?A = "bend heap_base xs"
  have lim: "?A + 16 + n < heap_limit"
    using rep bend_ge [of "?A + 16 + n" ys] unfolding kmem_rep_split by simp
  have "ptr (?A + 16) - 16 = ptr ?A" by (simp add: ptr_def)
  with rep lim have "kmem_free (ptr (?A + 16)) k = Inl (Kpanic ''kmem_free: double free detected'')"
    using ptr_nonzero [of "?A + 16"] unfolding kmem_rep_split by (auto simp: kmem_free_def hdr_def)
  then show ?thesis by (simp add: ptr_def)
qed

theorem kmem_double_free_detected_witness:
  "kmem_free 0xC0000010 one_page_heap = Inl (Kpanic ''kmem_free: double free detected'')"
  using one_page_heap kmem_double_free_detected [of one_page_heap _ "[]" 4080 "[]"] by auto

text \<open>
  The figures of \<open>kmem_dyn_alloc_query\<close> account for every byte of the heap: headers, used and
  free payloads add up to the distance from the heap base to its end.
\<close>

theorem kmem_query_accounts:
  assumes "kheap_inv k s bl"
  shows "\<exists>st. kmem_dyn_alloc_query k = Inr st \<and> heap_end st = kmem_heap_end k \<and>
    unat (used_blocks st) = count_used bl \<and> unat (total_blocks st) = length bl \<and>
    total_blocks st = used_blocks st + free_blocks st \<and>
    unat (used_bytes st) + unat (free_bytes st) + 16 * unat (total_blocks st) = unat (kmem_heap_end k) - 0xC0000000"
proof -
  have rep: "kmem_rep k bl" using assms by (simp add: kheap_inv_def)
  have lim: "bend heap_base bl < heap_limit" using rep by (simp add: kmem_rep_def)
  have tot: "sum_used bl + sum_free bl + 16 * length bl < heap_limit - heap_base"
    using lim by (simp add: bend_sum)
  have c: "count_used bl \<le> length bl" by (simp add: count_used_def)
  let ?st = "\<lparr>heap_end = kmem_heap_end k, total_blocks = of_nat (length bl), used_blocks = of_nat (count_used bl),
      free_blocks = of_nat (length bl - count_used bl), used_bytes = of_nat (sum_used bl),
      free_bytes = of_nat (sum_free bl)\<rparr>"
  have "kmem_dyn_alloc_query k = Inr ?st"
    using query_walk_rep [of k 0 heap_base bl] rep lim by (simp add: kmem_dyn_alloc_query_def kmem_rep_def)
  moreover have "unat (kmem_heap_end k) = bend heap_base bl" using rep by (simp add: kmem_rep_def unat_ptr)
  moreover have "(of_nat (length bl) :: u32) = of_nat (count_used bl) + of_nat (length bl - count_used bl)"
    using c by (simp add: of_nat_diff)
  moreover have u: "unat (of_nat (count_used bl) :: u32) = count_used bl" "unat (of_nat (length bl) :: u32) = length bl"
    "unat (of_nat (sum_used bl) :: u32) = sum_used bl" "unat (of_nat (sum_free bl) :: u32) = sum_free bl"
    using tot c by (auto intro!: unat_of_nat_u32)
  moreover have "sum_used bl + sum_free bl + 16 * length bl = bend heap_base bl - heap_base" by (simp add: bend_sum)
  ultimately show ?thesis
    by (intro exI [of _ ?st] conjI) (simp_all only: kmem_stats.select_convs)
qed

theorem kmem_query_accounts_witness:
  "\<exists>st. kmem_dyn_alloc_query one_page_heap = Inr st \<and> unat (total_blocks st) = 1 \<and>
     unat (used_bytes st) + unat (free_bytes st) = 4080"
  using one_page_heap kmem_query_accounts [of one_page_heap _ "[(4080, False)]"]
  by (fastforce simp: one_page_heap_def)

text \<open>
  A request of 4294967289 bytes or more wraps to size 0 in \<open>ALIGN8\<close>: \<open>kmem_alloc\<close> then returns
  a block of no bytes at all instead of failing.
\<close>

theorem kmem_alloc_huge_wraps:
  assumes "kheap_inv k s ((n, False) # ys)" and "24 \<le> n" and "0xFFFFFFF9 \<le> sz"
  shows "\<exists>k'. kmem_alloc sz k s = Inr (0xC0000010, k', s) \<and> kmem_size 0xC0000010 k' = Inr 0"
proof -
  have rep: "kmem_rep k ((n, False) # ys)" using assms(1) by (simp add: kheap_inv_def)
  have z: "ALIGN8 sz = 0"
  proof -
    have "unat (sz + 7) < 7"
      using assms(3) unat_lt_u32 [of sz] by (simp add: unat_word_ariths word_le_nat_alt mod_if) arith
    moreover have "ALIGN8 sz = 0" if "unat (sz + 7) = i" "i < 7" for i
    proof -
      have "sz + 7 = of_nat i" using that by (metis word_unat_eq_iff unat_of_nat_u32 unat_lt_u32)
      then show ?thesis using that(2) by (auto simp: ALIGN8_def less_Suc_eq numeral_eq_Suc)
    qed
    ultimately show ?thesis by blast
  qed
  have a: "alloc_blocks 0 heap_base ((n, False) # ys) = Some (heap_base, (0, True) # (n - 16, False) # ys)"
    using assms(2) by simp
  have f: "loop_res (find_fit k 0 (ptr heap_base)) = Inr (ptr heap_base)"
    using find_fit_blocks [of k 0 heap_base "(n, False) # ys" 0] rep a by (simp add: kmem_rep_def)
  have nz: "ptr heap_base \<noteq> 0" "sz \<noteq> 0" using ptr_nonzero [of heap_base] assms(3) by auto
  have hd: "kmem_heap_head k = ptr heap_base" using rep by (simp add: kmem_rep_def)
  from take_block_rep [of k "[]" n ys 0] rep assms(2) obtain k' where
    k': "take_block (ptr heap_base) 0 k = Inr (ptr (heap_base + 16), k')" "kmem_rep k' ((0, True) # (n - 16, False) # ys)"
    by auto
  have "kmem_alloc sz k s = Inr (ptr (heap_base + 16), k', s)"
    using f nz k'(1) hd by (simp add: kmem_alloc_def z)
  moreover have "kmem_size (ptr (heap_base + 16)) k' = Inr 0"
    using k'(2) ptr_nonzero [of "heap_base + 16"] by (simp add: kmem_size_def kmem_rep_def hdr_def ptr_def)
  ultimately show ?thesis by (simp add: ptr_def)
qed

theorem kmem_alloc_huge_wraps_witness:
  "\<exists>s k'. kmem_alloc 0xFFFFFFFF one_page_heap s = Inr (0xC0000010, k', s)"
  using one_page_heap kmem_alloc_huge_wraps [of one_page_heap _ 4080 "[]" "0xFFFFFFFF"] by fastforce

end
