(* ===== verification/Kmem_Test.thy ===== *)
theory Kmem_Test
  imports Kmem_Heap
begin

text \<open>
  The self-test of the heap that the kernel runs at boot, \<open>kmem_dyn_alloc_test\<close> of
  \<open>src/src/memory/kmem_dyn_alloc.c\<close>. Payload words are kept apart from the headers, as in the rest of
  the heap model. Log lines are left out.
\<close>

section \<open>Model\<close>

type_synonym heap_state = "kmem \<times> mm"

definition check :: "bool \<Rightarrow> string \<Rightarrow> 'a res \<Rightarrow> 'a res" where
  "check cond msg r = (if cond then r else Inl (Kpanic (''kmem_dyn_alloc test: '' @ msg)))"

definition heap_test_basic :: "(u32 \<Rightarrow> u32) \<Rightarrow> heap_state \<Rightarrow> heap_state res" where
  "heap_test_basic payload = (\<lambda>(k, s).
     bnd (kmem_alloc 4 k s) (\<lambda>(p, k, s).
     check (p \<noteq> 0) ''basic alloc returned NULL''
       (let payload = payload(p := 0xDEADBEEF) in
        check (payload p = 0xDEADBEEF) ''write/read failed'' (bnd (kmem_free p k) (\<lambda>k. Inr (k, s))))))"

definition heap_test_size :: "heap_state \<Rightarrow> heap_state res" where
  "heap_test_size = (\<lambda>(k, s).
     bnd (kmem_alloc 100 k s) (\<lambda>(p, k, s).
     check (p \<noteq> 0) ''kmem_size alloc returned NULL''
       (bnd (kmem_size p k) (\<lambda>n.
        check (n \<ge> 100) ''kmem_size too small'' (bnd (kmem_free p k) (\<lambda>k. Inr (k, s)))))))"

definition heap_test_reuse :: "u32 \<Rightarrow> u32 \<Rightarrow> u32 \<Rightarrow> heap_state \<Rightarrow> heap_state res" where
  "heap_test_reuse p1 p2 p3 = (\<lambda>(k, s).
     bnd (kmem_free p1 k) (\<lambda>k.
     bnd (kmem_alloc 16 k s) (\<lambda>(p4, k, s).
     check (p4 \<noteq> 0) ''realloc after free returned NULL''
       (check (\<not> (p4 < KHEAP_VIRT_BASE \<or> p4 > KHEAP_VIRT_MAX)) ''reallocated pointer outside heap''
         (bnd (kmem_free 0 k) (\<lambda>k.
          bnd (kmem_free p4 k) (\<lambda>k.
          bnd (kmem_free p2 k) (\<lambda>k.
          bnd (kmem_free p3 k) (\<lambda>k.
          bnd (kmem_alloc 512 k s) (\<lambda>(big, k, s).
          check (big \<noteq> 0) ''large alloc after full coalesce failed''
            (bnd (kmem_free big k) (\<lambda>k. Inr (k, s)))))))))))))"

definition heap_test_unique :: "heap_state \<Rightarrow> heap_state res" where
  "heap_test_unique = (\<lambda>(k, s).
     bnd (kmem_alloc 32 k s) (\<lambda>(p1, k, s).
     bnd (kmem_alloc 64 k s) (\<lambda>(p2, k, s).
     bnd (kmem_alloc 128 k s) (\<lambda>(p3, k, s).
     check (p1 \<noteq> 0 \<and> p2 \<noteq> 0 \<and> p3 \<noteq> 0) ''multi-alloc returned NULL''
       (check (p1 \<noteq> p2 \<and> p2 \<noteq> p3 \<and> p1 \<noteq> p3) ''duplicate pointers'' (heap_test_reuse p1 p2 p3 (k, s)))))))"

definition heap_test_brk :: "heap_state \<Rightarrow> heap_state res" where
  "heap_test_brk = (\<lambda>(k, s).
     bnd (kmem_brk 0 k s) (\<lambda>(end_before, k, s).
     bnd (kmem_brk PAGE_SIZE k s) (\<lambda>(_, k, s).
     bnd (kmem_brk 0 k s) (\<lambda>(end_after, k, s).
     check (\<not> end_after \<le> end_before) ''kmem_brk did not extend heap'' (Inr (k, s))))))"

definition heap_test_align :: "heap_state \<Rightarrow> heap_state res" where
  "heap_test_align = (\<lambda>(k, s).
     bnd (kmem_alloc 1 k s) (\<lambda>(p1, k, s).
     bnd (kmem_alloc 3 k s) (\<lambda>(p2, k, s).
     bnd (kmem_alloc 13 k s) (\<lambda>(p3, k, s).
     check (p1 \<noteq> 0 \<and> p2 \<noteq> 0 \<and> p3 \<noteq> 0) ''alignment alloc returned NULL''
       (check (p1 mod 8 = 0 \<and> p2 mod 8 = 0 \<and> p3 mod 8 = 0) ''pointer not 8-byte aligned''
         (bnd (kmem_free p1 k) (\<lambda>k. bnd (kmem_free p2 k) (\<lambda>k. bnd (kmem_free p3 k) (\<lambda>k. Inr (k, s))))))))))"

definition kmem_dyn_alloc_test :: "(u32 \<Rightarrow> u32) \<Rightarrow> heap_state \<Rightarrow> heap_state res" where
  "kmem_dyn_alloc_test payload st =
     for_each (\<lambda>f. f) [heap_test_basic payload, heap_test_size, heap_test_unique, heap_test_brk, heap_test_align] st"

section \<open>Every check passes\<close>

lemma alloc_fit:
  assumes "kheap_inv k s bl" and "alloc_blocks (round8 (unat sz)) heap_base bl = Some (a, bl')" and "0 < unat sz"
    and "unat sz < 4096" and "p = ptr (a + 16)"
  shows "\<exists>k'. kmem_alloc sz k s = Inr (p, k', s) \<and> kheap_inv k' s bl'"
  using kmem_alloc_fits [OF assms(1,3) _ assms(2)] assms(4,5) by auto

lemma free_fit:
  assumes "kheap_inv k s (xs @ (n, True) # ys)"
    and "free_blocks_at (bend heap_base xs) heap_base (xs @ (n, True) # ys) = bl'" and "p = ptr (bend heap_base xs + 16)"
  shows "\<exists>k'. kmem_free p k = Inr k' \<and> kheap_inv k' s bl'"
  using kmem_free_spec [OF assms(1)] assms(2,3) by auto

lemmas fits = round8_def ptr_def

lemma size_fit:
  assumes "kheap_inv k s ((n, u) # bl)"
  shows "kmem_size 0xC0000010 k = Inr (of_nat n)"
  using assms by (auto simp: kheap_inv_def kmem_rep_def kmem_size_def hdr_def ptr_def)

lemma heap_test_basic_passes:
  assumes "kheap_inv k s [(N, False)]" and "1000 \<le> N"
  shows "\<exists>k'. heap_test_basic payload (k, s) = Inr (k', s) \<and> kheap_inv k' s [(N, False)]"
proof -
  obtain k1 where k1: "kmem_alloc 4 k s = Inr (0xC0000010, k1, s)" "kheap_inv k1 s [(8, True), (N - 24, False)]"
    using alloc_fit [OF assms(1), of 4 heap_base "[(8, True), (N - 24, False)]" "0xC0000010"] assms(2) by (auto simp: fits)
  obtain k2 where k2: "kmem_free 0xC0000010 k1 = Inr k2" "kheap_inv k2 s [(N, False)]"
    using free_fit [of k1 s "[]" 8 "[(N - 24, False)]" "[(N, False)]" "0xC0000010"] k1(2) assms(2) by (auto simp: fits)
  show ?thesis using k1(1) k2 by (simp add: heap_test_basic_def check_def)
qed

lemma heap_test_size_passes:
  assumes "kheap_inv k s [(N, False)]" and "1000 \<le> N"
  shows "\<exists>k'. heap_test_size (k, s) = Inr (k', s) \<and> kheap_inv k' s [(N, False)]"
proof -
  obtain k1 where k1: "kmem_alloc 100 k s = Inr (0xC0000010, k1, s)" "kheap_inv k1 s [(104, True), (N - 120, False)]"
    using alloc_fit [OF assms(1), of 100 heap_base "[(104, True), (N - 120, False)]" "0xC0000010"] assms(2) by (auto simp: fits)
  obtain k2 where k2: "kmem_free 0xC0000010 k1 = Inr k2" "kheap_inv k2 s [(N, False)]"
    using free_fit [of k1 s "[]" 104 "[(N - 120, False)]" "[(N, False)]" "0xC0000010"] k1(2) assms(2) by (auto simp: fits)
  show ?thesis using k1(1) k2 size_fit [OF k1(2)] by (simp add: heap_test_size_def check_def)
qed

lemma heap_test_reuse_passes:
  assumes "kheap_inv k s [(32, True), (64, True), (128, True), (N - 272, False)]" and "1000 \<le> N"
  shows "\<exists>k'. heap_test_reuse 0xC0000010 0xC0000040 0xC0000090 (k, s) = Inr (k', s) \<and> kheap_inv k' s [(N, False)]"
proof -
  let ?r = "(N - 272, False)"
  obtain k1 where k1: "kmem_free 0xC0000010 k = Inr k1" "kheap_inv k1 s [(32, False), (64, True), (128, True), ?r]"
    using free_fit [of k s "[]" 32 "[(64, True), (128, True), ?r]" "[(32, False), (64, True), (128, True), ?r]" "0xC0000010"] assms
    by (auto simp: fits)
  obtain k2 where k2: "kmem_alloc 16 k1 s = Inr (0xC0000010, k2, s)" "kheap_inv k2 s [(32, True), (64, True), (128, True), ?r]"
    using alloc_fit [OF k1(2), of 16 heap_base "[(32, True), (64, True), (128, True), ?r]" "0xC0000010"] by (auto simp: fits)
  obtain k3 where k3: "kmem_free 0xC0000010 k2 = Inr k3" "kheap_inv k3 s [(32, False), (64, True), (128, True), ?r]"
    using free_fit [of k2 s "[]" 32 "[(64, True), (128, True), ?r]" "[(32, False), (64, True), (128, True), ?r]" "0xC0000010"] k2(2)
    by (auto simp: fits)
  obtain k4 where k4: "kmem_free 0xC0000040 k3 = Inr k4" "kheap_inv k4 s [(112, False), (128, True), ?r]"
    using free_fit [of k3 s "[(32, False)]" 64 "[(128, True), ?r]" "[(112, False), (128, True), ?r]" "0xC0000040"] k3(2)
    by (auto simp: fits)
  obtain k5 where k5: "kmem_free 0xC0000090 k4 = Inr k5" "kheap_inv k5 s [(N, False)]"
    using free_fit [of k4 s "[(112, False)]" 128 "[?r]" "[(N, False)]" "0xC0000090"] k4(2) assms(2) by (auto simp: fits)
  obtain k6 where k6: "kmem_alloc 512 k5 s = Inr (0xC0000010, k6, s)" "kheap_inv k6 s [(512, True), (N - 528, False)]"
    using alloc_fit [OF k5(2), of 512 heap_base "[(512, True), (N - 528, False)]" "0xC0000010"] assms(2) by (auto simp: fits)
  obtain k7 where k7: "kmem_free 0xC0000010 k6 = Inr k7" "kheap_inv k7 s [(N, False)]"
    using free_fit [of k6 s "[]" 512 "[(N - 528, False)]" "[(N, False)]" "0xC0000010"] k6(2) assms(2) by (auto simp: fits)
  have "kmem_free 0 k = Inr k" for k by (simp add: kmem_free_def)
  then show ?thesis using k1(1) k2(1) k3(1) k4(1) k5(1) k6(1) k7 by (simp add: heap_test_reuse_def check_def)
qed

lemma heap_test_unique_passes:
  assumes "kheap_inv k s [(N, False)]" and "1000 \<le> N"
  shows "\<exists>k'. heap_test_unique (k, s) = Inr (k', s) \<and> kheap_inv k' s [(N, False)]"
proof -
  obtain k1 where k1: "kmem_alloc 32 k s = Inr (0xC0000010, k1, s)" "kheap_inv k1 s [(32, True), (N - 48, False)]"
    using alloc_fit [OF assms(1), of 32 heap_base "[(32, True), (N - 48, False)]" "0xC0000010"] assms(2) by (auto simp: fits)
  obtain k2 where k2: "kmem_alloc 64 k1 s = Inr (0xC0000040, k2, s)" "kheap_inv k2 s [(32, True), (64, True), (N - 128, False)]"
    using assms(2) by (atomize_elim, intro alloc_fit [OF k1(2), of 64 "heap_base + 48" "[(32, True), (64, True), (N - 128, False)]" "0xC0000040"]) (simp_all add: fits)
  obtain k3 where k3: "kmem_alloc 128 k2 s = Inr (0xC0000090, k3, s)"
      "kheap_inv k3 s [(32, True), (64, True), (128, True), (N - 272, False)]"
    using assms(2) by (atomize_elim, intro alloc_fit [OF k2(2), of 128 "heap_base + 128" "[(32, True), (64, True), (128, True), (N - 272, False)]" "0xC0000090"]) (simp_all add: fits)
  show ?thesis using k1(1) k2(1) k3(1) heap_test_reuse_passes [OF k3(2) assms(2)]
    by (simp add: heap_test_unique_def check_def)
qed

lemma heap_test_align_passes:
  assumes "kheap_inv k s [(N, False)]" and "1000 \<le> N"
  shows "\<exists>k'. heap_test_align (k, s) = Inr (k', s) \<and> kheap_inv k' s [(N, False)]"
proof -
  let ?r = "(N - 80, False)"
  obtain k1 where k1: "kmem_alloc 1 k s = Inr (0xC0000010, k1, s)" "kheap_inv k1 s [(8, True), (N - 24, False)]"
    using alloc_fit [OF assms(1), of 1 heap_base "[(8, True), (N - 24, False)]" "0xC0000010"] assms(2) by (auto simp: fits)
  obtain k2 where k2: "kmem_alloc 3 k1 s = Inr (0xC0000028, k2, s)" "kheap_inv k2 s [(8, True), (8, True), (N - 48, False)]"
    using assms(2) by (atomize_elim, intro alloc_fit [OF k1(2), of 3 "heap_base + 24" "[(8, True), (8, True), (N - 48, False)]" "0xC0000028"]) (simp_all add: fits)
  obtain k3 where k3: "kmem_alloc 13 k2 s = Inr (0xC0000040, k3, s)" "kheap_inv k3 s [(8, True), (8, True), (16, True), ?r]"
    using assms(2) by (atomize_elim, intro alloc_fit [OF k2(2), of 13 "heap_base + 48" "[(8, True), (8, True), (16, True), ?r]" "0xC0000040"]) (simp_all add: fits)
  obtain k4 where k4: "kmem_free 0xC0000010 k3 = Inr k4" "kheap_inv k4 s [(8, False), (8, True), (16, True), ?r]"
    using free_fit [of k3 s "[]" 8 "[(8, True), (16, True), ?r]" "[(8, False), (8, True), (16, True), ?r]" "0xC0000010"] k3(2)
    by (auto simp: fits)
  obtain k5 where k5: "kmem_free 0xC0000028 k4 = Inr k5" "kheap_inv k5 s [(32, False), (16, True), ?r]"
    using free_fit [of k4 s "[(8, False)]" 8 "[(16, True), ?r]" "[(32, False), (16, True), ?r]" "0xC0000028"] k4(2)
    by (auto simp: fits)
  obtain k6 where k6: "kmem_free 0xC0000040 k5 = Inr k6" "kheap_inv k6 s [(N, False)]"
    using free_fit [of k5 s "[(32, False)]" 16 "[?r]" "[(N, False)]" "0xC0000040"] k5(2) assms(2) by (auto simp: fits)
  show ?thesis using k1(1) k2(1) k3(1) k4(1) k5(1) k6 by (simp add: heap_test_align_def check_def)
qed

lemma heap_test_brk_passes:
  assumes "kheap_inv k s [(N, False)]" and "\<not> no_growth 4096 s [(N, False)]"
  shows "\<exists>k' s'. heap_test_brk (k, s) = Inr (k', s') \<and> kheap_inv k' s' [(N + 8192, False)]"
proof -
  have "grow_pages 4096 = 2" by (simp add: grow_pages_def)
  then have g: "grow_blocks (4096 * grow_pages 4096) [(N, False)] = [(N + 8192, False)]" by (simp add: grow_blocks_def)
  obtain k' s' where k': "kmem_heap_grow 4096 k s = Inr (k', s')" "kheap_inv k' s' [(N + 8192, False)]"
    using heap_grow_spec [OF assms(1), of 4096, unfolded g] assms(2) by blast
  have "unat (kmem_heap_end k) = heap_base + 16 + N" "unat (kmem_heap_end k') = heap_base + 16 + N + 8192"
    using assms(1) k'(2) by (auto simp: kheap_inv_def kmem_rep_def unat_ptr)
  then have "\<not> kmem_heap_end k' \<le> kmem_heap_end k" by (simp add: word_le_nat_alt)
  then show ?thesis using k' by (auto simp: heap_test_brk_def kmem_brk_def check_def)
qed

text \<open>
  The self-test of the heap passes: on a heap of one free block of at least 1000 bytes, as \<open>kmem_dyn_alloc_init\<close> leaves
  it, with four free frames and room for two more pages, every allocation, size, alignment, reuse and coalescing check
  of \<open>kmem_dyn_alloc_test\<close> holds, and the heap is one free block again, two pages larger.
\<close>

theorem kmem_dyn_alloc_test_passes:
  assumes "kheap_inv k s [(N, False)]" and "1000 \<le> N" and "N + 8208 < 0x10000000"
    and "4 \<le> card (free_frames (frame_bitmap s))"
  shows "\<exists>k' s'. kmem_dyn_alloc_test payload (k, s) = Inr (k', s') \<and> kheap_inv k' s' [(N + 8192, False)]"
proof -
  obtain k1 where k1: "heap_test_basic payload (k, s) = Inr (k1, s)" "kheap_inv k1 s [(N, False)]"
    using heap_test_basic_passes [OF assms(1,2)] by blast
  obtain k2 where k2: "heap_test_size (k1, s) = Inr (k2, s)" "kheap_inv k2 s [(N, False)]"
    using heap_test_size_passes [OF k1(2) assms(2)] by blast
  obtain k3 where k3: "heap_test_unique (k2, s) = Inr (k3, s)" "kheap_inv k3 s [(N, False)]"
    using heap_test_unique_passes [OF k2(2) assms(2)] by blast
  have "\<not> no_growth 4096 s [(N, False)]" using assms(3,4) by (simp add: no_growth_def grow_pages_def)
  from heap_test_brk_passes [OF k3(2) this] obtain k4 s4 where
    k4: "heap_test_brk (k3, s) = Inr (k4, s4)" "kheap_inv k4 s4 [(N + 8192, False)]" by blast
  have "1000 \<le> N + 8192" by simp
  from heap_test_align_passes [OF k4(2) this] k1(1) k2(1) k3(1) k4(1) show ?thesis
    by (auto simp: kmem_dyn_alloc_test_def)
qed

text \<open>The heap of one page that the initialisation sets up.\<close>

theorem kmem_dyn_alloc_test_passes_witness:
  "\<exists>s k' s'. kmem_dyn_alloc_test (\<lambda>_. 0) (one_page_heap, s) = Inr (k', s') \<and> kheap_inv k' s' [(12272, False)]"
proof -
  obtain s where s: "kheap_inv one_page_heap s [(4080, False)]" "15358 \<le> card (free_frames (frame_bitmap s))"
    using one_page_heap_frames by blast
  from kmem_dyn_alloc_test_passes [OF s(1), of "\<lambda>_. 0"] s(2) show ?thesis by auto
qed

end
