(* ===== verification/Kmalloc.thy ===== *)
theory Kmalloc
  imports Address_Space
begin

text \<open>
  The chunk-pool allocator, \<open>src/src/memory/kmalloc.c\<close>: six size classes, each with a free list
  threaded through the free chunks, served from pages that carry a header with the class size and
  the counts. The first word of a free chunk is its link; links and page headers live in stores
  indexed by address, and reading one that was never written is \<open>BadPointer\<close>. A chunk that is handed
  out keeps its last link in the store, where the caller's data overwrites it in memory.
\<close>

section \<open>State\<close>

record cpool_hdr =
  hobj_size :: u32
  free_count :: u16
  total_count :: u16

record kmem_cache =
  obj_size :: u32
  free_list :: u32

record kpool =
  caches :: "kmem_cache list"
  cpool_vptr :: u32
  cpool_page_count :: u32
  cpool_used_count :: u32
  cpool_hdrs :: "u32 \<Rightarrow> cpool_hdr option"
  chunk_links :: "u32 \<Rightarrow> u32 option"

abbreviation (input) KCPOOL_VIRT_BASE :: u32 where "KCPOOL_VIRT_BASE \<equiv> 0xD0000000"
abbreviation (input) KCPOOL_VIRT_MAX :: u32 where "KCPOOL_VIRT_MAX \<equiv> 0xEEFFFFFF"
abbreviation (input) CPOOL_HDR_SIZE :: u32 where "CPOOL_HDR_SIZE \<equiv> 8"
abbreviation (input) CPOOL_DATA_SIZE :: u32 where "CPOOL_DATA_SIZE \<equiv> 4088"
abbreviation (input) KMEM_CACHE_256 :: u32 where "KMEM_CACHE_256 \<equiv> 256"

definition cache_sizes :: "u32 list" where
  "cache_sizes = [8, 16, 32, 64, 128, 256]"

definition link_of :: "u32 \<Rightarrow> kpool \<Rightarrow> u32 res" where
  "link_of p kp = of_option (BadPointer p) (chunk_links kp p)"

definition chdr :: "u32 \<Rightarrow> kpool \<Rightarrow> cpool_hdr res" where
  "chdr p kp = of_option (BadPointer p) (cpool_hdrs kp p)"

definition set_link :: "u32 \<Rightarrow> u32 \<Rightarrow> kpool \<Rightarrow> kpool" where
  "set_link p v kp = kp\<lparr>chunk_links := (chunk_links kp)(p \<mapsto> v)\<rparr>"

definition put_chdr :: "u32 \<Rightarrow> cpool_hdr \<Rightarrow> kpool \<Rightarrow> kpool" where
  "put_chdr p h kp = kp\<lparr>cpool_hdrs := (cpool_hdrs kp)(p \<mapsto> h)\<rparr>"

definition set_free_list :: "nat \<Rightarrow> u32 \<Rightarrow> kpool \<Rightarrow> kpool" where
  "set_free_list idx v kp = kp\<lparr>caches := (caches kp)[idx := (caches kp ! idx)\<lparr>free_list := v\<rparr>]\<rparr>"

section \<open>Operations\<close>

text \<open>Both searches return the index of a cache, \<open>None\<close> for the C code's -1.\<close>

fun find_cache :: "(kmem_cache \<Rightarrow> bool) \<Rightarrow> kmem_cache list \<Rightarrow> nat option" where
  "find_cache P [] = None"
| "find_cache P (c # cs) = (if P c then Some 0 else map_option Suc (find_cache P cs))"

definition cache_index :: "u32 \<Rightarrow> kpool \<Rightarrow> nat option" where
  "cache_index sz kp = find_cache (\<lambda>c. obj_size c \<ge> sz) (caches kp)"

definition cache_index_exact :: "u32 \<Rightarrow> kpool \<Rightarrow> nat res" where
  "cache_index_exact osz kp =
     of_option (Kpanic ''kfree: invalid obj_size in chunk pool header'')
       (find_cache (\<lambda>c. obj_size c = osz) (caches kp))"

text \<open>The loop that threads the free list through a fresh page: \<open>(obj, kp)\<close> is its state.\<close>

definition thread_chunk :: "u32 \<Rightarrow> u32 \<Rightarrow> u32 \<Rightarrow> u32 \<times> kpool \<Rightarrow> u32 \<times> kpool" where
  "thread_chunk osz n i = (\<lambda>(obj, kp). (obj + osz, set_link obj (if i + 1 < n then obj + osz else 0) kp))"

definition cpool_refill :: "nat \<Rightarrow> kpool \<Rightarrow> mm \<Rightarrow> (kpool \<times> mm) res" where
  "cpool_refill idx kp s =
     (if cpool_vptr kp + PAGE_SIZE > KCPOOL_VIRT_MAX
      then Inl (Kpanic ''kmalloc: chunk pool zone exhausted'')
      else bnd (alloc_page (cpool_vptr kp) (PAGE_PRESENT OR PAGE_RW) s) (\<lambda>(r, s).
        if r = 0 then Inl (Kpanic ''kmalloc: alloc_page failed in cpool_refill'')
        else
          let osz = obj_size (caches kp ! idx);
              n = CPOOL_DATA_SIZE div osz;
              vptr = cpool_vptr kp;
              kp = put_chdr vptr \<lparr>hobj_size = osz, free_count = ucast n, total_count = ucast n\<rparr> kp;
              kp = snd (fold (thread_chunk osz n) (u32_range 0 n) (vptr + CPOOL_HDR_SIZE, kp));
              kp = set_free_list idx (vptr + CPOOL_HDR_SIZE) kp in
          Inr (kp\<lparr>cpool_vptr := cpool_vptr kp + PAGE_SIZE, cpool_page_count := cpool_page_count kp + 1\<rparr>, s)))"

definition kmalloc_init :: "kpool \<Rightarrow> kpool" where
  "kmalloc_init kp =
     kp\<lparr>cpool_vptr := KCPOOL_VIRT_BASE, cpool_page_count := 0, cpool_used_count := 0,
        caches := map (\<lambda>sz. \<lparr>obj_size = sz, free_list = 0\<rparr>) cache_sizes\<rparr>"

definition pop_chunk :: "nat \<Rightarrow> kpool \<Rightarrow> (u32 \<times> kpool) res" where
  "pop_chunk idx kp =
     (let chunk = free_list (caches kp ! idx); hp = page_base chunk in
      bnd (link_of chunk kp) (\<lambda>nxt.
      bnd (chdr hp kp) (\<lambda>h.
      let kp = set_free_list idx nxt kp;
          kp = put_chdr hp (h\<lparr>free_count := free_count h - 1\<rparr>) kp in
      Inr (chunk, kp\<lparr>cpool_used_count := cpool_used_count kp + 1\<rparr>))))"

definition kmalloc :: "u32 \<Rightarrow> kpool \<Rightarrow> mm \<Rightarrow> (u32 \<times> kpool \<times> mm) res" where
  "kmalloc sz kp s =
     (if sz = 0 then Inr (0, kp, s)
      else if sz > KMEM_CACHE_256
      then Inl (Kpanic ''kmalloc: size > 256, use kmem_alloc for large allocations'')
      else case cache_index sz kp of
        None \<Rightarrow> Inl (OutOfBounds sz)
      | Some idx \<Rightarrow>
          bnd (if free_list (caches kp ! idx) = 0 then cpool_refill idx kp s else Inr (kp, s)) (\<lambda>(kp, s).
          bnd (pop_chunk idx kp) (\<lambda>(chunk, kp). Inr (chunk, kp, s))))"

text \<open>
  The sweep of \<open>kfree\<close> over a free list: \<open>cur\<close> points at the list head of the cache or at the link
  word of a chunk; chunks of the page \<open>base\<close> are taken out.
\<close>

datatype cell = Head | Chunk u32

definition read_cell :: "nat \<Rightarrow> cell \<Rightarrow> kpool \<Rightarrow> u32 res" where
  "read_cell idx c kp = (case c of Head \<Rightarrow> Inr (free_list (caches kp ! idx)) | Chunk p \<Rightarrow> link_of p kp)"

definition write_cell :: "nat \<Rightarrow> cell \<Rightarrow> u32 \<Rightarrow> kpool \<Rightarrow> kpool" where
  "write_cell idx c v kp = (case c of Head \<Rightarrow> set_free_list idx v kp | Chunk p \<Rightarrow> set_link p v kp)"

partial_function (option) sweep :: "nat \<Rightarrow> u32 \<Rightarrow> cell \<Rightarrow> kpool \<Rightarrow> kpool res option" where
  "sweep idx base cur kp =
     (case read_cell idx cur kp of Inl e \<Rightarrow> Some (Inl e)
      | Inr p \<Rightarrow>
          if p = 0 then Some (Inr kp)
          else if page_base p = base
          then (case link_of p kp of Inl e \<Rightarrow> Some (Inl e)
                | Inr nxt \<Rightarrow> sweep idx base cur (write_cell idx cur nxt kp))
          else sweep idx base (Chunk p) kp)"

definition push_chunk :: "u32 \<Rightarrow> kpool \<Rightarrow> (nat \<times> cpool_hdr \<times> kpool) res" where
  "push_chunk addr kp =
     (let hp = page_base addr in
      bnd (chdr hp kp) (\<lambda>h.
      bnd (cache_index_exact (hobj_size h) kp) (\<lambda>idx.
      let kp = set_link addr (free_list (caches kp ! idx)) kp;
          kp = set_free_list idx addr kp;
          h = h\<lparr>free_count := free_count h + 1\<rparr>;
          kp = put_chdr hp h kp in
      Inr (idx, h, kp\<lparr>cpool_used_count := cpool_used_count kp - 1\<rparr>))))"

text \<open>Once its page is unmapped a header and the links in it can no longer be read.\<close>

definition forget_page :: "u32 \<Rightarrow> kpool \<Rightarrow> kpool" where
  "forget_page base kp =
     kp\<lparr>cpool_hdrs := (cpool_hdrs kp)(base := None),
        chunk_links := (\<lambda>p. if page_base p = base then None else chunk_links kp p)\<rparr>"

definition kfree :: "u32 \<Rightarrow> kpool \<Rightarrow> mm \<Rightarrow> (kpool \<times> mm) res" where
  "kfree addr kp s =
     (if addr = 0 then Inr (kp, s)
      else bnd (push_chunk addr kp) (\<lambda>(idx, h, kp).
        if free_count h = total_count h then
          bnd (loop_res (sweep idx (page_base addr) Head kp)) (\<lambda>kp.
          bnd (free_page (page_base addr) s) (\<lambda>s.
          Inr (forget_page (page_base addr) (kp\<lparr>cpool_page_count := cpool_page_count kp - 1\<rparr>), s)))
        else Inr (kp, s)))"

definition ksize :: "u32 \<Rightarrow> kpool \<Rightarrow> u32 res" where
  "ksize addr kp =
     (if addr = 0 then Inr 0 else bnd (chdr (page_base addr) kp) (\<lambda>h. Inr (hobj_size h)))"

record kmalloc_stats =
  pool_pages :: u32
  free_objects :: u32
  used_objects :: u32

partial_function (option) count_list :: "kpool \<Rightarrow> u32 \<Rightarrow> u32 \<Rightarrow> u32 res option" where
  "count_list kp p n =
     (if p = 0 then Some (Inr n)
      else case chunk_links kp p of None \<Rightarrow> Some (Inl (BadPointer p)) | Some q \<Rightarrow> count_list kp q (n + 1))"

definition kmalloc_query :: "kpool \<Rightarrow> kmalloc_stats res" where
  "kmalloc_query kp =
     bnd (for_each (\<lambda>c n. loop_res (count_list kp (free_list c) n)) (caches kp) 0) (\<lambda>n.
     Inr \<lparr>pool_pages = cpool_page_count kp, free_objects = n, used_objects = cpool_used_count kp\<rparr>)"

end
