(* ===== verification/Task.thy ===== *)
theory Task
  imports Kmem_Dyn_Alloc Kmalloc
begin

text \<open>
  Task descriptors and the kernel state they live in (\<open>src/include/task.h\<close>, \<open>src/src/task.c\<close>), the
  process tree, process identifiers, the log and input rings, signal posting
  (\<open>kernel_signal_register\<close>, \<open>kernel_signal_send\<close> of \<open>src/src/signal.c\<close>) and termination (\<open>do_exit\<close>).
  A task pointer is one of the two static descriptors or the address of a chunk from \<open>kmalloc\<close>; NULL
  is \<open>None\<close>. The store of descriptors is total: a descriptor keeps its contents after \<open>kfree\<close>.
  \<open>current_task\<close> is never NULL once \<open>task_init\<close> has run, which precedes every use.
\<close>

section \<open>State\<close>

datatype task_state = TASK_RUNNABLE | TASK_RUNNING | TASK_BLOCKED | TASK_ZOMBIE | TASK_STOPPED

datatype tptr = Init_task | Kthreadd_task | Dyn u32

record trap_frame =
  tf_ds :: u32
  tf_edi :: u32
  tf_esi :: u32
  tf_ebp :: u32
  tf_esp_saved :: u32
  tf_ebx :: u32
  tf_edx :: u32
  tf_ecx :: u32
  tf_eax :: u32
  tf_int_no :: u32
  tf_err_code :: u32
  tf_eip :: u32
  tf_cs :: u32
  tf_eflags :: u32
  tf_user_esp :: u32
  tf_user_ss :: u32

record task_thread =
  thr_tf :: u32
  thr_esp :: u32

record mm_struct =
  pgdir :: u32
  code_start :: u32
  code_end :: u32
  data_start :: u32
  data_end :: u32
  stack_top :: u32
  heap_brk :: u32

record task =
  state :: task_state
  thread :: task_thread
  pid :: u32
  parent :: "tptr option"
  children :: "tptr option"
  sibling :: "tptr option"
  kstack :: u32
  task_mm :: mm_struct
  task_next :: "tptr option"
  quantum :: u32
  time_left :: u32
  exit_code :: int
  uid :: u32
  euid :: u32
  pending_signals :: u32
  signal_handlers :: "u32 list"
  is_userspace :: bool
  log_buf :: u32
  log_head :: u32
  log_len :: u32
  in_buf :: u32
  in_head :: u32
  in_tail :: u32

text \<open>
  The kernel state. \<open>tframes\<close> holds the trap frames by their address on the kernel stacks, \<open>kbytes\<close>
  the payload bytes of heap blocks, \<open>handler_calls\<close> the calls of in-kernel signal handlers in order,
  latest first, \<open>terminal\<close> the characters written to the terminal, latest first, and \<open>static_addr\<close>
  the addresses the linker gave the two static descriptors.

  In the kernel all of these lie in one memory. Here descriptors, trap frames, heap headers and pool
  headers are stores of their own, apart from the physical memory in \<open>kmm\<close>, so a store through an
  address that user space supplied and the kernel did not check (the status of \<open>wait\<close>, the signal
  frame on the user stack) changes physical memory only, never a descriptor; and a freed descriptor
  keeps its contents. Theorems about descriptors hold of the kernel as far as no such store hits one.
\<close>

record kst =
  tasks :: "tptr \<Rightarrow> task"
  task_list_head :: "tptr option"
  current_task :: tptr
  init_proc :: "tptr option"
  task_counter :: u32
  kmm :: mm
  kheap :: kmem
  pool :: kpool
  tframes :: "u32 \<Rightarrow> trap_frame"
  kbytes :: "u32 \<Rightarrow> u8"
  handler_calls :: "(u32 \<times> int) list"
  terminal :: "u8 list"
  need_resched :: u32
  next_task :: "tptr option"
  lap_anchor :: "tptr option"
  lap_num :: u32
  blocked_marker :: bool
  unblocked_marker :: bool
  tss_esp0 :: u32
  static_addr :: "tptr \<Rightarrow> u32"

definition zero_frame :: trap_frame where
  "zero_frame = \<lparr>tf_ds = 0, tf_edi = 0, tf_esi = 0, tf_ebp = 0, tf_esp_saved = 0, tf_ebx = 0, tf_edx = 0,
     tf_ecx = 0, tf_eax = 0, tf_int_no = 0, tf_err_code = 0, tf_eip = 0, tf_cs = 0, tf_eflags = 0,
     tf_user_esp = 0, tf_user_ss = 0\<rparr>"

definition zero_mm :: mm_struct where
  "zero_mm = \<lparr>pgdir = 0, code_start = 0, code_end = 0, data_start = 0, data_end = 0, stack_top = 0, heap_brk = 0\<rparr>"

definition zero_task :: task where
  "zero_task = \<lparr>state = TASK_RUNNABLE, thread = \<lparr>thr_tf = 0, thr_esp = 0\<rparr>, pid = 0, parent = None,
     children = None, sibling = None, kstack = 0, task_mm = zero_mm, task_next = None, quantum = 0,
     time_left = 0, exit_code = 0, uid = 0, euid = 0, pending_signals = 0,
     signal_handlers = replicate 32 0, is_userspace = False, log_buf = 0, log_head = 0, log_len = 0,
     in_buf = 0, in_head = 0, in_tail = 0\<rparr>"

definition upd :: "tptr \<Rightarrow> (task \<Rightarrow> task) \<Rightarrow> kst \<Rightarrow> kst" where
  "upd t f s = s\<lparr>tasks := (tasks s)(t := f (tasks s t))\<rparr>"

abbreviation (input) KSTACK_PAGES :: u32 where "KSTACK_PAGES \<equiv> 2"
abbreviation (input) TASK_LOG_SIZE :: u32 where "TASK_LOG_SIZE \<equiv> 1024"
abbreviation (input) TASK_INPUT_SIZE :: u32 where "TASK_INPUT_SIZE \<equiv> 256"
abbreviation (input) KSTACK_VA_BASE :: u32 where "KSTACK_VA_BASE \<equiv> 0xEF000000"
abbreviation (input) INIT_PID :: u32 where "INIT_PID \<equiv> 1"
abbreviation (input) PROC_QUANTUM :: u32 where "PROC_QUANTUM \<equiv> 10"
abbreviation (input) NSIG :: int where "NSIG \<equiv> 32"

text \<open>The static initialisers of the two descriptors that no allocator hands out.\<close>

definition init_task :: task where
  "init_task = zero_task\<lparr>state := TASK_RUNNING, pid := 0, uid := 0, euid := 0, quantum := PROC_QUANTUM,
     time_left := PROC_QUANTUM\<rparr>"

definition kthreadd_task :: task where
  "kthreadd_task = zero_task\<lparr>state := TASK_BLOCKED, pid := 2, uid := 0, euid := 0, quantum := PROC_QUANTUM,
     time_left := PROC_QUANTUM\<rparr>"

text \<open>
  The state the kernel starts from, given its memory and allocators. \<open>current_task\<close> is NULL until
  \<open>task_init\<close> sets it.
\<close>

definition boot_kst :: "mm \<Rightarrow> kmem \<Rightarrow> kpool \<Rightarrow> kst" where
  "boot_kst m k kp = \<lparr>tasks = (\<lambda>_. zero_task)(Init_task := init_task, Kthreadd_task := kthreadd_task),
     task_list_head = None, current_task = Init_task, init_proc = None, task_counter = 0, kmm = m,
     kheap = k, pool = kp, tframes = (\<lambda>_. zero_frame), kbytes = (\<lambda>_. 0), handler_calls = [], terminal = [],
     need_resched = 0, next_task = None, lap_anchor = None, lap_num = 0, blocked_marker = False,
     unblocked_marker = False, tss_esp0 = 0, static_addr = (\<lambda>_. 0x200000)\<rparr>"

section \<open>Posting signals\<close>

definition SIGMASK :: "int \<Rightarrow> u32" where
  "SIGMASK sig = push_bit (nat (sig - 1)) 1"

abbreviation (input) SIGKILL :: int where "SIGKILL \<equiv> 9"
abbreviation (input) SIGCHLD :: int where "SIGCHLD \<equiv> 17"
abbreviation (input) SIGCONT :: int where "SIGCONT \<equiv> 18"
abbreviation (input) SIGSTOP :: int where "SIGSTOP \<equiv> 19"
abbreviation (input) SIGTSTP :: int where "SIGTSTP \<equiv> 20"
abbreviation (input) SIG_DFL :: u32 where "SIG_DFL \<equiv> 0"
abbreviation (input) SIG_IGN :: u32 where "SIG_IGN \<equiv> 1"

definition SIG_IMMUTABLE_MASK :: u32 where
  "SIG_IMMUTABLE_MASK = SIGMASK SIGKILL OR SIGMASK SIGSTOP"

definition SIG_STOP_MASK :: u32 where
  "SIG_STOP_MASK = SIGMASK SIGSTOP OR SIGMASK SIGTSTP"

definition register_handler :: "int \<Rightarrow> u32 \<Rightarrow> task \<Rightarrow> task" where
  "register_handler signum handler x =
     (if signum \<le> 0 \<or> signum \<ge> NSIG then x
      else if SIGMASK signum AND SIG_IMMUTABLE_MASK \<noteq> 0 then x
      else x\<lparr>signal_handlers := (signal_handlers x)[nat signum := handler]\<rparr>)"

definition kernel_signal_register :: "tptr \<Rightarrow> int \<Rightarrow> u32 \<Rightarrow> kst \<Rightarrow> kst" where
  "kernel_signal_register t signum handler = upd t (register_handler signum handler)"

definition post_signal :: "int \<Rightarrow> task \<Rightarrow> task" where
  "post_signal signum x =
     (if signum \<le> 0 \<or> signum \<ge> NSIG then x
      else
        let x = (if signum = SIGCONT then
                   let x = x\<lparr>pending_signals := pending_signals x AND NOT SIG_STOP_MASK\<rparr> in
                   if state x = TASK_STOPPED then x\<lparr>state := TASK_RUNNABLE\<rparr> else x
                 else if SIGMASK signum AND SIG_STOP_MASK \<noteq> 0 then
                   x\<lparr>pending_signals := pending_signals x AND NOT (SIGMASK SIGCONT)\<rparr>
                 else x);
            x = x\<lparr>pending_signals := pending_signals x OR SIGMASK signum\<rparr> in
        if state x = TASK_BLOCKED \<or> state x = TASK_STOPPED \<and> signum = SIGKILL
        then x\<lparr>state := TASK_RUNNABLE\<rparr> else x)"

definition kernel_signal_send :: "tptr \<Rightarrow> int \<Rightarrow> kst \<Rightarrow> kst" where
  "kernel_signal_send t signum = upd t (post_signal signum)"

section \<open>The process tree\<close>

definition task_add_child :: "tptr \<Rightarrow> tptr \<Rightarrow> kst \<Rightarrow> kst" where
  "task_add_child par child s =
     (let s = upd child (\<lambda>x. x\<lparr>parent := Some par\<rparr>) s;
          s = upd child (\<lambda>x. x\<lparr>sibling := children (tasks s par)\<rparr>) s in
      upd par (\<lambda>x. x\<lparr>children := Some child\<rparr>) s)"

text \<open>The walk to the sibling whose successor is \<open>child\<close>.\<close>

partial_function (option) prev_sibling :: "kst \<Rightarrow> tptr option \<Rightarrow> tptr \<Rightarrow> tptr option option" where
  "prev_sibling s cur child =
     (case cur of None \<Rightarrow> Some None
      | Some c \<Rightarrow> if sibling (tasks s c) = Some child then Some (Some c)
                  else prev_sibling s (sibling (tasks s c)) child)"

definition task_remove_child :: "tptr \<Rightarrow> tptr \<Rightarrow> kst \<Rightarrow> kst res" where
  "task_remove_child par child s =
     bnd (if children (tasks s par) = Some child
          then Inr (upd par (\<lambda>x. x\<lparr>children := sibling (tasks s child)\<rparr>) s)
          else case prev_sibling s (children (tasks s par)) child of
                 None \<Rightarrow> Inl Diverge
               | Some None \<Rightarrow> Inr s
               | Some (Some c) \<Rightarrow> Inr (upd c (\<lambda>x. x\<lparr>sibling := sibling (tasks s child)\<rparr>) s)) (\<lambda>s.
     Inr (upd child (\<lambda>x. x\<lparr>sibling := None, parent := None\<rparr>) s))"

definition task_reparent :: "tptr \<Rightarrow> tptr \<Rightarrow> kst \<Rightarrow> kst res" where
  "task_reparent t new_parent s =
     bnd (case parent (tasks s t) of None \<Rightarrow> Inr s | Some p \<Rightarrow> task_remove_child p t s) (\<lambda>s.
     Inr (task_add_child new_parent t s))"

definition task_init :: "u32 \<Rightarrow> kst \<Rightarrow> kst" where
  "task_init cr3_now s =
     (let s = s\<lparr>task_list_head := Some Init_task, current_task := Init_task\<rparr>;
          s = upd Init_task (\<lambda>x. x\<lparr>task_mm := (task_mm x)\<lparr>pgdir := cr3_now\<rparr>\<rparr>) s;
          s = task_add_child Init_task Kthreadd_task s in
      s\<lparr>task_counter := 2\<rparr>)"

section \<open>Process identifiers\<close>

definition pid_alloc :: "kst \<Rightarrow> u32 option \<times> kst" where
  "pid_alloc s =
     (if task_counter s \<ge> MAX_PROC - 1 then (None, s)
      else (Some (task_counter s + 1), s\<lparr>task_counter := task_counter s + 1\<rparr>))"

definition pid_release :: "kst \<Rightarrow> kst" where
  "pid_release s = s\<lparr>task_counter := task_counter s - 1\<rparr>"

section \<open>Termination\<close>

partial_function (option) orphan_children :: "tptr \<Rightarrow> tptr \<Rightarrow> kst \<Rightarrow> kst res option" where
  "orphan_children t reaper s =
     (case children (tasks s t) of None \<Rightarrow> Some (Inr s)
      | Some c \<Rightarrow> (case task_reparent c reaper s of Inl e \<Rightarrow> Some (Inl e)
                   | Inr s \<Rightarrow> orphan_children t reaper s))"

definition do_exit :: "tptr \<Rightarrow> int \<Rightarrow> kst \<Rightarrow> kst res" where
  "do_exit t code s =
     (let s = upd t (\<lambda>x. x\<lparr>exit_code := code\<rparr>) s;
          reaper = (case init_proc s of Some r \<Rightarrow> r | None \<Rightarrow> Init_task);
          s = (if children (tasks s t) \<noteq> None \<and> reaper \<noteq> t then kernel_signal_send reaper SIGCHLD s else s) in
      bnd (loop_res (orphan_children t reaper s)) (\<lambda>s.
      let s = upd t (\<lambda>x. x\<lparr>state := TASK_ZOMBIE\<rparr>) s in
      Inr (case parent (tasks s t) of None \<Rightarrow> s | Some p \<Rightarrow> kernel_signal_send p SIGCHLD s)))"

section \<open>The log ring\<close>

definition task_log_putchar :: "tptr \<Rightarrow> u8 \<Rightarrow> kst \<Rightarrow> kst res" where
  "task_log_putchar t c s =
     bnd (if log_buf (tasks s t) = 0 then
            bnd (kmem_alloc TASK_LOG_SIZE (kheap s) (kmm s)) (\<lambda>(p, k, m).
            Inr (upd t (\<lambda>x. x\<lparr>log_buf := p\<rparr>) (s\<lparr>kheap := k, kmm := m\<rparr>)))
          else Inr s) (\<lambda>s.
     let x = tasks s t in
     if log_buf x = 0 then Inr s
     else
       let s = s\<lparr>kbytes := (kbytes s)(log_buf x + log_head x := c)\<rparr> in
       Inr (upd t (\<lambda>x. x\<lparr>log_head := (log_head x + 1) AND (TASK_LOG_SIZE - 1),
                          log_len := (if log_len x < TASK_LOG_SIZE then log_len x + 1 else log_len x)\<rparr>) s))"

text \<open>The search of the scheduler list by pid.\<close>

partial_function (option) find_pid :: "kst \<Rightarrow> u32 \<Rightarrow> tptr option \<Rightarrow> tptr option option" where
  "find_pid s p it =
     (case it of None \<Rightarrow> Some None
      | Some t \<Rightarrow> if pid (tasks s t) = p then Some (Some t) else find_pid s p (task_next (tasks s t)))"

definition log_contents :: "task \<Rightarrow> kst \<Rightarrow> u8 list" where
  "log_contents x s =
     (let start = (if log_len x < TASK_LOG_SIZE then 0 else log_head x) in
      map (\<lambda>i. kbytes s (log_buf x + ((start + i) AND (TASK_LOG_SIZE - 1)))) (u32_range 0 (log_len x)))"

definition task_dump_log :: "u32 \<Rightarrow> kst \<Rightarrow> kst res" where
  "task_dump_log p s =
     (case find_pid s p (task_list_head s) of
        None \<Rightarrow> Inl Diverge
      | Some None \<Rightarrow> Inr (s\<lparr>terminal := rev (map of_char (''plog: no such pid'' @ [CHR 0x0A])) @ terminal s\<rparr>)
      | Some (Some t) \<Rightarrow>
          let x = tasks s t in
          if log_buf x = 0 \<or> log_len x = 0 then Inr s
          else Inr (s\<lparr>terminal := rev (log_contents x s) @ terminal s\<rparr>))"

section \<open>The input ring\<close>

text \<open>The loop of \<open>task_input_read\<close>: \<open>n\<close> bytes may still be read, to \<open>dst\<close> onwards.\<close>

primrec input_read_loop :: "tptr \<Rightarrow> u32 \<Rightarrow> nat \<Rightarrow> kst \<Rightarrow> (u32 \<times> kst) res" where
  "input_read_loop t dst 0 s = Inr (0, s)"
| "input_read_loop t dst (Suc n) s =
     (let x = tasks s t in
      if in_buf x \<noteq> 0 \<and> in_head x \<noteq> in_tail x then
        bnd (vwrite8 (kmm s) dst (kbytes s (in_buf x + in_tail x))) (\<lambda>m.
        let s = upd t (\<lambda>x. x\<lparr>in_tail := (in_tail x + 1) AND (TASK_INPUT_SIZE - 1)\<rparr>) (s\<lparr>kmm := m\<rparr>) in
        bnd (input_read_loop t (dst + 1) n s) (\<lambda>(k, s). Inr (k + 1, s)))
      else Inr (0, s))"

definition task_input_read :: "tptr \<Rightarrow> u32 \<Rightarrow> u32 \<Rightarrow> kst \<Rightarrow> (u32 \<times> kst) res" where
  "task_input_read t dst count s = input_read_loop t dst (unat count) s"

definition task_input_push :: "tptr \<Rightarrow> u8 \<Rightarrow> kst \<Rightarrow> kst" where
  "task_input_push t c s =
     (let x = tasks s t; nxt = (in_head x + 1) AND (TASK_INPUT_SIZE - 1) in
      if nxt = in_tail x then s
      else upd t (\<lambda>x. x\<lparr>in_head := nxt\<rparr>) (s\<lparr>kbytes := (kbytes s)(in_buf x + in_head x := c)\<rparr>))"

definition task_feed :: "u32 \<Rightarrow> u8 list \<Rightarrow> kst \<Rightarrow> (int \<times> kst) res" where
  "task_feed p str s =
     (case find_pid s p (task_list_head s) of
        None \<Rightarrow> Inl Diverge
      | Some None \<Rightarrow> Inr (-1, s)
      | Some (Some t) \<Rightarrow>
          bnd (if in_buf (tasks s t) = 0 then
                 bnd (kmem_alloc TASK_INPUT_SIZE (kheap s) (kmm s)) (\<lambda>(q, k, m).
                 Inr (upd t (\<lambda>x. x\<lparr>in_buf := q\<rparr>) (s\<lparr>kheap := k, kmm := m\<rparr>)))
               else Inr s) (\<lambda>s.
          if in_buf (tasks s t) = 0 then Inr (-1, s)
          else Inr (0, task_input_push t 10 (fold (task_input_push t) str s))))"

end
