(* ===== verification/Signal.thy ===== *)
theory Signal
  imports Task
begin

text \<open>
  Signal delivery, \<open>src/src/signal.c\<close> and \<open>src/include/signal.h\<close>: default actions, the dispatch loop
  that drains pending signals lowest number first, and the frame that diverts a ring 3 task to its
  handler. A call of an in-kernel handler is recorded in \<open>handler_calls\<close>; the handlers in the
  repository only log.
\<close>

section \<open>Default actions\<close>

definition sig_terminates :: "int \<Rightarrow> bool" where
  "sig_terminates signum \<longleftrightarrow> signum \<in> {1, 2, 3, 4, 6, 7, 8, 9, 11, 13, 14, 15}"

definition sig_default_action :: "tptr \<Rightarrow> int \<Rightarrow> kst \<Rightarrow> kst res" where
  "sig_default_action t signum s =
     (if sig_terminates signum then do_exit t (128 + signum) s
      else if signum = SIGSTOP \<or> signum = SIGTSTP
      then Inr (if state (tasks s t) \<noteq> TASK_ZOMBIE then upd t (\<lambda>x. x\<lparr>state := TASK_STOPPED\<rparr>) s else s)
      else Inr s)"

definition signal_from_exception :: "u32 \<Rightarrow> int" where
  "signal_from_exception int_no =
     (if int_no = 0 then 8 else if int_no = 1 then 5 else if int_no = 3 then 5
      else if int_no = 4 then 11 else if int_no = 5 then 11 else if int_no = 6 then 4
      else if int_no = 8 then 6 else if int_no = 10 then 11 else if int_no = 11 then 7
      else if int_no = 12 then 7 else if int_no = 13 then 11 else if int_no = 14 then 11
      else if int_no = 16 then 8 else if int_no = 17 then 7 else if int_no = 19 then 8 else 0)"

section \<open>Dispatch\<close>

definition low_bit :: "u32 \<Rightarrow> u32" where
  "low_bit pending = pending AND (NOT pending + 1)"

text \<open>The inner loop that recovers the signal number from its bit: how often \<open>tmp\<close> can be shifted.\<close>

function shifts :: "u32 \<Rightarrow> int" where
  "shifts tmp = (if tmp = 0 then 0 else 1 + shifts (drop_bit 1 tmp))"
  by auto
termination
proof (relation "measure unat")
  fix tmp :: u32 assume "tmp \<noteq> 0"
  then have "0 < unat tmp" by (simp add: unat_gt_0)
  then have "unat tmp div 2 < unat tmp" by simp
  then show "(drop_bit 1 tmp, tmp) \<in> measure unat" by (simp only: in_measure unat_drop_bit) simp
qed simp

declare shifts.simps [simp del]

definition signum_of_bit :: "u32 \<Rightarrow> int" where
  "signum_of_bit b = 1 + shifts (drop_bit 1 b)"

definition clear_pending :: "tptr \<Rightarrow> u32 \<Rightarrow> kst \<Rightarrow> kst" where
  "clear_pending t b = upd t (\<lambda>x. x\<lparr>pending_signals := pending_signals x AND NOT b\<rparr>)"

text \<open>
  One pass of the dispatch loop for the signal bit \<open>b\<close>. The handler table has 32 entries; an index
  beyond it is out of bounds.
\<close>

definition dispatch_one :: "tptr \<Rightarrow> u32 \<Rightarrow> kst \<Rightarrow> kst res" where
  "dispatch_one t b s =
     (let signum = signum_of_bit b in
      if b AND SIG_IMMUTABLE_MASK \<noteq> 0 then sig_default_action t signum (clear_pending t b s)
      else if nat signum \<ge> length (signal_handlers (tasks s t)) then Inl (OutOfBounds (of_int signum))
      else
        let handler = signal_handlers (tasks s t) ! nat signum in
        if handler = SIG_IGN then Inr (clear_pending t b s)
        else if handler = SIG_DFL then sig_default_action t signum (clear_pending t b s)
        else if is_userspace (tasks s t) then Inr s
        else let s = clear_pending t b s in
             Inr (s\<lparr>handler_calls := (handler, signum) # handler_calls s\<rparr>))"

text \<open>The lowest set bit, in closed form.\<close>

lemma odd_low_bit: "odd (q :: u32) \<Longrightarrow> q AND (NOT q + 1) = 1"
proof -
  assume q: "odd q"
  have "NOT q + 1 = NOT q OR 1" using q by (simp add: or_one_eq even_not_iff)
  then have "q AND (NOT q + 1) = q AND 1" by (simp add: bit.conj_disj_distrib)
  then show ?thesis using q by (simp add: and_one_eq mod_2_eq_odd)
qed

lemma low_bit_eq:
  assumes "bit w m" and "\<And>i. i < m \<Longrightarrow> \<not> bit w i"
  shows "low_bit w = 2 ^ m"
proof -
  let ?q = "drop_bit m w"
  have above: "m \<le> n" if "bit w n" for n using assms(2) [of n] that not_less by blast
  have w: "w = push_bit m ?q"
    by (rule bit_word_eqI) (use above in \<open>auto simp: bit_push_bit_iff bit_drop_bit_eq\<close>)
  have "odd ?q" using assms(1) by (simp add: bit_iff_odd_drop_bit)
  have "NOT w + 1 = - w" by (simp add: minus_eq_not_plus_1)
  also have "\<dots> = push_bit m (- ?q)" by (subst w) (simp add: push_bit_eq_mult)
  also have "- ?q = NOT ?q + 1" by (simp add: minus_eq_not_plus_1)
  finally have "low_bit w = push_bit m (?q AND (NOT ?q + 1))"
    unfolding low_bit_def by (subst (1) w) (simp add: push_bit_and)
  then show ?thesis using odd_low_bit [OF \<open>odd ?q\<close>] by simp
qed

lemma lowest_bitE:
  assumes "(w :: u32) \<noteq> 0"
  obtains m where "bit w m" "\<And>i. i < m \<Longrightarrow> \<not> bit w i" "m < 32"
proof -
  obtain n where n: "bit w n" using assms by (auto simp: bit_eq_iff)
  define m where "m = (LEAST n. bit w n)"
  have "bit w m" "\<And>i. i < m \<Longrightarrow> \<not> bit w i"
    using LeastI [of "bit w" n] n not_less_Least by (auto simp: m_def)
  then show thesis using that bit_imp_le_length [of w m] by auto
qed

lemma low_bit_clear_less:
  assumes "w \<noteq> 0"
  shows "unat (w AND NOT (low_bit w)) < unat w"
proof -
  obtain m where m: "bit w m" "\<And>i. i < m \<Longrightarrow> \<not> bit w i" using lowest_bitE [OF assms] by metis
  have "w AND NOT (low_bit w) \<noteq> w"
  proof
    assume "w AND NOT (low_bit w) = w"
    with m(1) have "bit (w AND NOT (low_bit w)) m" by simp
    then show False using low_bit_eq [OF m] by (simp add: bit_and_iff bit_not_iff bit_exp_u32)
  qed
  moreover have "unat (w AND NOT (low_bit w)) \<le> unat w"
    by (simp add: word_le_nat_alt [symmetric] word_and_le2)
  ultimately show ?thesis by (metis le_neq_implies_less word_unat_eq_iff)
qed

function dispatch_loop :: "tptr \<Rightarrow> u32 \<Rightarrow> kst \<Rightarrow> kst res" where
  "dispatch_loop t pending s =
     (if pending = 0 \<or> state (tasks s t) = TASK_ZOMBIE \<or> state (tasks s t) = TASK_STOPPED then Inr s
      else bnd (dispatch_one t (low_bit pending) s) (dispatch_loop t (pending AND NOT (low_bit pending))))"
  by auto
termination
  by (relation "measure (\<lambda>(t, pending, s). unat pending)") (simp_all add: low_bit_clear_less)

declare dispatch_loop.simps [simp del]

definition kernel_signal_dispatch :: "tptr \<Rightarrow> kst \<Rightarrow> kst res" where
  "kernel_signal_dispatch t s = dispatch_loop t (pending_signals (tasks s t)) s"

section \<open>Delivery to ring 3\<close>

text \<open>
  32-bit accesses through the MMU; one that is not aligned touches the bytes in turn.
\<close>

definition vread32 :: "mm \<Rightarrow> u32 \<Rightarrow> u32 res" where
  "vread32 m va =
     (if va AND 3 = 0 then vread m va
      else bnd (vread8 m va) (\<lambda>b0. bnd (vread8 m (va + 1)) (\<lambda>b1.
           bnd (vread8 m (va + 2)) (\<lambda>b2. bnd (vread8 m (va + 3)) (\<lambda>b3.
           Inr (ucast b0 OR push_bit 8 (ucast b1) OR push_bit 16 (ucast b2) OR push_bit 24 (ucast b3)))))))"

definition vwrite32 :: "mm \<Rightarrow> u32 \<Rightarrow> u32 \<Rightarrow> mm res" where
  "vwrite32 m va x =
     (if va AND 3 = 0 then vwrite m va x
      else bnd (vwrite8 m va (ucast x)) (\<lambda>m. bnd (vwrite8 m (va + 1) (ucast (drop_bit 8 x))) (\<lambda>m.
           bnd (vwrite8 m (va + 2) (ucast (drop_bit 16 x))) (\<lambda>m.
           vwrite8 m (va + 3) (ucast (drop_bit 24 x))))))"

text \<open>A trap frame as the sixteen words it occupies in memory.\<close>

definition tf_words :: "trap_frame \<Rightarrow> u32 list" where
  "tf_words f = [tf_ds f, tf_edi f, tf_esi f, tf_ebp f, tf_esp_saved f, tf_ebx f, tf_edx f, tf_ecx f,
     tf_eax f, tf_int_no f, tf_err_code f, tf_eip f, tf_cs f, tf_eflags f, tf_user_esp f, tf_user_ss f]"

definition tf_of_words :: "u32 list \<Rightarrow> trap_frame" where
  "tf_of_words w = \<lparr>tf_ds = w ! 0, tf_edi = w ! 1, tf_esi = w ! 2, tf_ebp = w ! 3, tf_esp_saved = w ! 4,
     tf_ebx = w ! 5, tf_edx = w ! 6, tf_ecx = w ! 7, tf_eax = w ! 8, tf_int_no = w ! 9,
     tf_err_code = w ! 10, tf_eip = w ! 11, tf_cs = w ! 12, tf_eflags = w ! 13, tf_user_esp = w ! 14,
     tf_user_ss = w ! 15\<rparr>"

primrec write_words :: "u32 \<Rightarrow> u32 list \<Rightarrow> mm \<Rightarrow> mm res" where
  "write_words va [] m = Inr m"
| "write_words va (w # ws) m = bnd (vwrite32 m va w) (write_words (va + 4) ws)"

primrec read_words :: "u32 \<Rightarrow> nat \<Rightarrow> mm \<Rightarrow> u32 list res" where
  "read_words va 0 m = Inr []"
| "read_words va (Suc n) m = bnd (vread32 m va) (\<lambda>w. bnd (read_words (va + 4) n m) (\<lambda>ws. Inr (w # ws)))"

primrec write_bytes :: "u32 \<Rightarrow> u8 list \<Rightarrow> mm \<Rightarrow> mm res" where
  "write_bytes va [] m = Inr m"
| "write_bytes va (b # bs) m = bnd (vwrite8 m va b) (write_bytes (va + 1) bs)"

abbreviation (input) SYS_SIGRETURN :: u32 where "SYS_SIGRETURN \<equiv> 119"

definition trampoline :: "u8 list" where
  "trampoline = [0xb8, ucast (SYS_SIGRETURN AND 0xff), ucast (drop_bit 8 SYS_SIGRETURN AND 0xff),
     ucast (drop_bit 16 SYS_SIGRETURN AND 0xff), ucast (drop_bit 24 SYS_SIGRETURN AND 0xff), 0xcd, 0x80, 0x90]"

text \<open>
  \<open>setup_user_sigframe\<close>: the frame on the user stack is \<open>pretcode\<close> at offset 0, \<open>sig\<close> at 4, the saved
  trap frame at 8 and the trampoline at 72, 80 bytes in all.
\<close>

definition setup_user_sigframe :: "trap_frame \<Rightarrow> int \<Rightarrow> u32 \<Rightarrow> mm \<Rightarrow> (trap_frame \<times> mm) res" where
  "setup_user_sigframe frame signum handler m =
     (let usp = ((tf_user_esp frame - 80) AND NOT 0xF) - 4 in
      bnd (write_words (usp + 8) (tf_words frame) m) (\<lambda>m.
      bnd (vwrite32 m (usp + 4) (of_int signum)) (\<lambda>m.
      bnd (vwrite32 m usp (usp + 72)) (\<lambda>m.
      bnd (write_bytes (usp + 72) trampoline m) (\<lambda>m.
      Inr (frame\<lparr>tf_eip := handler, tf_user_esp := usp, tf_eflags := tf_eflags frame AND NOT (push_bit 10 1)\<rparr>, m))))))"

text \<open>The search for a deliverable signal: the lowest caught one that is not immutable.\<close>

function find_caught :: "u32 list \<Rightarrow> u32 \<Rightarrow> (u32 \<times> int \<times> u32) option res" where
  "find_caught handlers pending =
     (if pending = 0 then Inr None
      else let b = low_bit pending; rest = pending AND NOT b; signum = signum_of_bit b in
        if b AND SIG_IMMUTABLE_MASK \<noteq> 0 then find_caught handlers rest
        else if nat signum \<ge> length handlers then Inl (OutOfBounds (of_int signum))
        else if handlers ! nat signum = SIG_DFL \<or> handlers ! nat signum = SIG_IGN
        then find_caught handlers rest
        else Inr (Some (b, signum, handlers ! nat signum)))"
  by auto
termination
  by (relation "measure (\<lambda>(h, pending). unat pending)") (simp_all add: low_bit_clear_less)

declare find_caught.simps [simp del]

definition signal_check_and_deliver :: "u32 \<Rightarrow> kst \<Rightarrow> kst res" where
  "signal_check_and_deliver fp s =
     (let frame = tframes s fp; t = current_task s in
      if tf_cs frame AND 3 \<noteq> 3 then Inr s
      else bnd (find_caught (signal_handlers (tasks s t)) (pending_signals (tasks s t))) (\<lambda>r.
        case r of None \<Rightarrow> Inr s
        | Some (b, signum, handler) \<Rightarrow>
            let s = clear_pending t b s in
            bnd (setup_user_sigframe frame signum handler (kmm s)) (\<lambda>(frame, m).
            Inr (s\<lparr>tframes := (tframes s)(fp := frame), kmm := m\<rparr>))))"

end
