(* ===== verification/Task_Tree.thy ===== *)
theory Task_Tree
  imports Task
begin

text \<open>
  The process tree of \<open>src/src/task.c\<close> against its specification: a function from a task to the list of
  its children. The child and sibling pointers refine it, the parent pointer is its inverse, and
  \<open>do_exit\<close> moves every child of the dying task to the reaper.
\<close>

section \<open>State updates\<close>

lemma tasks_upd [simp]: "tasks (upd t f s) x = (if x = t then f (tasks s t) else tasks s x)"
  by (simp add: upd_def)

lemma upd_frame [simp]:
  "task_list_head (upd t f s) = task_list_head s"
  "current_task (upd t f s) = current_task s"
  "init_proc (upd t f s) = init_proc s"
  "task_counter (upd t f s) = task_counter s"
  "kmm (upd t f s) = kmm s"
  "kheap (upd t f s) = kheap s"
  "pool (upd t f s) = pool s"
  "tframes (upd t f s) = tframes s"
  "kbytes (upd t f s) = kbytes s"
  "handler_calls (upd t f s) = handler_calls s"
  "terminal (upd t f s) = terminal s"
  "need_resched (upd t f s) = need_resched s"
  "next_task (upd t f s) = next_task s"
  "lap_anchor (upd t f s) = lap_anchor s"
  "lap_num (upd t f s) = lap_num s"
  "blocked_marker (upd t f s) = blocked_marker s"
  "unblocked_marker (upd t f s) = unblocked_marker s"
  "tss_esp0 (upd t f s) = tss_esp0 s"
  "static_addr (upd t f s) = static_addr s"
  by (simp_all add: upd_def)

text \<open>\<open>same_but_tasks\<close>: two kernel states that differ in descriptors only.\<close>

definition same_but_tasks :: "kst \<Rightarrow> kst \<Rightarrow> bool" where
  "same_but_tasks s s' \<longleftrightarrow> s' = s\<lparr>tasks := tasks s'\<rparr>"

lemma same_but_tasks_refl [simp, intro]: "same_but_tasks s s"
  by (simp add: same_but_tasks_def)

lemma same_but_tasks_upd [intro]: "same_but_tasks s s' \<Longrightarrow> same_but_tasks s (upd t f s')"
  unfolding same_but_tasks_def by (cases s, cases s') (simp add: upd_def)

lemma same_but_tasks_trans: "same_but_tasks s s' \<Longrightarrow> same_but_tasks s' s'' \<Longrightarrow> same_but_tasks s s''"
  unfolding same_but_tasks_def by (cases s, cases s', cases s'') simp

lemma same_but_tasksD:
  assumes "same_but_tasks s s'"
  shows "task_list_head s' = task_list_head s" "current_task s' = current_task s"
    "init_proc s' = init_proc s" "task_counter s' = task_counter s" "kmm s' = kmm s" "kheap s' = kheap s"
    "pool s' = pool s" "tframes s' = tframes s" "kbytes s' = kbytes s" "handler_calls s' = handler_calls s"
    "need_resched s' = need_resched s" "next_task s' = next_task s" "terminal s' = terminal s"
  using assms by (cases s, cases s', simp add: same_but_tasks_def)+

text \<open>A change of links only: every other field of every descriptor is kept.\<close>

definition relink :: "task \<Rightarrow> task \<Rightarrow> task" where
  "relink x y = x\<lparr>parent := parent y, children := children y, sibling := sibling y\<rparr>"

definition relinked :: "kst \<Rightarrow> kst \<Rightarrow> bool" where
  "relinked s s' \<longleftrightarrow> same_but_tasks s s' \<and> (\<forall>x. tasks s' x = relink (tasks s x) (tasks s' x))"

lemma relink_fields [simp]:
  "state (relink x y) = state x" "thread (relink x y) = thread x" "pid (relink x y) = pid x"
  "kstack (relink x y) = kstack x" "task_mm (relink x y) = task_mm x" "task_next (relink x y) = task_next x"
  "quantum (relink x y) = quantum x" "time_left (relink x y) = time_left x"
  "exit_code (relink x y) = exit_code x" "uid (relink x y) = uid x" "euid (relink x y) = euid x"
  "pending_signals (relink x y) = pending_signals x" "signal_handlers (relink x y) = signal_handlers x"
  "is_userspace (relink x y) = is_userspace x" "log_buf (relink x y) = log_buf x"
  "log_head (relink x y) = log_head x" "log_len (relink x y) = log_len x" "in_buf (relink x y) = in_buf x"
  "in_head (relink x y) = in_head x" "in_tail (relink x y) = in_tail x"
  "parent (relink x y) = parent y" "children (relink x y) = children y" "sibling (relink x y) = sibling y"
  by (simp_all add: relink_def)

lemma relink_self [simp]: "relink x x = x"
  by (simp add: relink_def)

lemma relink_relink: "relink x (relink y z) = relink x z"
  by (simp add: relink_def)

lemma relinked_refl [simp, intro]: "relinked s s"
  by (simp add: relinked_def)

lemma relinked_trans: "relinked s s' \<Longrightarrow> relinked s' s'' \<Longrightarrow> relinked s s''"
  unfolding relinked_def
proof (intro conjI allI; (elim conjE)?)
  fix x assume "\<forall>x. tasks s' x = relink (tasks s x) (tasks s' x)" "\<forall>x. tasks s'' x = relink (tasks s' x) (tasks s'' x)"
  then have "tasks s'' x = relink (relink (tasks s x) (tasks s' x)) (tasks s'' x)" by metis
  then show "tasks s'' x = relink (tasks s x) (tasks s'' x)" by (simp add: relink_def)
qed (blast intro: same_but_tasks_trans)

lemma relinked_upd:
  assumes "relinked s s'" and "\<And>x. f x = relink x (f x)"
  shows "relinked s (upd t f s')"
proof (rule relinked_trans [OF assms(1)])
  show "relinked s' (upd t f s')" using assms(2) by (auto simp: relinked_def)
qed

text \<open>The part of a descriptor that signals, exits and tree operations never touch.\<close>

definition ident :: "task \<Rightarrow> task" where
  "ident x = x\<lparr>state := TASK_RUNNABLE, parent := None, children := None, sibling := None, exit_code := 0,
     pending_signals := 0\<rparr>"

lemma ident_update [simp]:
  "ident (state_update f x) = ident x" "ident (parent_update g x) = ident x"
  "ident (children_update g x) = ident x" "ident (sibling_update g x) = ident x"
  "ident (exit_code_update h x) = ident x" "ident (pending_signals_update k x) = ident x"
  by (simp_all add: ident_def)

lemma ident_relink [simp]: "ident (relink x y) = ident x"
  by (simp add: relink_def)

lemma ident_fields:
  assumes "ident x = ident y"
  shows "thread x = thread y" "pid x = pid y" "kstack x = kstack y" "task_mm x = task_mm y"
    "task_next x = task_next y" "quantum x = quantum y" "time_left x = time_left y" "uid x = uid y"
    "euid x = euid y" "signal_handlers x = signal_handlers y" "is_userspace x = is_userspace y"
    "log_buf x = log_buf y" "log_head x = log_head y" "log_len x = log_len y" "in_buf x = in_buf y"
    "in_head x = in_head y" "in_tail x = in_tail y"
  using assms by (cases x, cases y, simp add: ident_def)+

lemma relinked_ident: "relinked s s' \<Longrightarrow> ident (tasks s' x) = ident (tasks s x)"
  by (metis ident_relink relinked_def)

section \<open>The specification\<close>

definition tree :: "kst \<Rightarrow> (tptr \<Rightarrow> tptr list) \<Rightarrow> bool" where
  "tree s kids \<longleftrightarrow>
     (\<forall>p. chain (\<lambda>x. sibling (tasks s x)) (children (tasks s p)) (kids p)) \<and>
     (\<forall>p c. c \<in> set (kids p) \<longleftrightarrow> parent (tasks s c) = Some p)"

lemma treeD:
  assumes "tree s kids"
  shows "chain (\<lambda>x. sibling (tasks s x)) (children (tasks s p)) (kids p)"
    and "c \<in> set (kids p) \<longleftrightarrow> parent (tasks s c) = Some p"
  using assms by (auto simp: tree_def)

text \<open>The tree depends on the three links of each descriptor only.\<close>

definition same_links :: "task \<Rightarrow> task \<Rightarrow> bool" where
  "same_links x y \<longleftrightarrow> parent x = parent y \<and> children x = children y \<and> sibling x = sibling y"

lemma tree_cong:
  assumes "\<And>t. same_links (tasks s t) (tasks s' t)"
  shows "tree s kids \<longleftrightarrow> tree s' kids"
  using assms by (simp add: tree_def same_links_def)

lemma tree_upd:
  assumes "\<And>x. same_links (f x) x"
  shows "tree (upd t f s) kids \<longleftrightarrow> tree s kids"
  using assms by (intro tree_cong) (simp add: same_links_def)

lemma same_links_post_signal [simp]: "same_links (post_signal sig x) x"
  by (simp add: post_signal_def same_links_def Let_def)

lemma tree_signal [simp]: "tree (kernel_signal_send t sig s) kids \<longleftrightarrow> tree s kids"
  by (simp add: kernel_signal_send_def tree_upd)

lemma prev_sibling_chain:
  "chain (\<lambda>x. sibling (tasks s x)) p xs \<Longrightarrow>
     prev_sibling s p c = Some (find (\<lambda>x. sibling (tasks s x) = Some c) xs)"
proof (induction xs arbitrary: p)
  case Nil
  then show ?case by (subst prev_sibling.simps) simp
next
  case (Cons x xs)
  then show ?case by (subst prev_sibling.simps) simp
qed

lemma task_add_child_spec:
  assumes "tree s kids" and "parent (tasks s c) = None"
  shows "tree (task_add_child p c s) (kids(p := c # kids p))"
proof -
  let ?s' = "task_add_child p c s"
  have c: "c \<notin> set (kids q)" for q using treeD(2) [OF assms(1)] assms(2) by simp
  have sib: "(\<lambda>x. sibling (tasks ?s' x)) = (\<lambda>x. sibling (tasks s x))(c := children (tasks s p))"
    by (auto simp: task_add_child_def Let_def)
  have ch: "children (tasks ?s' q) = (if q = p then Some c else children (tasks s q))" for q
    by (auto simp: task_add_child_def Let_def)
  have par: "parent (tasks ?s' x) = (if x = c then Some p else parent (tasks s x))" for x
    by (auto simp: task_add_child_def Let_def)
  show ?thesis
    unfolding tree_def sib ch par
    using treeD [OF assms(1)] c by (auto simp: chain_fun_upd)
qed

lemma parent_add_child [simp]:
  "parent (tasks (task_add_child p c s) x) = (if x = c then Some p else parent (tasks s x))"
  by (simp add: task_add_child_def Let_def)

text \<open>What \<open>task_remove_child\<close> did to the links, in both of its branches.\<close>

lemma task_remove_child_links:
  assumes "tree s kids" and "c \<in> set (kids p)"
  obtains s' where "task_remove_child p c s = Inr s'" and "relinked s s'"
    and "parent (tasks s' c) = None" and "tree s' (kids(p := remove1 c (kids p)))"
proof -
  let ?nx = "\<lambda>x. sibling (tasks s x)"
  have ch: "chain ?nx (children (tasks s q)) (kids q)" for q using treeD(1) [OF assms(1)] .
  have par: "x \<in> set (kids q) \<longleftrightarrow> parent (tasks s x) = Some q" for x q using treeD(2) [OF assms(1)] .
  have only: "x \<notin> set (kids q)" if "x \<in> set (kids p)" "q \<noteq> p" for x q using that par by auto
  have dist: "distinct (kids p)" using chain_distinct [OF ch] .
  have mem: "x \<in> set ((kids(p := remove1 c (kids p))) q) \<longleftrightarrow> (if x = c then None else parent (tasks s x)) = Some q"
    for x q using only [OF assms(2)] dist by (auto simp: par [symmetric] set_remove1_eq)
  show thesis
  proof (cases "children (tasks s p) = Some c")
    case True
    then obtain cs where cs: "kids p = c # cs" "chain ?nx (?nx c) cs" using ch [of p] by (auto simp: chain_Some)
    define s' where "s' = upd c (\<lambda>x. x\<lparr>sibling := None, parent := None\<rparr>)
      (upd p (\<lambda>x. x\<lparr>children := sibling (tasks s c)\<rparr>) s)"
    have r: "task_remove_child p c s = Inr s'" using True by (simp add: task_remove_child_def s'_def)
    have sib: "(\<lambda>x. sibling (tasks s' x)) = ?nx(c := None)" by (auto simp: s'_def)
    have ch': "children (tasks s' q) = (if q = p then ?nx c else children (tasks s q))" for q
      by (auto simp: s'_def)
    have par': "parent (tasks s' x) = (if x = c then None else parent (tasks s x))" for x
      by (auto simp: s'_def)
    have t: "tree s' (kids(p := remove1 c (kids p)))"
      unfolding tree_def sib ch' par' mem using cs ch only [OF assms(2)] dist by (auto simp: chain_fun_upd)
    show thesis
      by (rule that [of s', OF r]) (use par' t in \<open>auto simp: s'_def intro!: relinked_upd\<close>)
  next
    case False
    obtain us a vs where kp: "kids p = us @ a # c # vs" and a: "?nx a = Some c"
      and f: "find (\<lambda>x. ?nx x = Some c) (kids p) = Some a"
    proof -
      obtain us0 a0 vs0 where "kids p = us0 @ a0 # c # vs0" "?nx a0 = Some c"
        using in_chain_pred [OF ch assms(2) False] .
      then have "find (\<lambda>x. ?nx x = Some c) (kids p) \<noteq> None" unfolding find_None_iff by auto
      then obtain a where f: "find (\<lambda>x. ?nx x = Some c) (kids p) = Some a" by blast
      then have "a \<in> set (kids p)" "?nx a = Some c" by (auto simp: find_Some_iff)
      with chain_links_to [OF ch this] f that show thesis by blast
    qed
    define s' where "s' = upd c (\<lambda>x. x\<lparr>sibling := None, parent := None\<rparr>)
      (upd a (\<lambda>x. x\<lparr>sibling := sibling (tasks s c)\<rparr>) s)"
    have r: "task_remove_child p c s = Inr s'"
      using False prev_sibling_chain [OF ch] f by (simp add: task_remove_child_def s'_def)
    have ac: "a \<noteq> c" "c \<notin> set us" "c \<notin> set vs" using dist kp by auto
    have sib: "(\<lambda>x. sibling (tasks s' x)) = ?nx(a := ?nx c, c := None)" using ac by (auto simp: s'_def)
    have ch': "children (tasks s' q) = children (tasks s q)" for q by (auto simp: s'_def)
    have par': "parent (tasks s' x) = (if x = c then None else parent (tasks s x))" for x
      by (auto simp: s'_def)
    have rem: "remove1 c (kids p) = us @ a # vs" using kp ac by (simp add: remove1_append)
    have "chain (?nx(a := ?nx c)) (children (tasks s p)) (us @ a # vs)"
      using chain_unlink [of ?nx _ us a c vs] ch [of p] kp by simp
    then have cp: "chain (?nx(a := ?nx c, c := None)) (children (tasks s p)) (us @ a # vs)"
      using ac by (subst chain_fun_upd) auto
    have cq: "chain (?nx(a := ?nx c, c := None)) (children (tasks s q)) (kids q)" if "q \<noteq> p" for q
      using ch [of q] only [of a q] only [of c q] that kp by (simp add: chain_fun_upd)
    have t: "tree s' (kids(p := remove1 c (kids p)))"
      unfolding tree_def sib ch' par' mem using cp cq rem by auto
    show thesis
      by (rule that [of s', OF r]) (use par' t in \<open>auto simp: s'_def intro!: relinked_upd\<close>)
  qed
qed

lemma task_add_child_relinked: "relinked s (task_add_child p c s)"
  unfolding task_add_child_def Let_def by (intro relinked_upd relinked_refl) (simp_all add: relink_def)

lemma task_reparent_spec:
  assumes "tree s kids" and "c \<in> set (kids p)"
  obtains s' where "task_reparent c q s = Inr s'" and "relinked s s'"
    and "tree s' ((kids(p := remove1 c (kids p)))(q := c # (kids(p := remove1 c (kids p))) q))"
proof -
  obtain s1 where s1: "task_remove_child p c s = Inr s1" "relinked s s1" "parent (tasks s1 c) = None"
    "tree s1 (kids(p := remove1 c (kids p)))" using task_remove_child_links [OF assms] .
  have "parent (tasks s c) = Some p" using treeD(2) [OF assms(1)] assms(2) by simp
  then have "task_reparent c q s = Inr (task_add_child q c s1)" using s1 by (simp add: task_reparent_def)
  moreover have "relinked s (task_add_child q c s1)"
    using relinked_trans [OF s1(2) task_add_child_relinked] .
  ultimately show thesis using that task_add_child_spec [OF s1(4,3)] by blast
qed

section \<open>Draining a list of children\<close>

text \<open>
  The interface that the exit path relies on: the first child can be read, and moving a child to
  another task takes it out of one list and puts it in front of the other.
\<close>

locale child_lists =
  fixes inv :: "'s \<Rightarrow> ('p \<Rightarrow> 'p list) \<Rightarrow> bool"
    and first :: "'s \<Rightarrow> 'p \<Rightarrow> 'p option"
    and move :: "'p \<Rightarrow> 'p \<Rightarrow> 's \<Rightarrow> 's res"
    and keeps :: "'s \<Rightarrow> 's \<Rightarrow> bool"
  assumes first: "inv s kids \<Longrightarrow> first s p = (case kids p of [] \<Rightarrow> None | c # cs \<Rightarrow> Some c)"
    and move: "inv s kids \<Longrightarrow> c \<in> set (kids p) \<Longrightarrow>
      \<exists>s'. move c q s = Inr s' \<and> keeps s s' \<and>
        inv s' ((kids(p := remove1 c (kids p)))(q := c # (kids(p := remove1 c (kids p))) q))"
    and keeps_refl: "keeps s s"
    and keeps_trans: "keeps s s' \<Longrightarrow> keeps s' s'' \<Longrightarrow> keeps s s''"
begin

lemma move_first:
  assumes "inv s kids" and "kids p = c # cs" and "p \<noteq> q"
  obtains s' where "move c q s = Inr s'" and "keeps s s'" and "inv s' (kids(p := cs, q := c # kids q))"
proof -
  obtain s' where s': "move c q s = Inr s'" "keeps s s'"
    "inv s' ((kids(p := remove1 c (kids p)))(q := c # (kids(p := remove1 c (kids p))) q))"
    using move [OF assms(1), of c p q] assms(2) by auto
  have "(kids(p := remove1 c (kids p)))(q := c # (kids(p := remove1 c (kids p))) q) = kids(p := cs, q := c # kids q)"
    using assms(2,3) by simp
  with s' show thesis using that by metis
qed

text \<open>The loop that moves the first child until there is none ends, with every child moved.\<close>

lemma drain:
  assumes loop: "\<And>s. lp s = (case first s t of None \<Rightarrow> Some (Inr s)
      | Some c \<Rightarrow> (case move c r s of Inl e \<Rightarrow> Some (Inl e) | Inr s' \<Rightarrow> lp s'))"
    and "inv s kids" and ne: "t \<noteq> r"
  shows "\<exists>s'. lp s = Some (Inr s') \<and> keeps s s' \<and> inv s' (kids(t := [], r := rev (kids t) @ kids r))"
  using assms(2)
proof (induction "kids t" arbitrary: s kids)
  case Nil
  then have "first s t = None" using first [of s kids t] by simp
  moreover have e: "kids(t := [], r := rev (kids t) @ kids r) = kids" using Nil by (simp add: fun_upd_idem)
  ultimately show ?case unfolding e using loop [of s] Nil keeps_refl by auto
next
  case (Cons c cs)
  then have f: "first s t = Some c" using first [of s kids t] by (simp add: Cons.hyps(2) [symmetric])
  obtain s1 where s1: "move c r s = Inr s1" "keeps s s1" "inv s1 (kids(t := cs, r := c # kids r))"
    using move_first [OF Cons.prems Cons.hyps(2) [symmetric] ne] .
  have "cs = (kids(t := cs, r := c # kids r)) t" using ne by simp
  from Cons.hyps(1) [OF this s1(3)] obtain s2 where s2: "lp s1 = Some (Inr s2)" "keeps s1 s2"
    "inv s2 ((kids(t := cs, r := c # kids r))(t := [], r := rev cs @ (c # kids r)))" using ne by auto
  have e: "(kids(t := cs, r := c # kids r))(t := [], r := rev cs @ (c # kids r)) = kids(t := [], r := rev (kids t) @ kids r)"
    using ne by (auto simp: Cons.hyps(2) [symmetric])
  have "lp s = Some (Inr s2)" using loop [of s] s1(1) s2(1) f by simp
  then show ?case using s2(3) keeps_trans [OF s1(2) s2(2)] unfolding e by blast
qed

end

interpretation proc: child_lists tree "\<lambda>s p. children (tasks s p)" task_reparent relinked
proof unfold_locales
  fix s kids p assume "tree s kids"
  then have "chain (\<lambda>x. sibling (tasks s x)) (children (tasks s p)) (kids p)" by (rule treeD)
  then show "children (tasks s p) = (case kids p of [] \<Rightarrow> None | c # cs \<Rightarrow> Some c)"
    by (cases "kids p") auto
next
  fix s kids c p q assume "tree s kids" "c \<in> set (kids p)"
  then show "\<exists>s'. task_reparent c q s = Inr s' \<and> relinked s s' \<and>
      tree s' ((kids(p := remove1 c (kids p)))(q := c # (kids(p := remove1 c (kids p))) q))"
    by (metis task_reparent_spec)
qed (blast intro: relinked_trans)+

section \<open>Posting a signal\<close>

lemma SIGMASK_exp: "0 < sig \<Longrightarrow> SIGMASK sig = 2 ^ (nat sig - 1)"
  by (simp add: SIGMASK_def nat_diff_distrib)

lemma bit_SIGMASK: "0 < sig \<Longrightarrow> bit (SIGMASK sig) n \<longleftrightarrow> n < 32 \<and> n = nat sig - 1"
  by (auto simp: SIGMASK_exp bit_exp_u32)

lemma post_signal_pending:
  assumes "0 < sig" and "sig < 32"
  shows "bit (pending_signals (post_signal sig x)) (nat sig - 1)"
  using assms by (auto simp: post_signal_def Let_def bit_or_iff bit_SIGMASK)

text \<open>A signal changes the state of the target only when it wakes it.\<close>

lemma post_signal_state:
  "state (post_signal sig x) = state x \<or>
     state (post_signal sig x) = TASK_RUNNABLE \<and> (state x = TASK_BLOCKED \<or> state x = TASK_STOPPED)"
  by (auto simp: post_signal_def Let_def)

lemma post_signal_zombie [simp]: "state (post_signal sig x) = TASK_ZOMBIE \<longleftrightarrow> state x = TASK_ZOMBIE"
  using post_signal_state [of sig x] by auto

lemma post_signal_running: "state (post_signal sig x) = TASK_RUNNING \<Longrightarrow> state x = TASK_RUNNING"
  using post_signal_state [of sig x] by auto

lemma post_signal_keeps [simp]:
  "exit_code (post_signal sig x) = exit_code x" "parent (post_signal sig x) = parent x"
  "children (post_signal sig x) = children x" "sibling (post_signal sig x) = sibling x"
  "pid (post_signal sig x) = pid x" "task_next (post_signal sig x) = task_next x"
  "signal_handlers (post_signal sig x) = signal_handlers x" "is_userspace (post_signal sig x) = is_userspace x"
  "uid (post_signal sig x) = uid x" "euid (post_signal sig x) = euid x" "kstack (post_signal sig x) = kstack x"
  "task_mm (post_signal sig x) = task_mm x" "thread (post_signal sig x) = thread x"
  "quantum (post_signal sig x) = quantum x" "time_left (post_signal sig x) = time_left x"
  "log_buf (post_signal sig x) = log_buf x" "log_head (post_signal sig x) = log_head x"
  "log_len (post_signal sig x) = log_len x" "in_buf (post_signal sig x) = in_buf x"
  "in_head (post_signal sig x) = in_head x" "in_tail (post_signal sig x) = in_tail x"
  by (simp_all add: post_signal_def Let_def)

lemma ident_post_signal [simp]: "ident (post_signal sig x) = ident x"
  by (simp add: post_signal_def Let_def)

lemma same_but_tasks_signal [intro]: "same_but_tasks s s' \<Longrightarrow> same_but_tasks s (kernel_signal_send t sig s')"
  by (auto simp: kernel_signal_send_def)

section \<open>Termination of a task\<close>

definition reaper_of :: "kst \<Rightarrow> tptr" where
  "reaper_of s = (case init_proc s of Some r \<Rightarrow> r | None \<Rightarrow> Init_task)"

text \<open>The bookkeeping of an exit, once the children are drained from \<open>s1\<close> to \<open>s2\<close>.\<close>

lemma do_exit_unfold:
  assumes "s0 = upd t (\<lambda>x. x\<lparr>exit_code := code\<rparr>) s"
    and "s1 = (if children (tasks s0 t) \<noteq> None \<and> reaper_of s \<noteq> t then kernel_signal_send (reaper_of s) SIGCHLD s0 else s0)"
    and "orphan_children t (reaper_of s) s1 = Some (Inr s2)"
    and "s3 = upd t (\<lambda>x. x\<lparr>state := TASK_ZOMBIE\<rparr>) s2"
  shows "do_exit t code s =
    Inr (case parent (tasks s3 t) of None \<Rightarrow> s3 | Some p \<Rightarrow> kernel_signal_send p SIGCHLD s3)"
proof -
  have "(case init_proc s0 of Some r \<Rightarrow> r | None \<Rightarrow> Init_task) = reaper_of s" by (simp add: assms(1) reaper_of_def)
  then show ?thesis
    by (simp only: do_exit_def Let_def assms(1) [symmetric] assms(2) [symmetric] assms(3) loop_res_simps bnd_simps
      assms(4) [symmetric])
qed

text \<open>The loop over the children ends when they go to another task, or when there are none.\<close>

lemma orphan_children_drain:
  assumes "tree s kids" and "t \<noteq> r \<or> kids t = []"
  shows "\<exists>s'. orphan_children t r s = Some (Inr s') \<and> relinked s s' \<and> tree s' (kids(t := [], r := rev (kids t) @ kids r))"
proof (cases "t = r")
  case True
  then have "kids(t := [], r := rev (kids t) @ kids r) = kids" using assms(2) by auto
  moreover have "orphan_children t r s = Some (Inr s)"
    using True assms proc.first [OF assms(1), of t] by (subst orphan_children.simps) simp
  ultimately show ?thesis using assms(1) by auto
next
  case False
  then show ?thesis
    using proc.drain [where lp = "orphan_children t r" and t = t and r = r, OF orphan_children.simps assms(1)] by auto
qed

lemma post_SIGCHLD_pending: "bit (pending_signals (post_signal SIGCHLD x)) n \<longleftrightarrow> bit (pending_signals x) n \<or> n = 16"
proof -
  have "SIGMASK 17 AND SIG_STOP_MASK = 0" by (simp add: SIG_STOP_MASK_def SIGMASK_exp)
  then show ?thesis by (auto simp: post_signal_def Let_def bit_or_iff bit_SIGMASK)
qed

lemma do_exit_spec:
  assumes tr: "tree s kids" and ne: "t \<noteq> reaper_of s \<or> kids t = []" and np: "parent (tasks s t) \<noteq> Some t"
  obtains s' where "do_exit t code s = Inr s'"
    and "tree s' (kids(t := [], reaper_of s := rev (kids t) @ kids (reaper_of s)))"
    and "state (tasks s' t) = TASK_ZOMBIE" and "exit_code (tasks s' t) = code"
    and "kids t \<noteq> [] \<Longrightarrow> bit (pending_signals (tasks s' (reaper_of s))) 16"
    and "\<And>p. parent (tasks s t) = Some p \<Longrightarrow> bit (pending_signals (tasks s' p)) 16"
    and "same_but_tasks s s'"
    and "\<And>x. x \<noteq> t \<Longrightarrow> x \<noteq> reaper_of s \<Longrightarrow> parent (tasks s t) \<noteq> Some x \<Longrightarrow>
          tasks s' x = relink (tasks s x) (tasks s' x)"
    and "\<And>x. ident (tasks s' x) = ident (tasks s x)"
    and "\<And>x. state (tasks s' x) = TASK_RUNNING \<Longrightarrow> state (tasks s x) = TASK_RUNNING"
    and "\<And>x n. bit (pending_signals (tasks s' x)) n \<Longrightarrow> bit (pending_signals (tasks s x)) n \<or> n = 16"
    and "\<And>x. parent (tasks s' x) = parent (tasks s x) \<or> parent (tasks s' x) = Some (reaper_of s)"
proof -
  let ?r = "reaper_of s" and ?k = "kids(t := [], reaper_of s := rev (kids t) @ kids (reaper_of s))"
  define s0 where "s0 = upd t (\<lambda>x. x\<lparr>exit_code := code\<rparr>) s"
  define s1 where "s1 = (if children (tasks s0 t) \<noteq> None \<and> ?r \<noteq> t then kernel_signal_send ?r SIGCHLD s0 else s0)"
  have tr0: "tree s0 kids" using tr by (simp add: s0_def tree_upd same_links_def)
  have tr1: "tree s1 kids" using tr0 by (simp add: s1_def)
  have kt: "children (tasks s t) = None \<longleftrightarrow> kids t = []" using proc.first [OF tr, of t] by (auto split: list.splits)
  obtain s2 where s2: "orphan_children t ?r s1 = Some (Inr s2)" "relinked s1 s2" "tree s2 ?k"
    using orphan_children_drain [OF tr1 ne] by auto
  have rx: "tasks s2 x = relink (tasks s1 x) (tasks s2 x)" for x using s2(2) by (simp add: relinked_def)
  have sbt: "same_but_tasks s s1" unfolding s1_def s0_def by auto
  have sb2: "same_but_tasks s s2" using same_but_tasks_trans [OF sbt] s2(2) by (auto simp: relinked_def)
  define s3 where "s3 = upd t (\<lambda>x. x\<lparr>state := TASK_ZOMBIE\<rparr>) s2"
  define s' where "s' = (case parent (tasks s3 t) of None \<Rightarrow> s3 | Some p \<Rightarrow> kernel_signal_send p SIGCHLD s3)"
  have ex: "do_exit t code s = Inr s'"
    using do_exit_unfold [OF s0_def s1_def s2(1) s3_def] unfolding s'_def .
  have par: "parent (tasks s2 t) = parent (tasks s t)"
  proof -
    have "parent (tasks s2 t) = Some p \<longleftrightarrow> parent (tasks s t) = Some p" for p
      using treeD(2) [OF s2(3), of t p] treeD(2) [OF tr, of t p] treeD(2) [OF tr, of t t] np ne by (auto split: if_splits)
    then show ?thesis by (metis option.exhaust)
  qed
  have t1: "tasks s1 x = (let y = (if x = t then (tasks s t)\<lparr>exit_code := code\<rparr> else tasks s x) in
      if x = ?r \<and> children (tasks s t) \<noteq> None then post_signal SIGCHLD y else y)" for x
    using ne kt by (auto simp: s1_def s0_def kernel_signal_send_def Let_def)
  have t3: "tasks s3 x = (if x = t then (tasks s2 t)\<lparr>state := TASK_ZOMBIE\<rparr> else tasks s2 x)" for x
    by (simp add: s3_def)
  have t': "tasks s' x = (if parent (tasks s t) = Some x then post_signal SIGCHLD (tasks s3 x) else tasks s3 x)" for x
    using par by (auto simp: s'_def s3_def kernel_signal_send_def split: option.splits)
  show thesis
  proof (rule that [OF ex])
    have "tree s3 ?k" using s2(3) by (simp add: s3_def tree_upd same_links_def)
    then show "tree s' ?k" by (simp add: s'_def split: option.splits)
    show "state (tasks s' t) = TASK_ZOMBIE" using np by (simp add: t' t3)
    have "exit_code (tasks s2 t) = code" by (subst rx) (use ne kt in \<open>auto simp: t1 Let_def\<close>)
    then show "exit_code (tasks s' t) = code" using np by (simp add: t' t3)
    show "bit (pending_signals (tasks s' ?r)) 16" if "kids t \<noteq> []"
    proof -
      have "children (tasks s t) \<noteq> None" "t \<noteq> ?r" using kt ne that by auto
      then have "bit (pending_signals (tasks s1 ?r)) 16" using post_signal_pending [of SIGCHLD] by (simp add: t1)
      then have "bit (pending_signals (tasks s3 ?r)) 16" using \<open>t \<noteq> ?r\<close> rx [of ?r] by (metis relink_fields(12) t3)
      then show ?thesis using post_signal_pending [of SIGCHLD] by (simp add: t')
    qed
    show "bit (pending_signals (tasks s' p)) 16" if "parent (tasks s t) = Some p" for p
      using post_signal_pending [of SIGCHLD] that by (simp add: t')
    show "same_but_tasks s s'" using sb2 by (auto simp: s'_def s3_def split: option.splits)
    show "tasks s' x = relink (tasks s x) (tasks s' x)" if "x \<noteq> t" "x \<noteq> ?r" "parent (tasks s t) \<noteq> Some x" for x
      using rx [of x] that by (simp add: t' t3 t1)
    have "ident (tasks s2 x) = ident (tasks s1 x)" for x by (subst rx) simp
    then show "ident (tasks s' x) = ident (tasks s x)" for x by (simp add: t' t3 t1 Let_def)
    show "state (tasks s x) = TASK_RUNNING" if "state (tasks s' x) = TASK_RUNNING" for x
    proof -
      have "state (tasks s3 x) = TASK_RUNNING" using that by (auto simp: t' split: if_splits dest: post_signal_running)
      then have "state (tasks s2 x) = TASK_RUNNING" by (simp add: t3 split: if_splits)
      moreover have "state (tasks s2 x) = state (tasks s1 x)" by (subst rx) simp
      ultimately have "state (tasks s1 x) = TASK_RUNNING" by simp
      then show ?thesis by (auto simp: t1 Let_def split: if_splits dest: post_signal_running)
    qed
    show "bit (pending_signals (tasks s x)) n \<or> n = 16" if "bit (pending_signals (tasks s' x)) n" for x n
    proof -
      have "bit (pending_signals (tasks s3 x)) n \<or> n = 16" using that by (simp add: t' post_SIGCHLD_pending split: if_splits)
      moreover have "pending_signals (tasks s3 x) = pending_signals (tasks s2 x)" by (simp add: t3)
      moreover have "pending_signals (tasks s2 x) = pending_signals (tasks s1 x)" by (subst rx) simp
      ultimately have "bit (pending_signals (tasks s1 x)) n \<or> n = 16" by simp
      then show ?thesis by (auto simp: t1 Let_def post_SIGCHLD_pending split: if_splits)
    qed
    show "parent (tasks s' x) = parent (tasks s x) \<or> parent (tasks s' x) = Some ?r" for x
    proof -
      have "parent (tasks s' x) = parent (tasks s2 x)" by (simp add: t' t3)
      moreover have "parent (tasks s2 x) = parent (tasks s x) \<or> parent (tasks s2 x) = Some ?r"
      proof (cases "parent (tasks s x)")
        case None
        then have "x \<notin> set (?k p) \<or> p = ?r" for p using treeD(2) [OF tr, of x p] by auto
        then show ?thesis using treeD(2) [OF s2(3), of x] None by (metis not_None_eq)
      next
        case (Some p)
        then have "x \<in> set (kids p)" using treeD(2) [OF tr, of x p] by simp
        then have "x \<in> set (?k p) \<or> x \<in> set (?k ?r)" by auto
        then show ?thesis using treeD(2) [OF s2(3), of x] Some by metis
      qed
      ultimately show ?thesis by simp
    qed
  qed
qed

text \<open>The reaper that still has children cannot exit: the loop gives it each child back.\<close>

lemma orphan_to_self:
  assumes "orphan_children t r s = Some y"
  shows "t = r \<longrightarrow> (\<forall>kids. tree s kids \<longrightarrow> kids t = [])"
proof (rule orphan_children.raw_induct [OF _ assms], intro impI allI)
  fix lp t r s y and kids :: "tptr \<Rightarrow> tptr list"
  assume ih: "\<And>t r s y. lp t r s = Some y \<Longrightarrow> t = r \<longrightarrow> (\<forall>kids. tree s kids \<longrightarrow> kids t = [])"
    and eq: "(case children (tasks s t) of None \<Rightarrow> Some (Inr s) | Some c \<Rightarrow>
        (case task_reparent c r s of Inl e \<Rightarrow> Some (Inl e) | Inr s \<Rightarrow> lp t r s)) = Some y"
    and tr: "t = r" "tree s kids"
  show "kids t = []"
  proof (cases "kids t")
    case (Cons c cs)
    then have f: "children (tasks s t) = Some c" using proc.first [OF tr(2), of t] by simp
    obtain s' where s': "task_reparent c r s = Inr s'"
      "tree s' ((kids(t := remove1 c (kids t)))(r := c # (kids(t := remove1 c (kids t))) r))"
      using task_reparent_spec [OF tr(2), of c t r] Cons by auto
    have "lp t r s' = Some y" using eq f s'(1) by simp
    from ih [OF this] tr(1) s'(2) show ?thesis by fastforce
  qed
qed

lemma boot_tree: "tree (boot_kst m k kp) (\<lambda>_. [])"
  by (simp add: tree_def boot_kst_def init_task_def kthreadd_task_def zero_task_def)

lemma task_init_tree: "tree (task_init pd (boot_kst m k kp)) ((\<lambda>_. [])(Init_task := [Kthreadd_task]))"
proof -
  let ?s = "upd Init_task (\<lambda>x. x\<lparr>task_mm := (task_mm x)\<lparr>pgdir := pd\<rparr>\<rparr>)
    ((boot_kst m k kp)\<lparr>task_list_head := Some Init_task, current_task := Init_task\<rparr>)"
  have "tree ?s (\<lambda>_. []) \<longleftrightarrow> tree (boot_kst m k kp) (\<lambda>_. [])"
    by (intro tree_cong) (simp add: same_links_def)
  then have "tree ?s (\<lambda>_. [])" using boot_tree by simp
  moreover have "parent (tasks ?s Kthreadd_task) = None"
    by (simp add: boot_kst_def kthreadd_task_def zero_task_def)
  ultimately have "tree (task_add_child Init_task Kthreadd_task ?s) ((\<lambda>_. [])(Init_task := [Kthreadd_task]))"
    using task_add_child_spec [of ?s "\<lambda>_. []"] by simp
  then show ?thesis
    unfolding task_init_def Let_def by (rule tree_cong [THEN iffD1, rotated]) (simp add: same_links_def)
qed

section \<open>Properties\<close>

text \<open>The state after \<open>task_init\<close>, with paging off and empty allocators, for the witnesses.\<close>

definition demo_kst :: kst where
  "demo_kst = task_init 0x1000 (boot_kst (boot_mm one_free) \<lparr>kmem_heap_head = 0, kmem_heap_end = 0, kblocks = Map.empty\<rparr>
     (kmalloc_init \<lparr>caches = [], cpool_vptr = 0, cpool_page_count = 0, cpool_used_count = 0,
        cpool_hdrs = Map.empty, chunk_links = Map.empty\<rparr>))"

lemma demo_kst [simp]: "current_task demo_kst = Init_task" "kmm demo_kst = boot_mm one_free"
  "tframes demo_kst = (\<lambda>_. zero_frame)" "task_list_head demo_kst = Some Init_task" "need_resched demo_kst = 0"
  "task_counter demo_kst = 2" "init_proc demo_kst = None"
  by (simp_all add: demo_kst_def task_init_def Let_def task_add_child_def boot_kst_def)

lemma demo_task:
  "tasks demo_kst x = (case x of
      Init_task \<Rightarrow> init_task\<lparr>task_mm := zero_mm\<lparr>pgdir := 0x1000\<rparr>, children := Some Kthreadd_task\<rparr>
    | Kthreadd_task \<Rightarrow> kthreadd_task\<lparr>parent := Some Init_task\<rparr> | Dyn a \<Rightarrow> zero_task)"
  by (cases x) (simp_all add: demo_kst_def task_init_def Let_def task_add_child_def boot_kst_def
    init_task_def kthreadd_task_def zero_task_def)

text \<open>
  A small family for the witnesses: under \<open>init_task\<close> the userland reaper and a task with two
  children.
\<close>

definition family_at :: "kst \<Rightarrow> kst" where
  "family_at s = task_add_child (Dyn 0x200) (Dyn 0x400) ((task_add_child (Dyn 0x200) (Dyn 0x300)
     (task_add_child Init_task (Dyn 0x200) (task_add_child Init_task (Dyn 0x100) s)))\<lparr>init_proc := Some (Dyn 0x100)\<rparr>)"

definition family :: kst where
  "family = family_at demo_kst"

lemma task_init_parent: "parent (tasks (task_init pd (boot_kst m k kp)) x) = (if x = Kthreadd_task then Some Init_task else None)"
  by (simp add: task_init_def Let_def boot_kst_def init_task_def kthreadd_task_def zero_task_def)

lemma family_parents:
  "parent (tasks family x) = (if x = Kthreadd_task \<or> x = Dyn 0x100 \<or> x = Dyn 0x200 then Some Init_task
     else if x = Dyn 0x300 \<or> x = Dyn 0x400 then Some (Dyn 0x200) else None)"
  by (simp add: family_def family_at_def demo_kst_def task_init_parent)

lemma family_tree:
  "tree family ((\<lambda>_. [])(Init_task := [Dyn 0x200, Dyn 0x100, Kthreadd_task], Dyn 0x200 := [Dyn 0x400, Dyn 0x300]))"
proof -
  define s0 where "s0 = demo_kst"
  define s1 where "s1 = task_add_child Init_task (Dyn 0x100) s0"
  define s2 where "s2 = task_add_child Init_task (Dyn 0x200) s1"
  define s3 where "s3 = (task_add_child (Dyn 0x200) (Dyn 0x300) s2)\<lparr>init_proc := Some (Dyn 0x100)\<rparr>"
  have p0: "parent (tasks s0 x) = (if x = Kthreadd_task then Some Init_task else None)" for x
    by (simp add: s0_def demo_kst_def task_init_parent)
  have "tree s0 ((\<lambda>_. [])(Init_task := [Kthreadd_task]))" unfolding s0_def demo_kst_def by (rule task_init_tree)
  from task_add_child_spec [OF this, of "Dyn 0x100" Init_task] p0
  have "tree s1 ((\<lambda>_. [])(Init_task := [Dyn 0x100, Kthreadd_task]))" by (simp add: s1_def)
  from task_add_child_spec [OF this, of "Dyn 0x200" Init_task] p0
  have "tree s2 ((\<lambda>_. [])(Init_task := [Dyn 0x200, Dyn 0x100, Kthreadd_task]))" by (simp add: s2_def s1_def)
  from task_add_child_spec [OF this, of "Dyn 0x300" "Dyn 0x200"] p0
  have "tree s3 ((\<lambda>_. [])(Init_task := [Dyn 0x200, Dyn 0x100, Kthreadd_task], Dyn 0x200 := [Dyn 0x300]))"
    unfolding s3_def by (subst tree_cong [of _ "task_add_child (Dyn 0x200) (Dyn 0x300) s2"])
      (simp_all add: s2_def s1_def same_links_def)
  from task_add_child_spec [OF this, of "Dyn 0x400" "Dyn 0x200"] p0
  show ?thesis by (simp add: family_def family_at_def s0_def [symmetric] s1_def [symmetric] s2_def [symmetric]
      s3_def [symmetric]) (simp add: s3_def s2_def s1_def)
qed

text \<open>
  C4. A task that is not the reaper exits: \<open>do_exit\<close> returns (the loop over its children ends) with the
  task a zombie carrying the exit code, all of its children in the reaper's list, in front and in
  reverse order, and in nobody else's, and \<open>SIGCHLD\<close> pending in the parent and, when there were
  children, in the reaper. The rest of the kernel state is unchanged, and the descriptors of other
  tasks change in their tree links only.
\<close>

theorem do_exit_hands_children_to_reaper:
  assumes "tree s kids" and "t \<noteq> reaper_of s" and "parent (tasks s t) \<noteq> Some t"
  shows "\<exists>s'. do_exit t code s = Inr s' \<and>
     tree s' (kids(t := [], reaper_of s := rev (kids t) @ kids (reaper_of s))) \<and>
     state (tasks s' t) = TASK_ZOMBIE \<and> exit_code (tasks s' t) = code \<and>
     (kids t \<noteq> [] \<longrightarrow> bit (pending_signals (tasks s' (reaper_of s))) 16) \<and>
     (\<forall>p. parent (tasks s t) = Some p \<longrightarrow> bit (pending_signals (tasks s' p)) 16) \<and>
     same_but_tasks s s' \<and>
     (\<forall>x. x \<noteq> t \<and> x \<noteq> reaper_of s \<and> parent (tasks s t) \<noteq> Some x \<longrightarrow>
          tasks s' x = relink (tasks s x) (tasks s' x))"
proof -
  obtain s' where "do_exit t code s = Inr s'"
     "tree s' (kids(t := [], reaper_of s := rev (kids t) @ kids (reaper_of s)))"
     "state (tasks s' t) = TASK_ZOMBIE" "exit_code (tasks s' t) = code"
     "kids t \<noteq> [] \<longrightarrow> bit (pending_signals (tasks s' (reaper_of s))) 16"
     "\<forall>p. parent (tasks s t) = Some p \<longrightarrow> bit (pending_signals (tasks s' p)) 16"
     "same_but_tasks s s'"
     "\<forall>x. x \<noteq> t \<and> x \<noteq> reaper_of s \<and> parent (tasks s t) \<noteq> Some x \<longrightarrow> tasks s' x = relink (tasks s x) (tasks s' x)"
    by (rule do_exit_spec [OF assms(1) disjI1 [OF assms(2)] assms(3), of code]) blast
  then show ?thesis by blast
qed

theorem do_exit_hands_children_to_reaper_witness:
  "\<exists>s'. do_exit (Dyn 0x200) 3 family = Inr s' \<and> state (tasks s' (Dyn 0x200)) = TASK_ZOMBIE \<and>
     parent (tasks s' (Dyn 0x300)) = Some (Dyn 0x100) \<and> parent (tasks s' (Dyn 0x400)) = Some (Dyn 0x100)"
proof -
  have r: "reaper_of family = Dyn 0x100" by (simp add: reaper_of_def family_def family_at_def task_add_child_def Let_def)
  obtain s' where s': "do_exit (Dyn 0x200) 3 family = Inr s'" "state (tasks s' (Dyn 0x200)) = TASK_ZOMBIE"
    "tree s' (((\<lambda>_. [])(Init_task := [Dyn 0x200, Dyn 0x100, Kthreadd_task], Dyn 0x200 := [Dyn 0x400, Dyn 0x300]))
      (Dyn 0x200 := [], Dyn 0x100 := [Dyn 0x300, Dyn 0x400]))"
    using do_exit_hands_children_to_reaper [OF family_tree, of "Dyn 0x200" 3] family_parents r by auto
  then show ?thesis using treeD(2) [OF s'(3), of "Dyn 0x300" "Dyn 0x100"] treeD(2) [OF s'(3), of "Dyn 0x400" "Dyn 0x100"]
    by simp
qed

lemma do_exit_reaper_stuck:
  assumes "tree s kids" and "kids (reaper_of s) \<noteq> []"
  shows "do_exit (reaper_of s) code s = Inl Diverge"
proof -
  let ?r = "reaper_of s"
  let ?s0 = "upd ?r (\<lambda>x. x\<lparr>exit_code := code\<rparr>) s"
  have "tree ?s0 kids" using assms(1) by (simp add: tree_upd same_links_def)
  then have "orphan_children ?r ?r ?s0 = None"
    using orphan_to_self [of ?r ?r ?s0] assms(2) by (cases "orphan_children ?r ?r ?s0") auto
  moreover have "(case init_proc ?s0 of Some r \<Rightarrow> r | None \<Rightarrow> Init_task) = ?r" by (simp add: reaper_of_def)
  ultimately show ?thesis unfolding do_exit_def Let_def by simp
qed

text \<open>
  C37. When the reaper itself exits while it has children (an init process that is killed), \<open>do_exit\<close>
  never returns: each child it takes off its list is put back on the same list.
\<close>

theorem do_exit_of_reaper_diverges:
  assumes "tree s kids" and "kids (reaper_of s) \<noteq> []"
  shows "do_exit (reaper_of s) code s = Inl Diverge"
  by (rule do_exit_reaper_stuck [OF assms])

theorem do_exit_of_reaper_diverges_witness:
  "do_exit (Dyn 0x200) 0 (family\<lparr>init_proc := Some (Dyn 0x200)\<rparr>) = Inl Diverge"
proof -
  let ?s = "family\<lparr>init_proc := Some (Dyn 0x200)\<rparr>"
  have "tree ?s ((\<lambda>_. [])(Init_task := [Dyn 0x200, Dyn 0x100, Kthreadd_task], Dyn 0x200 := [Dyn 0x400, Dyn 0x300]))"
    using family_tree by (subst tree_cong [of _ family]) (simp_all add: same_links_def)
  moreover have "reaper_of ?s = Dyn 0x200" by (simp add: reaper_of_def)
  ultimately show ?thesis using do_exit_of_reaper_diverges [of ?s _ 0] by fastforce
qed

end
