(* ===== verification/Signal_Spec.thy ===== *)
theory Signal_Spec
  imports Signal Task_Tree
begin

text \<open>
  The dispatch loop of \<open>src/src/signal.c\<close> against a reference that goes through the pending signal
  numbers in increasing order, and what a fatal signal does: it ends the task, or, for the reaper while
  it has children, it starts an exit that does not return.
\<close>

section \<open>Bits and signal numbers\<close>

lemma drop_bit_exp: "drop_bit (Suc 0) (2 ^ Suc m :: u32) = (if Suc m < 32 then 2 ^ m else 0)"
  by (rule bit_word_eqI) (auto simp: bit_drop_bit_eq bit_exp_u32 simp del: power_Suc)

lemma shifts_exp: "m < 32 \<Longrightarrow> shifts (2 ^ m) = int m + 1"
proof (induction m)
  case 0
  have "drop_bit (Suc 0) (1 :: u32) = 0" by (rule bit_word_eqI) (simp add: bit_drop_bit_eq bit_1_iff)
  then show ?case by (simp add: shifts.simps [of 1] shifts.simps [of 0])
next
  case (Suc m)
  have "(2 ^ Suc m :: u32) \<noteq> 0" using Suc.prems bit_exp_u32 [of "Suc m" "Suc m"] by fastforce
  then show ?case using Suc by (subst shifts.simps) (simp add: drop_bit_exp del: power_Suc)
qed

lemma signum_of_exp: "m < 32 \<Longrightarrow> signum_of_bit (2 ^ m) = int m + 1"
proof (cases m)
  case 0
  have "drop_bit (Suc 0) (1 :: u32) = 0" by (rule bit_word_eqI) (simp add: bit_drop_bit_eq bit_1_iff)
  then show ?thesis using 0 by (simp add: signum_of_bit_def shifts.simps [of 0])
next
  case (Suc n)
  assume "m < 32"
  then show ?thesis using Suc shifts_exp [of n] by (simp add: signum_of_bit_def drop_bit_exp del: power_Suc)
qed

text \<open>The pending signal numbers in increasing order.\<close>

definition sig_list :: "u32 \<Rightarrow> int list" where
  "sig_list w = map (\<lambda>n. int n + 1) (filter (bit w) [0..<32])"

lemma sig_list_0 [simp]: "sig_list 0 = []"
  by (simp add: sig_list_def)

lemma sig_list_low:
  assumes "bit w m" and low: "\<And>i. i < m \<Longrightarrow> \<not> bit w i" and "m < 32"
  shows "sig_list w = (int m + 1) # sig_list (w AND NOT (2 ^ m))"
proof -
  have split: "[0..<32] = [0..<m] @ m # [Suc m..<32]"
    using assms(3) by (metis le_add_same_cancel1 le_eq_less_or_eq less_imp_add_positive upt_add_eq_append upt_conv_Cons zero_le)
  have lo: "filter (bit w) [0..<m] = []" "filter (bit (w AND NOT (2 ^ m))) [0..<m] = []"
    using low by (auto simp: filter_empty_conv bit_and_iff)
  have hi: "filter (bit (w AND NOT (2 ^ m))) [Suc m..<32] = filter (bit w) [Suc m..<32]"
    by (rule filter_cong) (auto simp: bit_and_iff bit_not_iff bit_exp_u32)
  show ?thesis using assms(1) lo hi
    by (simp add: sig_list_def split bit_and_iff bit_not_iff bit_exp_u32)
qed

lemma in_sig_list: "i \<in> set (sig_list w) \<longleftrightarrow> 0 < i \<and> i \<le> 32 \<and> bit w (nat (i - 1))"
proof
  assume "i \<in> set (sig_list w)"
  then show "0 < i \<and> i \<le> 32 \<and> bit w (nat (i - 1))" by (auto simp: sig_list_def)
next
  assume i: "0 < i \<and> i \<le> 32 \<and> bit w (nat (i - 1))"
  then have "i = int (nat (i - 1)) + 1" by simp
  with i show "i \<in> set (sig_list w)" unfolding sig_list_def by (auto intro!: image_eqI [of _ _ "nat (i - 1)"])
qed

lemma sorted_sig_list: "sorted (sig_list w)" "distinct (sig_list w)"
  by (auto simp: sig_list_def sorted_map sorted_wrt_filter distinct_map inj_on_def intro: sorted_wrt_mono_rel)

section \<open>The reference\<close>

text \<open>Delivery of one signal, by its number.\<close>

definition deliver :: "tptr \<Rightarrow> int \<Rightarrow> kst \<Rightarrow> kst res" where
  "deliver t sig s =
     (let x = tasks s t; taken = clear_pending t (SIGMASK sig) s in
      if sig = SIGKILL \<or> sig = SIGSTOP then sig_default_action t sig taken
      else if nat sig \<ge> length (signal_handlers x) then Inl (OutOfBounds (of_int sig))
      else if signal_handlers x ! nat sig = SIG_IGN then Inr taken
      else if signal_handlers x ! nat sig = SIG_DFL then sig_default_action t sig taken
      else if is_userspace x then Inr s
      else Inr (taken\<lparr>handler_calls := (signal_handlers x ! nat sig, sig) # handler_calls s\<rparr>))"

fun deliver_all :: "tptr \<Rightarrow> int list \<Rightarrow> kst \<Rightarrow> kst res" where
  "deliver_all t [] s = Inr s"
| "deliver_all t (sig # sigs) s =
     (if state (tasks s t) = TASK_ZOMBIE \<or> state (tasks s t) = TASK_STOPPED then Inr s
      else bnd (deliver t sig s) (deliver_all t sigs))"

lemma immutable_bit: "m < 32 \<Longrightarrow> (2 ^ m AND SIG_IMMUTABLE_MASK \<noteq> 0) = (m = 8 \<or> m = 18)"
proof -
  assume m: "m < 32"
  have "bit SIG_IMMUTABLE_MASK m \<longleftrightarrow> m = 8 \<or> m = 18"
    using m by (auto simp: SIG_IMMUTABLE_MASK_def bit_or_iff bit_SIGMASK)
  moreover have "(2 ^ m AND SIG_IMMUTABLE_MASK \<noteq> 0) = bit SIG_IMMUTABLE_MASK m"
    using test_exp_bit [of SIG_IMMUTABLE_MASK m] by (simp add: and.commute)
  ultimately show ?thesis by simp
qed

lemma handler_calls_clear [simp]: "handler_calls (clear_pending t b s) = handler_calls s"
  by (simp add: clear_pending_def)

lemma dispatch_one_deliver: "m < 32 \<Longrightarrow> dispatch_one t (2 ^ m) s = deliver t (int m + 1) s"
  using immutable_bit [of m] SIGMASK_exp [of "int m + 1"]
  by (auto simp: dispatch_one_def deliver_def Let_def signum_of_exp nat_add_distrib)

lemma dispatch_loop_deliver_all: "dispatch_loop t w s = deliver_all t (sig_list w) s"
proof (induction "unat w" arbitrary: w s rule: less_induct)
  case less
  show ?case
  proof (cases "w = 0")
    case True
    then show ?thesis by (simp add: dispatch_loop.simps)
  next
    case False
    then obtain m where m: "bit w m" "\<And>i. i < m \<Longrightarrow> \<not> bit w i" "m < 32" using lowest_bitE by metis
    have lb: "low_bit w = 2 ^ m" using low_bit_eq m by blast
    have "dispatch_loop t (w AND NOT (2 ^ m)) = deliver_all t (sig_list (w AND NOT (2 ^ m)))"
      using less.hyps [of "w AND NOT (2 ^ m)"] low_bit_clear_less [OF False] lb by auto
    then show ?thesis
      using False m by (subst dispatch_loop.simps) (simp add: lb sig_list_low dispatch_one_deliver)
  qed
qed

section \<open>Fatal signals\<close>

text \<open>
  A task that is placed where exiting is defined: the tree is in order, the task is not its own parent
  and its handler table is whole. Every such task can exit, except the reaper while it has children.
\<close>

definition in_tree :: "tptr \<Rightarrow> kst \<Rightarrow> bool" where
  "in_tree t s \<longleftrightarrow> (\<exists>kids. tree s kids) \<and> parent (tasks s t) \<noteq> Some t \<and> length (signal_handlers (tasks s t)) = 32"

definition stuck_reaper :: "tptr \<Rightarrow> kst \<Rightarrow> bool" where
  "stuck_reaper t s \<longleftrightarrow> t = reaper_of s \<and> children (tasks s t) \<noteq> None"

definition mortal :: "tptr \<Rightarrow> kst \<Rightarrow> bool" where
  "mortal t s \<longleftrightarrow> in_tree t s \<and> \<not> stuck_reaper t s"

text \<open>The signals whose delivery is an exit: the default action terminates, and no handler replaces it.\<close>

definition fatal :: "int \<Rightarrow> task \<Rightarrow> bool" where
  "fatal sig x \<longleftrightarrow> sig_terminates sig \<and> (sig = SIGKILL \<or> signal_handlers x ! nat sig = SIG_DFL)"

lemma placement_cong:
  assumes "\<And>x. same_links (tasks s x) (tasks s' x)" and "init_proc s' = init_proc s"
    and "signal_handlers (tasks s' t) = signal_handlers (tasks s t)"
  shows "in_tree t s' \<longleftrightarrow> in_tree t s" and "stuck_reaper t s' \<longleftrightarrow> stuck_reaper t s" and "mortal t s' \<longleftrightarrow> mortal t s"
proof -
  have "reaper_of s' = reaper_of s" using assms(2) by (simp add: reaper_of_def)
  moreover have "parent (tasks s' t) = parent (tasks s t)" "children (tasks s' t) = children (tasks s t)"
    using assms(1) by (simp_all add: same_links_def)
  ultimately show "in_tree t s' \<longleftrightarrow> in_tree t s" and "stuck_reaper t s' \<longleftrightarrow> stuck_reaper t s"
    using tree_cong [of s s', OF assms(1)] assms(3) by (simp_all add: in_tree_def stuck_reaper_def)
  then show "mortal t s' \<longleftrightarrow> mortal t s" by (simp add: mortal_def)
qed

lemma placement_clear [simp]:
  "in_tree t (clear_pending u b s) \<longleftrightarrow> in_tree t s" "stuck_reaper t (clear_pending u b s) \<longleftrightarrow> stuck_reaper t s"
  "mortal t (clear_pending u b s) \<longleftrightarrow> mortal t s"
  by (rule placement_cong; simp add: clear_pending_def same_links_def)+

lemma placement_send [simp]:
  "in_tree t (kernel_signal_send u sig s) \<longleftrightarrow> in_tree t s" "stuck_reaper t (kernel_signal_send u sig s) \<longleftrightarrow> stuck_reaper t s"
  "mortal t (kernel_signal_send u sig s) \<longleftrightarrow> mortal t s"
  by (rule placement_cong; simp add: kernel_signal_send_def same_links_def)+

lemma placement_call [simp]:
  "in_tree t (s\<lparr>handler_calls := h\<rparr>) \<longleftrightarrow> in_tree t s" "stuck_reaper t (s\<lparr>handler_calls := h\<rparr>) \<longleftrightarrow> stuck_reaper t s"
  "mortal t (s\<lparr>handler_calls := h\<rparr>) \<longleftrightarrow> mortal t s"
  by (rule placement_cong; simp add: same_links_def)+

lemma childless: "tree s kids \<Longrightarrow> children (tasks s t) = None \<longleftrightarrow> kids t = []"
  using proc.first [of s kids t] by (auto split: list.splits)

text \<open>What becomes of a task that is made to exit, as a result of \<open>do_exit\<close> or of a dispatch.\<close>

definition died_of :: "tptr \<Rightarrow> int \<Rightarrow> kst \<Rightarrow> bool" where
  "died_of t sig s \<longleftrightarrow> sig_terminates sig \<and> state (tasks s t) = TASK_ZOMBIE \<and> exit_code (tasks s t) = 128 + sig"

definition fate :: "tptr \<Rightarrow> int \<Rightarrow> bool \<Rightarrow> kst res \<Rightarrow> bool" where
  "fate t k stuck r \<longleftrightarrow> (if stuck then r = Inl Diverge else \<exists>s' j. r = Inr s' \<and> j \<le> k \<and> died_of t j s')"

lemma fate_mono: "fate t j stuck r \<Longrightarrow> j \<le> k \<Longrightarrow> fate t k stuck r"
  unfolding fate_def by (metis order.trans)

lemma mortal_exit:
  assumes "mortal t s"
  obtains s' where "do_exit t code s = Inr s'" "state (tasks s' t) = TASK_ZOMBIE" "exit_code (tasks s' t) = code"
proof -
  from assms obtain kids where "tree s kids" "t \<noteq> reaper_of s \<or> kids t = []" "parent (tasks s t) \<noteq> Some t"
    by (auto simp: mortal_def in_tree_def stuck_reaper_def childless)
  from do_exit_spec [OF this, of code] show thesis using that by blast
qed

lemma stuck_exit: "in_tree t s \<Longrightarrow> stuck_reaper t s \<Longrightarrow> do_exit t code s = Inl Diverge"
  unfolding in_tree_def stuck_reaper_def using do_exit_reaper_stuck childless by metis

lemma deliver_fatal:
  assumes "in_tree t s" and "fatal sig (tasks s t)"
  shows "fate t sig (stuck_reaper t s) (deliver t sig s)"
proof -
  have sig: "0 < sig" "sig < 19" "sig \<noteq> SIGSTOP" using assms(2) by (auto simp: fatal_def sig_terminates_def)
  let ?c = "clear_pending t (SIGMASK sig) s"
  have len: "nat sig < length (signal_handlers (tasks s t))" using assms(1) sig by (auto simp: in_tree_def)
  have d: "deliver t sig s = do_exit t (128 + sig) ?c"
    using assms(2) len by (auto simp: deliver_def Let_def fatal_def sig_default_action_def)
  show ?thesis
  proof (cases "stuck_reaper t s")
    case True
    then show ?thesis using stuck_exit [of t ?c] assms(1) d by (simp add: fate_def)
  next
    case False
    then obtain s' where "do_exit t (128 + sig) ?c = Inr s'" "state (tasks s' t) = TASK_ZOMBIE"
      "exit_code (tasks s' t) = 128 + sig" using mortal_exit [of t ?c "128 + sig"] assms(1) by (auto simp: mortal_def)
    then show ?thesis using False d assms(2) by (auto simp: fate_def died_of_def fatal_def)
  qed
qed

text \<open>A signal below the stop signals that is not fatal lets the task go on.\<close>

lemma deliver_harmless:
  assumes "in_tree t s" and "0 < sig" and "sig < 19" and "\<not> fatal sig (tasks s t)"
  shows "\<exists>s'. deliver t sig s = Inr s' \<and> in_tree t s' \<and> stuck_reaper t s' = stuck_reaper t s \<and>
    state (tasks s' t) = state (tasks s t) \<and> signal_handlers (tasks s' t) = signal_handlers (tasks s t)"
proof -
  have len: "nat sig < length (signal_handlers (tasks s t))" using assms by (auto simp: in_tree_def)
  have k: "sig \<noteq> SIGKILL" using assms(4) by (auto simp: fatal_def sig_terminates_def)
  have cl: "state (tasks (clear_pending t b s) t) = state (tasks s t)"
    "signal_handlers (tasks (clear_pending t b s) t) = signal_handlers (tasks s t)" for b
    by (simp_all add: clear_pending_def)
  have dfl: "sig_default_action t sig c = Inr c" if "signal_handlers (tasks s t) ! nat sig = SIG_DFL" for c
    using that assms(3,4) by (auto simp: fatal_def sig_default_action_def)
  show ?thesis using assms len k cl dfl by (auto simp: deliver_def Let_def)
qed

lemma deliver_all_fatal:
  assumes "in_tree t s" and "state (tasks s t) \<noteq> TASK_ZOMBIE" and "state (tasks s t) \<noteq> TASK_STOPPED"
    and "sorted sigs" and "k \<in> set sigs" and "\<forall>i\<in>set sigs. 0 < i" and "fatal k (tasks s t)"
  shows "fate t k (stuck_reaper t s) (deliver_all t sigs s)"
  using assms
proof (induction sigs arbitrary: s)
  case (Cons sig sigs)
  have "k < 19" using Cons.prems(7) by (auto simp: fatal_def sig_terminates_def)
  then have sig: "0 < sig" "sig \<le> k" "sig < 19" using Cons.prems(4-6) by auto
  have d: "deliver_all t (sig # sigs) s = bnd (deliver t sig s) (deliver_all t sigs)" using Cons.prems by simp
  show ?case
  proof (cases "fatal sig (tasks s t)")
    case True
    have "deliver_all t sigs s1 = Inr s1" if "died_of t j s1" for s1 j using that by (cases sigs) (auto simp: died_of_def)
    then have "fate t sig (stuck_reaper t s) (deliver_all t (sig # sigs) s)"
      using deliver_fatal [OF Cons.prems(1) True] unfolding d fate_def by (auto split: if_splits)
    then show ?thesis using sig(2) by (rule fate_mono)
  next
    case False
    then obtain s1 where s1: "deliver t sig s = Inr s1" "in_tree t s1" "stuck_reaper t s1 = stuck_reaper t s"
      "state (tasks s1 t) = state (tasks s t)" "signal_handlers (tasks s1 t) = signal_handlers (tasks s t)"
      using deliver_harmless [OF Cons.prems(1) sig(1,3)] by blast
    have "k \<in> set sigs" using False Cons.prems(5,7) by auto
    then have "fate t k (stuck_reaper t s1) (deliver_all t sigs s1)"
      using s1 Cons.prems by (intro Cons.IH) (auto simp: fatal_def)
    then show ?thesis using s1(1,3) d by simp
  qed
qed simp

text \<open>The dispatch of a task that is about to run, with a fatal signal pending.\<close>

lemma dispatch_fatal:
  assumes "in_tree t s" and "state (tasks s t) \<noteq> TASK_ZOMBIE" and "state (tasks s t) \<noteq> TASK_STOPPED"
    and "bit (pending_signals (tasks s t)) (nat (k - 1))" and "fatal k (tasks s t)"
  shows "fate t k (stuck_reaper t s) (kernel_signal_dispatch t s)"
  unfolding kernel_signal_dispatch_def dispatch_loop_deliver_all
proof (rule deliver_all_fatal)
  have "0 < k" "k < 19" using assms(5) by (auto simp: fatal_def sig_terminates_def)
  then show "k \<in> set (sig_list (pending_signals (tasks s t)))" using assms(4) by (simp add: in_sig_list)
qed (use assms sorted_sig_list in \<open>auto simp: in_sig_list\<close>)

section \<open>Properties\<close>

text \<open>
  C15. The dispatch loop, with its bit isolation and its shifting to recover the signal number, always
  ends, and does exactly what delivering the pending signals one by one in increasing numerical order
  does: it looks at the task's state before each, stops at the first one that leaves it a zombie or
  stopped, and visits every pending signal once.
\<close>

theorem kernel_signal_dispatch_in_order:
  "kernel_signal_dispatch t s = deliver_all t (sig_list (pending_signals (tasks s t))) s \<and>
   sorted (sig_list (pending_signals (tasks s t))) \<and> distinct (sig_list (pending_signals (tasks s t))) \<and>
   set (sig_list (pending_signals (tasks s t))) =
     {sig. 0 < sig \<and> sig \<le> 32 \<and> bit (pending_signals (tasks s t)) (nat (sig - 1))}"
  using sorted_sig_list in_sig_list by (auto simp: kernel_signal_dispatch_def dispatch_loop_deliver_all)

text \<open>
  C32. \<open>SIGKILL\<close> cannot be survived: whatever handlers the task has installed, whatever is pending and
  whether it is blocked or stopped, sending it \<open>SIGKILL\<close> and dispatching leaves it a zombie, with the
  exit code of a terminating signal no higher than \<open>SIGKILL\<close>. The one exception is the reaper (PID 1)
  while it has children: then the dispatch does not return, because the exit it starts hands each child
  back to the reaper (\<open>do_exit_of_reaper_diverges\<close>). The task is placed in a well-formed family tree,
  is not its own parent, has the 32 handler entries every reachable descriptor has, and is not a zombie
  already.
\<close>

theorem sigkill_terminates:
  assumes "tree s kids" and "parent (tasks s t) \<noteq> Some t" and "length (signal_handlers (tasks s t)) = 32"
    and "state (tasks s t) \<noteq> TASK_ZOMBIE"
  shows "if t = reaper_of s \<and> children (tasks s t) \<noteq> None
    then kernel_signal_dispatch t (kernel_signal_send t SIGKILL s) = Inl Diverge
    else \<exists>s' k. kernel_signal_dispatch t (kernel_signal_send t SIGKILL s) = Inr s' \<and> k \<le> SIGKILL \<and> died_of t k s'"
proof -
  let ?s = "kernel_signal_send t SIGKILL s"
  have i: "in_tree t s" using assms(1-3) by (auto simp: in_tree_def)
  have "fate t SIGKILL (stuck_reaper t ?s) (kernel_signal_dispatch t ?s)"
  proof (rule dispatch_fatal)
    show "state (tasks ?s t) \<noteq> TASK_ZOMBIE" "state (tasks ?s t) \<noteq> TASK_STOPPED"
      using assms(4) by (auto simp: kernel_signal_send_def post_signal_def Let_def)
    show "bit (pending_signals (tasks ?s t)) (nat (SIGKILL - 1))"
      using post_signal_pending [of SIGKILL] by (simp add: kernel_signal_send_def)
  qed (use i in \<open>simp_all add: fatal_def sig_terminates_def\<close>)
  then have "fate t SIGKILL (stuck_reaper t s) (kernel_signal_dispatch t ?s)" by simp
  then show ?thesis unfolding fate_def stuck_reaper_def .
qed

text \<open>The family of \<open>family_tree\<close>: the parent of 0x300 is an ordinary task, the reaper 0x100 has no child.\<close>

theorem sigkill_terminates_witness:
  "(\<exists>s' k. kernel_signal_dispatch (Dyn 0x300) (kernel_signal_send (Dyn 0x300) SIGKILL family) = Inr s' \<and>
    k \<le> SIGKILL \<and> died_of (Dyn 0x300) k s') \<and>
   (\<exists>s' k. kernel_signal_dispatch (Dyn 0x100) (kernel_signal_send (Dyn 0x100) SIGKILL family) = Inr s' \<and>
    k \<le> SIGKILL \<and> died_of (Dyn 0x100) k s')"
proof
  have r: "reaper_of family = Dyn 0x100" by (simp add: reaper_of_def family_def family_at_def task_add_child_def Let_def)
  have x: "signal_handlers (tasks family (Dyn a)) = replicate 32 0" "state (tasks family (Dyn a)) = TASK_RUNNABLE" for a
    by (simp_all add: family_def family_at_def task_add_child_def Let_def demo_task zero_task_def)
  show "\<exists>s' k. kernel_signal_dispatch (Dyn 0x300) (kernel_signal_send (Dyn 0x300) SIGKILL family) = Inr s' \<and>
    k \<le> SIGKILL \<and> died_of (Dyn 0x300) k s'"
    using sigkill_terminates [OF family_tree, of "Dyn 0x300"] family_parents [of "Dyn 0x300"] r x by simp
  have "children (tasks family (Dyn 0x100)) = None" using childless [OF family_tree, of "Dyn 0x100"] by simp
  then show "\<exists>s' k. kernel_signal_dispatch (Dyn 0x100) (kernel_signal_send (Dyn 0x100) SIGKILL family) = Inr s' \<and>
    k \<le> SIGKILL \<and> died_of (Dyn 0x100) k s'"
    using sigkill_terminates [OF family_tree, of "Dyn 0x100"] family_parents [of "Dyn 0x100"] r x by simp
qed

end
