(* ===== verification/Signal_Test.thy ===== *)
theory Signal_Test
  imports Signal_Spec
begin

text \<open>
  The self-test of the signals that the kernel runs at boot, \<open>signal_test\<close> of \<open>src/src/signal.c\<close>, on a local
  descriptor. The two recording handlers of the test count their calls in static variables; the model
  reads these counts off the record of handler calls since the variables were reset. Log lines are left out.
\<close>

section \<open>Model\<close>

definition ensure :: "bool \<Rightarrow> string \<Rightarrow> kst \<Rightarrow> kst res" where
  "ensure cond msg s = (if cond then Inr s else Inl (Kpanic (''signal test: '' @ msg)))"

text \<open>\<open>memset\<close> of the local descriptor.\<close>

definition wipe :: "tptr \<Rightarrow> kst \<Rightarrow> kst" where
  "wipe t = upd t (\<lambda>_. zero_task)"

text \<open>The signals that a recording handler was called with between two states, in order.\<close>

definition recorded :: "u32 \<Rightarrow> kst \<Rightarrow> kst \<Rightarrow> int list" where
  "recorded h s0 s =
     map snd (filter (\<lambda>(a, _). a = h) (rev (take (length (handler_calls s) - length (handler_calls s0)) (handler_calls s))))"

definition pending_bit :: "int \<Rightarrow> tptr \<Rightarrow> kst \<Rightarrow> bool" where
  "pending_bit sig t s \<longleftrightarrow> pending_signals (tasks s t) AND SIGMASK sig \<noteq> 0"

definition test_registered :: "tptr \<Rightarrow> u32 \<Rightarrow> kst \<Rightarrow> kst res" where
  "test_registered t count s =
     (let s0 = wipe t s; s = kernel_signal_send t 10 (kernel_signal_register t 10 count s0) in
      bnd (ensure (pending_bit 10 t s) ''send did not set pending'' s) (\<lambda>s.
      bnd (kernel_signal_dispatch t s) (\<lambda>s.
      bnd (ensure (recorded count s0 s = [10]) ''handler did not fire'' s)
        (ensure (pending_signals (tasks s t) = 0) ''pending not cleared after dispatch''))))"

definition test_ignored :: "tptr \<Rightarrow> u32 \<Rightarrow> kst \<Rightarrow> kst res" where
  "test_ignored t count s =
     (let s0 = wipe t s in
      bnd (kernel_signal_dispatch t (kernel_signal_send t 10 (kernel_signal_register t 10 SIG_IGN s0))) (\<lambda>s.
      bnd (ensure (recorded count s0 s = []) ''SIG_IGN should not fire a handler'' s)
        (ensure (state (tasks s t) \<noteq> TASK_ZOMBIE) ''SIG_IGN terminated the task'')))"

definition test_terminate :: "tptr \<Rightarrow> kst \<Rightarrow> kst res" where
  "test_terminate t s =
     bnd (kernel_signal_dispatch t (kernel_signal_send t 15 (wipe t s))) (\<lambda>s.
     ensure (state (tasks s t) = TASK_ZOMBIE \<and> exit_code (tasks s t) = 128 + 15) ''SIGTERM default action wrong'' s)"

definition test_default_ignore :: "tptr \<Rightarrow> kst \<Rightarrow> kst res" where
  "test_default_ignore t s =
     bnd (kernel_signal_dispatch t (kernel_signal_send t SIGCHLD (wipe t s))) (\<lambda>s.
     ensure (state (tasks s t) \<noteq> TASK_ZOMBIE) ''SIGCHLD default should be ignore'' s)"

definition test_immutable :: "tptr \<Rightarrow> u32 \<Rightarrow> kst \<Rightarrow> kst res" where
  "test_immutable t count s =
     (let s0 = wipe t s; s = kernel_signal_register t SIGKILL count s0 in
      bnd (ensure (signal_handlers (tasks s t) ! nat SIGKILL = SIG_DFL) ''SIGKILL handler was mutated'' s) (\<lambda>s.
      bnd (kernel_signal_dispatch t (kernel_signal_send t SIGKILL s)) (\<lambda>s.
      bnd (ensure (recorded count s0 s = []) ''SIGKILL ran a custom handler'' s)
        (ensure (state (tasks s t) = TASK_ZOMBIE \<and> exit_code (tasks s t) = 128 + SIGKILL) ''SIGKILL did not terminate''))))"

definition test_range :: "tptr \<Rightarrow> u32 \<Rightarrow> kst \<Rightarrow> kst res" where
  "test_range t count s =
     (let s = kernel_signal_send t NSIG (kernel_signal_send t 0
                (kernel_signal_register t NSIG count (kernel_signal_register t 0 count (wipe t s)))) in
      ensure (pending_signals (tasks s t) = 0) ''out-of-range send set a pending bit'' s)"

definition test_in_order :: "tptr \<Rightarrow> u32 \<Rightarrow> kst \<Rightarrow> kst res" where
  "test_in_order t order s =
     (let s0 = wipe t s;
          s = kernel_signal_send t 2 (kernel_signal_send t 10
                (kernel_signal_register t 10 order (kernel_signal_register t 2 order s0))) in
      bnd (kernel_signal_dispatch t s) (\<lambda>s.
      ensure (take 2 (recorded order s0 s) = [2, 10]) ''dispatch not lowest-signum-first'' s))"

definition test_exception_map :: "kst \<Rightarrow> kst res" where
  "test_exception_map =
     ensure (signal_from_exception 0 = 8 \<and> signal_from_exception 6 = 4 \<and> signal_from_exception 13 = 11 \<and>
             signal_from_exception 14 = 11 \<and> signal_from_exception 17 = 7 \<and> signal_from_exception 99 = 0)
       ''exception-to-signal map wrong''"

definition test_job_control :: "tptr \<Rightarrow> kst \<Rightarrow> kst res" where
  "test_job_control t s =
     bnd (kernel_signal_dispatch t (kernel_signal_send t SIGSTOP (wipe t s))) (\<lambda>s.
     bnd (ensure (state (tasks s t) = TASK_STOPPED) ''SIGSTOP did not stop the task'' s) (\<lambda>s.
     bnd (kernel_signal_dispatch t (kernel_signal_send t 15 s)) (\<lambda>s.
     bnd (ensure (state (tasks s t) = TASK_STOPPED \<and> pending_bit 15 t s) ''stopped task drained a pending signal'' s) (\<lambda>s.
     let s = kernel_signal_send t SIGCONT s in
     ensure (state (tasks s t) = TASK_RUNNABLE \<and> pending_signals (tasks s t) AND SIG_STOP_MASK = 0)
       ''SIGCONT did not resume / clear stop'' s))))"

definition signal_test :: "tptr \<Rightarrow> u32 \<Rightarrow> u32 \<Rightarrow> kst \<Rightarrow> kst res" where
  "signal_test t count order s =
     for_each (\<lambda>f. f) [test_registered t count, test_ignored t count, test_terminate t, test_default_ignore t,
       test_immutable t count, test_range t count, test_in_order t order, test_exception_map, test_job_control t] s"

section \<open>Every check passes\<close>

text \<open>The states that differ in the local descriptor and the record of calls only.\<close>

definition probes :: "tptr \<Rightarrow> kst \<Rightarrow> kst \<Rightarrow> bool" where
  "probes t s s' \<longleftrightarrow> (\<exists>x hs. s' = s\<lparr>tasks := (tasks s)(t := x), handler_calls := hs\<rparr>)"

definition passes :: "tptr \<Rightarrow> kst \<Rightarrow> kst res \<Rightarrow> bool" where
  "passes t s r \<longleftrightarrow> (\<exists>s'. r = Inr s' \<and> probes t s s')"

lemma passes_for_each:
  assumes "\<And>f s. f \<in> set fs \<Longrightarrow> passes t s (f s)"
  shows "passes t s (for_each (\<lambda>f. f) fs s)"
  using assms
proof (induction fs arbitrary: s)
  case Nil
  show ?case by (auto simp: passes_def probes_def intro!: exI [of _ "tasks s t"] exI [of _ "handler_calls s"])
next
  case (Cons f fs)
  obtain s1 where s1: "f s = Inr s1" "probes t s s1" using Cons.prems by (fastforce simp: passes_def)
  obtain s2 where s2: "for_each (\<lambda>f. f) fs s1 = Inr s2" "probes t s1 s2" using Cons by (fastforce simp: passes_def)
  have "probes t s s2" using s1(2) s2(2) unfolding probes_def by (elim exE) (simp, blast)
  then show ?case using s1(1) s2(1) by (simp add: passes_def)
qed

lemma dispatch_pending: "kernel_signal_dispatch t s = deliver_all t (sig_list (pending_signals (tasks s t))) s"
  by (simp add: kernel_signal_dispatch_def dispatch_loop_deliver_all)

lemma sig_lists:
  "sig_list 0x200 = [10]" "sig_list 0x4000 = [15]" "sig_list 0x10000 = [17]" "sig_list 0x100 = [9]"
  "sig_list 0x202 = [2, 10]" "sig_list 0x40000 = [19]"
  by code_simp+

lemma signal_masks:
  "SIGMASK 10 = 0x200" "SIGMASK 15 = 0x4000" "SIGMASK SIGCHLD = 0x10000" "SIGMASK SIGKILL = 0x100" "SIGMASK 2 = 2"
  "SIGMASK SIGSTOP = 0x40000" "SIGMASK SIGTSTP = 0x80000" "SIGMASK SIGCONT = 0x20000"
  "SIG_IMMUTABLE_MASK = 0x40100" "SIG_STOP_MASK = 0xC0000"
  by (simp_all add: SIGMASK_def SIG_IMMUTABLE_MASK_def SIG_STOP_MASK_def)

lemma pass: "r = Inr (s\<lparr>tasks := (tasks s)(t := x), handler_calls := hs\<rparr>) \<Longrightarrow> passes t s r"
  by (auto simp: passes_def probes_def)

lemmas signal_steps = Let_def wipe_def ensure_def upd_def pending_bit_def recorded_def kernel_signal_register_def
  kernel_signal_send_def register_handler_def post_signal_def signal_masks dispatch_pending sig_lists deliver_def clear_pending_def
  sig_default_action_def sig_terminates_def zero_task_def

text \<open>A task without children and parent ends alone.\<close>

lemma do_exit_alone:
  assumes "children (tasks s t) = None" and "parent (tasks s t) = None"
  shows "do_exit t code s = Inr (upd t (\<lambda>x. x\<lparr>exit_code := code, state := TASK_ZOMBIE\<rparr>) s)"
proof -
  have "orphan_children t r (upd t (\<lambda>x. x\<lparr>exit_code := code\<rparr>) s) = Some (Inr (upd t (\<lambda>x. x\<lparr>exit_code := code\<rparr>) s))" for r
    using assms(1) by (subst orphan_children.simps) (simp add: upd_def)
  then show ?thesis using assms by (simp add: do_exit_def Let_def upd_def)
qed

lemma test_registered_passes: "count \<noteq> 0 \<Longrightarrow> count \<noteq> 1 \<Longrightarrow> passes t s (test_registered t count s)"
  unfolding test_registered_def
  by (rule pass [where hs = "(count, 10) # handler_calls s"]) (simp add: signal_steps)

lemma test_ignored_passes: "passes t s (test_ignored t count s)"
  unfolding test_ignored_def by (rule pass [where hs = "handler_calls s"]) (simp add: signal_steps)

lemma test_terminate_passes: "passes t s (test_terminate t s)"
  unfolding test_terminate_def by (rule pass [where hs = "handler_calls s"]) (simp add: signal_steps do_exit_alone)

lemma test_default_ignore_passes: "passes t s (test_default_ignore t s)"
  unfolding test_default_ignore_def by (rule pass [where hs = "handler_calls s"]) (simp add: signal_steps)

lemma test_immutable_passes: "passes t s (test_immutable t count s)"
  unfolding test_immutable_def by (rule pass [where hs = "handler_calls s"]) (simp add: signal_steps do_exit_alone)

lemma test_range_passes: "passes t s (test_range t count s)"
  unfolding test_range_def by (rule pass [where hs = "handler_calls s"]) (simp add: signal_steps)

lemma test_in_order_passes: "order \<noteq> 0 \<Longrightarrow> order \<noteq> 1 \<Longrightarrow> passes t s (test_in_order t order s)"
  unfolding test_in_order_def
  by (rule pass [where hs = "(order, 10) # (order, 2) # handler_calls s"]) (simp add: signal_steps)

lemma test_exception_map_passes: "passes t s (test_exception_map s)"
  unfolding test_exception_map_def
  by (rule pass [where hs = "handler_calls s" and x = "tasks s t"]) (simp add: ensure_def signal_from_exception_def)

lemma test_job_control_passes: "passes t s (test_job_control t s)"
  unfolding test_job_control_def by (rule pass [where hs = "handler_calls s"]) (simp add: signal_steps)

text \<open>
  The signal self-test of the kernel passes on every state: with handlers that are neither the default nor the ignore
  marker it runs to its end without reaching one of its panics, and changes nothing but the local descriptor it works on
  and the record of handler calls.
\<close>

theorem signal_test_passes:
  assumes "count \<notin> {SIG_DFL, SIG_IGN}" and "order \<notin> {SIG_DFL, SIG_IGN}"
  shows "\<exists>s' x hs. signal_test t count order s = Inr s' \<and> s' = s\<lparr>tasks := (tasks s)(t := x), handler_calls := hs\<rparr>"
proof -
  have "passes t s (signal_test t count order s)"
    unfolding signal_test_def
  proof (rule passes_for_each)
    fix f s
    assume "f \<in> set [test_registered t count, test_ignored t count, test_terminate t, test_default_ignore t,
       test_immutable t count, test_range t count, test_in_order t order, test_exception_map, test_job_control t]"
    then show "passes t s (f s)"
      using assms by (auto simp: test_registered_passes test_ignored_passes test_terminate_passes test_default_ignore_passes
        test_immutable_passes test_range_passes test_in_order_passes test_exception_map_passes test_job_control_passes)
  qed
  then show ?thesis by (auto simp: passes_def probes_def)
qed

text \<open>On the state after \<open>task_init\<close>, with a descriptor on the boot stack.\<close>

theorem signal_test_passes_witness:
  "\<exists>s'. signal_test (Dyn 0x300000) 0x101000 0x101040 demo_kst = Inr s' \<and> task_list_head s' = task_list_head demo_kst"
  using signal_test_passes [of "0x101000" "0x101040" "Dyn 0x300000" demo_kst] by auto

end
