(* ===== verification/User_Memory.thy ===== *)
theory User_Memory
  imports Signal
begin

text \<open>
  Kernel accesses to mapped memory through the MMU. A window is a range of virtual words that are
  mapped to distinct physical words, none of which is an entry of the page directory or of the tables
  that map the window. Inside a window the MMU behaves like an array of words and like an array of
  bytes; both views satisfy the same interface.
\<close>

section \<open>The interface\<close>

locale array_store =
  fixes inv :: "'m \<Rightarrow> bool" and rd :: "'m \<Rightarrow> nat \<Rightarrow> 'v res" and wr :: "'m \<Rightarrow> nat \<Rightarrow> 'v \<Rightarrow> 'm res" and n :: nat
  assumes wr: "inv m \<Longrightarrow> i < n \<Longrightarrow>
    \<exists>m'. wr m i v = Inr m' \<and> inv m' \<and> (\<forall>j<n. rd m' j = (if j = i then Inr v else rd m j))"
begin

primrec put :: "nat \<Rightarrow> 'v list \<Rightarrow> 'm \<Rightarrow> 'm res" where
  "put i [] m = Inr m"
| "put i (v # vs) m = bnd (wr m i v) (put (Suc i) vs)"

primrec get :: "nat \<Rightarrow> nat \<Rightarrow> 'm \<Rightarrow> 'v list res" where
  "get i 0 m = Inr []"
| "get i (Suc k) m = bnd (rd m i) (\<lambda>v. bnd (get (Suc i) k m) (\<lambda>vs. Inr (v # vs)))"

lemma put_spec:
  assumes "inv m" and "i + length vs \<le> n"
  shows "\<exists>m'. put i vs m = Inr m' \<and> inv m' \<and>
    (\<forall>j<n. rd m' j = (if i \<le> j \<and> j < i + length vs then Inr (vs ! (j - i)) else rd m j))"
  using assms
proof (induction vs arbitrary: i m)
  case (Cons v vs)
  then have "i < n" by simp
  from wr [OF Cons.prems(1) this, of v] obtain m1 where
    m1: "wr m i v = Inr m1" "inv m1" "\<And>j. j < n \<Longrightarrow> rd m1 j = (if j = i then Inr v else rd m j)" by auto
  from Cons.IH [OF m1(2), of "Suc i"] Cons.prems(2) obtain m' where
    m': "put (Suc i) vs m1 = Inr m'" "inv m'"
    "\<And>j. j < n \<Longrightarrow> rd m' j = (if Suc i \<le> j \<and> j < Suc i + length vs then Inr (vs ! (j - Suc i)) else rd m1 j)"
    by auto
  have "rd m' j = (if i \<le> j \<and> j < i + length (v # vs) then Inr ((v # vs) ! (j - i)) else rd m j)" if "j < n" for j
    using m'(3) [OF that] m1(3) [OF that] by (cases "j = i") (auto simp: nth_Cons' Suc_le_eq)
  then show ?case using m1 m' by auto
qed auto

lemma get_spec:
  assumes "\<And>j. j < length vs \<Longrightarrow> rd m (i + j) = Inr (vs ! j)"
  shows "get i (length vs) m = Inr vs"
  using assms
proof (induction vs arbitrary: i)
  case (Cons v vs)
  have "rd m i = Inr v" using Cons.prems [of 0] by simp
  moreover have "get (Suc i) (length vs) m = Inr vs"
    using Cons.prems [of "Suc _"] by (intro Cons.IH) auto
  ultimately show ?case by simp
qed simp

text \<open>Reading back what was written, also after other writes elsewhere.\<close>

lemma put_get:
  assumes "inv m" and "i + length vs \<le> n"
  obtains m' where "put i vs m = Inr m'" and "inv m'" and "get i (length vs) m' = Inr vs"
    and "\<And>j. j < n \<Longrightarrow> \<not> (i \<le> j \<and> j < i + length vs) \<Longrightarrow> rd m' j = rd m j"
proof -
  obtain m' where m': "put i vs m = Inr m'" "inv m'"
    "\<forall>j<n. rd m' j = (if i \<le> j \<and> j < i + length vs then Inr (vs ! (j - i)) else rd m j)"
    using put_spec [OF assms] by blast
  have "get i (length vs) m' = Inr vs" by (rule get_spec) (use m'(3) assms(2) in auto)
  with m' show thesis by (intro that [OF m'(1,2)]) auto
qed

end

section \<open>Windows\<close>

definition walk_slots :: "mm \<Rightarrow> u32 \<Rightarrow> u32 set" where
  "walk_slots m va = {page_base (cr3 m) + 4 * drop_bit 22 va,
     page_base (pmem m (page_base (cr3 m) + 4 * drop_bit 22 va)) + 4 * (drop_bit 12 va AND 0x3FF)}"

lemma walk_pstore:
  assumes "pa \<notin> walk_slots m va"
  shows "mmu_walk (pstore pa x m) va = mmu_walk m va" "walk_slots (pstore pa x m) va = walk_slots m va"
  using assms by (auto simp: mmu_walk_def walk_slots_def pstore_def Let_def)

definition window :: "mm \<Rightarrow> (nat \<Rightarrow> u32) \<Rightarrow> u32 \<Rightarrow> nat \<Rightarrow> bool" where
  "window m a lo n \<longleftrightarrow> lo AND 3 = 0 \<and> inj_on a {..<n} \<and>
     (\<forall>i<n. mmu_walk m (lo + 4 * of_nat i) = Some (a i) \<and> (\<forall>j<n. a i \<notin> walk_slots m (lo + 4 * of_nat j)))"

lemma windowD:
  assumes "window m a lo n" and "i < n"
  shows "mmu_walk m (lo + 4 * of_nat i) = Some (a i)" "lo AND 3 = 0"
    "\<And>j. j < n \<Longrightarrow> a i \<notin> walk_slots m (lo + 4 * of_nat j)"
    "\<And>j. j < n \<Longrightarrow> a i = a j \<longleftrightarrow> i = j"
  using assms by (auto simp: window_def inj_on_def)

lemma window_pstore:
  assumes "window m a lo n" and "i < n"
  shows "window (pstore (a i) x m) a lo n"
  using assms windowD(3) [OF assms] by (auto simp: window_def walk_pstore)

text \<open>A window as an array of words.\<close>

interpretation user_words: array_store "\<lambda>m. window m a lo n" "\<lambda>m i. vread m (lo + 4 * of_nat i)"
  "\<lambda>m i. vwrite m (lo + 4 * of_nat i)" n for a lo n
proof unfold_locales
  fix m i v assume w: "window m a lo n" and i: "i < n"
  have "vwrite m (lo + 4 * of_nat i) v = Inr (pstore (a i) v m)"
    using windowD(1) [OF w i] by (simp add: vwrite_def pstore_def)
  moreover have "vread (pstore (a i) v m) (lo + 4 * of_nat j) = (if j = i then Inr v else vread m (lo + 4 * of_nat j))"
    if j: "j < n" for j
    using windowD(1) [OF window_pstore [OF w i, of v] j] windowD(1) [OF w j] windowD(4) [OF w j i]
    by (auto simp: vread_def pstore_def)
  ultimately show "\<exists>m'. vwrite m (lo + 4 * of_nat i) v = Inr m' \<and> window m' a lo n \<and>
      (\<forall>j<n. vread m' (lo + 4 * of_nat j) = (if j = i then Inr v else vread m (lo + 4 * of_nat j)))"
    using window_pstore [OF w i, of v] by blast
qed

section \<open>Bytes\<close>

lemma unat_and_3: "unat ((w :: u32) AND 3) = unat w mod 4"
proof -
  have "w AND 3 = take_bit 2 w" by (simp add: take_bit_eq_mask mask_eq_exp_minus_1)
  then show ?thesis by (simp add: take_bit_eq_mod unat_mod)
qed

lemma unat_add_mod4: "unat ((lo :: u32) + of_nat k) mod 4 = (unat lo + k) mod 4"
proof -
  have "unat (lo + of_nat k) mod 4 = (unat lo + k mod 4294967296) mod 4294967296 mod 4"
    by (simp add: unat_word_ariths unat_of_nat)
  also have "\<dots> = (unat lo + k mod 4294967296) mod 4" by (simp add: mod_mod_cancel)
  also have "\<dots> = (unat lo + k mod 4294967296 mod 4) mod 4" by (simp only: mod_add_right_eq)
  also have "\<dots> = (unat lo + k) mod 4" by (simp add: mod_mod_cancel mod_add_right_eq)
  finally show ?thesis .
qed

lemma bit_3: "bit (3 :: u32) n \<longleftrightarrow> n < 2"
proof -
  have "(3 :: u32) = mask 2" by (simp add: mask_eq_exp_minus_1)
  then show ?thesis by (simp only: bit_mask_iff) auto
qed

lemma bit_byte_part: "bit ((va :: u32) AND 3) n \<longleftrightarrow> n < 2 \<and> bit va n"
  by (simp only: bit_and_iff bit_3) auto

lemma bit_word_part: "bit ((va :: u32) AND NOT 3) n \<longleftrightarrow> 2 \<le> n \<and> bit va n"
  using bit_imp_le_length [of va n] by (simp only: bit_and_iff bit_not_iff bit_3) auto

lemma bit_word_part': "bit ((va :: u32) AND - 4) n \<longleftrightarrow> 2 \<le> n \<and> bit va n"
proof -
  have "(- 4 :: u32) = NOT 3" by simp
  then show ?thesis by (simp only: bit_word_part)
qed

lemmas word_bits = bit_byte_part bit_word_part bit_word_part' bit_and_fff bit_page_base bit_or_iff

lemma split_word_byte: "(w :: u32) AND NOT 3 = w - (w AND 3)"
proof -
  have "(w AND NOT 3) + (w AND 3) = (w AND NOT 3) OR (w AND 3)"
    by (rule disjunctive_add) (simp only: word_bits, auto)
  also have "\<dots> = w" by (rule bit_word_eqI) (simp only: word_bits, auto)
  finally show ?thesis by (simp add: algebra_simps)
qed

text \<open>The word and the lane of the \<open>k\<close>-th byte after an aligned address.\<close>

lemma byte_split:
  assumes "lo AND 3 = (0 :: u32)"
  shows "(lo + of_nat k) AND 3 = of_nat (k mod 4)" "(lo + of_nat k) AND NOT 3 = lo + 4 * of_nat (k div 4)"
proof -
  have "unat lo mod 4 = 0" using assms unat_and_3 [of lo] by simp
  then have "unat ((lo + of_nat k) AND 3) = k mod 4" by (simp add: unat_and_3 unat_add_mod4 mod_add_eq [symmetric])
  then have "of_nat (unat ((lo + of_nat k) AND 3)) = (of_nat (k mod 4) :: u32)" by simp
  then show *: "(lo + of_nat k) AND 3 = of_nat (k mod 4)" by simp
  have "(of_nat k :: u32) = of_nat (4 * (k div 4) + k mod 4)" by simp
  then have "(of_nat k :: u32) = 4 * of_nat (k div 4) + of_nat (k mod 4)" by (simp only: of_nat_add of_nat_mult of_nat_numeral)
  then show "(lo + of_nat k) AND NOT 3 = lo + 4 * of_nat (k div 4)" unfolding split_word_byte * by simp
qed

lemma word_aligned: "lo AND 3 = (0 :: u32) \<Longrightarrow> (lo + 4 * of_nat i) AND 3 = 0"
  using byte_split(1) [of lo "4 * i"] by simp

text \<open>The four bytes of a word are translated to the four bytes of one physical word.\<close>

lemma walk_byte:
  assumes w: "mmu_walk m v = Some w" and v: "v = va AND NOT 3"
  shows "mmu_walk m va = Some (w OR (va AND 3))" and "w AND 3 = 0"
proof -
  have d: "drop_bit 22 v = drop_bit 22 va" "drop_bit 12 v = drop_bit 12 va"
    unfolding v by (rule bit_word_eqI; simp only: bit_drop_bit_eq bit_word_part comp_apply; simp)+
  have plus: "page_base e + (x AND 0xFFF) = page_base e OR (x AND 0xFFF)" for e x
    by (rule disjunctive_add) (simp only: word_bits, auto)
  have off: "page_base e OR (va AND 0xFFF) = (page_base e OR (v AND 0xFFF)) OR (va AND 3)" for e
    unfolding v by (rule bit_word_eqI) (simp only: word_bits, auto)
  have al: "(page_base e OR (v AND 0xFFF)) AND 3 = 0" for e
    unfolding v by (rule bit_word_eqI) (simp only: word_bits bit_0_eq bot_apply, auto)
  have al': "v AND 3 = 0"
    unfolding v by (rule bit_word_eqI) (simp only: word_bits bit_0_eq bot_apply, auto)
  have id: "v OR (va AND 3) = va"
    unfolding v by (rule bit_word_eqI) (simp only: word_bits, auto)
  show "mmu_walk m va = Some (w OR (va AND 3))"
    using w id unfolding mmu_walk_def Let_def d plus off by (auto split: if_splits)
  show "w AND 3 = 0"
    using w al' al unfolding mmu_walk_def Let_def d plus by (auto split: if_splits)
qed

text \<open>The lanes of a word are independent.\<close>

lemma put_lane:
  assumes "i < 4" and "j < 4"
  shows "(ucast (drop_bit (8 * j) ((w AND NOT (push_bit (8 * i) 0xFF)) OR push_bit (8 * i) (ucast (b :: u8))) :: u32) :: u8) =
    (if i = j then b else ucast (drop_bit (8 * j) (w :: u32)))"
proof (rule bit_word_eqI)
  fix n :: nat assume "n < LENGTH(8)"
  then have n: "n < 8" by simp
  have ff: "bit (0xFF :: u32) k \<longleftrightarrow> k < 8" for k
  proof -
    have "(0xFF :: u32) = mask 8" by (simp add: mask_eq_exp_minus_1)
    then show ?thesis by (simp only: bit_mask_iff) auto
  qed
  have b: "bit b k \<Longrightarrow> k < 8" for k using bit_imp_le_length [of b k] by simp
  have lane: "8 * i \<le> 8 * j + n \<and> 8 * j + n - 8 * i < 8 \<longleftrightarrow> i = j" using n by auto
  have lt: "8 * j + n < 32" using assms n by simp
  show "bit (ucast (drop_bit (8 * j) ((w AND NOT (push_bit (8 * i) 0xFF)) OR push_bit (8 * i) (ucast b) :: u32)) :: u8) n =
    bit (if i = j then b else ucast (drop_bit (8 * j) w)) n"
  proof (cases "i = j")
    case True
    then show ?thesis using n lt
      by (simp only: bit_ucast_iff bit_drop_bit_eq comp_apply bit_or_iff bit_and_iff bit_not_iff bit_push_bit_iff ff) auto
  next
    case False
    then show ?thesis using n lt lane b [of "8 * j + n - 8 * i"]
      by (simp only: if_False bit_ucast_iff bit_drop_bit_eq comp_apply bit_or_iff bit_and_iff bit_not_iff
        bit_push_bit_iff ff) auto
  qed
qed

text \<open>A window as an array of bytes.\<close>

lemma window_byte:
  assumes "window m a lo n" and "k < 4 * n"
  shows "mmu_walk m (lo + of_nat k) = Some (a (k div 4) OR of_nat (k mod 4))" and "a (k div 4) AND 3 = 0"
proof -
  have i: "k div 4 < n" using assms(2) by auto
  have lo: "lo AND 3 = 0" using windowD(2) [OF assms(1) i] .
  have v: "lo + 4 * of_nat (k div 4) = (lo + of_nat k) AND NOT 3" using byte_split(2) [OF lo] by simp
  show "mmu_walk m (lo + of_nat k) = Some (a (k div 4) OR of_nat (k mod 4))" "a (k div 4) AND 3 = 0"
    using walk_byte [OF windowD(1) [OF assms(1) i] v] byte_split(1) [OF lo, of k] by simp_all
qed

lemma lane_of:
  assumes "w AND 3 = (0 :: u32)" and "k < 4"
  shows "(w OR of_nat k) AND NOT 3 = w" and "byte_lane (w OR of_nat k) = 8 * k"
proof -
  have "k = 0 \<or> k = 1 \<or> k = 2 \<or> k = 3" using assms(2) by auto
  then have k3: "(of_nat k :: u32) AND 3 = of_nat k" by auto
  have w2: "bit w n \<Longrightarrow> 2 \<le> n" for n
    using assms(1) bit_byte_part [of w n] by (metis bit_0_eq bot_apply bot_bool_def not_less)
  have x2: "bit (of_nat k :: u32) n \<Longrightarrow> n < 2" for n using bit_byte_part [of "of_nat k" n] unfolding k3 by simp
  show "(w OR of_nat k) AND NOT 3 = w"
    by (rule bit_word_eqI) (simp only: word_bits, use w2 x2 in force)
  have "(w OR of_nat k) AND 3 = of_nat k"
    by (rule bit_word_eqI) (simp only: word_bits, use w2 x2 in force)
  then show "byte_lane (w OR of_nat k) = 8 * k" using assms(2) by (simp add: byte_lane_def unat_of_nat_u32)
qed

lemma vwrite8_window:
  assumes "window m a lo n" and "k < 4 * n"
  shows "vwrite8 m (lo + of_nat k) v = Inr (pstore (a (k div 4))
    ((pmem m (a (k div 4)) AND NOT (push_bit (8 * (k mod 4)) 0xFF)) OR push_bit (8 * (k mod 4)) (ucast v)) m)"
  using window_byte [OF assms] lane_of [of "a (k div 4)" "k mod 4"]
  by (simp add: vwrite8_def pstore_def Let_def del: of_nat_mod)

interpretation user_bytes: array_store "\<lambda>m. window m a lo n" "\<lambda>m i. vread8 m (lo + of_nat i)"
  "\<lambda>m i. vwrite8 m (lo + of_nat i)" "4 * n" for a lo n
proof unfold_locales
  fix m k and v :: u8 assume w: "window m a lo n" and k: "k < 4 * n"
  have i: "k div 4 < n" using k by auto
  let ?pa = "a (k div 4)"
  define x where "x = (pmem m ?pa AND NOT (push_bit (8 * (k mod 4)) 0xFF)) OR push_bit (8 * (k mod 4)) (ucast v)"
  have wr: "vwrite8 m (lo + of_nat k) v = Inr (pstore ?pa x m)"
    using vwrite8_window [OF w k] by (simp add: x_def)
  have w': "window (pstore ?pa x m) a lo n" using window_pstore [OF w i] .
  have rd: "vread8 (pstore ?pa x m) (lo + of_nat j) = (if j = k then Inr v else vread8 m (lo + of_nat j))"
    if j: "j < 4 * n" for j
  proof -
    have jn: "j div 4 < n" using j by auto
    have r: "vread8 M (lo + of_nat j) = Inr (ucast (drop_bit (8 * (j mod 4)) (pmem M (a (j div 4)))))"
      if "window M a lo n" for M
      using window_byte [OF that j] lane_of [of "a (j div 4)" "j mod 4"] by (simp add: vread8_def del: of_nat_mod)
    show ?thesis
    proof (cases "j div 4 = k div 4")
      case True
      then have "j = k \<longleftrightarrow> k mod 4 = j mod 4" by (metis div_mult_mod_eq)
      then show ?thesis using True r [OF w'] r [OF w] put_lane [of "k mod 4" "j mod 4" "pmem m ?pa" v]
        by (simp add: pstore_def x_def)
    next
      case False
      then have "a (j div 4) \<noteq> ?pa" "j \<noteq> k" using windowD(4) [OF w jn i] by auto
      then show ?thesis using r [OF w'] r [OF w] by (simp add: pstore_def)
    qed
  qed
  show "\<exists>m'. vwrite8 m (lo + of_nat k) v = Inr m' \<and> window m' a lo n \<and>
      (\<forall>j<4 * n. vread8 m' (lo + of_nat j) = (if j = k then Inr v else vread8 m (lo + of_nat j)))"
    using wr w' rd by blast
qed

section \<open>The copy loops\<close>

text \<open>The word and byte copies of the kernel are the generic ones of the interface.\<close>

lemma write_words_put:
  "lo AND 3 = 0 \<Longrightarrow> write_words (lo + 4 * of_nat i) ws m = user_words.put lo i ws m"
proof (induction ws arbitrary: i m)
  case (Cons w ws)
  have e: "lo + 4 * of_nat i + 4 = lo + 4 * of_nat (Suc i)" by (simp add: algebra_simps)
  have "write_words (lo + 4 * of_nat i + 4) ws = user_words.put lo (Suc i) ws"
    unfolding e by (rule ext) (rule Cons.IH [OF Cons.prems])
  then show ?case using word_aligned [OF Cons.prems, of i] by (simp add: vwrite32_def)
qed simp

lemma read_words_get:
  "lo AND 3 = 0 \<Longrightarrow> read_words (lo + 4 * of_nat i) k m = user_words.get lo i k m"
proof (induction k arbitrary: i)
  case (Suc k)
  have e: "lo + 4 * of_nat i + 4 = lo + 4 * of_nat (Suc i)" by (simp add: algebra_simps)
  have "read_words (lo + 4 * of_nat i + 4) k m = user_words.get lo (Suc i) k m"
    unfolding e by (rule Suc.IH [OF Suc.prems])
  then show ?case using word_aligned [OF Suc.prems, of i] by (simp add: vread32_def)
qed simp

lemma write_bytes_put: "write_bytes (lo + of_nat k) bs m = user_bytes.put lo k bs m"
proof (induction bs arbitrary: k m)
  case (Cons b bs)
  have e: "lo + of_nat k + 1 = lo + of_nat (Suc k)" by (simp add: algebra_simps)
  have "write_bytes (lo + of_nat k + 1) bs = user_bytes.put lo (Suc k) bs"
    unfolding e by (rule ext) (rule Cons.IH)
  then show ?case by simp
qed simp

lemma pmem_pstore: "pmem (pstore p x m) q = (if q = p then x else pmem m q)"
  by (simp add: pstore_def)

text \<open>Bytes written past a word leave it alone.\<close>

lemma write_bytes_words:
  assumes "window m a lo n" and "k + length bs \<le> 4 * n"
  shows "\<exists>m'. write_bytes (lo + of_nat k) bs m = Inr m' \<and> window m' a lo n \<and>
    (\<forall>i<k div 4. pmem m' (a i) = pmem m (a i))"
  using assms
proof (induction bs arbitrary: k m)
  case (Cons b bs)
  then have k: "k < 4 * n" "k div 4 < n" by auto
  obtain x where x: "vwrite8 m (lo + of_nat k) b = Inr (pstore (a (k div 4)) x m)"
    using vwrite8_window [OF Cons.prems(1) k(1)] by metis
  have same: "pmem (pstore (a (k div 4)) x m) (a i) = pmem m (a i)" if "i < k div 4" for i
    using windowD(4) [OF Cons.prems(1), of i "k div 4"] k that by (simp add: pmem_pstore)
  obtain m' where m': "write_bytes (lo + of_nat (Suc k)) bs (pstore (a (k div 4)) x m) = Inr m'" "window m' a lo n"
    "\<forall>i<Suc k div 4. pmem m' (a i) = pmem (pstore (a (k div 4)) x m) (a i)"
    using Cons.IH [OF window_pstore [OF Cons.prems(1) k(2)], of "Suc k" x] Cons.prems(2) by auto
  have "k div 4 \<le> Suc k div 4" by (rule div_le_mono) simp
  then have "\<forall>i<k div 4. pmem m' (a i) = pmem m (a i)" using m'(3) same by auto
  moreover have e: "lo + of_nat k + 1 = lo + of_nat (Suc k)" by (simp add: algebra_simps)
  then have "write_bytes (lo + of_nat k) (b # bs) m = Inr m'" using x m'(1) by (simp only: write_bytes.simps bnd_simps)
  ultimately show ?case using m'(2) by blast
qed simp

end
