(* ===== verification/Task_Life.thy ===== *)
theory Task_Life
  imports Task
begin

text \<open>
  Creation and destruction of tasks, the second half of \<open>src/src/task.c\<close>: \<open>exec_fn\<close>, \<open>spawn_user\<close>,
  \<open>exec_user_fn\<close>, \<open>exec_init_fn\<close>, \<open>task_fork\<close> and \<open>task_reap\<close>, over the allocators and the paging layer of
  the model. A task descriptor is 244 bytes. The byte copies of code and kernel stacks go through the
  MMU; the trap frame that the copied kernel stack contains is mirrored in \<open>tframes\<close>.
\<close>

abbreviation (input) SIZEOF_TASK :: u32 where "SIZEOF_TASK \<equiv> 244"
abbreviation (input) SIZEOF_TRAP_FRAME :: u32 where "SIZEOF_TRAP_FRAME \<equiv> 64"

definition kstack_slot :: "u32 \<Rightarrow> u32" where
  "kstack_slot p = KSTACK_VA_BASE + p * KSTACK_PAGES * PAGE_SIZE"

text \<open>
  The kernel-stack loop shared by the three spawners: the pages of the slot in order; on a failure
  the pages already mapped are freed and \<open>False\<close> is returned.
\<close>

primrec kstack_pages :: "u32 \<Rightarrow> u32 list \<Rightarrow> u32 list \<Rightarrow> mm \<Rightarrow> (bool \<times> mm) res" where
  "kstack_pages va mapped [] m = Inr (True, m)"
| "kstack_pages va mapped (p # ps) m =
     bnd (alloc_page (va + p * PAGE_SIZE) (PAGE_PRESENT OR PAGE_RW) m) (\<lambda>(r, m).
     if r = 0 then
       bnd (for_each (\<lambda>f. free_page (va + f * PAGE_SIZE)) mapped m) (\<lambda>m. Inr (False, m))
     else kstack_pages va (mapped @ [p]) ps m)"

definition map_kstack :: "u32 \<Rightarrow> mm \<Rightarrow> (bool \<times> mm) res" where
  "map_kstack va m = kstack_pages va [] (u32_range 0 KSTACK_PAGES) m"

definition unmap_kstack :: "u32 \<Rightarrow> mm \<Rightarrow> mm res" where
  "unmap_kstack va m = for_each (\<lambda>f. free_page (va + f * PAGE_SIZE)) (u32_range 0 KSTACK_PAGES) m"

definition link_task :: "tptr \<Rightarrow> tptr \<Rightarrow> kst \<Rightarrow> kst" where
  "link_task par t s =
     (let s = task_add_child par t s;
          s = upd t (\<lambda>x. x\<lparr>task_next := task_list_head s\<rparr>) s in
      s\<lparr>task_list_head := Some t\<rparr>)"

definition exec_fn :: "u32 \<Rightarrow> u32 \<Rightarrow> u32 \<Rightarrow> kst \<Rightarrow> kst res" where
  "exec_fn addr fn sz s =
     (if sz = 0 then Inr s
      else case pid_alloc s of (None, s) \<Rightarrow> Inr s
      | (Some p, s) \<Rightarrow>
          bnd (kmalloc SIZEOF_TASK (pool s) (kmm s)) (\<lambda>(a, kp, m).
          let s = s\<lparr>pool := kp, kmm := m\<rparr> in
          if a = 0 then Inr (pid_release s)
          else
            let t = Dyn a; va = kstack_slot p; s = upd t (\<lambda>_. zero_task\<lparr>pid := p\<rparr>) s in
            bnd (map_kstack va (kmm s)) (\<lambda>(ok, m).
            let s = s\<lparr>kmm := m\<rparr> in
            if \<not> ok then
              bnd (kfree a (pool s) (kmm s)) (\<lambda>(kp, m). Inr (pid_release (s\<lparr>pool := kp, kmm := m\<rparr>)))
            else
              let tf = va + KSTACK_PAGES * PAGE_SIZE - SIZEOF_TRAP_FRAME;
                  cur = tasks s (current_task s);
                  s = s\<lparr>tframes := (tframes s)(tf := zero_frame\<lparr>tf_eip := addr, tf_cs := 0x08,
                         tf_eflags := 0x202, tf_ds := 0x10\<rparr>)\<rparr> in
              bnd (paging_proc_init p (kmm s)) (\<lambda>(pd, m).
              let s = s\<lparr>kmm := m\<rparr>;
                  s = upd t (\<lambda>x. x\<lparr>uid := uid cur, euid := euid cur, quantum := PROC_QUANTUM,
                        time_left := PROC_QUANTUM, kstack := va, thread := \<lparr>thr_tf = tf, thr_esp = tf\<rparr>,
                        task_mm := (task_mm x)\<lparr>pgdir := pd, code_start := addr, code_end := addr + sz\<rparr>,
                        parent := Some Kthreadd_task\<rparr>) s;
                  s = link_task Kthreadd_task t s in
              bnd (copy_bytes addr fn sz (kmm s)) (\<lambda>m.
              Inr (upd t (\<lambda>x. x\<lparr>state := TASK_RUNNABLE\<rparr>) (s\<lparr>kmm := m\<rparr>)))))))"

definition spawn_user :: "u32 \<Rightarrow> u32 \<Rightarrow> u32 \<Rightarrow> tptr option \<Rightarrow> kst \<Rightarrow> (tptr option \<times> kst) res" where
  "spawn_user p fn sz par s =
     (if sz = 0 \<or> sz > PAGE_SIZE \<or> par = None \<or> par = Some Kthreadd_task \<or> task_counter s \<ge> MAX_PROC - 1
      then Inr (None, s)
      else
        bnd (kmalloc SIZEOF_TASK (pool s) (kmm s)) (\<lambda>(a, kp, m).
        let s = s\<lparr>pool := kp, kmm := m\<rparr> in
        if a = 0 then Inr (None, s)
        else
          let t = Dyn a; va = kstack_slot p; s = upd t (\<lambda>_. zero_task\<lparr>pid := p\<rparr>) s in
          bnd (map_kstack va (kmm s)) (\<lambda>(ok, m).
          let s = s\<lparr>kmm := m\<rparr> in
          if \<not> ok then
            bnd (kfree a (pool s) (kmm s)) (\<lambda>(kp, m). Inr (None, s\<lparr>pool := kp, kmm := m\<rparr>))
          else
            bnd (paging_proc_init p (kmm s)) (\<lambda>(pd, m).
            let s = upd t (\<lambda>x. x\<lparr>task_mm := (task_mm x)\<lparr>pgdir := pd\<rparr>\<rparr>) (s\<lparr>kmm := m\<rparr>) in
            bnd (paging_load_user_image p fn sz (kmm s)) (\<lambda>(r, m).
            let s = s\<lparr>kmm := m\<rparr> in
            if r \<noteq> 0 then
              bnd (unmap_kstack va (kmm s)) (\<lambda>m.
              bnd (paging_proc_teardown p m) (\<lambda>m.
              bnd (kfree a (pool s) m) (\<lambda>(kp, m). Inr (None, s\<lparr>pool := kp, kmm := m\<rparr>))))
            else
              let tf = va + KSTACK_PAGES * PAGE_SIZE - SIZEOF_TRAP_FRAME;
                  cur = tasks s (current_task s);
                  s = s\<lparr>tframes := (tframes s)(tf := zero_frame\<lparr>tf_eip := USER_CODE_BASE, tf_cs := 0x23,
                         tf_eflags := 0x202, tf_ds := 0x2B, tf_user_esp := USER_STACK_TOP, tf_user_ss := 0x2B\<rparr>)\<rparr>;
                  s = upd t (\<lambda>x. x\<lparr>uid := uid cur, euid := euid cur, quantum := PROC_QUANTUM,
                        time_left := PROC_QUANTUM, kstack := va, thread := \<lparr>thr_tf = tf, thr_esp = tf\<rparr>,
                        is_userspace := True,
                        task_mm := (task_mm x)\<lparr>code_start := USER_CODE_BASE, code_end := USER_CODE_BASE + sz,
                          stack_top := USER_STACK_TOP\<rparr>, parent := par\<rparr>) s;
                  s = link_task (the par) t s in
              Inr (Some t, upd t (\<lambda>x. x\<lparr>state := TASK_RUNNABLE\<rparr>) s))))))"

definition exec_user_fn :: "u32 \<Rightarrow> u32 \<Rightarrow> tptr option \<Rightarrow> kst \<Rightarrow> kst res" where
  "exec_user_fn fn sz par s =
     (case pid_alloc s of (None, s) \<Rightarrow> Inr s
      | (Some p, s) \<Rightarrow>
          bnd (spawn_user p fn sz par s) (\<lambda>(r, s). Inr (if r = None then pid_release s else s)))"

definition exec_init_fn :: "u32 \<Rightarrow> u32 \<Rightarrow> kst \<Rightarrow> (tptr option \<times> kst) res" where
  "exec_init_fn fn sz s =
     bnd (spawn_user INIT_PID fn sz (Some Init_task) s) (\<lambda>(r, s). Inr (r, s\<lparr>init_proc := r\<rparr>))"

definition task_fork :: "u32 \<Rightarrow> kst \<Rightarrow> (int \<times> kst) res" where
  "task_fork frame s =
     (if kstack (tasks s (current_task s)) = 0 then Inr (-1, s)
      else case pid_alloc s of (None, s) \<Rightarrow> Inr (-1, s)
      | (Some p, s) \<Rightarrow>
          bnd (kmalloc SIZEOF_TASK (pool s) (kmm s)) (\<lambda>(a, kp, m).
          let s = s\<lparr>pool := kp, kmm := m\<rparr> in
          if a = 0 then Inr (-1, pid_release s)
          else
            let child = Dyn a; va = kstack_slot p; s = upd child (\<lambda>_. zero_task\<lparr>pid := p\<rparr>) s in
            bnd (map_kstack va (kmm s)) (\<lambda>(ok, m).
            let s = s\<lparr>kmm := m\<rparr> in
            if \<not> ok then
              bnd (kfree a (pool s) (kmm s)) (\<lambda>(kp, m). Inr (-1, pid_release (s\<lparr>pool := kp, kmm := m\<rparr>)))
            else
              bnd (paging_proc_init p (kmm s)) (\<lambda>(pd, m).
              let s = upd child (\<lambda>x. x\<lparr>task_mm := (task_mm x)\<lparr>pgdir := pd\<rparr>\<rparr>) (s\<lparr>kmm := m\<rparr>) in
              bnd (paging_fork_copy p (kmm s)) (\<lambda>(r, m).
              let s = s\<lparr>kmm := m\<rparr> in
              if r \<noteq> 0 then
                bnd (unmap_kstack va (kmm s)) (\<lambda>m.
                bnd (kfree a (pool s) m) (\<lambda>(kp, m). Inr (-1, pid_release (s\<lparr>pool := kp, kmm := m\<rparr>))))
              else
                let cur = tasks s (current_task s); pva = kstack cur in
                bnd (copy_bytes va pva (KSTACK_PAGES * PAGE_SIZE) (kmm s)) (\<lambda>m.
                let frame_offset = pva + KSTACK_PAGES * PAGE_SIZE - frame;
                    child_tf = va + KSTACK_PAGES * PAGE_SIZE - frame_offset;
                    s = s\<lparr>kmm := m, tframes := (tframes s)(child_tf := (tframes s frame)\<lparr>tf_eax := 0\<rparr>)\<rparr>;
                    s = upd child (\<lambda>x. x\<lparr>state := TASK_RUNNABLE, thread := \<lparr>thr_tf = child_tf, thr_esp = child_tf\<rparr>,
                          kstack := va, parent := Some (current_task s), uid := uid cur, euid := euid cur,
                          quantum := quantum cur, time_left := quantum cur,
                          task_mm := (task_mm cur)\<lparr>pgdir := pgdir (task_mm x)\<rparr>,
                          is_userspace := is_userspace cur, signal_handlers := signal_handlers cur\<rparr>) s in
                Inr (uint p, link_task (current_task s) child s)))))))"

text \<open>The walk to the predecessor in the scheduler list.\<close>

partial_function (option) prev_in_list :: "kst \<Rightarrow> tptr option \<Rightarrow> tptr \<Rightarrow> tptr option option" where
  "prev_in_list s prev z =
     (case prev of None \<Rightarrow> Some None
      | Some p \<Rightarrow> if task_next (tasks s p) = Some z then Some (Some p)
                  else prev_in_list s (task_next (tasks s p)) z)"

definition unlink_task :: "tptr \<Rightarrow> kst \<Rightarrow> kst res" where
  "unlink_task z s =
     (if task_list_head s = Some z then Inr (s\<lparr>task_list_head := task_next (tasks s z)\<rparr>)
      else case prev_in_list s (task_list_head s) z of
             None \<Rightarrow> Inl Diverge
           | Some None \<Rightarrow> Inr s
           | Some (Some p) \<Rightarrow> Inr (upd p (\<lambda>x. x\<lparr>task_next := task_next (tasks s z)\<rparr>) s))"

definition tptr_addr :: "tptr \<Rightarrow> kst \<Rightarrow> u32" where
  "tptr_addr t s = (case t of Dyn a \<Rightarrow> a | _ \<Rightarrow> static_addr s t)"

definition task_reap :: "tptr \<Rightarrow> kst \<Rightarrow> kst res" where
  "task_reap z s =
     bnd (case parent (tasks s z) of None \<Rightarrow> Inr s | Some p \<Rightarrow> task_remove_child p z s) (\<lambda>s.
     bnd (unlink_task z s) (\<lambda>s.
     let x = tasks s z in
     bnd (if kstack x \<noteq> 0 then unmap_kstack (kstack x) (kmm s) else Inr (kmm s)) (\<lambda>m.
     let s = s\<lparr>kmm := m\<rparr> in
     bnd (if log_buf x \<noteq> 0 then kmem_free (log_buf x) (kheap s) else Inr (kheap s)) (\<lambda>k.
     bnd (if in_buf x \<noteq> 0 then kmem_free (in_buf x) k else Inr k) (\<lambda>k.
     let s = s\<lparr>kheap := k\<rparr> in
     bnd (paging_proc_teardown (pid x) (kmm s)) (\<lambda>m.
     bnd (kfree (tptr_addr z s) (pool s) m) (\<lambda>(kp, m).
     Inr (s\<lparr>pool := kp, kmm := m\<rparr>))))))))"

section \<open>The boot self-test\<close>

partial_function (option) child_walk :: "kst \<Rightarrow> tptr \<Rightarrow> tptr option \<Rightarrow> bool \<Rightarrow> bool option" where
  "child_walk s z c found =
     (case c of None \<Rightarrow> Some found
      | Some x \<Rightarrow> child_walk s z (sibling (tasks s x)) (found \<or> x = z))"

definition task_test :: "kst \<Rightarrow> unit res" where
  "task_test s =
     (let i = tasks s Init_task; k = tasks s Kthreadd_task in
      if pid i \<noteq> 0 \<or> state i \<noteq> TASK_RUNNING then Inl (Kpanic ''task test: init_task pid/state wrong'')
      else if task_list_head s \<noteq> Some Init_task \<or> current_task s \<noteq> Init_task
      then Inl (Kpanic ''task test: init_task not list head / current'')
      else if pgdir (task_mm i) = 0 then Inl (Kpanic ''task test: init_task pgdir not loaded'')
      else if pid k \<noteq> 2 \<or> parent k \<noteq> Some Init_task then Inl (Kpanic ''task test: kthreadd pid/parent wrong'')
      else case child_walk s Kthreadd_task (children i) False of
          None \<Rightarrow> Inl Diverge
        | Some found \<Rightarrow>
            if \<not> found then Inl (Kpanic ''task test: kthreadd not a child of init_task'')
            else if task_counter s \<noteq> 2 then Inl (Kpanic ''task test: task_counter not at reserved ceiling'')
            else Inr ())"

end
