(* ===== verification/Syscall.thy ===== *)
theory Syscall
  imports Signal Task_Life
begin

text \<open>
  The system calls, \<open>src/src/cpu/syscall.c\<close>. A handler gets the three argument registers and either
  returns a value, parks the CPU for good with interrupts enabled (\<open>cpu_park_dying\<close>), or sleeps in
  its halt loop until the task is no longer \<open>TASK_BLOCKED\<close>. User buffers are accessed through the
  MMU, in ring 0: a fault there ends in \<open>PageFault\<close>.
\<close>

section \<open>Handlers\<close>

datatype 'a flow = Done 'a | Park | Sleep

type_synonym handler = "u32 \<Rightarrow> u32 \<Rightarrow> u32 \<Rightarrow> kst \<Rightarrow> (int flow \<times> kst) res"

text \<open>\<open>int32_t\<close> read from a register.\<close>

definition s32 :: "u32 \<Rightarrow> int" where
  "s32 w = sint w"

definition user_range_ok :: "u32 \<Rightarrow> u32 \<Rightarrow> bool" where
  "user_range_ok addr n \<longleftrightarrow>
     (let e = addr + n in \<not> e < addr \<and> addr \<ge> USER_CODE_BASE \<and> e \<le> KERNEL_VIRT_BASE)"

definition sys_exit :: handler where
  "sys_exit status _ _ s = bnd (do_exit (current_task s) (s32 status) s) (\<lambda>s. Inr (Park, s))"

definition sys_read :: handler where
  "sys_read fd buf n s =
     (if fd \<noteq> 0 then Inr (Done (-1), s)
      else if \<not> user_range_ok buf n then Inr (Done (-1), s)
      else bnd (task_input_read (current_task s) buf n s) (\<lambda>(k, s). Inr (Done (s32 k), s)))"

definition write_byte :: "u32 \<Rightarrow> u32 \<Rightarrow> kst \<Rightarrow> kst res" where
  "write_byte buf i s = bnd (vread8 (kmm s) (buf + i)) (\<lambda>c. task_log_putchar (current_task s) c s)"

definition sys_write :: handler where
  "sys_write fd buf n s =
     (if fd \<noteq> 1 \<and> fd \<noteq> 2 then Inr (Done (-1), s)
      else if \<not> user_range_ok buf n then Inr (Done (-1), s)
      else bnd (for_each (write_byte buf) (u32_range 0 n) s) (\<lambda>s. Inr (Done (s32 n), s)))"

definition sys_getuid :: handler where
  "sys_getuid _ _ _ s = Inr (Done (s32 (uid (tasks s (current_task s)))), s)"

definition sys_geteuid :: handler where
  "sys_geteuid _ _ _ s = Inr (Done (s32 (euid (tasks s (current_task s)))), s)"

abbreviation (input) SIG_ERR :: u32 where "SIG_ERR \<equiv> 0xFFFFFFFF"

definition sys_signal :: handler where
  "sys_signal signum_u handler_u _ s =
     (let signum = s32 signum_u; t = current_task s; hs = signal_handlers (tasks s t) in
      if signum \<le> 0 \<or> signum \<ge> NSIG then Inr (Done (s32 SIG_ERR), s)
      else if nat signum \<ge> length hs then Inl (OutOfBounds signum_u)
      else Inr (Done (s32 (hs ! nat signum)), kernel_signal_register t signum handler_u s))"

definition kill_allowed :: "task \<Rightarrow> task \<Rightarrow> bool" where
  "kill_allowed me target \<longleftrightarrow> euid me = 0 \<or> euid me = uid target \<or> euid me = euid target"

definition sys_kill :: handler where
  "sys_kill p signum_u _ s =
     (let signum = s32 signum_u in
      if signum < 0 \<or> signum \<ge> NSIG then Inr (Done (-1), s)
      else case find_pid s p (task_list_head s) of
          None \<Rightarrow> Inl Diverge
        | Some None \<Rightarrow> Inr (Done (-1), s)
        | Some (Some target) \<Rightarrow>
            if \<not> kill_allowed (tasks s (current_task s)) (tasks s target) then Inr (Done (-1), s)
            else if signum = 0 then Inr (Done 0, s)
            else
              let s = kernel_signal_send target signum s in
              if target = current_task s
              then bnd (kernel_signal_dispatch (current_task s) s) (\<lambda>s. Inr (Done 0, s))
              else Inr (Done 0, s))"

text \<open>The walk over the children for one that has terminated.\<close>

partial_function (option) find_zombie :: "kst \<Rightarrow> tptr option \<Rightarrow> tptr option option" where
  "find_zombie s c =
     (case c of None \<Rightarrow> Some None
      | Some t \<Rightarrow> if state (tasks s t) = TASK_ZOMBIE then Some (Some t)
                  else find_zombie s (sibling (tasks s t)))"

text \<open>
  One turn of the loop of \<open>sys_wait\<close>: reap a child that has terminated, or block and sleep. A
  sleeping task that is woken runs the next turn.
\<close>

definition wait_turn :: "u32 \<Rightarrow> kst \<Rightarrow> (int flow \<times> kst) res" where
  "wait_turn wstatus s =
     (case find_zombie s (children (tasks s (current_task s))) of
        None \<Rightarrow> Inl Diverge
      | Some None \<Rightarrow> Inr (Sleep, upd (current_task s) (\<lambda>x. x\<lparr>state := TASK_BLOCKED\<rparr>) s)
      | Some (Some z) \<Rightarrow>
          let p = s32 (pid (tasks s z)) in
          bnd (if wstatus \<noteq> 0 then vwrite32 (kmm s) wstatus (of_int (exit_code (tasks s z)))
               else Inr (kmm s)) (\<lambda>m.
          bnd (task_reap z (s\<lparr>kmm := m\<rparr>)) (\<lambda>s. Inr (Done p, s))))"

definition sys_wait :: handler where
  "sys_wait wstatus _ _ s =
     (if children (tasks s (current_task s)) = None \<and> Some (current_task s) \<noteq> init_proc s
      then Inr (Done (-1), s)
      else wait_turn wstatus s)"

definition sys_fork :: handler where
  "sys_fork _ _ _ s =
     bnd (task_fork (thr_tf (thread (tasks s (current_task s)))) s) (\<lambda>(r, s). Inr (Done r, s))"

definition sanitise_frame :: "trap_frame \<Rightarrow> trap_frame" where
  "sanitise_frame f = f\<lparr>tf_cs := 0x23, tf_user_ss := 0x2B, tf_ds := 0x2B,
     tf_eflags := (tf_eflags f AND 0x00000CD5) OR 0x202\<rparr>"

definition sys_sigreturn :: handler where
  "sys_sigreturn _ _ _ s =
     (let fp = thr_tf (thread (tasks s (current_task s))); frame = tframes s fp in
      bnd (read_words ((tf_user_esp frame - 4) + 8) 16 (kmm s)) (\<lambda>ws.
      let frame = sanitise_frame (tf_of_words ws) in
      Inr (Done (s32 (tf_eax frame)), s\<lparr>tframes := (tframes s)(fp := frame)\<rparr>)))"

section \<open>Dispatch\<close>

definition syscall_table :: "u32 \<Rightarrow> handler option" where
  "syscall_table n =
     map_of [(1, sys_exit), (2, sys_fork), (3, sys_read), (4, sys_write), (7, sys_wait), (37, sys_kill),
             (48, sys_signal), (119, sys_sigreturn), (199, sys_getuid), (201, sys_geteuid)] n"

definition set_eax :: "u32 \<Rightarrow> u32 \<Rightarrow> kst \<Rightarrow> kst" where
  "set_eax fp v s = s\<lparr>tframes := (tframes s)(fp := (tframes s fp)\<lparr>tf_eax := v\<rparr>)\<rparr>"

text \<open>
  The result is stored in the frame when the handler returns; for a handler that sleeps this
  happens once a later turn returns.
\<close>

definition syscall_dispatch :: "u32 \<Rightarrow> kst \<Rightarrow> (unit flow \<times> kst) res" where
  "syscall_dispatch fp s =
     (let frame = tframes s fp; num = tf_eax frame in
      if num \<ge> 256 then Inr (Done (), set_eax fp (- 1) s)
      else case syscall_table num of
          None \<Rightarrow> Inr (Done (), set_eax fp (- 1) s)
        | Some f \<Rightarrow>
            let s = upd (current_task s) (\<lambda>x. x\<lparr>thread := (thread x)\<lparr>thr_tf := fp\<rparr>\<rparr>) s in
            bnd (f (tf_ebx frame) (tf_ecx frame) (tf_edx frame) s) (\<lambda>(r, s).
            Inr (case r of Done v \<Rightarrow> (Done (), set_eax fp (of_int v) s) | Park \<Rightarrow> (Park, s) | Sleep \<Rightarrow> (Sleep, s))))"

end
