(* ===== verification/Signal_Frame.thy ===== *)
theory Signal_Frame
  imports Signal_Spec User_Memory Syscall
begin

text \<open>
  Delivery of a caught signal to ring 3 and the return from it: \<open>setup_user_sigframe\<close> of
  \<open>src/src/signal.c\<close> and \<open>sys_sigreturn\<close> of \<open>src/src/cpu/syscall.c\<close> together. The frame written on the
  user stack is what the system call reads back, and no frame a task forges gives it privileges.
\<close>

definition sigframe_at :: "trap_frame \<Rightarrow> u32" where
  "sigframe_at f = ((tf_user_esp f - 80) AND NOT 0xF) - 4"

lemma tf_of_words_tf_words [simp]: "tf_of_words (tf_words f) = f"
  by (simp add: tf_of_words_def tf_words_def)

lemma length_tf_words [simp]: "length (tf_words f) = 16"
  by (simp add: tf_words_def)

lemma length_trampoline: "length trampoline = 8"
  by (simp add: trampoline_def)

lemma setup_user_sigframe_spec:
  fixes frame :: trap_frame
  defines "usp \<equiv> sigframe_at frame"
  assumes w: "window m a usp 20"
  obtains m' where "setup_user_sigframe frame sig h m =
      Inr (frame\<lparr>tf_eip := h, tf_user_esp := usp, tf_eflags := tf_eflags frame AND NOT (push_bit 10 1)\<rparr>, m')"
    and "window m' a usp 20" and "read_words (usp + 8) 16 m' = Inr (tf_words frame)"
    and "vread m' usp = Inr (usp + 72)" and "vread m' (usp + 4) = Inr (of_int sig)"
proof -
  have al: "usp AND 3 = 0" using windowD(2) [OF w, of 0] by simp
  have word: "vread M (usp + 4 * of_nat i) = Inr (pmem M (a i))" if "window M a usp 20" "i < 20" for M i
    using windowD(1) [OF that] by (simp add: vread_def)
  obtain m1 where m1: "user_words.put usp 2 (tf_words frame) m = Inr m1" "window m1 a usp 20"
    "user_words.get usp 2 16 m1 = Inr (tf_words frame)"
    using user_words.put_get [of m a usp 20 2 "tf_words frame"] w by auto
  obtain m2 where m2: "vwrite m1 (usp + 4 * of_nat 1) (of_int sig) = Inr m2" "window m2 a usp 20"
    "\<forall>j<20. vread m2 (usp + 4 * of_nat j) = (if j = 1 then Inr (of_int sig) else vread m1 (usp + 4 * of_nat j))"
    using user_words.wr [OF m1(2), of 1 "of_int sig"] by auto
  obtain m3 where m3: "vwrite m2 (usp + 4 * of_nat 0) (usp + 72) = Inr m3" "window m3 a usp 20"
    "\<forall>j<20. vread m3 (usp + 4 * of_nat j) = (if j = 0 then Inr (usp + 72) else vread m2 (usp + 4 * of_nat j))"
    using user_words.wr [OF m2(2), of 0 "usp + 72"] by auto
  obtain m4 where m4: "write_bytes (usp + of_nat 72) trampoline m3 = Inr m4" "window m4 a usp 20"
    "\<forall>i<72 div 4. pmem m4 (a i) = pmem m3 (a i)"
    using write_bytes_words [OF m3(2), of 72 trampoline] by (auto simp: length_trampoline)
  have keep: "vread m4 (usp + 4 * of_nat j) = vread m3 (usp + 4 * of_nat j)" if "j < 18" for j
    using word [OF m4(2), of j] word [OF m3(2), of j] m4(3) that by simp
  have get1: "vread m1 (usp + 4 * of_nat (2 + j)) = Inr (tf_words frame ! j)" if "j < 16" for j
  proof -
    have "\<forall>j<20. vread m1 (usp + 4 * of_nat j) = (if 2 \<le> j \<and> j < 18 then Inr (tf_words frame ! (j - 2))
        else vread m (usp + 4 * of_nat j))"
      using user_words.put_spec [OF w, of 2 "tf_words frame"] m1(1) by auto
    from this [rule_format, of "2 + j"] that show ?thesis by (simp del: of_nat_add)
  qed
  have "vread m4 (usp + 4 * of_nat (2 + j)) = Inr (tf_words frame ! j)" if "j < 16" for j
    using get1 [OF that] keep [of "2 + j"] m3(3) [rule_format, of "2 + j"] m2(3) [rule_format, of "2 + j"] that
    by (simp del: of_nat_add)
  then have "user_words.get usp 2 (length (tf_words frame)) m4 = Inr (tf_words frame)"
    by (intro user_words.get_spec) (simp only: length_tf_words)
  then have rd: "read_words (usp + 8) 16 m4 = Inr (tf_words frame)"
    using read_words_get [OF al, of 2 16 m4] by simp
  have ww: "write_words (usp + 8) (tf_words frame) m = Inr m1"
    using write_words_put [OF al, of 2 "tf_words frame" m] m1(1) by simp
  have v1: "vwrite32 m1 (usp + 4) (of_int sig) = Inr m2"
    using m2(1) word_aligned [OF al, of 1] by (simp add: vwrite32_def)
  have v2: "vwrite32 m2 usp (usp + 72) = Inr m3" using m3(1) al by (simp add: vwrite32_def)
  have r0: "vread m4 usp = Inr (usp + 72)" using keep [of 0] m3(3) [rule_format, of 0] by simp
  have "vread m4 (usp + 4 * of_nat 1) = Inr (of_int sig)"
    using keep [of 1] m3(3) [rule_format, of 1] m2(3) [rule_format, of 1] by simp
  then have r1: "vread m4 (usp + 4) = Inr (of_int sig)" by simp
  have wb: "write_bytes (usp + 72) trampoline m3 = Inr m4" using m4(1) by simp
  have "setup_user_sigframe frame sig h m =
      Inr (frame\<lparr>tf_eip := h, tf_user_esp := usp, tf_eflags := tf_eflags frame AND NOT (push_bit 10 1)\<rparr>, m4)"
    unfolding setup_user_sigframe_def Let_def sigframe_at_def [symmetric] usp_def [symmetric] ww v1 v2 wb bnd_simps ..
  from that [OF this m4(2) rd r0 r1] show thesis .
qed

section \<open>Properties\<close>

text \<open>
  C13. A caught signal interrupts a ring 3 task without losing its registers: with its stack mapped,
  the frame is set up (the handler is entered on a stack that holds the return address of the
  trampoline and the signal number), and when the handler returns through the trampoline, which
  leaves the stack pointer one word above the frame, \<open>sys_sigreturn\<close> restores every register of the
  interrupted context, with only the segment selectors and the protected flags forced.
\<close>

theorem sigframe_sigreturn_roundtrip:
  assumes "window m a (sigframe_at frame) 20"
  shows "\<exists>frame' m'. setup_user_sigframe frame sig h m = Inr (frame', m') \<and>
    tf_eip frame' = h \<and> tf_user_esp frame' = sigframe_at frame \<and>
    vread m' (sigframe_at frame) = Inr (sigframe_at frame + 72) \<and>
    vread m' (sigframe_at frame + 4) = Inr (of_int sig) \<and>
    (\<forall>s fp x y z. kmm s = m' \<and> thr_tf (thread (tasks s (current_task s))) = fp \<and>
        tf_user_esp (tframes s fp) = tf_user_esp frame' + 4 \<longrightarrow>
      sys_sigreturn x y z s =
        Inr (Done (s32 (tf_eax frame)), s\<lparr>tframes := (tframes s)(fp := sanitise_frame frame)\<rparr>))"
proof -
  obtain m' where m': "setup_user_sigframe frame sig h m = Inr (frame\<lparr>tf_eip := h,
      tf_user_esp := sigframe_at frame, tf_eflags := tf_eflags frame AND NOT (push_bit 10 1)\<rparr>, m')"
    "read_words (sigframe_at frame + 8) 16 m' = Inr (tf_words frame)"
    "vread m' (sigframe_at frame) = Inr (sigframe_at frame + 72)"
    "vread m' (sigframe_at frame + 4) = Inr (of_int sig)"
    using setup_user_sigframe_spec [OF assms] by metis
  have "read_words (8 + sigframe_at frame) 16 m' = Inr (tf_words frame)" using m'(2) by (simp add: add.commute)
  then show ?thesis using m'(1,3,4) by (auto simp: sys_sigreturn_def Let_def sanitise_frame_def)
qed

text \<open>An address space without paging, where every window is mapped to itself.\<close>

lemma identity_window:
  assumes "cr0 m = 1" and "lo AND 3 = 0" and "unat lo + 4 * n < 0x100000000"
    and "\<And>i j. i < n \<Longrightarrow> j < n \<Longrightarrow> lo + 4 * of_nat i \<notin> walk_slots m (lo + 4 * of_nat j)"
  shows "window m (\<lambda>i. lo + 4 * of_nat i) lo n"
proof -
  have "inj_on (\<lambda>i. lo + 4 * of_nat i) {..<n}"
  proof (rule inj_onI)
    fix i j assume i: "i \<in> {..<n}" and j: "j \<in> {..<n}" and eq: "lo + 4 * of_nat i = lo + 4 * of_nat j"
    have u: "unat (of_nat (4 * k) :: u32) = 4 * k" if "k < n" for k
      using that assms(3) by (intro unat_of_nat_u32) simp
    have "(of_nat (4 * i) :: u32) = of_nat (4 * j)" using eq by (simp only: of_nat_mult of_nat_numeral add_left_cancel)
    then have "unat (of_nat (4 * i) :: u32) = unat (of_nat (4 * j) :: u32)" by (rule arg_cong)
    then have "4 * i = 4 * j" unfolding u [OF i [unfolded lessThan_iff]] u [OF j [unfolded lessThan_iff]] .
    then show "i = j" by linarith
  qed
  moreover have "mmu_walk m va = Some va" for va using assms(1) by (simp add: mmu_walk_def)
  ultimately show ?thesis unfolding window_def using assms(2,4) by blast
qed

lemma flat_slots: "x \<in> walk_slots (boot_mm one_free) va \<Longrightarrow> unat x < 4096"
proof -
  have q: "unat (4 * y :: u32) < 4096" if "unat y < 1024" for y
    using that by (simp add: unat_word_ariths)
  assume "x \<in> walk_slots (boot_mm one_free) va"
  then have "x = 4 * drop_bit 22 va \<or> x = 4 * (drop_bit 12 va AND 0x3FF)"
    using page_base_self [of 0] by (auto simp: walk_slots_def boot_mm_def)
  then show ?thesis using q [OF dir_index_lt [of va]] q [OF tab_index_lt [of va]] by (elim disjE) simp_all
qed

lemma flat_window:
  assumes "lo AND 3 = 0" and "4096 \<le> unat lo" and "unat lo + 4 * n < 0x100000000"
  shows "window (boot_mm one_free) (\<lambda>i. lo + 4 * of_nat i) lo n"
proof (rule identity_window [OF _ assms(1,3)])
  show "cr0 (boot_mm one_free) = 1" by (simp add: boot_mm_def)
  fix i j assume i: "i < n"
  have "unat (of_nat (4 * i) :: u32) = 4 * i" using i assms(3) by (intro unat_of_nat_u32) simp
  then have "unat (lo + of_nat (4 * i)) = unat lo + 4 * i" using i assms(3) by (subst unat_add_lem [THEN iffD1]) simp_all
  then have "4096 \<le> unat (lo + of_nat (4 * i))" using assms(2) by simp
  then have "4096 \<le> unat (lo + 4 * of_nat i)" by (simp only: of_nat_mult of_nat_numeral)
  then show "lo + 4 * of_nat i \<notin> walk_slots (boot_mm one_free) (lo + 4 * of_nat j)"
    using flat_slots [of "lo + 4 * of_nat i" "lo + 4 * of_nat j"] by linarith
qed

theorem sigframe_sigreturn_roundtrip_witness:
  "\<exists>frame' m'. setup_user_sigframe (zero_frame\<lparr>tf_user_esp := 0x8000\<rparr>) 10 0x400 (boot_mm one_free) = Inr (frame', m') \<and>
    tf_eip frame' = 0x400 \<and> vread m' 0x7FAC = Inr 0x7FF4"
proof -
  have e: "sigframe_at (zero_frame\<lparr>tf_user_esp := 0x8000\<rparr>) = 0x7FAC" by (simp add: sigframe_at_def)
  have "window (boot_mm one_free) (\<lambda>i. 0x7FAC + 4 * of_nat i) (sigframe_at (zero_frame\<lparr>tf_user_esp := 0x8000\<rparr>)) 20"
    unfolding e by (rule flat_window) simp_all
  from sigframe_sigreturn_roundtrip [OF this, of 10 "0x400"] obtain frame' m' where
    "setup_user_sigframe (zero_frame\<lparr>tf_user_esp := 0x8000\<rparr>) 10 0x400 (boot_mm one_free) = Inr (frame', m')"
    "tf_eip frame' = 0x400" "vread m' 0x7FAC = Inr (0x7FAC + 72)" unfolding e by blast
  then show ?thesis by (intro exI [of _ frame'] exI [of _ m']) simp
qed

text \<open>
  C12. Returning from a signal handler never raises privileges: whatever a task puts on its stack, the
  frame \<open>sys_sigreturn\<close> installs has the user code and data selectors, interrupts enabled, and of the
  flags word only arithmetic, direction and overflow flags come from the task. Nothing else in the
  kernel state changes.
\<close>

theorem sys_sigreturn_keeps_user_privilege:
  assumes "sys_sigreturn x y z s = Inr (r, s')"
  defines "fp \<equiv> thr_tf (thread (tasks s (current_task s)))"
  shows "tf_cs (tframes s' fp) = 0x23 \<and> tf_ds (tframes s' fp) = 0x2B \<and> tf_user_ss (tframes s' fp) = 0x2B \<and>
    (\<forall>n. bit (tf_eflags (tframes s' fp)) n \<longrightarrow> n \<in> {0, 1, 2, 4, 6, 7, 9, 10, 11}) \<and>
    bit (tf_eflags (tframes s' fp)) 9 \<and> s' = s\<lparr>tframes := (tframes s)(fp := tframes s' fp)\<rparr>"
proof -
  obtain f where s': "s' = s\<lparr>tframes := (tframes s)(fp := sanitise_frame f)\<rparr>"
    using assms(1) by (auto simp: sys_sigreturn_def fp_def Let_def)
  have low: "n < 12" if "bit (w :: u32) n" "w = take_bit 12 w" for w n
    using that by (metis bit_take_bit_iff)
  have m1: "n \<in> {0, 2, 4, 6, 7, 10, 11}" if "bit (0xCD5 :: u32) n" for n
  proof -
    have "n < 12" using low [OF that] by simp
    then have "n \<in> {0, 1, 2, 3, 4, 5, 6, 7, 8, 9, 10, 11}" unfolding insert_iff empty_iff by presburger
    then show ?thesis using that by auto
  qed
  have m2: "n \<in> {1, 9}" if "bit (0x202 :: u32) n" for n
  proof -
    have "n < 12" using low [OF that] by simp
    then have "n \<in> {0, 1, 2, 3, 4, 5, 6, 7, 8, 9, 10, 11}" unfolding insert_iff empty_iff by presburger
    then show ?thesis using that by auto
  qed
  have fl: "tf_eflags (tframes s' fp) = (tf_eflags f AND 0xCD5) OR 0x202" by (simp add: s' sanitise_frame_def)
  have "n \<in> {0, 1, 2, 4, 6, 7, 9, 10, 11}" if "bit (tf_eflags (tframes s' fp)) n" for n
    using that m1 [of n] m2 [of n] unfolding fl bit_or_iff bit_and_iff by auto
  moreover have "bit (tf_eflags (tframes s' fp)) 9" unfolding fl bit_or_iff by simp
  ultimately show ?thesis by (simp add: s' sanitise_frame_def)
qed

lemma flat_read: "vread (boot_mm one_free) va = Inr 0" "vread8 (boot_mm one_free) va = Inr 0"
  by (simp_all add: vread_def vread8_def mmu_walk_def boot_mm_def)

theorem sys_sigreturn_keeps_user_privilege_witness:
  "\<exists>s'. sys_sigreturn 0 0 0 demo_kst = Inr (Done 0, s') \<and> tf_cs (tframes s' (thr_tf (thread (tasks demo_kst Init_task)))) = 0x23"
proof -
  have rw: "read_words va k (boot_mm one_free) = Inr (replicate k 0)" for va k
    by (induction k arbitrary: va) (auto simp: vread32_def flat_read)
  obtain s' where s': "sys_sigreturn 0 0 0 demo_kst = Inr (Done 0, s')"
    by (simp add: sys_sigreturn_def Let_def rw sanitise_frame_def tf_of_words_def s32_def)
  then show ?thesis using sys_sigreturn_keeps_user_privilege [OF s'] by simp
qed

end
