(* ===== verification/Sched.thy ===== *)
theory Sched
  imports Signal
begin

text \<open>
  The round-robin scheduler, \<open>src/src/sched.c\<close>: the pick over the list of tasks, the timer-driven
  \<open>schedule\<close> and the lap accounting with its one-shot block and unblock triggers. Log lines are left
  out. The context switch itself is done by the interrupt return stub, which consumes
  \<open>need_resched\<close> and \<open>next_task\<close>.
\<close>

abbreviation (input) LAP_BLOCK_TRIGGER :: u32 where "LAP_BLOCK_TRIGGER \<equiv> 3"
abbreviation (input) LAP_UNBLOCK_TRIGGER :: u32 where "LAP_UNBLOCK_TRIGGER \<equiv> 4"

text \<open>One step of the search for the highest eligible pid.\<close>

definition faulty_better :: "kst \<Rightarrow> tptr \<Rightarrow> tptr option \<Rightarrow> tptr \<Rightarrow> tptr option" where
  "faulty_better s nxt best t =
     (let x = tasks s t in
      if t = nxt \<or> Some t = lap_anchor s \<or> pid x = 0 then best
      else if state x \<noteq> TASK_RUNNABLE \<and> state x \<noteq> TASK_RUNNING then best
      else case best of None \<Rightarrow> Some t
           | Some b \<Rightarrow> if pid x > pid (tasks s b) then Some t else best)"

partial_function (option) faulty_scan :: "kst \<Rightarrow> tptr \<Rightarrow> tptr option \<Rightarrow> tptr option \<Rightarrow> tptr option res option" where
  "faulty_scan s nxt it best =
     (case it of None \<Rightarrow> Some (Inr best)
      | Some t \<Rightarrow> faulty_scan s nxt (task_next (tasks s t)) (faulty_better s nxt best t))"

definition maybe_block_faulty_target :: "tptr \<Rightarrow> kst \<Rightarrow> kst res" where
  "maybe_block_faulty_target nxt s =
     (if blocked_marker s \<or> lap_num s \<noteq> LAP_BLOCK_TRIGGER then Inr s
      else bnd (loop_res (faulty_scan s nxt (task_list_head s) None)) (\<lambda>r.
           case r of None \<Rightarrow> Inr s
           | Some t \<Rightarrow> Inr ((upd t (\<lambda>x. x\<lparr>state := TASK_BLOCKED\<rparr>) s)\<lparr>blocked_marker := True\<rparr>)))"

partial_function (option) unblock_scan :: "tptr option \<Rightarrow> kst \<Rightarrow> kst option" where
  "unblock_scan it s =
     (case it of None \<Rightarrow> Some s
      | Some t \<Rightarrow>
          let s = (if state (tasks s t) \<noteq> TASK_BLOCKED then s else upd t (\<lambda>x. x\<lparr>state := TASK_RUNNABLE\<rparr>) s) in
          unblock_scan (task_next (tasks s t)) s)"

definition maybe_unblock_faulty_target :: "kst \<Rightarrow> kst res" where
  "maybe_unblock_faulty_target s =
     (if unblocked_marker s \<or> lap_num s \<noteq> LAP_UNBLOCK_TRIGGER then Inr s
      else case unblock_scan (task_list_head s) s of
             None \<Rightarrow> Inl Diverge
           | Some s \<Rightarrow> Inr (s\<lparr>unblocked_marker := True\<rparr>))"

text \<open>
  The walk of \<open>pick_next_task\<close>: \<open>t\<close> is examined, the walk ends when it is back at \<open>start\<close>. A NULL
  list head inside the walk would be dereferenced.
\<close>

partial_function (option) pick_walk :: "kst \<Rightarrow> tptr \<Rightarrow> tptr \<Rightarrow> tptr res option" where
  "pick_walk s start t =
     (if t \<noteq> current_task s \<and> state (tasks s t) = TASK_RUNNABLE then Some (Inr t)
      else case (case task_next (tasks s t) of Some u \<Rightarrow> Some u | None \<Rightarrow> task_list_head s) of
             None \<Rightarrow> Some (Inl (BadPointer 0))
           | Some u \<Rightarrow> if u = start then Some (Inr (current_task s)) else pick_walk s start u)"

definition pick_next_task :: "kst \<Rightarrow> tptr res" where
  "pick_next_task s =
     (case (case task_next (tasks s (current_task s)) of Some u \<Rightarrow> Some u | None \<Rightarrow> task_list_head s) of
        None \<Rightarrow> Inl (BadPointer 0)
      | Some t \<Rightarrow> loop_res (pick_walk s t t))"

definition tss_set_esp0 :: "u32 \<Rightarrow> kst \<Rightarrow> kst" where
  "tss_set_esp0 esp0 s = s\<lparr>tss_esp0 := esp0\<rparr>"

text \<open>The second half of \<open>schedule\<close>, once a switch to \<open>nxt\<close> is decided.\<close>

definition switch_to :: "tptr \<Rightarrow> kst \<Rightarrow> kst res" where
  "switch_to nxt s =
     (let cur = current_task s;
          s = (if state (tasks s cur) = TASK_RUNNING then upd cur (\<lambda>x. x\<lparr>state := TASK_RUNNABLE\<rparr>) s else s);
          s = upd nxt (\<lambda>x. x\<lparr>state := TASK_RUNNING\<rparr>) s;
          s = (if is_userspace (tasks s nxt)
               then tss_set_esp0 (kstack (tasks s nxt) + KSTACK_PAGES * PAGE_SIZE) s else s);
          s = s\<lparr>next_task := Some nxt, need_resched := 1\<rparr> in
      if lap_anchor s = None then Inr (s\<lparr>lap_anchor := Some nxt\<rparr>)
      else if lap_anchor s = Some nxt then
        let s = s\<lparr>lap_num := lap_num s + 1\<rparr> in
        bnd (maybe_block_faulty_target nxt s) maybe_unblock_faulty_target
      else Inr s)"

definition schedule :: "kst \<Rightarrow> kst res" where
  "schedule s =
     bnd (if pending_signals (tasks s (current_task s)) \<noteq> 0
          then kernel_signal_dispatch (current_task s) s else Inr s) (\<lambda>s.
     let cur = current_task s; running = (state (tasks s cur) = TASK_RUNNING);
         s = (if running then upd cur (\<lambda>x. x\<lparr>time_left := time_left x - 1\<rparr>) s else s) in
     if running \<and> time_left (tasks s cur) > 0 then Inr s
     else
       let s = upd cur (\<lambda>x. x\<lparr>time_left := quantum x\<rparr>) s in
       bnd (pick_next_task s) (\<lambda>nxt.
       if nxt = cur then Inr s else switch_to nxt s))"

definition timer_tick :: "kst \<Rightarrow> kst res" where
  "timer_tick s = schedule s"

end
