(* ===== verification/Interrupts.thy ===== *)
theory Interrupts
  imports Syscall Sched
begin

text \<open>
  Traps and interrupts, \<open>src/src/cpu/isr.c\<close>, and the return path of the stubs in
  \<open>src/src/cpu/isr_stubs.s\<close> with the context switch. Log lines and register dumps are left out; the
  port reads of the keyboard controller are arguments.
\<close>

section \<open>The keyboard\<close>

datatype keymap_t = KEYMAP_QWERTY | KEYMAP_AZERTY

text \<open>A key code of the C tables: a character, or 0 for no character.\<close>

definition keymap_qwerty :: "u8 list" where
  "keymap_qwerty =
     map of_char ([CHR 0x00, CHR 0x1B] @ ''1234567890-='' @ [CHR 0x08, CHR 0x09] @ ''qwertyuiop[]''
       @ [CHR 0x0A, CHR 0x00] @ ''asdfghjkl;'' @ [CHR 0x27, CHR 0x60, CHR 0x00, CHR 0x5C] @ ''zxcvbnm,./''
       @ [CHR 0x00, CHR 0x2A, CHR 0x00, CHR 0x20]) @ replicate 70 0"

definition keymap_azerty :: "u8 list" where
  "keymap_azerty =
     map of_char ([CHR 0x00, CHR 0x1B, CHR 0x26, CHR 0x00, CHR 0x22, CHR 0x27, CHR 0x28, CHR 0x2D, CHR 0x00,
       CHR 0x5F, CHR 0x00, CHR 0x00, CHR 0x29, CHR 0x3D, CHR 0x08, CHR 0x09] @ ''azertyuiop''
       @ [CHR 0x5E, CHR 0x24, CHR 0x0A, CHR 0x00] @ ''qsdfghjklm'' @ [CHR 0x00, CHR 0x00, CHR 0x00, CHR 0x2A]
       @ ''wxcvbn,;:!'' @ [CHR 0x00, CHR 0x2A, CHR 0x00, CHR 0x20]) @ replicate 70 0"

record kbd =
  active_keymap :: "u8 list"
  extended :: bool

definition set_keymap :: "keymap_t \<Rightarrow> kbd \<Rightarrow> kbd" where
  "set_keymap layout k =
     k\<lparr>active_keymap := (case layout of KEYMAP_AZERTY \<Rightarrow> keymap_azerty | KEYMAP_QWERTY \<Rightarrow> keymap_qwerty)\<rparr>"

text \<open>The calls the handler makes into the terminal and the shell.\<close>

datatype kbd_call = Scroll_lines int | Scroll_reset | Shell_add_char u8

abbreviation (input) VGA_USABLE_ROWS :: int where "VGA_USABLE_ROWS \<equiv> 24"

definition extended_key :: "u8 \<Rightarrow> kbd_call list" where
  "extended_key scancode =
     (if scancode = 0x48 then [Scroll_lines (- 1)]
      else if scancode = 0x50 then [Scroll_lines 1]
      else if scancode = 0x49 then [Scroll_lines (- VGA_USABLE_ROWS)]
      else if scancode = 0x51 then [Scroll_lines VGA_USABLE_ROWS]
      else [])"

definition keyboard_irq :: "u8 \<Rightarrow> u8 \<Rightarrow> kbd \<Rightarrow> (kbd \<times> kbd_call list) res" where
  "keyboard_irq status scancode k =
     (if status AND 1 = 0 then Inr (k, [])
      else if scancode = 0xE0 then Inr (k\<lparr>extended := True\<rparr>, [])
      else if extended k then
        Inr (k\<lparr>extended := False\<rparr>, if scancode AND 0x80 = 0 then extended_key scancode else [])
      else if scancode AND 0x80 = 0 then
        if unat scancode \<ge> length (active_keymap k) then Inl (OutOfBounds (ucast scancode))
        else let c = active_keymap k ! unat scancode in
             Inr (k, Scroll_reset # (if c \<noteq> 0 then [Shell_add_char c] else []))
      else Inr (k, []))"

section \<open>Exceptions\<close>

definition kill_user_on_fault :: "trap_frame \<Rightarrow> kst \<Rightarrow> kst" where
  "kill_user_on_fault frame s =
     kernel_signal_send (current_task s) (signal_from_exception (tf_int_no frame)) s"

text \<open>The vectors that a ring 3 task is killed for.\<close>

definition user_fault :: "u32 \<Rightarrow> bool" where
  "user_fault n \<longleftrightarrow> n \<in> {0, 4, 5, 6, 10, 11, 12, 13, 14, 16, 17, 19}"

definition panic_message :: "u32 \<Rightarrow> string" where
  "panic_message n =
     (if n = 0 then ''division by zero'' else if n = 1 then ''debugger exception''
      else if n = 2 then ''non-maskable interrupt'' else if n = 3 then ''breakpoint''
      else if n = 4 then ''overflow'' else if n = 5 then ''bound range exceeded''
      else if n = 6 then ''invalid opcode'' else if n = 7 then ''coprocessor not available''
      else if n = 8 then ''double fault'' else if n = 9 then ''coprocessor segment overrun''
      else if n = 10 then ''invalid task state segment'' else if n = 11 then ''segment not present''
      else if n = 12 then ''stack fault'' else if n = 13 then ''general protection fault''
      else if n = 14 then ''page fault'' else if n = 15 then ''reserved exception (0x0f)''
      else if n = 16 then ''x87 math fault'' else if n = 17 then ''alignment check''
      else if n = 18 then ''machine check'' else if n = 19 then ''simd floating-point exception''
      else ''unhandled exception'')"

text \<open>Vector 66 is the canary self-test of the stubs: it only logs whether the registers match.\<close>

definition canary_ok :: "trap_frame \<Rightarrow> bool" where
  "canary_ok f \<longleftrightarrow> tf_int_no f = 66 \<and> tf_err_code f = 0 \<and> tf_eax f = 0xAAAAAAAA \<and> tf_ebx f = 0xBBBBBBBB \<and>
     tf_ecx f = 0xCCCCCCCC \<and> tf_edx f = 0xDDDDDDDD \<and> tf_esi f = 0x11111111 \<and> tf_edi f = 0x22222222 \<and>
     tf_cs f = 0x08"

definition isr_handler :: "u32 \<Rightarrow> kst \<Rightarrow> (unit flow \<times> kst) res" where
  "isr_handler fp s =
     (let frame = tframes s fp; n = tf_int_no frame in
      if n = 128 then syscall_dispatch fp s
      else if n = 66 then Inr (Done (), s)
      else if user_fault n \<and> tf_cs frame AND 3 = 3 then Inr (Park, kill_user_on_fault frame s)
      else Inl (Kpanic (panic_message n)))"

section \<open>Return from an interrupt\<close>

text \<open>
  \<open>irq_common_stub\<close> after \<open>irq_handler\<close> returned, with the trap frame at \<open>fp\<close>: the context switch when
  \<open>need_resched\<close> is set, then signal delivery on the frame that will be restored, whose address is
  returned.
\<close>

definition context_switch :: "u32 \<Rightarrow> kst \<Rightarrow> (u32 \<times> kst) res" where
  "context_switch fp s =
     (if need_resched s = 0 then Inr (fp, s)
      else case next_task s of
          None \<Rightarrow> Inl (BadPointer 0)
        | Some n \<Rightarrow>
            let s = upd (current_task s) (\<lambda>x. x\<lparr>thread := (thread x)\<lparr>thr_esp := fp\<rparr>\<rparr>) s;
                s = s\<lparr>current_task := n\<rparr>;
                x = tasks s n;
                s = (if pgdir (task_mm x) \<noteq> cr3 (kmm s) then s\<lparr>kmm := load_page_directory (pgdir (task_mm x)) (kmm s)\<rparr>
                     else s) in
            Inr (thr_esp (thread x), s\<lparr>need_resched := 0\<rparr>))"

definition irq_return :: "u32 \<Rightarrow> kst \<Rightarrow> (u32 \<times> kst) res" where
  "irq_return fp s =
     bnd (context_switch fp s) (\<lambda>(fp, s).
     bnd (signal_check_and_deliver fp s) (\<lambda>s. Inr (fp, s)))"

text \<open>A whole timer interrupt: IRQ 0, the scheduler, the return path.\<close>

definition timer_irq :: "u32 \<Rightarrow> kst \<Rightarrow> (u32 \<times> kst) res" where
  "timer_irq fp s = bnd (timer_tick s) (irq_return fp)"

text \<open>A whole trap, \<open>isr_common_stub\<close>: the handler, then signal delivery when it returned.\<close>

definition isr_trap :: "u32 \<Rightarrow> kst \<Rightarrow> (unit flow \<times> kst) res" where
  "isr_trap fp s =
     bnd (isr_handler fp s) (\<lambda>(r, s).
     case r of Done _ \<Rightarrow> bnd (signal_check_and_deliver fp s) (\<lambda>s. Inr (Done (), s)) | _ \<Rightarrow> Inr (r, s))"

end
