(* ===== verification/Sched_Spec.thy ===== *)
theory Sched_Spec
  imports Signal_Spec Interrupts
begin

text \<open>
  What the scheduler of \<open>src/src/sched.c\<close> guarantees: the pick is the first runnable task in cyclic
  order after the current one, a waiting task gets strictly closer to the CPU with every pick that
  passes it over, and across a timer interrupt no task but the one on the CPU is marked running.
\<close>

section \<open>The run queue\<close>

definition runq :: "kst \<Rightarrow> tptr list \<Rightarrow> bool" where
  "runq s xs \<longleftrightarrow> chain (\<lambda>t. task_next (tasks s t)) (task_list_head s) xs \<and> current_task s \<in> set xs"

text \<open>The tasks in the order they are considered: those after \<open>c\<close>, then those before it.\<close>

definition rotation :: "'a \<Rightarrow> 'a list \<Rightarrow> 'a list" where
  "rotation c xs = tl (dropWhile (\<lambda>x. x \<noteq> c) xs) @ takeWhile (\<lambda>x. x \<noteq> c) xs"

lemma rotation_split:
  assumes "c \<notin> set us"
  shows "rotation c (us @ c # vs) = vs @ us"
proof -
  have "dropWhile (\<lambda>x. x \<noteq> c) (us @ c # vs) = c # vs" "takeWhile (\<lambda>x. x \<noteq> c) (us @ c # vs) = us"
    using assms by (induction us) auto
  then show ?thesis by (simp add: rotation_def)
qed

lemma set_rotation: "set (rotation c xs) \<subseteq> set xs"
proof -
  have "set (tl ys) \<subseteq> set ys" for ys :: "'a list" by (cases ys) auto
  then have "set (tl (dropWhile (\<lambda>x. x \<noteq> c) xs)) \<subseteq> set (dropWhile (\<lambda>x. x \<noteq> c) xs)" .
  then show ?thesis unfolding rotation_def by (auto dest: set_dropWhileD set_takeWhileD)
qed

text \<open>Rotating to an element of a rotation.\<close>

lemma rotation_again:
  assumes "distinct (us @ c # vs)" and "vs @ us = as @ n # bs"
  shows "rotation n (us @ c # vs) = bs @ c # as"
proof -
  consider w where "vs = as @ n # w" "bs = w @ us" | w where "as = vs @ w" "us = w @ n # bs"
    using assms(2) by (auto simp: append_eq_append_conv2 append_eq_Cons_conv Cons_eq_append_conv)
  then show ?thesis
  proof cases
    case 1
    then have "us @ c # vs = (us @ c # as) @ n # w" "n \<notin> set (us @ c # as)" using assms(1) by auto
    then show ?thesis using rotation_split [of n "us @ c # as" w] 1(2) by simp
  next
    case 2
    then have "us @ c # vs = w @ n # (bs @ c # vs)" "n \<notin> set w" using assms(1) by auto
    then show ?thesis using rotation_split [of n w "bs @ c # vs"] 2(1) by simp
  qed
qed

definition succ :: "kst \<Rightarrow> tptr \<Rightarrow> tptr option" where
  "succ s t = (case task_next (tasks s t) of Some u \<Rightarrow> Some u | None \<Rightarrow> task_list_head s)"

text \<open>\<open>steps s e zs\<close>: the successors lead through \<open>zs\<close> and then to \<open>e\<close>.\<close>

primrec steps :: "kst \<Rightarrow> tptr \<Rightarrow> tptr list \<Rightarrow> bool" where
  "steps s e [] \<longleftrightarrow> True"
| "steps s e (z # zs) \<longleftrightarrow> succ s z = Some (hd (zs @ [e])) \<and> steps s e zs"

lemma steps_append: "steps s e (xs @ ys) \<longleftrightarrow> steps s (hd (ys @ [e])) xs \<and> steps s e ys"
proof (induction xs)
  case (Cons x xs)
  then show ?case by (cases xs) auto
qed simp

lemma chain_steps_end:
  assumes "chain (\<lambda>t. task_next (tasks s t)) p vs" and "task_list_head s = Some h"
  shows "steps s h vs"
  using assms
proof (induction vs arbitrary: p)
  case (Cons v vs)
  then show ?case by (cases vs) (auto simp: succ_def)
qed simp

lemma chain_steps_mid:
  assumes "chain (\<lambda>t. task_next (tasks s t)) p (us @ v # vs)"
  shows "steps s v us"
  using assms
proof (induction us arbitrary: p)
  case (Cons u us)
  then show ?case by (cases us) (auto simp: succ_def)
qed simp

lemma pick_walk_steps:
  assumes "steps s e (z # zs)" and "e \<notin> set zs"
  shows "pick_walk s e z = Some (Inr (case find (\<lambda>t. t \<noteq> current_task s \<and> state (tasks s t) = TASK_RUNNABLE) (z # zs) of
      None \<Rightarrow> current_task s | Some u \<Rightarrow> u))"
  using assms
proof (induction zs arbitrary: z)
  case Nil
  then show ?case by (subst pick_walk.simps) (auto simp: succ_def split: option.splits)
next
  case (Cons y ys)
  have "succ s z = Some y" "steps s e (y # ys)" "e \<noteq> y" "e \<notin> set ys" using Cons.prems by auto
  then show ?case using Cons.IH [of y]
    by (subst pick_walk.simps) (auto simp: succ_def split: option.splits)
qed

lemma find_other: "c \<notin> set zs \<Longrightarrow> find (\<lambda>t. t \<noteq> c \<and> P t) (zs @ [c]) = find P zs"
  by (induction zs) auto

lemma runqE:
  assumes "runq s xs"
  obtains us vs where "xs = us @ current_task s # vs" and "current_task s \<notin> set us" and "distinct xs"
    and "rotation (current_task s) xs = vs @ us" and "task_list_head s = Some (hd xs)"
proof -
  obtain us vs where xs: "xs = us @ current_task s # vs" "current_task s \<notin> set us"
    using assms split_list_first [of "current_task s" xs] by (auto simp: runq_def)
  have "distinct xs" using assms chain_distinct by (auto simp: runq_def)
  moreover have "task_list_head s = Some (hd xs)" using assms xs(1) by (cases us) (auto simp: runq_def)
  ultimately show thesis using that xs rotation_split [OF xs(2)] by auto
qed

lemma pick_next_task_spec:
  assumes "runq s xs"
  shows "pick_next_task s = Inr (case find (\<lambda>t. state (tasks s t) = TASK_RUNNABLE) (rotation (current_task s) xs) of
      None \<Rightarrow> current_task s | Some u \<Rightarrow> u)"
proof -
  let ?c = "current_task s" and ?nx = "\<lambda>t. task_next (tasks s t)"
  obtain us vs where xs: "xs = us @ ?c # vs" "?c \<notin> set us" "distinct xs" "rotation ?c xs = vs @ us"
    "task_list_head s = Some (hd xs)" using runqE [OF assms] .
  have ch: "chain ?nx (task_list_head s) (us @ ?c # vs)" using assms xs(1) by (simp add: runq_def)
  then have cv: "chain ?nx (?nx ?c) vs" using chain_suffix by fastforce
  have sc: "succ s ?c = Some (hd (vs @ us @ [?c]))"
    using cv xs(1,5) by (cases vs; cases us) (auto simp: succ_def)
  let ?ys = "vs @ us @ [?c]"
  have "steps s (hd xs) vs" using chain_steps_end [OF cv xs(5)] .
  moreover have "steps s ?c us" using chain_steps_mid [OF ch] .
  moreover have "hd ((us @ [?c]) @ [hd ?ys]) = hd xs" using xs(1) by (cases us) auto
  ultimately have st: "steps s (hd ?ys) ?ys" using sc by (simp add: steps_append)
  obtain z zs where ys: "?ys = z # zs" by (cases ?ys) auto
  have "distinct ?ys" using xs(1,3) by auto
  then have "z \<notin> set zs" unfolding ys by simp
  with st have w: "pick_walk s z z = Some (Inr (case find (\<lambda>t. t \<noteq> ?c \<and> state (tasks s t) = TASK_RUNNABLE) (z # zs) of
      None \<Rightarrow> ?c | Some u \<Rightarrow> u))" using pick_walk_steps [of s z z zs] unfolding ys by simp
  have "find (\<lambda>t. t \<noteq> ?c \<and> state (tasks s t) = TASK_RUNNABLE) ((vs @ us) @ [?c])
      = find (\<lambda>t. state (tasks s t) = TASK_RUNNABLE) (vs @ us)"
  proof -
    have "?c \<notin> set (vs @ us)" using xs(1,3) by auto
    then show ?thesis by (rule find_other)
  qed
  then show ?thesis using w sc ys by (simp add: pick_next_task_def succ_def xs(4))
qed

text \<open>How many tasks are considered before \<open>t\<close> when \<open>c\<close> is on the CPU.\<close>

definition wait_of :: "'a \<Rightarrow> 'a \<Rightarrow> 'a list \<Rightarrow> nat" where
  "wait_of c t xs = length (takeWhile (\<lambda>x. x \<noteq> t) (rotation c xs))"

lemma takeWhile_skip: "t \<notin> set as \<Longrightarrow> takeWhile (\<lambda>x. x \<noteq> t) (as @ zs) = as @ takeWhile (\<lambda>x. x \<noteq> t) zs"
  by (induction as) auto

lemma wait_decreases:
  assumes d: "distinct xs" and c: "c \<in> set xs" and t: "t \<in> set xs" "t \<noteq> c"
    and n: "find P (rotation c xs) = Some n" "P t" "n \<noteq> t"
  shows "wait_of n t xs < wait_of c t xs"
proof -
  obtain us vs where xs: "xs = us @ c # vs" using c by (auto simp: in_set_conv_decomp)
  have r: "rotation c xs = vs @ us" using d xs by (simp add: rotation_split)
  obtain i where i: "i < length (vs @ us)" "P n" "(vs @ us) ! i = n" "\<forall>j<i. \<not> P ((vs @ us) ! j)"
    using n(1) unfolding r find_Some_iff by auto
  define as bs where "as = take i (vs @ us)" and "bs = drop (Suc i) (vs @ us)"
  have ab: "vs @ us = as @ n # bs" using i(1,3) unfolding as_def bs_def by (metis id_take_nth_drop)
  have las: "length as = i" using i(1) by (simp add: as_def)
  have "t \<notin> set as"
  proof
    assume "t \<in> set as"
    then obtain j where "j < length as" "as ! j = t" by (auto simp: in_set_conv_nth)
    then have "(vs @ us) ! j = t" "j < i" using las by (auto simp: ab nth_append)
    then show False using i(4) n(2) by auto
  qed
  moreover have "t \<in> set (vs @ us)" using t xs by auto
  ultimately have tb: "t \<in> set bs" using n(3) unfolding ab by auto
  have "wait_of n t xs = length (takeWhile (\<lambda>x. x \<noteq> t) bs)"
    using rotation_again [OF d [unfolded xs] ab] tb by (simp add: wait_of_def xs)
  moreover have "wait_of c t xs = length as + 1 + length (takeWhile (\<lambda>x. x \<noteq> t) bs)"
    using \<open>t \<notin> set as\<close> n(3) by (simp add: wait_of_def r ab takeWhile_skip)
  ultimately show ?thesis by simp
qed

lemma wait_bound: "distinct xs \<Longrightarrow> c \<in> set xs \<Longrightarrow> t \<in> set xs \<Longrightarrow> t \<noteq> c \<Longrightarrow> wait_of c t xs < length xs - 1"
proof -
  assume a: "distinct xs" "c \<in> set xs" "t \<in> set xs" "t \<noteq> c"
  then obtain us vs where xs: "xs = us @ c # vs" by (auto simp: in_set_conv_decomp)
  have "t \<in> set (rotation c xs)" "length (rotation c xs) = length xs - 1"
    using a xs by (auto simp: rotation_split)
  moreover from this(1) obtain as bs where ab: "rotation c xs = as @ t # bs" "t \<notin> set as"
    using split_list_first by metis
  then have "takeWhile (\<lambda>x. x \<noteq> t) (rotation c xs) = as" by (simp add: takeWhile_skip)
  ultimately show ?thesis unfolding wait_of_def using ab(1) by (metis add_Suc_right length_Cons length_append less_add_Suc1)
qed

section \<open>Dispatch on the way into the scheduler\<close>

text \<open>
  What delivering signals leaves alone: it puts no task on the CPU, the only signal it can make pending
  is \<open>SIGCHLD\<close>, a task can only get the reaper for a new parent, and the tree stays one.
\<close>

definition delivered :: "kst \<Rightarrow> kst \<Rightarrow> bool" where
  "delivered s s' \<longleftrightarrow> (\<exists>tk hc. s' = s\<lparr>tasks := tk, handler_calls := hc\<rparr>) \<and>
     (\<forall>x. ident (tasks s' x) = ident (tasks s x)) \<and>
     (\<forall>x. state (tasks s' x) = TASK_RUNNING \<longrightarrow> state (tasks s x) = TASK_RUNNING) \<and>
     (\<forall>x n. bit (pending_signals (tasks s' x)) n \<longrightarrow> bit (pending_signals (tasks s x)) n \<or> n = 16) \<and>
     (\<forall>x. parent (tasks s' x) = parent (tasks s x) \<or> parent (tasks s' x) = Some (reaper_of s)) \<and>
     ((\<exists>kids. tree s kids) \<longrightarrow> (\<exists>kids. tree s' kids))"

lemma deliveredI:
  assumes "s' = s\<lparr>tasks := tk, handler_calls := hc\<rparr>" and "\<And>x. ident (tasks s' x) = ident (tasks s x)"
    and "\<And>x. state (tasks s' x) = TASK_RUNNING \<Longrightarrow> state (tasks s x) = TASK_RUNNING"
    and "\<And>x n. bit (pending_signals (tasks s' x)) n \<Longrightarrow> bit (pending_signals (tasks s x)) n \<or> n = 16"
    and "\<And>x. parent (tasks s' x) = parent (tasks s x) \<or> parent (tasks s' x) = Some (reaper_of s)"
    and "\<And>kids. tree s kids \<Longrightarrow> \<exists>kids. tree s' kids"
  shows "delivered s s'"
  using assms unfolding delivered_def by blast

text \<open>A descriptor whose links did not move and that lost signals at most.\<close>

lemma delivered_linksI:
  assumes "s' = s\<lparr>tasks := tk, handler_calls := hc\<rparr>" and "\<And>x. ident (tasks s' x) = ident (tasks s x)"
    and "\<And>x. state (tasks s' x) = TASK_RUNNING \<Longrightarrow> state (tasks s x) = TASK_RUNNING"
    and "\<And>x n. bit (pending_signals (tasks s' x)) n \<Longrightarrow> bit (pending_signals (tasks s x)) n"
    and "\<And>x. same_links (tasks s x) (tasks s' x)"
  shows "delivered s s'"
proof (rule deliveredI [OF assms(1-3)])
  show "parent (tasks s' x) = parent (tasks s x) \<or> parent (tasks s' x) = Some (reaper_of s)" for x
    using assms(5) [of x] by (simp add: same_links_def)
  show "\<exists>kids. tree s' kids" if "tree s kids" for kids using that tree_cong [of s s', OF assms(5)] by blast
qed (use assms(4) in auto)

lemma delivered_refl [simp]: "delivered s s"
  by (rule delivered_linksI [where tk = "tasks s" and hc = "handler_calls s"]) (simp_all add: same_links_def)

lemma deliveredD:
  assumes "delivered s s'"
  shows "task_list_head s' = task_list_head s" "current_task s' = current_task s" "init_proc s' = init_proc s"
    "need_resched s' = need_resched s" "next_task s' = next_task s" "kmm s' = kmm s" "tframes s' = tframes s"
    "lap_anchor s' = lap_anchor s" "task_next (tasks s' x) = task_next (tasks s x)"
    "state (tasks s' x) = TASK_RUNNING \<Longrightarrow> state (tasks s x) = TASK_RUNNING"
    "signal_handlers (tasks s' x) = signal_handlers (tasks s x)"
    "bit (pending_signals (tasks s' x)) n \<Longrightarrow> bit (pending_signals (tasks s x)) n \<or> n = 16"
    "parent (tasks s' x) = parent (tasks s x) \<or> parent (tasks s' x) = Some (reaper_of s)"
    "tree s kids \<Longrightarrow> \<exists>kids. tree s' kids" "reaper_of s' = reaper_of s"
proof -
  obtain tk hc where s': "s' = s\<lparr>tasks := tk, handler_calls := hc\<rparr>" using assms by (auto simp: delivered_def)
  show "task_list_head s' = task_list_head s" "current_task s' = current_task s" "init_proc s' = init_proc s"
    "need_resched s' = need_resched s" "next_task s' = next_task s" "kmm s' = kmm s" "tframes s' = tframes s"
    "lap_anchor s' = lap_anchor s" "reaper_of s' = reaper_of s" unfolding s' by (simp_all add: reaper_of_def)
  show "task_next (tasks s' x) = task_next (tasks s x)" "signal_handlers (tasks s' x) = signal_handlers (tasks s x)"
    using assms ident_fields(5,10) unfolding delivered_def by blast+
  show "state (tasks s' x) = TASK_RUNNING \<Longrightarrow> state (tasks s x) = TASK_RUNNING"
    "bit (pending_signals (tasks s' x)) n \<Longrightarrow> bit (pending_signals (tasks s x)) n \<or> n = 16"
    "parent (tasks s' x) = parent (tasks s x) \<or> parent (tasks s' x) = Some (reaper_of s)"
    "tree s kids \<Longrightarrow> \<exists>kids. tree s' kids"
    using assms unfolding delivered_def by blast+
qed

lemma delivered_trans:
  assumes "delivered s s'" and "delivered s' s''"
  shows "delivered s s''"
proof -
  obtain tk hc where s': "s' = s\<lparr>tasks := tk, handler_calls := hc\<rparr>" using assms(1) by (auto simp: delivered_def)
  obtain tk' hc' where s'': "s'' = s'\<lparr>tasks := tk', handler_calls := hc'\<rparr>" using assms(2) by (auto simp: delivered_def)
  note d1 = deliveredD [OF assms(1)] and d2 = deliveredD [OF assms(2)]
  show ?thesis
  proof (rule deliveredI)
    show "s'' = s\<lparr>tasks := tk', handler_calls := hc'\<rparr>" unfolding s'' s' by simp
    show "ident (tasks s'' x) = ident (tasks s x)" for x using assms by (simp add: delivered_def)
    show "parent (tasks s'' x) = parent (tasks s x) \<or> parent (tasks s'' x) = Some (reaper_of s)" for x
      using d1(13) [of x] d2(13) [of x] d1(15) by auto
  qed (use d1(10,12,14) d2(10,12,14) in blast)+
qed

lemma delivered_upd:
  assumes "ident (f (tasks s t)) = ident (tasks s t)"
    and "state (f (tasks s t)) = TASK_RUNNING \<Longrightarrow> state (tasks s t) = TASK_RUNNING"
    and "\<And>n. bit (pending_signals (f (tasks s t))) n \<Longrightarrow> bit (pending_signals (tasks s t)) n"
    and "same_links (tasks s t) (f (tasks s t))"
  shows "delivered s (upd t f s)"
  by (rule delivered_linksI [where tk = "(tasks s)(t := f (tasks s t))" and hc = "handler_calls s"])
    (use assms in \<open>simp_all add: upd_def same_links_def split: if_splits\<close>)

lemma delivered_clear: "delivered s (clear_pending t b s)"
  unfolding clear_pending_def by (rule delivered_upd) (simp_all add: bit_and_iff same_links_def)

lemma delivered_call: "delivered s s' \<Longrightarrow> delivered s (s'\<lparr>handler_calls := h\<rparr>)"
  by (rule delivered_trans [of s s'])
    (auto intro: delivered_linksI [where tk = "tasks s'" and hc = h] simp: same_links_def)

lemma delivered_SIGCHLD: "delivered s (kernel_signal_send t SIGCHLD s)"
proof (rule deliveredI)
  show "kernel_signal_send t SIGCHLD s = s\<lparr>tasks := (tasks s)(t := post_signal SIGCHLD (tasks s t)), handler_calls := handler_calls s\<rparr>"
    by (simp add: kernel_signal_send_def upd_def)
  show "\<exists>kids. tree (kernel_signal_send t SIGCHLD s) kids" if "tree s kids" for kids using that by auto
qed (auto simp: kernel_signal_send_def post_SIGCHLD_pending dest: post_signal_running split: if_splits)

lemma delivered_exit:
  assumes "mortal t s"
  obtains s' where "do_exit t code s = Inr s'" "state (tasks s' t) = TASK_ZOMBIE" "delivered s s'"
proof -
  from assms obtain kids where m: "tree s kids" "t \<noteq> reaper_of s \<or> kids t = []" "parent (tasks s t) \<noteq> Some t"
    by (auto simp: mortal_def in_tree_def stuck_reaper_def childless)
  show thesis
  proof (rule do_exit_spec [OF m, of code])
    fix s' assume s': "do_exit t code s = Inr s'" "state (tasks s' t) = TASK_ZOMBIE" "same_but_tasks s s'"
      "\<And>x. ident (tasks s' x) = ident (tasks s x)"
      "\<And>x. state (tasks s' x) = TASK_RUNNING \<Longrightarrow> state (tasks s x) = TASK_RUNNING"
      "\<And>x n. bit (pending_signals (tasks s' x)) n \<Longrightarrow> bit (pending_signals (tasks s x)) n \<or> n = 16"
      "\<And>x. parent (tasks s' x) = parent (tasks s x) \<or> parent (tasks s' x) = Some (reaper_of s)"
      "tree s' (kids(t := [], reaper_of s := rev (kids t) @ kids (reaper_of s)))"
    have "s\<lparr>tasks := tk, handler_calls := handler_calls s\<rparr> = s\<lparr>tasks := tk\<rparr>" for tk by simp
    then have e: "s' = s\<lparr>tasks := tasks s', handler_calls := handler_calls s\<rparr>"
      using s'(3) unfolding same_but_tasks_def by metis
    let ?kids = "kids(t := [], reaper_of s := rev (kids t) @ kids (reaper_of s))"
    have "tree s' ?kids" by (rule s'(8))
    then have "\<exists>k. tree s' k" by metis
    then have "delivered s s'" by (intro deliveredI [OF e s'(4-7)])
    then show thesis by (rule that [OF s'(1,2)])
  qed
qed

text \<open>
  A task that can take the given signals: its descriptor is whole, and it can exit or none of them makes
  it exit. The second case is the reaper with children whose pending signals are harmless to it.
\<close>

definition can_take :: "tptr \<Rightarrow> int list \<Rightarrow> kst \<Rightarrow> bool" where
  "can_take t sigs s \<longleftrightarrow> length (signal_handlers (tasks s t)) = 32 \<and>
     (mortal t s \<or> (\<forall>sig\<in>set sigs. \<not> fatal sig (tasks s t)))"

lemma default_action_total:
  assumes "mortal t s \<or> \<not> sig_terminates sig"
  shows "\<exists>s'. sig_default_action t sig s = Inr s' \<and> delivered s s' \<and>
    (state (tasks s' t) = TASK_ZOMBIE \<or> state (tasks s' t) = TASK_STOPPED \<or> s' = s)"
proof (cases "sig_terminates sig")
  case True
  then show ?thesis using assms delivered_exit [of t s "128 + sig"] by (metis sig_default_action_def)
next
  case False
  let ?s = "upd t (\<lambda>x. x\<lparr>state := TASK_STOPPED\<rparr>) s"
  have "delivered s ?s" by (rule delivered_upd) (simp_all add: same_links_def)
  then show ?thesis using False by (auto simp: sig_default_action_def)
qed

lemma can_take_clear [simp]: "can_take t sigs (clear_pending u b s) \<longleftrightarrow> can_take t sigs s"
  by (simp add: can_take_def fatal_def) (simp add: clear_pending_def)

lemma can_take_call [simp]: "can_take t sigs (s\<lparr>handler_calls := h\<rparr>) \<longleftrightarrow> can_take t sigs s"
  by (simp add: can_take_def)

lemma deliver_total:
  assumes "can_take t (sig # sigs) s" and "0 < sig" and "sig < 32"
  shows "\<exists>s'. deliver t sig s = Inr s' \<and> delivered s s' \<and>
    (state (tasks s' t) = TASK_ZOMBIE \<or> state (tasks s' t) = TASK_STOPPED \<or> can_take t sigs s')"
proof -
  let ?c = "clear_pending t (SIGMASK sig) s"
  have len: "nat sig < length (signal_handlers (tasks s t))" using assms by (simp add: can_take_def)
  have rest: "can_take t sigs s" using assms(1) by (auto simp: can_take_def)
  have dfl: "\<exists>s'. sig_default_action t sig ?c = Inr s' \<and> delivered s s' \<and>
      (state (tasks s' t) = TASK_ZOMBIE \<or> state (tasks s' t) = TASK_STOPPED \<or> can_take t sigs s')"
    if "sig = SIGKILL \<or> sig = SIGSTOP \<or> signal_handlers (tasks s t) ! nat sig = SIG_DFL"
  proof -
    have "mortal t ?c \<or> \<not> sig_terminates sig"
    proof (cases "mortal t s")
      case False
      then have "\<not> fatal sig (tasks s t)" using assms(1) by (simp add: can_take_def)
      then show ?thesis using that by (auto simp: fatal_def sig_terminates_def)
    qed simp
    from default_action_total [OF this] obtain s' where s': "sig_default_action t sig ?c = Inr s'" "delivered ?c s'"
      "state (tasks s' t) = TASK_ZOMBIE \<or> state (tasks s' t) = TASK_STOPPED \<or> s' = ?c" by blast
    moreover have "can_take t sigs ?c" using rest by simp
    ultimately show ?thesis using delivered_trans [OF delivered_clear s'(2)] by blast
  qed
  have dh: "delivered s (?c\<lparr>handler_calls := h\<rparr>)" for h using delivered_call [OF delivered_clear] .
  show ?thesis
  proof (cases "sig = SIGKILL \<or> sig = SIGSTOP \<or> signal_handlers (tasks s t) ! nat sig = SIG_DFL")
    case True
    moreover from True have "deliver t sig s = sig_default_action t sig ?c" using len by (auto simp: deliver_def Let_def)
    ultimately show ?thesis using dfl by simp
  next
    case False
    then show ?thesis using len rest dh delivered_clear by (auto simp: deliver_def Let_def)
  qed
qed

lemma deliver_all_total:
  assumes "can_take t sigs s" and "\<forall>i\<in>set sigs. 0 < i \<and> i < 32"
  shows "\<exists>s'. deliver_all t sigs s = Inr s' \<and> delivered s s'"
  using assms
proof (induction sigs arbitrary: s)
  case (Cons sig sigs)
  obtain s1 where s1: "deliver t sig s = Inr s1" "delivered s s1"
    "state (tasks s1 t) = TASK_ZOMBIE \<or> state (tasks s1 t) = TASK_STOPPED \<or> can_take t sigs s1"
    using deliver_total [OF Cons.prems(1)] Cons.prems(2) by auto
  have "\<exists>s'. deliver_all t sigs s1 = Inr s' \<and> delivered s1 s'"
  proof (cases "can_take t sigs s1")
    case True
    then show ?thesis using Cons by auto
  next
    case False
    then have "deliver_all t sigs s1 = Inr s1" using s1(3) by (cases sigs) auto
    then show ?thesis by simp
  qed
  then show ?case using s1 delivered_trans by fastforce
qed simp

lemma kernel_signal_dispatch_total:
  assumes "can_take t (sig_list (pending_signals (tasks s t))) s" and "\<not> bit (pending_signals (tasks s t)) 31"
  shows "\<exists>s'. kernel_signal_dispatch t s = Inr s' \<and> delivered s s'"
proof -
  have "0 < i \<and> i < 32" if "i \<in> set (sig_list (pending_signals (tasks s t)))" for i
  proof -
    have "i \<noteq> 32" using that assms(2) by (auto simp: in_sig_list)
    then show ?thesis using that by (auto simp: in_sig_list)
  qed
  then show ?thesis using deliver_all_total [OF assms(1)]
    by (simp add: kernel_signal_dispatch_def dispatch_loop_deliver_all)
qed

lemma mortal_can_take: "mortal t s \<Longrightarrow> can_take t sigs s"
  by (simp add: can_take_def mortal_def in_tree_def)

end
