(* ===== verification/Sched_Inv.thy ===== *)
theory Sched_Inv
  imports Sched_Spec
begin

text \<open>
  The timer path as a whole: \<open>schedule\<close> returns, and the switch of \<open>irq_common_stub\<close> leaves exactly the
  task that \<open>schedule\<close> picked on the CPU, the only one marked \<open>TASK_RUNNING\<close>.
\<close>

section \<open>The scans of the lap triggers\<close>

lemma faulty_scan_chain:
  "chain (\<lambda>t. task_next (tasks s t)) it xs \<Longrightarrow>
     faulty_scan s nxt it best = Some (Inr (foldl (faulty_better s nxt) best xs))"
proof (induction xs arbitrary: it best)
  case Nil
  then show ?case by (subst faulty_scan.simps) simp
next
  case (Cons x xs)
  then show ?case by (subst faulty_scan.simps) simp
qed

lemma faulty_target_other:
  assumes "foldl (faulty_better s nxt) best xs = Some t" and "best \<noteq> Some nxt"
  shows "t \<noteq> nxt"
  using assms
proof (induction xs arbitrary: best)
  case (Cons x xs)
  then show ?case by (auto simp: faulty_better_def Let_def split: if_splits option.splits)
qed simp

definition unblock_one :: "tptr \<Rightarrow> kst \<Rightarrow> kst" where
  "unblock_one t s = (if state (tasks s t) \<noteq> TASK_BLOCKED then s else upd t (\<lambda>x. x\<lparr>state := TASK_RUNNABLE\<rparr>) s)"

text \<open>A change that the signals and the family tree do not see.\<close>

definition quiet :: "kst \<Rightarrow> kst \<Rightarrow> bool" where
  "quiet s s' \<longleftrightarrow> init_proc s' = init_proc s \<and> (\<forall>x. same_links (tasks s x) (tasks s' x) \<and>
     pending_signals (tasks s' x) = pending_signals (tasks s x) \<and>
     signal_handlers (tasks s' x) = signal_handlers (tasks s x))"

lemma quiet_refl [simp]: "quiet s s"
  by (simp add: quiet_def same_links_def)

lemma quiet_trans: "quiet s s' \<Longrightarrow> quiet s' s'' \<Longrightarrow> quiet s s''"
  by (simp add: quiet_def same_links_def)

lemma unblock_one_keeps:
  "task_next (tasks (unblock_one t s) x) = task_next (tasks s x)"
  "state (tasks (unblock_one t s) x) = TASK_RUNNING \<longleftrightarrow> state (tasks s x) = TASK_RUNNING"
  "same_but_tasks s (unblock_one t s)" "quiet s (unblock_one t s)"
  by (auto simp: unblock_one_def quiet_def same_links_def)

lemma unblock_scan_chain:
  assumes "chain (\<lambda>t. task_next (tasks s t)) it xs"
  shows "unblock_scan it s = Some (fold unblock_one xs s)"
  using assms
proof (induction xs arbitrary: it s)
  case Nil
  then show ?case by (subst unblock_scan.simps) simp
next
  case (Cons x xs)
  then have "chain (\<lambda>t. task_next (tasks (unblock_one x s) t)) (task_next (tasks (unblock_one x s) x)) xs"
    by (simp add: unblock_one_keeps)
  moreover have "unblock_scan (Some x) s = unblock_scan (task_next (tasks (unblock_one x s) x)) (unblock_one x s)"
    by (subst unblock_scan.simps) (simp add: unblock_one_def Let_def)
  ultimately show ?case using Cons by simp
qed

lemma fold_unblock_keeps:
  "task_next (tasks (fold unblock_one xs s) x) = task_next (tasks s x)"
  "state (tasks (fold unblock_one xs s) x) = TASK_RUNNING \<longleftrightarrow> state (tasks s x) = TASK_RUNNING"
  "same_but_tasks s (fold unblock_one xs s)"
  by (induction xs arbitrary: s)
    (auto simp: unblock_one_keeps intro: same_but_tasks_trans [OF unblock_one_keeps(3)])

lemma fold_unblock_quiet: "quiet s (fold unblock_one xs s)"
proof (induction xs arbitrary: s)
  case (Cons x xs)
  show ?case using quiet_trans [OF unblock_one_keeps(4) Cons.IH] by simp
qed simp

section \<open>Switching\<close>

text \<open>Everything the scheduler decides on that the lap triggers leave alone.\<close>

definition lap_kept :: "tptr \<Rightarrow> kst \<Rightarrow> kst \<Rightarrow> bool" where
  "lap_kept n s s' \<longleftrightarrow> task_list_head s' = task_list_head s \<and> current_task s' = current_task s \<and>
     need_resched s' = need_resched s \<and> next_task s' = next_task s \<and> quiet s s' \<and>
     (\<forall>x. task_next (tasks s' x) = task_next (tasks s x)) \<and>
     (\<forall>x. state (tasks s' x) = TASK_RUNNING \<longrightarrow> state (tasks s x) = TASK_RUNNING) \<and>
     (state (tasks s n) = TASK_RUNNING \<longrightarrow> state (tasks s' n) = TASK_RUNNING)"

lemma lap_kept_trans: "lap_kept n s s' \<Longrightarrow> lap_kept n s' s'' \<Longrightarrow> lap_kept n s s''"
  unfolding lap_kept_def by (metis quiet_trans)

lemma maybe_block_total:
  assumes "chain (\<lambda>t. task_next (tasks s t)) (task_list_head s) xs"
  shows "\<exists>s'. maybe_block_faulty_target n s = Inr s' \<and> lap_kept n s s'"
proof (cases "blocked_marker s \<or> lap_num s \<noteq> LAP_BLOCK_TRIGGER")
  case True
  then show ?thesis by (simp add: maybe_block_faulty_target_def lap_kept_def)
next
  case False
  let ?r = "foldl (faulty_better s n) None xs"
  have e: "maybe_block_faulty_target n s = (case ?r of None \<Rightarrow> Inr s
      | Some t \<Rightarrow> Inr ((upd t (\<lambda>x. x\<lparr>state := TASK_BLOCKED\<rparr>) s)\<lparr>blocked_marker := True\<rparr>))"
    using False faulty_scan_chain [OF assms] by (simp add: maybe_block_faulty_target_def)
  show ?thesis
  proof (cases ?r)
    case None
    then show ?thesis using e by (simp add: lap_kept_def)
  next
    case (Some t)
    then have "t \<noteq> n" using faulty_target_other by fastforce
    then show ?thesis using Some e by (simp add: lap_kept_def quiet_def same_links_def)
  qed
qed

lemma maybe_unblock_total:
  assumes "chain (\<lambda>t. task_next (tasks s t)) (task_list_head s) xs"
  shows "\<exists>s'. maybe_unblock_faulty_target s = Inr s' \<and> lap_kept n s s'"
proof (cases "unblocked_marker s \<or> lap_num s \<noteq> LAP_UNBLOCK_TRIGGER")
  case True
  then show ?thesis by (simp add: maybe_unblock_faulty_target_def lap_kept_def)
next
  case False
  let ?s = "fold unblock_one xs s"
  have "maybe_unblock_faulty_target s = Inr (?s\<lparr>unblocked_marker := True\<rparr>)"
    using False unblock_scan_chain [OF assms] by (simp add: maybe_unblock_faulty_target_def)
  moreover have "lap_kept n s (?s\<lparr>unblocked_marker := True\<rparr>)"
    using same_but_tasksD [OF fold_unblock_keeps(3) [of s xs]] fold_unblock_quiet [of s xs]
    by (simp add: lap_kept_def fold_unblock_keeps quiet_def)
  ultimately show ?thesis by blast
qed

text \<open>The CPU belongs to one task: nobody else is marked running and no switch is under way.\<close>

definition one_running :: "kst \<Rightarrow> bool" where
  "one_running s \<longleftrightarrow> (\<forall>t. state (tasks s t) = TASK_RUNNING \<longrightarrow> t = current_task s) \<and> need_resched s = 0"

text \<open>A switch to \<open>n\<close> has been decided.\<close>

definition switching :: "tptr \<Rightarrow> kst \<Rightarrow> bool" where
  "switching n s \<longleftrightarrow> next_task s = Some n \<and> need_resched s = 1 \<and> state (tasks s n) = TASK_RUNNING \<and>
     (\<forall>t. state (tasks s t) = TASK_RUNNING \<longrightarrow> t = n)"

lemma runq_cong:
  assumes "runq s xs" and "task_list_head s' = task_list_head s" and "current_task s' \<in> set xs"
    and "\<And>x. task_next (tasks s' x) = task_next (tasks s x)"
  shows "runq s' xs"
  using assms by (simp add: runq_def)

lemma switch_to_total:
  assumes q: "runq s xs" and o: "one_running s" and n: "n \<noteq> current_task s"
  shows "\<exists>s'. switch_to n s = Inr s' \<and> switching n s' \<and> runq s' xs \<and> current_task s' = current_task s \<and> quiet s s'"
proof -
  let ?c = "current_task s"
  define s1 where "s1 = (if state (tasks s ?c) = TASK_RUNNING then upd ?c (\<lambda>x. x\<lparr>state := TASK_RUNNABLE\<rparr>) s else s)"
  define s2 where "s2 = upd n (\<lambda>x. x\<lparr>state := TASK_RUNNING\<rparr>) s1"
  define s3 where "s3 = (if is_userspace (tasks s2 n)
      then tss_set_esp0 (kstack (tasks s2 n) + KSTACK_PAGES * PAGE_SIZE) s2 else s2)"
  define s4 where "s4 = s3\<lparr>next_task := Some n, need_resched := 1\<rparr>"
  have cur: "current_task s4 = ?c" "task_list_head s4 = task_list_head s"
    by (simp_all add: s4_def s3_def s2_def s1_def tss_set_esp0_def)
  have tn: "task_next (tasks s4 x) = task_next (tasks s x)" for x
    by (simp add: s4_def s3_def s2_def s1_def tss_set_esp0_def)
  have "quiet s s1" "quiet s1 s2" by (simp_all add: quiet_def same_links_def s2_def s1_def)
  moreover have "quiet s2 s3" "quiet s3 s4" by (simp_all add: quiet_def same_links_def s4_def s3_def tss_set_esp0_def)
  ultimately have qt: "quiet s s4" using quiet_trans by metis
  have r1: "state (tasks s1 x) \<noteq> TASK_RUNNING" for x
  proof (cases "x = ?c")
    case False
    then have "state (tasks s x) \<noteq> TASK_RUNNING" using o unfolding one_running_def by blast
    then show ?thesis using False by (simp add: s1_def)
  qed (simp add: s1_def)
  have r4: "state (tasks s4 x) = (if x = n then TASK_RUNNING else state (tasks s1 x))" for x
    by (simp add: s4_def s3_def s2_def tss_set_esp0_def)
  have sw: "switching n s4" unfolding switching_def using r4 r1 by (simp add: s4_def)
  have q4: "runq s4 xs" using q by (rule runq_cong) (use q cur tn in \<open>auto simp: runq_def\<close>)
  have e: "switch_to n s = (if lap_anchor s4 = None then Inr (s4\<lparr>lap_anchor := Some n\<rparr>)
      else if lap_anchor s4 = Some n then
        bnd (maybe_block_faulty_target n (s4\<lparr>lap_num := lap_num s4 + 1\<rparr>)) maybe_unblock_faulty_target
      else Inr s4)"
    unfolding switch_to_def Let_def s1_def [symmetric] s2_def [symmetric] s3_def [symmetric] s4_def [symmetric] ..
  consider "lap_anchor s4 = None" | "lap_anchor s4 = Some n" | "lap_anchor s4 \<noteq> None" "lap_anchor s4 \<noteq> Some n" by blast
  then show ?thesis
  proof cases
    case 1
    have "switching n (s4\<lparr>lap_anchor := Some n\<rparr>)" using sw by (simp add: switching_def)
    moreover have "runq (s4\<lparr>lap_anchor := Some n\<rparr>) xs" using q4 by (simp add: runq_def)
    moreover have "current_task (s4\<lparr>lap_anchor := Some n\<rparr>) = ?c" using cur(1) by simp
    moreover have "quiet s (s4\<lparr>lap_anchor := Some n\<rparr>)" using qt by (simp add: quiet_def)
    moreover have "switch_to n s = Inr (s4\<lparr>lap_anchor := Some n\<rparr>)" using e 1 by simp
    ultimately show ?thesis by blast
  next
    case 3
    then show ?thesis using e sw q4 cur(1) qt by (intro exI [of _ s4]) (simp only: if_False simp_thms)
  next
    case 2
    let ?s5 = "s4\<lparr>lap_num := lap_num s4 + 1\<rparr>"
    have ch: "chain (\<lambda>t. task_next (tasks ?s5 t)) (task_list_head ?s5) xs" using q4 by (simp add: runq_def)
    obtain s6 where s6: "maybe_block_faulty_target n ?s5 = Inr s6" "lap_kept n ?s5 s6" using maybe_block_total [OF ch] by blast
    have "chain (\<lambda>t. task_next (tasks s6 t)) (task_list_head s6) xs" using ch s6(2) by (simp add: lap_kept_def)
    then obtain s7 where s7: "maybe_unblock_faulty_target s6 = Inr s7" "lap_kept n s6 s7" using maybe_unblock_total by blast
    have k: "lap_kept n ?s5 s7" using lap_kept_trans [OF s6(2) s7(2)] .
    have "switching n ?s5" using sw by (simp add: switching_def)
    then have "switching n s7" using k unfolding switching_def lap_kept_def by metis
    moreover have "runq s7 xs" using q4 k by (simp add: runq_def lap_kept_def)
    moreover have "current_task s7 = ?c" using k cur by (simp add: lap_kept_def)
    moreover have "quiet s s7"
    proof (rule quiet_trans [OF qt], rule quiet_trans)
      show "quiet s4 ?s5" by (simp add: quiet_def same_links_def)
      show "quiet ?s5 s7" using k unfolding lap_kept_def by (elim conjE)
    qed
    moreover have "switch_to n s = Inr s7" using e 2 s6(1) s7(1) by simp
    ultimately show ?thesis by blast
  qed
qed

text \<open>
  Signals can be dispatched to whatever task is on the CPU: the family tree is in order, nobody but
  possibly the reaper is its own parent, every handler table is whole and no number beyond it is
  pending, and no signal that would make the reaper exit is pending for it.
\<close>

definition signals_ok :: "kst \<Rightarrow> bool" where
  "signals_ok s \<longleftrightarrow> (\<exists>kids. tree s kids) \<and> (\<forall>t. t \<noteq> reaper_of s \<longrightarrow> parent (tasks s t) \<noteq> Some t) \<and>
     (\<forall>t. length (signal_handlers (tasks s t)) = 32 \<and> \<not> bit (pending_signals (tasks s t)) 31) \<and>
     (\<forall>sig. bit (pending_signals (tasks s (reaper_of s))) (nat (sig - 1)) \<longrightarrow> \<not> fatal sig (tasks s (reaper_of s)))"

lemma signals_okD:
  assumes "signals_ok s"
  shows "can_take t (sig_list (pending_signals (tasks s t))) s" and "\<not> bit (pending_signals (tasks s t)) 31"
proof -
  show "\<not> bit (pending_signals (tasks s t)) 31" using assms by (simp add: signals_ok_def)
  show "can_take t (sig_list (pending_signals (tasks s t))) s"
  proof (cases "t = reaper_of s")
    case True
    then show ?thesis using assms by (simp add: can_take_def signals_ok_def in_sig_list)
  next
    case False
    then have "mortal t s" using assms by (auto simp: mortal_def in_tree_def stuck_reaper_def signals_ok_def)
    then show ?thesis by (rule mortal_can_take)
  qed
qed

lemma signals_ok_delivered:
  assumes "signals_ok s" and "delivered s s'"
  shows "signals_ok s'"
proof -
  note d = deliveredD [OF assms(2)]
  have h: "fatal sig (tasks s' x) \<longleftrightarrow> fatal sig (tasks s x)" for sig x using d(11) by (simp add: fatal_def)
  have c: "\<not> fatal sig x" if "nat (sig - 1) = 16" for sig x using that by (auto simp: fatal_def sig_terminates_def)
  have "\<exists>kids. tree s' kids" using assms(1) d(14) by (auto simp: signals_ok_def)
  moreover have "parent (tasks s' t) \<noteq> Some t" if "t \<noteq> reaper_of s" for t
    using assms(1) that d(13) [of t] by (auto simp: signals_ok_def)
  moreover have "length (signal_handlers (tasks s' t)) = 32 \<and> \<not> bit (pending_signals (tasks s' t)) 31" for t
    using assms(1) d(11) [of t] d(12) [of t 31] by (auto simp: signals_ok_def)
  moreover have "\<not> fatal sig (tasks s' (reaper_of s))" if "bit (pending_signals (tasks s' (reaper_of s))) (nat (sig - 1))" for sig
    using assms(1) d(12) [OF that] c unfolding h signals_ok_def by blast
  ultimately show ?thesis unfolding signals_ok_def d(15) by blast
qed

lemma signals_ok_quiet:
  assumes "signals_ok s" and "quiet s s'"
  shows "signals_ok s'"
proof -
  have l: "same_links (tasks s x) (tasks s' x)" "pending_signals (tasks s' x) = pending_signals (tasks s x)"
    "signal_handlers (tasks s' x) = signal_handlers (tasks s x)" for x using assms(2) by (simp_all add: quiet_def)
  have r: "reaper_of s' = reaper_of s" using assms(2) by (simp add: reaper_of_def quiet_def)
  have "parent (tasks s' x) = parent (tasks s x)" for x using l(1) [of x] by (simp add: same_links_def)
  moreover have "(\<exists>kids. tree s' kids) \<longleftrightarrow> (\<exists>kids. tree s kids)" using tree_cong [of s s', OF l(1)] by simp
  ultimately show ?thesis using assms(1) unfolding signals_ok_def fatal_def r l(2,3) by simp
qed

lemma schedule_total:
  assumes q: "runq s xs" and o: "one_running s" and ok: "signals_ok s"
  shows "\<exists>s'. schedule s = Inr s' \<and> runq s' xs \<and> current_task s' = current_task s \<and> signals_ok s' \<and>
    (one_running s' \<or> (\<exists>n. switching n s' \<and> n \<in> set xs))"
proof -
  let ?c = "current_task s"
  obtain s1 where s1: "(if pending_signals (tasks s ?c) \<noteq> 0 then kernel_signal_dispatch ?c s else Inr s) = Inr s1"
    "delivered s s1"
  proof (cases "pending_signals (tasks s ?c) = 0")
    case True
    then show thesis using that [of s] by simp
  next
    case False
    then show thesis using that kernel_signal_dispatch_total [OF signals_okD [OF ok]] by auto
  qed
  note d = deliveredD [OF s1(2)]
  define rn where "rn = (state (tasks s1 ?c) = TASK_RUNNING)"
  define s2 where "s2 = (if rn then upd ?c (\<lambda>x. x\<lparr>time_left := time_left x - 1\<rparr>) s1 else s1)"
  define s3 where "s3 = upd ?c (\<lambda>x. x\<lparr>time_left := quantum x\<rparr>) s2"
  have tn2: "task_next (tasks s2 x) = task_next (tasks s x)" "state (tasks s2 x) = state (tasks s1 x)" for x
    using d(9) [of x] by (auto simp: s2_def)
  have tn3: "task_next (tasks s3 x) = task_next (tasks s x)" "state (tasks s3 x) = state (tasks s1 x)" for x
    using tn2 by (simp_all add: s3_def)
  have c: "current_task s1 = ?c" "current_task s2 = ?c" "current_task s3 = ?c" using d(2) by (simp_all add: s3_def s2_def)
  have h: "task_list_head s2 = task_list_head s" "task_list_head s3 = task_list_head s" "need_resched s2 = 0" "need_resched s3 = 0"
    using d(1,4) o by (simp_all add: s3_def s2_def one_running_def)
  have k1: "signals_ok s1" using signals_ok_delivered [OF ok s1(2)] .
  have "quiet s1 s2" "quiet s2 s3" by (simp_all add: s3_def s2_def quiet_def same_links_def)
  then have k2: "signals_ok s2" and k3: "signals_ok s3" using k1 signals_ok_quiet by blast+
  have cx: "?c \<in> set xs" using q by (simp add: runq_def)
  have q2: "runq s2 xs" by (rule runq_cong [OF q h(1)]) (simp_all add: tn2 c cx)
  have q3: "runq s3 xs" by (rule runq_cong [OF q h(2)]) (simp_all add: tn3 c cx)
  have o2: "one_running s2" and o3: "one_running s3"
    using o d(10) c h tn2 tn3 unfolding one_running_def by metis+
  obtain n where n: "pick_next_task s3 = Inr n" "n \<noteq> ?c \<Longrightarrow> n \<in> set xs"
  proof
    let ?f = "find (\<lambda>t. state (tasks s3 t) = TASK_RUNNABLE) (rotation ?c xs)"
    show "pick_next_task s3 = Inr (case ?f of None \<Rightarrow> ?c | Some u \<Rightarrow> u)"
      by (rule pick_next_task_spec [OF q3, unfolded c(3)])
    have "set (rotation ?c xs) \<subseteq> set xs" by (rule set_rotation)
    then show "(case ?f of None \<Rightarrow> ?c | Some u \<Rightarrow> u) \<in> set xs" if "(case ?f of None \<Rightarrow> ?c | Some u \<Rightarrow> u) \<noteq> ?c"
      using cx by (auto simp: find_Some_iff split: option.splits)
  qed
  have e: "schedule s = (if rn \<and> time_left (tasks s2 ?c) > 0 then Inr s2
      else bnd (pick_next_task s3) (\<lambda>nxt. if nxt = ?c then Inr s3 else switch_to nxt s3))"
    unfolding schedule_def s1(1) bnd_simps Let_def c(1) rn_def [symmetric] s2_def [symmetric] s3_def [symmetric] ..
  show ?thesis
  proof (cases "rn \<and> time_left (tasks s2 ?c) > 0")
    case True
    then show ?thesis using e q2 o2 c k2 by auto
  next
    case False
    show ?thesis
    proof (cases "n = ?c")
      case True
      then show ?thesis using e False n(1) q3 o3 c k3 by auto
    next
      case ne: False
      then obtain s4 where "switch_to n s3 = Inr s4" "switching n s4" "runq s4 xs" "current_task s4 = ?c" "quiet s3 s4"
        using switch_to_total [OF q3 o3, of n] c by auto
      then show ?thesis using e False ne n signals_ok_quiet [OF k3] by auto
    qed
  qed
qed

lemma tick_and_switch:
  assumes "runq s xs" and "one_running s" and "signals_ok s"
  shows "\<exists>fp' s'. bnd (timer_tick s) (context_switch fp) = Inr (fp', s') \<and> one_running s' \<and> runq s' xs \<and>
    (current_task s' = current_task s \<or> state (tasks s' (current_task s')) = TASK_RUNNING) \<and> signals_ok s'"
proof -
  obtain s1 where s1: "schedule s = Inr s1" "runq s1 xs" "current_task s1 = current_task s" "signals_ok s1"
    "one_running s1 \<or> (\<exists>n. switching n s1 \<and> n \<in> set xs)" using schedule_total [OF assms] by blast
  show ?thesis
  proof (cases "one_running s1")
    case True
    then have "context_switch fp s1 = Inr (fp, s1)" by (simp add: context_switch_def one_running_def)
    then show ?thesis using s1 True by (simp add: timer_tick_def)
  next
    case False
    then obtain n where n: "switching n s1" "n \<in> set xs" using s1(5) by blast
    have nn: "next_task s1 = Some n" "need_resched s1 \<noteq> 0" using n(1) by (auto simp: switching_def)
    obtain fp' s2 where s2: "context_switch fp s1 = Inr (fp', s2)" "current_task s2 = n" "need_resched s2 = 0"
      "task_list_head s2 = task_list_head s1" "\<And>x. task_next (tasks s2 x) = task_next (tasks s1 x)"
      "\<And>x. state (tasks s2 x) = state (tasks s1 x)" "quiet s1 s2"
    proof -
      define t1 where "t1 = (upd (current_task s1) (\<lambda>x. x\<lparr>thread := (thread x)\<lparr>thr_esp := fp\<rparr>\<rparr>) s1)\<lparr>current_task := n\<rparr>"
      define t2 where "t2 = (if pgdir (task_mm (tasks t1 n)) \<noteq> cr3 (kmm t1)
        then t1\<lparr>kmm := load_page_directory (pgdir (task_mm (tasks t1 n))) (kmm t1)\<rparr> else t1)"
      have "context_switch fp s1 = Inr (thr_esp (thread (tasks t1 n)), t2\<lparr>need_resched := 0\<rparr>)"
        using nn by (simp add: context_switch_def Let_def t2_def t1_def)
      then show thesis by (rule that) (simp_all add: t2_def t1_def quiet_def same_links_def)
    qed
    have "one_running s2" using n(1) s2 unfolding one_running_def switching_def by metis
    moreover have "runq s2 xs" using runq_cong [OF s1(2) s2(4)] s2(2,5) n(2) by simp
    moreover have "state (tasks s2 n) = TASK_RUNNING" using n(1) s2(6) by (simp add: switching_def)
    moreover have "signals_ok s2" using signals_ok_quiet [OF s1(4) s2(7)] .
    ultimately show ?thesis using s1(1) s2(1,2) by (simp add: timer_tick_def)
  qed
qed

text \<open>Signal delivery on the way back to ring 3 takes one signal off the current task.\<close>

lemma deliver_keeps_tick:
  assumes "signal_check_and_deliver fp s = Inr s'" and "one_running s" and "runq s xs" and "signals_ok s"
  shows "one_running s' \<and> runq s' xs \<and> signals_ok s'"
proof -
  have "s' = s \<or> (\<exists>b f m. s' = (clear_pending (current_task s) b s)\<lparr>tframes := f, kmm := m\<rparr>)"
    using assms(1) unfolding signal_check_and_deliver_def Let_def
    by (auto split: if_splits option.splits prod.splits) blast
  then show ?thesis
  proof
    assume "\<exists>b f m. s' = (clear_pending (current_task s) b s)\<lparr>tframes := f, kmm := m\<rparr>"
    then obtain b f m where s': "s' = (clear_pending (current_task s) b s)\<lparr>tframes := f, kmm := m\<rparr>" by blast
    have "signals_ok (clear_pending (current_task s) b s)" using assms(4) delivered_clear by (rule signals_ok_delivered)
    then have "signals_ok s'" unfolding s' by (rule signals_ok_quiet) (simp add: quiet_def same_links_def)
    moreover have "state (tasks s' x) = state (tasks s x)" "current_task s' = current_task s" "need_resched s' = need_resched s" for x
      by (simp_all add: s' clear_pending_def)
    then have "one_running s'" using assms(2) unfolding one_running_def by metis
    moreover have "runq s' xs"
      by (rule runq_cong [OF assms(3)]) (use assms(3) in \<open>simp_all add: s' runq_def clear_pending_def\<close>)
    ultimately show ?thesis by blast
  qed (use assms in simp)
qed

section \<open>Properties\<close>

text \<open>A queue of two tasks for the witnesses: a fresh task in front of \<open>init_task\<close>.\<close>

definition demo_queue :: kst where
  "demo_queue = link_task Init_task (Dyn 0x100) demo_kst"

lemma demo_queue_state:
  "state (tasks demo_queue x) = (case x of Init_task \<Rightarrow> TASK_RUNNING | Kthreadd_task \<Rightarrow> TASK_BLOCKED | Dyn a \<Rightarrow> TASK_RUNNABLE)"
  by (cases x) (simp_all add: demo_queue_def link_task_def task_add_child_def Let_def demo_task zero_task_def
    init_task_def kthreadd_task_def)

lemma demo_queue:
  "runq demo_queue [Dyn 0x100, Init_task]" "one_running demo_queue" "current_task demo_queue = Init_task"
  "pending_signals (tasks demo_queue Init_task) = 0"
proof -
  show c: "current_task demo_queue = Init_task"
    by (simp add: demo_queue_def link_task_def task_add_child_def Let_def)
  show "runq demo_queue [Dyn 0x100, Init_task]"
    by (simp add: runq_def demo_queue_def link_task_def task_add_child_def Let_def demo_task init_task_def zero_task_def)
  show "one_running demo_queue" unfolding one_running_def c demo_queue_state
    by (auto simp: demo_queue_def link_task_def task_add_child_def Let_def split: tptr.splits)
  show "pending_signals (tasks demo_queue Init_task) = 0"
    by (simp add: demo_queue_def link_task_def task_add_child_def Let_def demo_task init_task_def zero_task_def)
qed

lemma demo_queue_tree: "tree demo_queue ((\<lambda>_. [])(Init_task := [Dyn 0x100, Kthreadd_task]))"
proof -
  have "tree (task_add_child Init_task (Dyn 0x100) demo_kst) ((\<lambda>_. [])(Init_task := [Dyn 0x100, Kthreadd_task]))"
    using task_add_child_spec [of demo_kst "(\<lambda>_. [])(Init_task := [Kthreadd_task])" "Dyn 0x100" Init_task]
      task_init_tree by (simp add: demo_kst_def task_init_parent)
  then show ?thesis by (rule tree_cong [THEN iffD1, rotated]) (simp add: demo_queue_def link_task_def Let_def same_links_def)
qed

lemma demo_queue_signals: "signals_ok demo_queue"
proof -
  have x: "signal_handlers (tasks demo_queue x) = replicate 32 0 \<and> pending_signals (tasks demo_queue x) = 0 \<and>
      (parent (tasks demo_queue x) = None \<or> parent (tasks demo_queue x) = Some Init_task)" for x
    by (cases x) (simp_all add: demo_queue_def link_task_def task_add_child_def Let_def demo_task zero_task_def
      init_task_def kthreadd_task_def)
  have "reaper_of demo_queue = Init_task"
    by (simp add: reaper_of_def demo_queue_def link_task_def task_add_child_def Let_def)
  moreover have "parent (tasks demo_queue t) \<noteq> Some t" if "t \<noteq> Init_task" for t using x [of t] that by auto
  moreover have "\<exists>kids. tree demo_queue kids" using demo_queue_tree by blast
  ultimately show ?thesis unfolding signals_ok_def using x by simp
qed

text \<open>
  C14. The walk of \<open>pick_next_task\<close> over the list of tasks always ends, and returns the first runnable
  task in cyclic order after the current one, or the current one when there is none.
\<close>

theorem pick_next_task_is_round_robin:
  assumes "runq s xs"
  shows "pick_next_task s =
    Inr (case find (\<lambda>t. state (tasks s t) = TASK_RUNNABLE) (rotation (current_task s) xs) of
           None \<Rightarrow> current_task s | Some u \<Rightarrow> u)"
  by (rule pick_next_task_spec [OF assms])

theorem pick_next_task_is_round_robin_witness:
  "pick_next_task demo_queue = Inr (Dyn 0x100)"
  using pick_next_task_is_round_robin [OF demo_queue(1)] demo_queue(3) by (simp add: rotation_def demo_queue_state)

text \<open>
  C31. No starvation: a runnable task that waits is either the one picked, or the pick leaves strictly
  fewer tasks to be considered before it than there were, a number that is below the length of the
  queue; so it is picked after fewer switches than there are tasks.
\<close>

theorem pick_next_task_progress:
  assumes "runq s xs" and "t \<in> set xs" and "t \<noteq> current_task s" and "state (tasks s t) = TASK_RUNNABLE"
  shows "\<exists>n. pick_next_task s = Inr n \<and> n \<in> set xs \<and> n \<noteq> current_task s \<and>
    (n = t \<or> wait_of n t xs < wait_of (current_task s) t xs) \<and> wait_of (current_task s) t xs < length xs - 1"
proof -
  let ?c = "current_task s" and ?P = "\<lambda>t. state (tasks s t) = TASK_RUNNABLE"
  obtain us vs where xs: "xs = us @ ?c # vs" "distinct xs" "rotation ?c xs = vs @ us" using runqE [OF assms(1)] .
  have t: "t \<in> set (rotation ?c xs)" unfolding xs(3) using assms(2,3) xs(1) by (metis Un_iff set_append set_ConsD)
  have "find ?P (rotation ?c xs) \<noteq> None" unfolding find_None_iff using assms(4) t by blast
  then obtain n where n: "find ?P (rotation ?c xs) = Some n" by blast
  then have "n \<in> set (vs @ us)" unfolding xs(3) [symmetric] by (auto simp: find_Some_iff)
  moreover have "?c \<notin> set (vs @ us)" "set (vs @ us) \<subseteq> set xs" using xs(2) unfolding xs(1) by auto
  ultimately have nx: "n \<in> set xs" "n \<noteq> ?c" by auto
  have c: "?c \<in> set xs" using assms(1) by (simp add: runq_def)
  have "n = t \<or> wait_of n t xs < wait_of ?c t xs"
    using wait_decreases [OF xs(2) c assms(2,3) n assms(4)] by blast
  moreover have "pick_next_task s = Inr n" using pick_next_task_spec [OF assms(1)] n by simp
  ultimately show ?thesis using nx wait_bound [OF xs(2) c assms(2,3)] by blast
qed

theorem pick_next_task_progress_witness:
  "\<exists>n. pick_next_task demo_queue = Inr n \<and> n \<noteq> Init_task"
  using pick_next_task_progress [OF demo_queue(1), of "Dyn 0x100"] demo_queue(3) demo_queue_state by auto

text \<open>
  C2. A timer interrupt keeps the CPU owned by one task, and what it needs for that. The invariant has
  three parts: the current task is in the queue (\<open>runq\<close>), only the current task is marked
  \<open>TASK_RUNNING\<close> and no switch is under way (\<open>one_running\<close>), and the pending signals can be dispatched
  to whoever is on the CPU (\<open>signals_ok\<close>): the family tree is in order, nobody but possibly the reaper
  is its own parent, the handler tables have 32 entries and no signal beyond them is pending, and no
  signal is pending for the reaper whose default action would make it exit. The reaper may have any
  other signal pending, \<open>SIGCHLD\<close> in particular; the last condition is there because the exit of a
  reaper with children does not return (\<open>do_exit_of_reaper_diverges\<close>). When the invariant holds, the
  scheduler returns, after the context switch of the interrupt stub all of it holds again with a task of
  the same queue on the CPU, and it still holds after the signal delivery on the way back, if that
  returns (writing the signal frame can fault).
\<close>

theorem timer_irq_keeps_one_running:
  assumes "runq s xs" and "one_running s" and "signals_ok s"
  shows "\<exists>fp' s'. bnd (timer_tick s) (context_switch fp) = Inr (fp', s') \<and> one_running s' \<and> runq s' xs \<and>
    (current_task s' = current_task s \<or> state (tasks s' (current_task s')) = TASK_RUNNING) \<and> signals_ok s' \<and>
    (\<forall>s''. timer_irq fp s = Inr (fp', s'') \<longrightarrow> one_running s'' \<and> runq s'' xs \<and> signals_ok s'')"
proof -
  have "\<exists>fp' s'. bnd (timer_tick s) (context_switch fp) = Inr (fp', s') \<and> one_running s' \<and> runq s' xs \<and>
    (current_task s' = current_task s \<or> state (tasks s' (current_task s')) = TASK_RUNNING) \<and> signals_ok s'"
    by (rule tick_and_switch [OF assms])
  then obtain fp' s' where s': "bnd (timer_tick s) (context_switch fp) = Inr (fp', s')" "one_running s'" "runq s' xs"
    "current_task s' = current_task s \<or> state (tasks s' (current_task s')) = TASK_RUNNING" "signals_ok s'" by blast
  have "one_running s'' \<and> runq s'' xs \<and> signals_ok s''" if "timer_irq fp s = Inr (fp', s'')" for s''
    using that s'(1) deliver_keeps_tick [OF _ s'(2,3,5)] by (auto simp: timer_irq_def irq_return_def)
  then show ?thesis using s' by blast
qed

text \<open>The reaper with a child on the CPU, and \<open>SIGCHLD\<close> pending for it.\<close>

theorem timer_irq_keeps_one_running_witness:
  "\<exists>fp' s'. bnd (timer_tick (kernel_signal_send Init_task SIGCHLD demo_queue)) (context_switch 0) = Inr (fp', s') \<and>
     one_running s' \<and> signals_ok s'"
proof -
  let ?s = "kernel_signal_send Init_task SIGCHLD demo_queue"
  have d: "delivered demo_queue ?s" by (rule delivered_SIGCHLD)
  have "one_running ?s" using demo_queue(2) deliveredD(2,4,10) [OF d] unfolding one_running_def by metis
  moreover have "runq ?s [Dyn 0x100, Init_task]"
    using demo_queue(1,3) deliveredD(1,2,9) [OF d] by (intro runq_cong [OF demo_queue(1)]) (simp_all add: runq_def)
  moreover have "signals_ok ?s" by (rule signals_ok_delivered [OF demo_queue_signals d])
  ultimately show ?thesis using timer_irq_keeps_one_running [of ?s "[Dyn 0x100, Init_task]" 0] by blast
qed

end
