(* ===== verification/Klib_String.thy ===== *)
theory Klib_String
  imports Prelude
begin

text \<open>
  The string routines of \<open>src/src/klib/string.c\<close> over a byte-addressed memory. \<open>cstr_at m p xs\<close> says
  that the bytes \<open>xs\<close> followed by the terminator are stored at \<open>p\<close>; for such strings the loops end and
  compute what their list counterparts compute, which is how the other components use them.
\<close>

type_synonym bytes = "u32 \<Rightarrow> u8"

partial_function (option) strlen_loop :: "bytes \<Rightarrow> u32 \<Rightarrow> u32 \<Rightarrow> u32 option" where
  "strlen_loop m str n = (if m (str + n) \<noteq> 0 then strlen_loop m str (n + 1) else Some n)"

definition strlen :: "bytes \<Rightarrow> u32 \<Rightarrow> u32 option" where
  "strlen m str = strlen_loop m str 0"

partial_function (option) strcmp :: "bytes \<Rightarrow> u32 \<Rightarrow> u32 \<Rightarrow> int option" where
  "strcmp m s1 s2 =
     (if m s1 \<noteq> 0 \<and> m s1 = m s2 then strcmp m (s1 + 1) (s2 + 1)
      else Some (uint (m s1) - uint (m s2)))"

primrec memset_loop :: "nat \<Rightarrow> u8 \<Rightarrow> u32 \<Rightarrow> bytes \<Rightarrow> bytes" where
  "memset_loop 0 c p m = m"
| "memset_loop (Suc n) c p m = memset_loop n c (p + 1) (m(p := c))"

definition memset :: "u32 \<Rightarrow> u32 \<Rightarrow> u32 \<Rightarrow> bytes \<Rightarrow> u32 \<times> bytes" where
  "memset s c n m = (s, memset_loop (unat n) (ucast c) s m)"

section \<open>Strings in memory\<close>

fun cstr_at :: "bytes \<Rightarrow> u32 \<Rightarrow> u8 list \<Rightarrow> bool" where
  "cstr_at m p [] \<longleftrightarrow> m p = 0"
| "cstr_at m p (x # xs) \<longleftrightarrow> x \<noteq> 0 \<and> m p = x \<and> cstr_at m (p + 1) xs"

text \<open>The order of strings that \<open>strcmp\<close> reports: by the first byte that differs, the terminator least.\<close>

fun cstr_diff :: "u8 list \<Rightarrow> u8 list \<Rightarrow> int" where
  "cstr_diff [] [] = 0"
| "cstr_diff [] (y # ys) = - uint y"
| "cstr_diff (x # xs) [] = uint x"
| "cstr_diff (x # xs) (y # ys) = (if x = y then cstr_diff xs ys else uint x - uint y)"

lemma strlen_loop_cstr:
  "cstr_at m (str + n) xs \<Longrightarrow> strlen_loop m str n = Some (n + of_nat (length xs))"
proof (induction xs arbitrary: n)
  case Nil
  then show ?case by (subst strlen_loop.simps) simp
next
  case (Cons x xs)
  then have "strlen_loop m str (n + 1) = Some (n + 1 + of_nat (length xs))"
    by (intro Cons.IH) (simp add: add.assoc)
  then show ?case using Cons.prems by (subst strlen_loop.simps) (simp add: algebra_simps)
qed

lemma strcmp_cstr: "cstr_at m p xs \<Longrightarrow> cstr_at m q ys \<Longrightarrow> strcmp m p q = Some (cstr_diff xs ys)"
proof (induction xs ys arbitrary: p q rule: cstr_diff.induct)
  case (4 x xs y ys)
  then show ?case by (subst strcmp.simps) auto
qed (subst strcmp.simps, simp)+

lemma uint_zero: "uint (x :: u8) = 0 \<longleftrightarrow> x = 0"
  by (simp add: unsigned_eq_0_iff)

lemma uint_inject: "uint (x :: u8) = uint y \<longleftrightarrow> x = y"
  by (simp add: word_uint_eq_iff)

lemma cstr_diff_zero: "0 \<notin> set xs \<Longrightarrow> 0 \<notin> set ys \<Longrightarrow> cstr_diff xs ys = 0 \<longleftrightarrow> xs = ys"
  by (induction xs ys rule: cstr_diff.induct) (auto simp: uint_zero dest: uint_inject [THEN iffD1])

lemma cstr_no_zero: "cstr_at m p xs \<Longrightarrow> 0 \<notin> set xs"
  by (induction xs arbitrary: p) auto

lemma memset_loop_frame:
  "unat p + n \<le> 4294967296 \<Longrightarrow>
   memset_loop n c p m q = (if unat p \<le> unat q \<and> unat q < unat p + n then c else m q)"
proof (induction n arbitrary: p m)
  case (Suc n)
  show ?case
  proof (cases "n = 0")
    case True
    then show ?thesis by (auto simp: word_unat_eq_iff)
  next
    case False
    then have "unat p + 1 < 4294967296" using Suc.prems by simp
    then have p1: "unat (p + 1) = unat p + 1" by (simp add: unat_word_ariths)
    note e = Suc.IH [of "p + 1" "m(p := c)", unfolded p1]
    have "q = p \<longleftrightarrow> unat q = unat p" by (simp add: word_unat_eq_iff)
    then show ?thesis using Suc.prems unfolding memset_loop.simps by (subst e) auto
  qed
qed auto

section \<open>Properties\<close>

text \<open>
  On strings in memory \<open>strlen\<close> and \<open>strcmp\<close> return: \<open>strlen\<close> the number of bytes before the
  terminator, \<open>strcmp\<close> a number that is zero exactly when the strings are equal and otherwise the
  difference of the first bytes that differ, taken unsigned. \<open>memset\<close> of a range that does not wrap
  stores the low byte of its argument in exactly that range.
\<close>

theorem string_routines_correct:
  assumes "cstr_at m p xs" and "cstr_at m q ys"
  shows "strlen m p = Some (of_nat (length xs)) \<and>
    (\<exists>d. strcmp m p q = Some d \<and> d = cstr_diff xs ys \<and> (d = 0 \<longleftrightarrow> xs = ys)) \<and>
    (unat p + unat n \<le> 4294967296 \<longrightarrow>
      memset p c n m = (p, \<lambda>r. if unat p \<le> unat r \<and> unat r < unat p + unat n then ucast c else m r))"
  using strlen_loop_cstr [of m p 0 xs] strcmp_cstr [OF assms] assms
    cstr_diff_zero [OF cstr_no_zero cstr_no_zero] memset_loop_frame [of p "unat n"]
  by (auto simp: strlen_def memset_def fun_eq_iff)

definition two_strings :: bytes where
  "two_strings = (\<lambda>_. 0)(0x100 := 104, 0x101 := 105, 0x200 := 104, 0x201 := 111)"

theorem string_routines_correct_witness:
  "strlen two_strings 0x100 = Some 2 \<and> strcmp two_strings 0x100 0x200 = Some (- 6)"
  using string_routines_correct [of two_strings "0x100" "[104, 105]" "0x200" "[104, 111]" 0 0]
  by (simp add: two_strings_def)

end
