(* ===== verification/Kmalloc_Spec.thy ===== *)
theory Kmalloc_Spec
  imports Kmalloc
begin

text \<open>
  The chunk pool of \<open>kmalloc.c\<close> implements a set of live chunks: the representation invariant ties the
  free lists, the page headers and the counters together, and both operations are shown to keep it
  and to change the set by exactly one chunk, whatever path they take (a free chunk, a fresh page, a
  page handed back).
\<close>

section \<open>Chunks of a page\<close>

definition chunk_at :: "u32 \<Rightarrow> u32 \<Rightarrow> nat \<Rightarrow> u32" where
  "chunk_at b osz k = b + 8 + of_nat (k * unat osz)"

definition chunk_count :: "u32 \<Rightarrow> nat" where
  "chunk_count osz = 4088 div unat osz"

definition chunk_list :: "u32 \<Rightarrow> u32 \<Rightarrow> u32 list" where
  "chunk_list b osz = map (chunk_at b osz) [0..<chunk_count osz]"

lemma cache_size_cases:
  assumes "osz \<in> set cache_sizes"
  obtains "osz = 8" | "osz = 16" | "osz = 32" | "osz = 64" | "osz = 128" | "osz = 256"
  using assms by (auto simp: cache_sizes_def)

lemma chunk_count_bounds:
  assumes "osz \<in> set cache_sizes"
  shows "0 < chunk_count osz" "chunk_count osz < 512" "8 \<le> unat osz" "chunk_count osz * unat osz \<le> 4088"
  using assms by (cases rule: cache_size_cases; simp add: chunk_count_def)+

lemma chunk_end:
  assumes "osz \<in> set cache_sizes" and "k < chunk_count osz"
  shows "k * unat osz + unat osz \<le> 4088"
proof -
  have "Suc k * unat osz \<le> chunk_count osz * unat osz" using assms(2) by (intro mult_le_mono1) simp
  with chunk_count_bounds(4) [OF assms(1)] show ?thesis by simp
qed

lemma aligned_room:
  assumes "(b :: u32) AND 0xFFF = 0" and "n < 4096"
  shows "unat (b + of_nat n) = unat b + n"
proof -
  obtain q where "unat b = 4096 * q" using assms(1) by (auto simp: page_aligned_iff)
  moreover have "q < 1048576" using unat_lt_u32 [of b] calculation by simp
  ultimately have "unat b + n < 4294967296" using assms(2) by linarith
  then show ?thesis using assms(2) by (simp add: unat_word_ariths unat_of_nat_u32)
qed

lemma aligned_next: "(b :: u32) AND 0xFFF = 0 \<Longrightarrow> unat b < 4294963200 \<Longrightarrow> unat (b + 4096) = unat b + 4096"
  by (simp add: unat_word_ariths)

lemma chunk_at_unat:
  assumes "b AND 0xFFF = 0" and "osz \<in> set cache_sizes" and "k < chunk_count osz"
  shows "unat (chunk_at b osz k) = unat b + 8 + k * unat osz"
proof -
  have "chunk_at b osz k = b + of_nat (8 + k * unat osz)" by (simp add: chunk_at_def)
  moreover have "8 + k * unat osz < 4096"
    using chunk_end [OF assms(2,3)] chunk_count_bounds(3) [OF assms(2)] by simp
  ultimately show ?thesis by (simp add: aligned_room [OF assms(1)] del: of_nat_add)
qed

lemma chunk_at_page:
  assumes "b AND 0xFFF = 0" and "osz \<in> set cache_sizes" and "k < chunk_count osz"
  shows "page_base (chunk_at b osz k) = b" and "chunk_at b osz k \<noteq> 0"
proof -
  have u: "unat (chunk_at b osz k) = unat b + (8 + k * unat osz)" and lt: "8 + k * unat osz < 4096"
    using chunk_at_unat [OF assms] chunk_end [OF assms(2,3)] chunk_count_bounds(3) [OF assms(2)] by simp_all
  obtain q where q: "unat b = 4096 * q" using assms(1) by (auto simp: page_aligned_iff)
  have "unat (page_base (chunk_at b osz k)) = unat b"
    unfolding unat_page_base u q using lt by (simp only: div_mult_self4 div_less) simp
  then show "page_base (chunk_at b osz k) = b" by (simp add: word_unat_eq_iff)
  show "chunk_at b osz k \<noteq> 0" using u by (auto simp: word_unat_eq_iff)
qed

lemma chunk_at_inj:
  assumes "b AND 0xFFF = 0" and "osz \<in> set cache_sizes" and "j < chunk_count osz" and "k < chunk_count osz"
    and "chunk_at b osz j = chunk_at b osz k"
  shows "j = k"
proof -
  have "j * unat osz = k * unat osz"
    using chunk_at_unat [OF assms(1-3)] chunk_at_unat [OF assms(1,2,4)] assms(5) by auto
  then show ?thesis using chunk_count_bounds(3) [OF assms(2)] by auto
qed

lemma chunk_list_props:
  assumes "b AND 0xFFF = 0" and "osz \<in> set cache_sizes"
  shows "distinct (chunk_list b osz)" "length (chunk_list b osz) = chunk_count osz"
    "p \<in> set (chunk_list b osz) \<Longrightarrow> page_base p = b \<and> p \<noteq> 0"
  using chunk_at_inj [OF assms] chunk_at_page [OF assms]
  by (auto simp: chunk_list_def distinct_map inj_on_def)

section \<open>Free lists\<close>

primrec flist :: "(u32 \<Rightarrow> u32 option) \<Rightarrow> u32 \<Rightarrow> u32 list \<Rightarrow> bool" where
  "flist l p [] \<longleftrightarrow> p = 0"
| "flist l p (x # xs) \<longleftrightarrow> p = x \<and> x \<noteq> 0 \<and> (\<exists>q. l x = Some q \<and> flist l q xs)"

lemma flist_zero [simp]: "flist l 0 xs \<longleftrightarrow> xs = []"
  by (cases xs) auto

lemma flist_nonzero: "p \<noteq> 0 \<Longrightarrow> flist l p xs \<longleftrightarrow> (\<exists>q ys. xs = p # ys \<and> l p = Some q \<and> flist l q ys)"
  by (cases xs) auto

lemma flist_chain:
  "flist l p xs \<longleftrightarrow> chain (\<lambda>x. if l x = Some 0 then None else l x) (if p = 0 then None else Some p) xs \<and>
     (\<forall>x\<in>set xs. x \<noteq> 0 \<and> l x \<noteq> None)"
  by (induction xs arbitrary: p) auto

lemma flist_unique: "flist l p xs \<Longrightarrow> flist l p ys \<Longrightarrow> xs = ys"
  unfolding flist_chain using chain_unique by fast

lemma flist_distinct: "flist l p xs \<Longrightarrow> distinct xs"
  unfolding flist_chain using chain_distinct by fast

lemma flist_cong: "(\<And>x. x \<in> set xs \<Longrightarrow> l x = l' x) \<Longrightarrow> flist l p xs \<longleftrightarrow> flist l' p xs"
  by (induction xs arbitrary: p) auto

text \<open>The loop of \<open>cpool_refill\<close> threads all chunks of the page, in order.\<close>

lemma thread_chunks:
  assumes "b AND 0xFFF = 0" and "osz \<in> set cache_sizes" and "i \<le> chunk_count osz"
  shows "\<exists>l. snd (fold (thread_chunk osz (of_nat (chunk_count osz))) (map of_nat [i..<chunk_count osz]) (chunk_at b osz i, kp))
        = kp\<lparr>chunk_links := l\<rparr> \<and>
      flist l (if i < chunk_count osz then chunk_at b osz i else 0) (map (chunk_at b osz) [i..<chunk_count osz]) \<and>
      (\<forall>p. p \<notin> chunk_at b osz ` {i..<chunk_count osz} \<longrightarrow> l p = chunk_links kp p)"
  using assms(3)
proof (induction "chunk_count osz - i" arbitrary: i kp)
  case 0
  then have "kp = kp\<lparr>chunk_links := chunk_links kp\<rparr>" by simp
  with 0 show ?case by (intro exI [of _ "chunk_links kp"]) simp
next
  case (Suc n)
  let ?c = "chunk_count osz" and ?a = "chunk_at b osz"
  have i: "i < ?c" using Suc.hyps(2) by simp
  have small: "?c < 512" using chunk_count_bounds(2) [OF assms(2)] .
  have le: "of_nat i + (1 :: u32) < of_nat ?c \<longleftrightarrow> Suc i < ?c"
  proof -
    have "unat (of_nat (Suc i) :: u32) = Suc i" "unat (of_nat ?c :: u32) = ?c"
      by (rule unat_of_nat_u32, use i small in simp)+
    then show ?thesis by (simp add: word_less_nat_alt add.commute)
  qed
  have nxt: "?a i + osz = ?a (Suc i)" by (simp add: chunk_at_def algebra_simps)
  define v where "v = (if Suc i < ?c then ?a (Suc i) else 0)"
  have step: "thread_chunk osz (of_nat ?c) (of_nat i) (?a i, kp) = (?a (Suc i), set_link (?a i) v kp)"
    by (simp add: thread_chunk_def le nxt v_def)
  obtain l where l: "snd (fold (thread_chunk osz (of_nat ?c)) (map of_nat [Suc i..<?c]) (?a (Suc i), set_link (?a i) v kp))
        = (set_link (?a i) v kp)\<lparr>chunk_links := l\<rparr>"
      "flist l v (map ?a [Suc i..<?c])"
      "\<And>p. p \<notin> ?a ` {Suc i..<?c} \<Longrightarrow> l p = chunk_links (set_link (?a i) v kp) p"
    using Suc.hyps(1) [of "Suc i" "set_link (?a i) v kp"] Suc.hyps(2) i unfolding v_def by fastforce
  have "?a i \<notin> ?a ` {Suc i..<?c}" using chunk_at_inj [OF assms(1,2)] i by fastforce
  then have "l (?a i) = Some v" using l(3) by (simp add: set_link_def)
  moreover have "?a i \<noteq> 0" using chunk_at_page(2) [OF assms(1,2) i] .
  ultimately have "flist l (?a i) (map ?a [i..<?c])" using l(2) i by (simp add: upt_conv_Cons)
  moreover have "l p = chunk_links kp p" if "p \<notin> ?a ` {i..<?c}" for p
  proof -
    have "p \<noteq> ?a i" "p \<notin> ?a ` {Suc i..<?c}" using that i by auto
    then show ?thesis using l(3) [of p] by (simp add: set_link_def)
  qed
  moreover have "snd (fold (thread_chunk osz (of_nat ?c)) (map of_nat [i..<?c]) (?a i, kp)) = kp\<lparr>chunk_links := l\<rparr>"
    using l(1) i step by (simp add: upt_conv_Cons set_link_def)
  ultimately show ?case using i by auto
qed

section \<open>The representation invariant\<close>

text \<open>
  \<open>fl i\<close> lists the free chunks of cache \<open>i\<close>. Every live page has a header that gives its class and
  how many of its chunks are on the free list; chunks of one page are all of one class.
\<close>

definition all_chunks :: "kpool \<Rightarrow> u32 set" where
  "all_chunks kp =
     {p. \<exists>h. cpool_hdrs kp (page_base p) = Some h \<and> p \<in> set (chunk_list (page_base p) (hobj_size h))}"

definition chunk_size :: "kpool \<Rightarrow> u32 \<Rightarrow> u32" where
  "chunk_size kp p = hobj_size (the (cpool_hdrs kp (page_base p)))"

definition free_in :: "(nat \<Rightarrow> u32 list) \<Rightarrow> u32 set" where
  "free_in fl = (\<Union>i<6. set (fl i))"

definition free_on :: "(nat \<Rightarrow> u32 list) \<Rightarrow> u32 \<Rightarrow> u32 set" where
  "free_on fl b = {p \<in> free_in fl. page_base p = b}"

definition class_list :: "kpool \<Rightarrow> nat \<Rightarrow> u32 list \<Rightarrow> bool" where
  "class_list kp i xs \<longleftrightarrow> flist (chunk_links kp) (free_list (caches kp ! i)) xs \<and>
     (\<forall>p\<in>set xs. p \<in> all_chunks kp \<and> chunk_size kp p = cache_sizes ! i)"

definition page_ok :: "(nat \<Rightarrow> u32 list) \<Rightarrow> u32 \<Rightarrow> u32 \<Rightarrow> cpool_hdr \<Rightarrow> bool" where
  "page_ok fl vptr b h \<longleftrightarrow> b AND 0xFFF = 0 \<and> KCPOOL_VIRT_BASE \<le> b \<and> b < vptr \<and> hobj_size h \<in> set cache_sizes \<and>
     total_count h = of_nat (chunk_count (hobj_size h)) \<and> free_count h = of_nat (card (free_on fl b))"

definition pool_rep :: "(nat \<Rightarrow> u32 list) \<Rightarrow> kpool \<Rightarrow> bool" where
  "pool_rep fl kp \<longleftrightarrow> map obj_size (caches kp) = cache_sizes \<and>
     (\<forall>i<6. class_list kp i (fl i)) \<and>
     (\<forall>b h. cpool_hdrs kp b = Some h \<longrightarrow> page_ok fl (cpool_vptr kp) b h) \<and>
     cpool_vptr kp AND 0xFFF = 0 \<and> KCPOOL_VIRT_BASE \<le> cpool_vptr kp \<and> cpool_vptr kp \<le> 0xEEFFF000 \<and>
     finite (dom (cpool_hdrs kp)) \<and> cpool_page_count kp = of_nat (card (dom (cpool_hdrs kp))) \<and>
     cpool_used_count kp = of_nat (card (all_chunks kp - free_in fl))"

definition free_chunks :: "kpool \<Rightarrow> u32 set" where
  "free_chunks kp = {p. \<exists>c\<in>set (caches kp). \<exists>xs. flist (chunk_links kp) (free_list c) xs \<and> p \<in> set xs}"

definition live :: "kpool \<Rightarrow> u32 set" where
  "live kp = all_chunks kp - free_chunks kp"

definition zone_pages :: "mm \<Rightarrow> u32 set" where
  "zone_pages s = {b \<in> mapped_pages s. KCPOOL_VIRT_BASE \<le> b \<and> b \<le> KCPOOL_VIRT_MAX}"

definition pool_inv :: "kpool \<Rightarrow> mm \<Rightarrow> bool" where
  "pool_inv kp s \<longleftrightarrow> (\<exists>fl. pool_rep fl kp) \<and> page_inv s \<and> dom (cpool_hdrs kp) = zone_pages s"

lemma pool_repD:
  assumes "pool_rep fl kp"
  shows "map obj_size (caches kp) = cache_sizes" "length (caches kp) = 6"
    "i < 6 \<Longrightarrow> class_list kp i (fl i)"
    "cpool_hdrs kp b = Some h \<Longrightarrow> page_ok fl (cpool_vptr kp) b h"
    "cpool_vptr kp AND 0xFFF = 0" "KCPOOL_VIRT_BASE \<le> cpool_vptr kp" "cpool_vptr kp \<le> 0xEEFFF000"
    "finite (dom (cpool_hdrs kp))" "cpool_page_count kp = of_nat (card (dom (cpool_hdrs kp)))"
    "cpool_used_count kp = of_nat (card (all_chunks kp - free_in fl))"
    "i < 6 \<Longrightarrow> obj_size (caches kp ! i) = cache_sizes ! i"
proof -
  show m: "map obj_size (caches kp) = cache_sizes" using assms by (simp add: pool_rep_def)
  then have "length (map obj_size (caches kp)) = 6" by (simp add: cache_sizes_def)
  then show len: "length (caches kp) = 6" by simp
  show "i < 6 \<Longrightarrow> obj_size (caches kp ! i) = cache_sizes ! i" using m len by (metis nth_map)
qed (use assms in \<open>simp_all add: pool_rep_def\<close>)

lemma class_size_inj: "i < 6 \<Longrightarrow> j < 6 \<Longrightarrow> cache_sizes ! i = cache_sizes ! j \<Longrightarrow> i = j"
  using nth_eq_iff_index_eq [of cache_sizes i j] by (simp add: cache_sizes_def)

lemma length_cache_sizes [simp]: "length cache_sizes = 6"
  by (simp add: cache_sizes_def)

lemma cache_sizes_mono: "i \<le> j \<Longrightarrow> j < 6 \<Longrightarrow> cache_sizes ! i \<le> cache_sizes ! j"
  by (rule sorted_nth_mono) (simp_all add: cache_sizes_def)

lemma unat_of_nat_u16: "n < 65536 \<Longrightarrow> unat (of_nat n :: u16) = n"
  by (simp add: unat_of_nat)

lemma of_nat_eq_u16: "m < 65536 \<Longrightarrow> n < 65536 \<Longrightarrow> (of_nat m :: u16) = of_nat n \<longleftrightarrow> m = n"
  by (metis unat_of_nat_u16)

lemma find_cache_nth:
  assumes "i < length cs" and "P (cs ! i)" and "\<And>j. j < i \<Longrightarrow> \<not> P (cs ! j)"
  shows "find_cache P cs = Some i"
  using assms
proof (induction cs arbitrary: i)
  case (Cons c cs)
  show ?case
  proof (cases i)
    case 0
    with Cons.prems(2) show ?thesis by simp
  next
    case (Suc k)
    have "\<not> P (cs ! j)" if "j < k" for j using Cons.prems(3) [of "Suc j"] that Suc by simp
    moreover have "\<not> P c" using Cons.prems(3) [of 0] Suc by simp
    ultimately show ?thesis using Cons.IH [of k] Cons.prems(1,2) Suc by simp
  qed
qed simp

lemma size_index:
  assumes "osz \<in> set cache_sizes"
  obtains i where "i < 6" "cache_sizes ! i = osz"
proof -
  obtain i where i: "i < length cache_sizes" "cache_sizes ! i = osz" using assms by (auto simp: in_set_conv_nth)
  have "length cache_sizes = 6" by (simp add: cache_sizes_def)
  with i show thesis using that by simp
qed

lemma pool_chunk:
  assumes "pool_rep fl kp" and "p \<in> all_chunks kp"
  obtains h where "cpool_hdrs kp (page_base p) = Some h" "page_ok fl (cpool_vptr kp) (page_base p) h"
    "chunk_size kp p = hobj_size h" "p \<in> set (chunk_list (page_base p) (hobj_size h))"
  using assms pool_repD(4) [OF assms(1)] by (auto simp: all_chunks_def chunk_size_def)

lemma finite_chunks:
  assumes "pool_rep fl kp"
  shows "finite (all_chunks kp)" "free_in fl \<subseteq> all_chunks kp"
proof -
  have "all_chunks kp \<subseteq> (\<Union>b\<in>dom (cpool_hdrs kp). set (chunk_list b (hobj_size (the (cpool_hdrs kp b)))))"
    by (force simp: all_chunks_def)
  then show "finite (all_chunks kp)" by (rule finite_subset) (use pool_repD(8) [OF assms] in auto)
  show "free_in fl \<subseteq> all_chunks kp" using pool_repD(3) [OF assms] by (auto simp: free_in_def class_list_def)
qed

lemma free_chunks_rep:
  assumes "pool_rep fl kp"
  shows "free_chunks kp = free_in fl"
proof -
  have fl: "flist (chunk_links kp) (free_list (caches kp ! i)) xs \<longleftrightarrow> xs = fl i" if "i < 6" for i xs
    using pool_repD(3) [OF assms that] flist_unique unfolding class_list_def by blast
  have "free_chunks kp = (\<Union>c\<in>set (caches kp). {p. \<exists>xs. flist (chunk_links kp) (free_list c) xs \<and> p \<in> set xs})"
    by (auto simp: free_chunks_def)
  also have "set (caches kp) = (!) (caches kp) ` {..<6}"
    using pool_repD(2) [OF assms] by (auto simp: set_conv_nth)
  finally show ?thesis by (simp add: fl free_in_def)
qed

lemma live_rep: "pool_rep fl kp \<Longrightarrow> live kp = all_chunks kp - free_in fl"
  by (simp add: live_def free_chunks_rep)

text \<open>No chunk is on two free lists.\<close>

lemma free_lists_disjoint:
  assumes "pool_rep fl kp" and "i < 6" and "j < 6" and "p \<in> set (fl i)" and "p \<in> set (fl j)"
  shows "i = j"
  using pool_repD(3) [OF assms(1,2)] pool_repD(3) [OF assms(1,3)] assms(2-5)
  by (intro class_size_inj) (auto simp: class_list_def)

lemma free_in_upd:
  assumes "i < 6"
  shows "free_in (fl(i := xs)) = set xs \<union> (\<Union>j\<in>{..<6} - {i}. set (fl j))"
  using assms by (auto simp: free_in_def split: if_splits)

lemma free_in_split: "i < 6 \<Longrightarrow> free_in fl = set (fl i) \<union> (\<Union>j\<in>{..<6} - {i}. set (fl j))"
  using free_in_upd [of i fl "fl i"] by simp

lemma map_update_same: "f x = f (xs ! i) \<Longrightarrow> map f (xs[i := x]) = map f xs"
  by (metis list_update_id map_update)

text \<open>
  The common part of taking and returning a chunk: the list of one cache is replaced, and the header
  counts follow.
\<close>

lemma pool_rep_relist:
  assumes "pool_rep fl kp" and "i < 6"
    and "caches kp' = (caches kp)[i := (caches kp ! i)\<lparr>free_list := q\<rparr>]" and "cpool_vptr kp' = cpool_vptr kp"
    and "flist (chunk_links kp') q ys" and "\<And>x. x \<notin> set ys \<Longrightarrow> chunk_links kp' x = chunk_links kp x"
    and "\<And>p. p \<in> set ys \<Longrightarrow> p \<in> all_chunks kp \<and> chunk_size kp p = cache_sizes ! i"
    and "\<And>b. map_option (\<lambda>h. (hobj_size h, total_count h)) (cpool_hdrs kp' b) =
             map_option (\<lambda>h. (hobj_size h, total_count h)) (cpool_hdrs kp b)"
    and "\<And>b h. cpool_hdrs kp' b = Some h \<Longrightarrow> free_count h = of_nat (card (free_on (fl(i := ys)) b))"
    and "cpool_page_count kp' = cpool_page_count kp"
    and "cpool_used_count kp' = of_nat (card (all_chunks kp - free_in (fl(i := ys))))"
  shows "pool_rep (fl(i := ys)) kp'" and "all_chunks kp' = all_chunks kp" and "dom (cpool_hdrs kp') = dom (cpool_hdrs kp)"
proof -
  have hd: "(\<exists>h'. cpool_hdrs kp b = Some h' \<and> hobj_size h' = hobj_size h \<and> total_count h' = total_count h)"
    if "cpool_hdrs kp' b = Some h" for b h using assms(8) [of b] that by (cases "cpool_hdrs kp b") auto
  have hd': "(\<exists>h'. cpool_hdrs kp' b = Some h' \<and> hobj_size h' = hobj_size h)"
    if "cpool_hdrs kp b = Some h" for b h using assms(8) [of b] that by (cases "cpool_hdrs kp' b") auto
  show ac: "all_chunks kp' = all_chunks kp" using hd hd' by (fastforce simp: all_chunks_def)
  show dm: "dom (cpool_hdrs kp') = dom (cpool_hdrs kp)" using hd hd' by fastforce
  have cs: "chunk_size kp' p = chunk_size kp p" if "p \<in> all_chunks kp" for p
    using that hd' by (fastforce simp: all_chunks_def chunk_size_def)
  note len = pool_repD(2) [OF assms(1)]
  have "class_list kp' j ((fl(i := ys)) j)" if "j < 6" for j
  proof (cases "j = i")
    case True
    then show ?thesis using assms(2,3,5,7) len ac cs by (auto simp: class_list_def)
  next
    case False
    note cl = pool_repD(3) [OF assms(1) that, unfolded class_list_def]
    have "x \<notin> set ys" if "x \<in> set (fl j)" for x
      using cl that assms(7) [of x] False class_size_inj [OF \<open>j < 6\<close> assms(2)] by auto
    with assms(6) have "flist (chunk_links kp') p (fl j) = flist (chunk_links kp) p (fl j)" for p
      by (intro flist_cong) auto
    with cl False ac cs assms(3) show ?thesis by (auto simp: class_list_def)
  qed
  moreover have "page_ok (fl(i := ys)) (cpool_vptr kp') b h" if h: "cpool_hdrs kp' b = Some h" for b h
  proof -
    obtain h' where "cpool_hdrs kp b = Some h'" "hobj_size h' = hobj_size h" "total_count h' = total_count h"
      using hd [OF h] by auto
    then show ?thesis using assms(9) [OF h] pool_repD(4) [OF assms(1), of b h'] assms(4) by (simp add: page_ok_def)
  qed
  moreover have "map obj_size (caches kp') = cache_sizes"
    using pool_repD(1) [OF assms(1)] assms(3) by (simp add: map_update_same)
  ultimately show "pool_rep (fl(i := ys)) kp'"
    unfolding pool_rep_def using pool_repD(5-9) [OF assms(1)] assms(4,10,11) dm ac by simp
qed

section \<open>Taking and returning a chunk\<close>

text \<open>The number of free chunks of a page, when one chunk leaves or joins a free list.\<close>

lemma free_on_remove:
  assumes "free_in fl' = free_in fl - {p}" and "p \<in> free_in fl" and "finite (free_in fl)"
  shows "card (free_on fl b) = card (free_on fl' b) + (if page_base p = b then 1 else 0)"
proof -
  have "free_on fl' b = free_on fl b - {p}" using assms(1) by (auto simp: free_on_def)
  moreover have "finite (free_on fl b)" using assms(3) by (simp add: free_on_def)
  moreover have "p \<in> free_on fl b \<longleftrightarrow> page_base p = b" using assms(2) by (simp add: free_on_def)
  ultimately show ?thesis using card_Suc_Diff1 [of "free_on fl b" p] by (cases "page_base p = b") simp_all
qed

lemma pop_chunk_spec:
  assumes rep: "pool_rep fl kp" and i: "i < 6" and xs: "fl i = p # xs"
  shows "\<exists>kp'. pop_chunk i kp = Inr (p, kp') \<and> pool_rep (fl(i := xs)) kp' \<and> p \<in> free_in fl \<and>
    free_in (fl(i := xs)) = free_in fl - {p} \<and> all_chunks kp' = all_chunks kp \<and>
    chunk_size kp' p = cache_sizes ! i \<and> cpool_hdrs kp' (page_base p) \<noteq> None \<and>
    dom (cpool_hdrs kp') = dom (cpool_hdrs kp)"
proof -
  note cl = pool_repD(3) [OF rep i, unfolded class_list_def xs]
  from cl obtain q where q: "free_list (caches kp ! i) = p" "chunk_links kp p = Some q" "flist (chunk_links kp) q xs" by auto
  have p: "p \<in> all_chunks kp" "chunk_size kp p = cache_sizes ! i" using cl by auto
  obtain h where h: "cpool_hdrs kp (page_base p) = Some h" using pool_chunk [OF rep p(1)] by metis
  have dst: "p \<notin> set xs" using flist_distinct [of "chunk_links kp" p "p # xs"] cl q(1) by auto
  have pf: "p \<in> free_in fl" unfolding free_in_def by (rule UN_I [of i]) (use xs i in simp_all)
  have fin: "finite (free_in fl)" using finite_chunks [OF rep] finite_subset by blast
  have "p \<notin> set (fl j)" if "j \<in> {..<6} - {i}" for j using free_lists_disjoint [OF rep i, of j p] xs that by auto
  then have fr: "free_in (fl(i := xs)) = free_in fl - {p}"
    using dst xs unfolding free_in_upd [OF i] free_in_split [OF i] by auto
  note cnt = free_on_remove [OF fr pf fin]
  define kp' where "kp' = (put_chdr (page_base p) (h\<lparr>free_count := free_count h - 1\<rparr>) (set_free_list i q kp))
      \<lparr>cpool_used_count := cpool_used_count kp + 1\<rparr>"
  have f: "caches kp' = (caches kp)[i := (caches kp ! i)\<lparr>free_list := q\<rparr>]" "chunk_links kp' = chunk_links kp"
    "cpool_hdrs kp' = (cpool_hdrs kp)(page_base p \<mapsto> h\<lparr>free_count := free_count h - 1\<rparr>)"
    "cpool_vptr kp' = cpool_vptr kp" "cpool_page_count kp' = cpool_page_count kp"
    "cpool_used_count kp' = cpool_used_count kp + 1"
    by (simp_all add: kp'_def put_chdr_def set_free_list_def)
  have run: "pop_chunk i kp = Inr (p, kp')"
    using q h by (simp add: pop_chunk_def link_of_def chdr_def kp'_def Let_def set_free_list_def put_chdr_def)
  have used: "all_chunks kp - free_in (fl(i := xs)) = insert p (all_chunks kp - free_in fl)" using fr p(1) by auto
  have uc: "cpool_used_count kp + 1 = of_nat (card (all_chunks kp - free_in (fl(i := xs))))"
    unfolding used using pool_repD(10) [OF rep] finite_chunks(1) [OF rep] pf by simp
  have fc: "free_count h' = of_nat (card (free_on (fl(i := xs)) b))" if h': "cpool_hdrs kp' b = Some h'" for b h'
  proof (cases "b = page_base p")
    case True
    then have "h' = h\<lparr>free_count := free_count h - 1\<rparr>" using h' by (simp add: f)
    with True show ?thesis using pool_repD(4) [OF rep h] cnt [of b] by (simp add: page_ok_def)
  next
    case False
    then show ?thesis using h' pool_repD(4) [OF rep, of b h'] cnt [of b] by (simp add: f page_ok_def)
  qed
  have cs: "chunk_size kp' p = cache_sizes ! i" "cpool_hdrs kp' (page_base p) \<noteq> None"
    using p(2) h by (simp_all add: chunk_size_def f)
  have hm: "map_option g (cpool_hdrs kp' b) = map_option g (cpool_hdrs kp b)"
    if "g = (\<lambda>h. (hobj_size h, total_count h))" for b and g :: "cpool_hdr \<Rightarrow> u32 \<times> u16"
    using h that by (simp add: f)
  have fl: "flist (chunk_links kp') q xs" using q(3) f(2) by simp
  have mem: "x \<in> all_chunks kp \<and> chunk_size kp x = cache_sizes ! i" if "x \<in> set xs" for x using cl that by simp
  have "pool_rep (fl(i := xs)) kp'" "all_chunks kp' = all_chunks kp" "dom (cpool_hdrs kp') = dom (cpool_hdrs kp)"
    by (rule pool_rep_relist [OF rep i f(1,4) fl _ mem hm [OF refl] fc f(5)]; use uc f(2,6) in simp)+
  with run pf fr cs show ?thesis by blast
qed

lemma push_chunk_spec:
  assumes rep: "pool_rep fl kp" and p: "p \<in> all_chunks kp - free_in fl"
  shows "\<exists>i h kp'. push_chunk p kp = Inr (i, h, kp') \<and> i < 6 \<and> pool_rep (fl(i := p # fl i)) kp' \<and>
    free_in (fl(i := p # fl i)) = insert p (free_in fl) \<and> all_chunks kp' = all_chunks kp \<and>
    cpool_hdrs kp' (page_base p) = Some h \<and> dom (cpool_hdrs kp') = dom (cpool_hdrs kp)"
proof -
  obtain h where h: "cpool_hdrs kp (page_base p) = Some h" "page_ok fl (cpool_vptr kp) (page_base p) h"
    "chunk_size kp p = hobj_size h" "p \<in> set (chunk_list (page_base p) (hobj_size h))"
    using pool_chunk [OF rep] p by (metis DiffD1)
  obtain i where i: "i < 6" "cache_sizes ! i = hobj_size h" using size_index h(2) unfolding page_ok_def by metis
  have nz: "p \<noteq> 0" using chunk_list_props(3) [of "page_base p" "hobj_size h" p] h(2,4) by (simp add: page_ok_def)
  let ?ys = "p # fl i" and ?q = "free_list (caches kp ! i)"
  define h' where "h' = h\<lparr>free_count := free_count h + 1\<rparr>"
  define kp' where "kp' = (put_chdr (page_base p) h' (set_free_list i p (set_link p ?q kp)))
      \<lparr>cpool_used_count := cpool_used_count kp - 1\<rparr>"
  have idx: "cache_index_exact (hobj_size h) kp = Inr i"
  proof -
    have "obj_size (caches kp ! j) \<noteq> hobj_size h" if "j < i" for j
      using pool_repD(11) [OF rep, of j] class_size_inj [of j i] that i by auto
    then have "find_cache (\<lambda>c. obj_size c = hobj_size h) (caches kp) = Some i"
      using pool_repD(2) [OF rep] pool_repD(11) [OF rep i(1)] i by (intro find_cache_nth) simp_all
    then show ?thesis by (simp add: cache_index_exact_def)
  qed
  have f: "caches kp' = (caches kp)[i := (caches kp ! i)\<lparr>free_list := p\<rparr>]" "chunk_links kp' = (chunk_links kp)(p \<mapsto> ?q)"
    "cpool_hdrs kp' = (cpool_hdrs kp)(page_base p \<mapsto> h')"
    "cpool_vptr kp' = cpool_vptr kp" "cpool_page_count kp' = cpool_page_count kp"
    "cpool_used_count kp' = cpool_used_count kp - 1"
    by (simp_all add: kp'_def put_chdr_def set_free_list_def set_link_def)
  have run: "push_chunk p kp = Inr (i, h', kp')"
    using h(1) idx pool_repD(2) [OF rep] i(1)
    by (simp add: push_chunk_def chdr_def kp'_def h'_def Let_def set_free_list_def put_chdr_def set_link_def)
  note cl = pool_repD(3) [OF rep i(1), unfolded class_list_def]
  have pf: "p \<notin> set (fl i)" using p i(1) by (auto simp: free_in_def)
  have fr: "free_in (fl(i := ?ys)) = insert p (free_in fl)"
    unfolding free_in_upd [OF i(1)] free_in_split [OF i(1)] by simp
  have fin: "finite (free_in (fl(i := ?ys)))" using finite_chunks [OF rep] finite_subset unfolding fr by blast
  note cnt = free_on_remove [of fl "fl(i := ?ys)" p, OF _ _ fin]
  have "all_chunks kp - free_in fl = insert p (all_chunks kp - free_in (fl(i := ?ys)))" using fr p by auto
  then have uc: "cpool_used_count kp - 1 = of_nat (card (all_chunks kp - free_in (fl(i := ?ys))))"
    using pool_repD(10) [OF rep] finite_chunks(1) [OF rep] fr by simp
  have fc: "free_count h2 = of_nat (card (free_on (fl(i := ?ys)) b))" if h2: "cpool_hdrs kp' b = Some h2" for b h2
  proof (cases "b = page_base p")
    case True
    then have "h2 = h'" using h2 by (simp add: f)
    with True show ?thesis using h(2) cnt [of b] fr p by (simp add: h'_def page_ok_def)
  next
    case False
    then show ?thesis using h2 pool_repD(4) [OF rep, of b h2] cnt [of b] fr p by (simp add: f page_ok_def)
  qed
  have "flist (chunk_links kp') ?q (fl i)"
  proof -
    have "chunk_links kp' x = chunk_links kp x" if "x \<in> set (fl i)" for x using pf that by (auto simp: f)
    then show ?thesis using cl flist_cong [of "fl i" "chunk_links kp'" "chunk_links kp"] by blast
  qed
  then have fl: "flist (chunk_links kp') p ?ys" using nz by (simp add: f)
  have hm: "map_option g (cpool_hdrs kp' b) = map_option g (cpool_hdrs kp b)"
    if "g = (\<lambda>h. (hobj_size h, total_count h))" for b and g :: "cpool_hdr \<Rightarrow> u32 \<times> u16"
    using h(1) that by (simp add: f h'_def)
  have mem: "x \<in> all_chunks kp \<and> chunk_size kp x = cache_sizes ! i" if "x \<in> set ?ys" for x
    using cl h(3) i(2) p that by auto
  have lk: "chunk_links kp' x = chunk_links kp x" if "x \<notin> set ?ys" for x using that by (simp add: f)
  have "pool_rep (fl(i := ?ys)) kp'" "all_chunks kp' = all_chunks kp" "dom (cpool_hdrs kp') = dom (cpool_hdrs kp)"
    by (rule pool_rep_relist [OF rep i(1) f(1,4) fl lk mem hm [OF refl] fc f(5)]; use uc f(6) in simp)+
  moreover have "cpool_hdrs kp' (page_base p) = Some h'" by (simp add: f)
  ultimately show ?thesis using run i(1) fr by blast
qed

section \<open>Adding and removing a page\<close>

lemma refill_rep:
  assumes rep: "pool_rep fl kp" and i: "i < 6" and empty: "fl i = []" and room: "cpool_vptr kp \<le> 0xEEFFE000"
    and osz: "osz = cache_sizes ! i" and b: "b = cpool_vptr kp" and l: "flist l (chunk_at b osz 0) (chunk_list b osz)"
      "\<And>p. p \<notin> set (chunk_list b osz) \<Longrightarrow> l p = chunk_links kp p"
    and kp': "kp' = kp\<lparr>caches := (caches kp)[i := (caches kp ! i)\<lparr>free_list := chunk_at b osz 0\<rparr>], chunk_links := l,
        cpool_hdrs := (cpool_hdrs kp)(b \<mapsto> \<lparr>hobj_size = osz, free_count = of_nat (chunk_count osz), total_count = of_nat (chunk_count osz)\<rparr>),
        cpool_vptr := b + 4096, cpool_page_count := cpool_page_count kp + 1\<rparr>"
  shows "pool_rep (fl(i := chunk_list b osz)) kp' \<and> live kp' = live kp \<and> dom (cpool_hdrs kp') = insert b (dom (cpool_hdrs kp))"
proof -
  let ?h = "\<lparr>hobj_size = osz, free_count = of_nat (chunk_count osz), total_count = of_nat (chunk_count osz)\<rparr>"
  let ?cs = "chunk_list b osz" and ?fl = "fl(i := chunk_list b osz)"
  have f: "caches kp' = (caches kp)[i := (caches kp ! i)\<lparr>free_list := chunk_at b osz 0\<rparr>]" "chunk_links kp' = l"
    "cpool_hdrs kp' = (cpool_hdrs kp)(b \<mapsto> ?h)" "cpool_vptr kp' = b + 4096"
    "cpool_page_count kp' = cpool_page_count kp + 1" "cpool_used_count kp' = cpool_used_count kp" by (simp_all add: kp')
  have os: "osz \<in> set cache_sizes" using i osz length_cache_sizes by simp
  have ba: "b AND 0xFFF = 0" and bz: "KCPOOL_VIRT_BASE \<le> b" using pool_repD(5,6) [OF rep] b by simp_all
  note cs = chunk_list_props [OF ba os]
  have new: "cpool_hdrs kp b = None" using pool_repD(4) [OF rep, of b] b by (cases "cpool_hdrs kp b") (auto simp: page_ok_def)
  have vb: "unat (b + 4096) = unat b + 4096" using aligned_next [OF ba] room b by (simp add: word_le_nat_alt)
  have old: "page_base p \<noteq> b" if "p \<in> all_chunks kp" for p using that new by (auto simp: all_chunks_def)
  have ac: "all_chunks kp' = all_chunks kp \<union> set ?cs"
    using new cs(3) by (auto simp: all_chunks_def f split: if_splits)
  have cz: "chunk_size kp' p = (if page_base p = b then osz else chunk_size kp p)" for p
    by (simp add: chunk_size_def f)
  have fsub: "free_in fl \<subseteq> all_chunks kp" using finite_chunks(2) [OF rep] .
  have fr: "free_in ?fl = free_in fl \<union> set ?cs" using empty unfolding free_in_upd [OF i] free_in_split [OF i] by auto
  have fo: "free_on ?fl x = (if x = b then set ?cs else free_on fl x)" for x
    using fr fsub old cs(3) by (auto simp: free_on_def)
  have cd: "card (set ?cs) = chunk_count osz" using cs(1,2) distinct_card by metis
  have "class_list kp' j (?fl j)" if "j < 6" for j
  proof (cases "j = i")
    case True
    then show ?thesis using l(1) pool_repD(2) [OF rep] i cs(3) ac cz osz by (auto simp: class_list_def f)
  next
    case False
    note cl = pool_repD(3) [OF rep that, unfolded class_list_def]
    have "l x = chunk_links kp x" if "x \<in> set (fl j)" for x using cl that old cs(3) l(2) by blast
    then have "flist l p (fl j) = flist (chunk_links kp) p (fl j)" for p by (rule flist_cong)
    then show ?thesis using cl False ac cz old by (auto simp: class_list_def f)
  qed
  moreover have "page_ok ?fl (cpool_vptr kp') x h" if h: "cpool_hdrs kp' x = Some h" for x h
  proof (cases "x = b")
    case True
    then have "h = ?h" using h by (simp add: f)
    with True show ?thesis using ba bz os vb fo cd by (simp add: page_ok_def f word_less_nat_alt)
  next
    case False
    then have "page_ok fl (cpool_vptr kp) x h" using h pool_repD(4) [OF rep] by (simp add: f)
    then show ?thesis using False fo vb b by (auto simp: page_ok_def f word_less_nat_alt)
  qed
  moreover have "map obj_size (caches kp') = cache_sizes"
    using pool_repD(1) [OF rep] by (simp add: f map_update_same)
  moreover have "all_chunks kp' - free_in ?fl = all_chunks kp - free_in fl"
    using ac fr old cs(3) by blast
  moreover have "dom (cpool_hdrs kp') = insert b (dom (cpool_hdrs kp))" by (simp add: f)
  moreover have "b + 4096 AND 0xFFF = 0" using ba vb by (simp add: page_aligned_iff)
  moreover have "KCPOOL_VIRT_BASE \<le> b + 4096" "b + 4096 \<le> 0xEEFFF000"
    using bz vb room b by (simp_all add: word_le_nat_alt)
  ultimately have rep': "pool_rep ?fl kp'"
    using pool_repD(8-10) [OF rep] new by (simp add: pool_rep_def f card_insert_if domIff)
  moreover have "live kp' = live kp"
    using live_rep [OF rep'] live_rep [OF rep] \<open>all_chunks kp' - free_in ?fl = all_chunks kp - free_in fl\<close> by simp
  ultimately show ?thesis by (simp add: f)
qed

lemma vptr_guard: "cpool_vptr kp \<le> 0xEEFFF000 \<Longrightarrow> cpool_vptr kp AND 0xFFF = 0 \<Longrightarrow>
    cpool_vptr kp + 4096 > KCPOOL_VIRT_MAX \<longleftrightarrow> \<not> cpool_vptr kp \<le> 0xEEFFE000"
  using aligned_next [of "cpool_vptr kp"] by (auto simp: word_less_nat_alt word_le_nat_alt page_aligned_iff)

lemma cpool_refill_spec:
  assumes rep: "pool_rep fl kp" and s: "page_inv s" "dom (cpool_hdrs kp) = zone_pages s" and i: "i < 6" and empty: "fl i = []"
  shows "cpool_refill i kp s = Inl (Kpanic ''kmalloc: chunk pool zone exhausted'') \<and> cpool_vptr kp = 0xEEFFF000 \<or>
    cpool_refill i kp s = Inl (Kpanic ''kmalloc: alloc_page failed in cpool_refill'') \<and> card (free_frames (frame_bitmap s)) < 2 \<or>
    (\<exists>kp' s' fl'. cpool_refill i kp s = Inr (kp', s') \<and> pool_rep fl' kp' \<and> page_inv s' \<and>
       dom (cpool_hdrs kp') = zone_pages s' \<and> fl' i \<noteq> [] \<and> live kp' = live kp \<and>
       mapped_pages s' = insert (cpool_vptr kp) (mapped_pages s) \<and>
       card (free_frames (frame_bitmap s)) \<le> card (free_frames (frame_bitmap s')) + 2)"
proof (cases "cpool_vptr kp \<le> 0xEEFFE000")
  case False
  obtain q where q: "unat (cpool_vptr kp) = 4096 * q" using pool_repD(5) [OF rep] by (auto simp: page_aligned_iff)
  then have "q = 978943" using False pool_repD(7) [OF rep] by (simp add: word_le_nat_alt)
  then have "cpool_vptr kp = 0xEEFFF000" using q by (simp add: word_unat_eq_iff)
  moreover have "cpool_refill i kp s = Inl (Kpanic ''kmalloc: chunk pool zone exhausted'')"
    using vptr_guard [OF pool_repD(7,5) [OF rep]] False by (simp add: cpool_refill_def)
  ultimately show ?thesis by blast
next
  case room: True
  let ?b = "cpool_vptr kp"
  note al = pool_repD(5) [OF rep] and lo = pool_repD(6) [OF rep]
  have kp: "kernel_page ?b" using al lo room by (simp add: kernel_page_def word_le_nat_alt word_less_nat_alt)
  have "?b \<notin> dom (cpool_hdrs kp)" using pool_repD(4) [OF rep, of ?b] by (auto simp: page_ok_def)
  then have fresh: "?b \<notin> mapped_pages s" using s(2) lo room by (auto simp: zone_pages_def word_le_nat_alt)
  define osz where "osz = cache_sizes ! i"
  have os: "osz \<in> set cache_sizes" "obj_size (caches kp ! i) = osz"
    using i pool_repD(11) [OF rep i] by (simp_all add: osz_def)
  have n: "CPOOL_DATA_SIZE div osz = of_nat (chunk_count osz)" "unat (CPOOL_DATA_SIZE div osz) = chunk_count osz"
  proof -
    show u: "unat (CPOOL_DATA_SIZE div osz) = chunk_count osz" by (simp add: chunk_count_def unat_div)
    have "unat (of_nat (chunk_count osz) :: u32) = chunk_count osz"
      using chunk_count_bounds(2) [OF os(1)] by (intro unat_of_nat_u32) simp
    with u show "CPOOL_DATA_SIZE div osz = of_nat (chunk_count osz)" by (simp add: word_unat_eq_iff)
  qed
  have n16: "ucast (of_nat (chunk_count osz) :: u32) = (of_nat (chunk_count osz) :: u16)"
    using chunk_count_bounds(2) [OF os(1)] by (simp add: unsigned_of_nat take_bit_nat_eq_self)
  from s(1) kp fresh show ?thesis
  proof (cases rule: kpages.alloc_cases [of s ?b "PAGE_PRESENT OR PAGE_RW"])
    case fail
    then show ?thesis using vptr_guard [OF pool_repD(7,5) [OF rep]] room by (simp add: cpool_refill_def)
  next
    case (ok s')
    let ?h = "\<lparr>hobj_size = osz, free_count = of_nat (chunk_count osz), total_count = of_nat (chunk_count osz)\<rparr>"
    define kp1 where "kp1 = put_chdr ?b ?h kp"
    obtain l where l: "snd (fold (thread_chunk osz (of_nat (chunk_count osz))) (u32_range 0 (of_nat (chunk_count osz)))
          (?b + 8, kp1)) = kp1\<lparr>chunk_links := l\<rparr>"
        "flist l (chunk_at ?b osz 0) (chunk_list ?b osz)"
        "\<And>p. p \<notin> set (chunk_list ?b osz) \<Longrightarrow> l p = chunk_links kp1 p"
      using thread_chunks [OF al os(1), of 0 kp1] chunk_count_bounds(1,2) [OF os(1)]
      by (auto simp: u32_range_def unat_of_nat_u32 chunk_list_def chunk_at_def [of _ _ 0] atLeast0LessThan)
    define kp' where "kp' = kp\<lparr>caches := (caches kp)[i := (caches kp ! i)\<lparr>free_list := chunk_at ?b osz 0\<rparr>], chunk_links := l,
        cpool_hdrs := (cpool_hdrs kp)(?b \<mapsto> ?h), cpool_vptr := ?b + 4096, cpool_page_count := cpool_page_count kp + 1\<rparr>"
    have "cpool_refill i kp s = Inr (kp', s')"
      using vptr_guard [OF pool_repD(7,5) [OF rep]] room ok(1,2) l(1) n n16 os(2)
      by (simp add: cpool_refill_def Let_def kp'_def kp1_def put_chdr_def set_free_list_def chunk_at_def)
    moreover have "pool_rep (fl(i := chunk_list ?b osz)) kp' \<and> live kp' = live kp \<and> dom (cpool_hdrs kp') = insert ?b (dom (cpool_hdrs kp))"
      by (rule refill_rep [OF rep i empty room osz_def refl l(2) _ kp'_def]) (use l(3) in \<open>simp add: kp1_def put_chdr_def\<close>)
    moreover have "zone_pages s' = insert ?b (zone_pages s)" using ok(4) lo room by (auto simp: zone_pages_def word_le_nat_alt)
    moreover have "chunk_list ?b osz \<noteq> []" using chunk_count_bounds(1) [OF os(1)] by (simp add: chunk_list_def)
    ultimately show ?thesis using ok(3,4,6) s(2) by (intro disjI2) (metis fun_upd_same)
  qed
qed

text \<open>The sweep of \<open>kfree\<close> ends and takes exactly the chunks of the page out of the free list.\<close>

lemma sweep_spec:
  assumes "read_cell i cur kp = Inr p" and "flist (chunk_links kp) p xs" and "i < length (caches kp)"
    and "\<And>q. cur = Chunk q \<Longrightarrow> q \<notin> set xs"
  shows "\<exists>kp' p' v. sweep i base cur kp = Some (Inr kp') \<and> read_cell i cur kp' = Inr p' \<and>
    flist (chunk_links kp') p' (filter (\<lambda>x. page_base x \<noteq> base) xs) \<and>
    (\<forall>x. x \<notin> set xs \<and> cur \<noteq> Chunk x \<longrightarrow> chunk_links kp' x = chunk_links kp x) \<and>
    (cur \<noteq> Head \<longrightarrow> caches kp' = caches kp) \<and>
    kp' = kp\<lparr>caches := (caches kp)[i := (caches kp ! i)\<lparr>free_list := v\<rparr>], chunk_links := chunk_links kp'\<rparr>"
  using assms
proof (induction xs arbitrary: cur kp p)
  case Nil
  have "sweep i base cur kp = Some (Inr kp)" using Nil by (subst sweep.simps) simp
  moreover have "kp = kp\<lparr>caches := (caches kp)[i := (caches kp ! i)\<lparr>free_list := free_list (caches kp ! i)\<rparr>], chunk_links := chunk_links kp\<rparr>"
    using Nil.prems(3) by simp
  ultimately show ?case using Nil by fastforce
next
  case (Cons x xs)
  from Cons.prems(2) obtain q where q: "p = x" "x \<noteq> 0" "chunk_links kp x = Some q" "flist (chunk_links kp) q xs" by auto
  have x: "x \<notin> set xs" using flist_distinct [OF Cons.prems(2)] by simp
  show ?case
  proof (cases "page_base x = base")
    case True
    let ?kp = "write_cell i cur q kp"
    have step: "sweep i base cur kp = sweep i base cur ?kp"
      using Cons.prems(1) q True by (subst sweep.simps) (simp add: link_of_def)
    have links: "chunk_links ?kp y = chunk_links kp y" if "cur \<noteq> Chunk y" for y
      using that by (cases cur) (auto simp: write_cell_def set_link_def set_free_list_def)
    have "flist (chunk_links ?kp) q xs"
      using q(4) flist_cong [of xs "chunk_links ?kp" "chunk_links kp"] links Cons.prems(4) by auto
    moreover have "read_cell i cur ?kp = Inr q"
      using Cons.prems(3) by (cases cur) (auto simp: write_cell_def read_cell_def set_link_def set_free_list_def link_of_def)
    moreover have "length (caches ?kp) = length (caches kp)"
      by (cases cur) (auto simp: write_cell_def set_link_def set_free_list_def)
    ultimately obtain kp' p' v where IH: "sweep i base cur ?kp = Some (Inr kp')" "read_cell i cur kp' = Inr p'"
      "flist (chunk_links kp') p' (filter (\<lambda>x. page_base x \<noteq> base) xs)"
      "\<forall>x. x \<notin> set xs \<and> cur \<noteq> Chunk x \<longrightarrow> chunk_links kp' x = chunk_links ?kp x"
      "cur \<noteq> Head \<longrightarrow> caches kp' = caches ?kp"
      "kp' = ?kp\<lparr>caches := (caches ?kp)[i := (caches ?kp ! i)\<lparr>free_list := v\<rparr>], chunk_links := chunk_links kp'\<rparr>"
      using Cons.IH [of cur ?kp q] Cons.prems(3,4) by auto
    have c: "cur \<noteq> Head \<Longrightarrow> caches ?kp = caches kp"
      "kp' = kp\<lparr>caches := (caches kp)[i := (caches kp ! i)\<lparr>free_list := v\<rparr>], chunk_links := chunk_links kp'\<rparr>"
      using IH(6) Cons.prems(3) by (cases cur; simp add: write_cell_def set_link_def set_free_list_def)+
    show ?thesis unfolding step IH(1) using IH(2-5) c(1) links True
      by (intro exI [of _ kp'] exI [of _ p'] exI [of _ v] conjI c(2)) auto
  next
    case False
    have step: "sweep i base cur kp = sweep i base (Chunk x) kp"
      using Cons.prems(1) q False by (subst sweep.simps) simp
    obtain kp' p' v where IH: "sweep i base (Chunk x) kp = Some (Inr kp')" "read_cell i (Chunk x) kp' = Inr p'"
      "flist (chunk_links kp') p' (filter (\<lambda>x. page_base x \<noteq> base) xs)"
      "\<forall>y. y \<notin> set xs \<and> Chunk x \<noteq> Chunk y \<longrightarrow> chunk_links kp' y = chunk_links kp y"
      "caches kp' = caches kp"
      "kp' = kp\<lparr>caches := (caches kp)[i := (caches kp ! i)\<lparr>free_list := v\<rparr>], chunk_links := chunk_links kp'\<rparr>"
      using Cons.IH [of "Chunk x" kp q] Cons.prems(3) x q by (auto simp: read_cell_def link_of_def)
    have "read_cell i cur kp' = Inr x"
      using Cons.prems(1,4) IH(4,5) q(1) by (cases cur) (auto simp: read_cell_def link_of_def)
    moreover have "chunk_links kp' x = Some p'"
      using IH(2) by (cases "chunk_links kp' x") (auto simp: read_cell_def link_of_def)
    ultimately show ?thesis unfolding step IH(1) using IH(3-5) q(2) False
      by (intro exI [of _ kp'] exI [of _ x] exI [of _ v] conjI IH(6)) auto
  qed
qed

text \<open>A page whose chunks are all free leaves the pool.\<close>

lemma drop_page_rep:
  assumes rep: "pool_rep fl kp" and i: "i < 6" and h: "cpool_hdrs kp b = Some h" "hobj_size h = cache_sizes ! i"
    and full: "set (chunk_list b (hobj_size h)) \<subseteq> free_in fl"
    and kp': "kp' = kp\<lparr>caches := (caches kp)[i := (caches kp ! i)\<lparr>free_list := q\<rparr>], chunk_links := l\<rparr>"
    and l: "flist l q (filter (\<lambda>x. page_base x \<noteq> b) (fl i))" "\<And>x. x \<notin> set (fl i) \<Longrightarrow> l x = chunk_links kp x"
    and kp2: "kp2 = forget_page b (kp'\<lparr>cpool_page_count := cpool_page_count kp' - 1\<rparr>)"
  shows "pool_rep (fl(i := filter (\<lambda>x. page_base x \<noteq> b) (fl i))) kp2 \<and> live kp2 = live kp \<and>
    dom (cpool_hdrs kp2) = dom (cpool_hdrs kp) - {b}"
proof -
  let ?xs = "filter (\<lambda>x. page_base x \<noteq> b) (fl i)"
  let ?fl = "fl(i := ?xs)" and ?cs = "set (chunk_list b (hobj_size h))"
  have f: "caches kp2 = (caches kp)[i := (caches kp ! i)\<lparr>free_list := q\<rparr>]"
    "chunk_links kp2 = (\<lambda>p. if page_base p = b then None else l p)"
    "cpool_hdrs kp2 = (cpool_hdrs kp)(b := None)" "cpool_vptr kp2 = cpool_vptr kp"
    "cpool_page_count kp2 = cpool_page_count kp - 1" "cpool_used_count kp2 = cpool_used_count kp"
    by (simp_all add: kp2 kp' forget_page_def fun_eq_iff)
  have on: "x \<in> ?cs \<longleftrightarrow> x \<in> all_chunks kp \<and> page_base x = b" for x
    using chunk_list_props(3) [of b "hobj_size h" x] pool_repD(4) [OF rep h(1)] h(1) by (auto simp: all_chunks_def page_ok_def)
  have ac: "all_chunks kp2 = all_chunks kp - ?cs"
    using on by (auto simp: all_chunks_def f split: if_splits)
  have cz: "chunk_size kp2 x = chunk_size kp x" if "page_base x \<noteq> b" for x using that by (simp add: chunk_size_def f)
  have fsub: "free_in fl \<subseteq> all_chunks kp" using finite_chunks(2) [OF rep] .
  have oth: "page_base x \<noteq> b" if "x \<in> set (fl j)" "j < 6" "j \<noteq> i" for x j
    using pool_repD(3) [OF rep that(2)] that class_size_inj [OF that(2) i] h by (auto simp: class_list_def chunk_size_def)
  have fr: "free_in ?fl = free_in fl - ?cs"
    using oth fsub on unfolding free_in_upd [OF i] by (auto simp: free_in_split [OF i, of fl])
  have fo: "free_on ?fl x = free_on fl x" if "x \<noteq> b" for x using fr on that by (auto simp: free_on_def)
  have "class_list kp2 j (?fl j)" if j: "j < 6" for j
  proof (cases "j = i")
    case True
    have "flist (chunk_links kp2) q ?xs" using l(1) flist_cong [of ?xs "chunk_links kp2" l] by (simp add: f)
    then show ?thesis using True pool_repD(2,3) [OF rep] i cz ac on by (auto simp: class_list_def f)
  next
    case False
    note cl = pool_repD(3) [OF rep j, unfolded class_list_def]
    have "x \<notin> set (fl i)" if "x \<in> set (fl j)" for x using free_lists_disjoint [OF rep i j _ that] False by blast
    then have "flist (chunk_links kp2) p (fl j) = flist (chunk_links kp) p (fl j)" for p
      using oth j False l(2) by (intro flist_cong) (simp add: f)
    then show ?thesis using cl False oth j cz ac on by (auto simp: class_list_def f)
  qed
  moreover have "page_ok ?fl (cpool_vptr kp2) x h2" if "cpool_hdrs kp2 x = Some h2" for x h2
    using that pool_repD(4) [OF rep, of x h2] fo by (auto simp: page_ok_def f split: if_splits)
  moreover have "map obj_size (caches kp2) = cache_sizes" using pool_repD(1) [OF rep] by (simp add: f map_update_same)
  moreover have eq: "all_chunks kp2 - free_in ?fl = all_chunks kp - free_in fl" using ac fr full by blast
  moreover have "card (dom (cpool_hdrs kp)) = Suc (card (dom (cpool_hdrs kp) - {b}))"
    using card.remove [OF pool_repD(8) [OF rep], of b] h(1) by blast
  then have "cpool_page_count kp - 1 = of_nat (card (dom (cpool_hdrs kp2)))" using pool_repD(9) [OF rep] by (simp add: f)
  ultimately have rep2: "pool_rep ?fl kp2"
    unfolding pool_rep_def using pool_repD(5-8,10) [OF rep] by (simp add: f)
  with live_rep [OF rep2] live_rep [OF rep] eq show ?thesis by (simp add: f)
qed

section \<open>The pool as a set of live chunks\<close>

lemma cache_index_spec:
  assumes "pool_rep fl kp" and "0 < sz" and "sz \<le> 256"
  shows "\<exists>i<6. cache_index sz kp = Some i \<and> sz \<le> cache_sizes ! i \<and> (\<forall>j<i. cache_sizes ! j < sz)"
proof -
  have "sz \<le> cache_sizes ! 5" using assms(3) by (simp add: cache_sizes_def)
  then obtain i where i: "i \<le> 5" "sz \<le> cache_sizes ! i" "\<forall>j<i. \<not> sz \<le> cache_sizes ! j"
    using ex_least_nat_le [of "\<lambda>i. sz \<le> cache_sizes ! i" 5] by blast
  then have "cache_index sz kp = Some i"
    unfolding cache_index_def using pool_repD(2) [OF assms(1)] pool_repD(11) [OF assms(1)]
    by (intro find_cache_nth) auto
  with i show ?thesis by (intro exI [of _ i]) auto
qed

lemma kmalloc_spec:
  assumes inv: "pool_inv kp s" and sz: "0 < sz" "sz \<le> 256"
  shows "kmalloc sz kp s = Inl (Kpanic ''kmalloc: chunk pool zone exhausted'') \<and> cpool_vptr kp = 0xEEFFF000 \<or>
    kmalloc sz kp s = Inl (Kpanic ''kmalloc: alloc_page failed in cpool_refill'') \<and> card (free_frames (frame_bitmap s)) < 2 \<or>
    (\<exists>p kp' s'. kmalloc sz kp s = Inr (p, kp', s') \<and> pool_inv kp' s' \<and> p \<notin> live kp \<and> live kp' = insert p (live kp) \<and>
       (\<exists>osz\<in>set cache_sizes. ksize p kp' = Inr osz \<and> sz \<le> osz \<and> (\<forall>o'\<in>set cache_sizes. sz \<le> o' \<longrightarrow> osz \<le> o')) \<and>
       mapped_pages s' - zone_pages s' = mapped_pages s - zone_pages s \<and>
       card (free_frames (frame_bitmap s)) \<le> card (free_frames (frame_bitmap s')) + 2)"
proof -
  obtain fl where rep: "pool_rep fl kp" and s: "page_inv s" "dom (cpool_hdrs kp) = zone_pages s"
    using inv by (auto simp: pool_inv_def)
  obtain i where i: "i < 6" "cache_index sz kp = Some i" "sz \<le> cache_sizes ! i" "\<forall>j<i. cache_sizes ! j < sz"
    using cache_index_spec [OF rep sz] by blast
  let ?mid = "if free_list (caches kp ! i) = 0 then cpool_refill i kp s else Inr (kp, s)"
  have unf: "kmalloc sz kp s = bnd ?mid (\<lambda>(kp, s). bnd (pop_chunk i kp) (\<lambda>(chunk, kp). Inr (chunk, kp, s)))"
    using sz i(2) by (auto simp: kmalloc_def)
  have "?mid = Inl (Kpanic ''kmalloc: chunk pool zone exhausted'') \<and> cpool_vptr kp = 0xEEFFF000 \<or>
    ?mid = Inl (Kpanic ''kmalloc: alloc_page failed in cpool_refill'') \<and> card (free_frames (frame_bitmap s)) < 2 \<or>
    (\<exists>kp' s' fl'. ?mid = Inr (kp', s') \<and> pool_rep fl' kp' \<and> page_inv s' \<and> dom (cpool_hdrs kp') = zone_pages s' \<and>
       fl' i \<noteq> [] \<and> live kp' = live kp \<and> mapped_pages s' - zone_pages s' = mapped_pages s - zone_pages s \<and>
       card (free_frames (frame_bitmap s)) \<le> card (free_frames (frame_bitmap s')) + 2)"
  proof (cases "free_list (caches kp ! i) = 0")
    case True
    then have "fl i = []" using pool_repD(3) [OF rep i(1)] by (simp add: class_list_def)
    moreover have "mapped_pages s' - zone_pages s' = mapped_pages s - zone_pages s"
      if "mapped_pages s' = insert (cpool_vptr kp) (mapped_pages s)" for s'
      using that pool_repD(6,7) [OF rep] by (auto simp: zone_pages_def word_le_nat_alt)
    ultimately show ?thesis unfolding if_P [OF True] using cpool_refill_spec [OF rep s i(1)] by metis
  next
    case False
    then have "fl i \<noteq> []" using pool_repD(3) [OF rep i(1)] by (auto simp: class_list_def)
    with False rep s show ?thesis by auto
  qed
  moreover have "\<exists>p kp' s'. kmalloc sz kp s = Inr (p, kp', s') \<and> pool_inv kp' s' \<and> p \<notin> live kp \<and> live kp' = insert p (live kp) \<and>
       (\<exists>osz\<in>set cache_sizes. ksize p kp' = Inr osz \<and> sz \<le> osz \<and> (\<forall>o'\<in>set cache_sizes. sz \<le> o' \<longrightarrow> osz \<le> o')) \<and>
       mapped_pages s' - zone_pages s' = mapped_pages s - zone_pages s \<and>
       card (free_frames (frame_bitmap s)) \<le> card (free_frames (frame_bitmap s')) + 2"
    if m: "?mid = Inr (kp1, s1)" "pool_rep fl1 kp1" "page_inv s1" "dom (cpool_hdrs kp1) = zone_pages s1"
       "fl1 i \<noteq> []" "live kp1 = live kp" "mapped_pages s1 - zone_pages s1 = mapped_pages s - zone_pages s"
       "card (free_frames (frame_bitmap s)) \<le> card (free_frames (frame_bitmap s1)) + 2" for kp1 s1 fl1
  proof -
    obtain p xs where px: "fl1 i = p # xs" using m(5) by (cases "fl1 i") auto
    obtain kp2 where k: "pop_chunk i kp1 = Inr (p, kp2)" "pool_rep (fl1(i := xs)) kp2" "p \<in> free_in fl1"
      "free_in (fl1(i := xs)) = free_in fl1 - {p}" "all_chunks kp2 = all_chunks kp1" "chunk_size kp2 p = cache_sizes ! i"
      "cpool_hdrs kp2 (page_base p) \<noteq> None" "dom (cpool_hdrs kp2) = dom (cpool_hdrs kp1)"
      using pop_chunk_spec [OF m(2) i(1) px] by blast
    have "live kp2 = insert p (live kp)" "p \<notin> live kp"
      using live_rep [OF k(2)] live_rep [OF m(2)] k(3-5) m(6) finite_chunks(2) [OF m(2)] by auto
    moreover have "p \<noteq> 0" using pool_repD(3) [OF m(2) i(1)] px by (auto simp: class_list_def)
    then have "ksize p kp2 = Inr (cache_sizes ! i)"
      using k(6,7) by (auto simp: ksize_def chdr_def chunk_size_def)
    moreover have "cache_sizes ! i \<le> o'" if o': "o' \<in> set cache_sizes" "sz \<le> o'" for o'
    proof -
      obtain j where "j < 6" "cache_sizes ! j = o'" using size_index [OF o'(1)] by blast
      moreover then have "i \<le> j" using i(4) o'(2) by (metis leD not_le)
      ultimately show ?thesis using cache_sizes_mono i(1) by metis
    qed
    moreover have "cache_sizes ! i \<in> set cache_sizes" using i(1) by simp
    ultimately show ?thesis
      unfolding unf m(1) using k(1,2,8) m(3,4,7,8) i(3) by (auto simp: pool_inv_def)
  qed
  ultimately show ?thesis unfolding unf by (elim disjE exE conjE) auto
qed

lemma kfree_spec:
  assumes inv: "pool_inv kp s" and p: "p \<in> live kp"
  shows "\<exists>kp' s'. kfree p kp s = Inr (kp', s') \<and> pool_inv kp' s' \<and> live kp' = live kp - {p} \<and>
    mapped_pages s' - zone_pages s' = mapped_pages s - zone_pages s \<and>
    (if \<exists>q\<in>live kp - {p}. page_base q = page_base p then s' = s
     else zone_pages s' = zone_pages s - {page_base p} \<and>
       card (free_frames (frame_bitmap s)) < card (free_frames (frame_bitmap s')))"
proof -
  obtain fl where rep: "pool_rep fl kp" and s: "page_inv s" "dom (cpool_hdrs kp) = zone_pages s"
    using inv by (auto simp: pool_inv_def)
  have pl: "p \<in> all_chunks kp - free_in fl" using p live_rep [OF rep] by simp
  obtain i h kp1 where k: "push_chunk p kp = Inr (i, h, kp1)" "i < 6" "pool_rep (fl(i := p # fl i)) kp1"
    "free_in (fl(i := p # fl i)) = insert p (free_in fl)" "all_chunks kp1 = all_chunks kp"
    "cpool_hdrs kp1 (page_base p) = Some h" "dom (cpool_hdrs kp1) = dom (cpool_hdrs kp)"
    using push_chunk_spec [OF rep pl] by blast
  let ?fl = "fl(i := p # fl i)" and ?b = "page_base p"
  let ?cs = "set (chunk_list ?b (hobj_size h))"
  have live1: "live kp1 = live kp - {p}" using live_rep [OF k(3)] live_rep [OF rep] k(4,5) by auto
  have ok: "page_ok ?fl (cpool_vptr kp1) ?b h" using pool_repD(4) [OF k(3,6)] .
  have pa: "p \<in> all_chunks kp1" using pl k(5) by simp
  then have p0: "p \<noteq> 0" using chunk_list_props(3) [of ?b "hobj_size h" p] ok k(6) by (auto simp: all_chunks_def page_ok_def)
  have on: "x \<in> ?cs \<longleftrightarrow> x \<in> all_chunks kp1 \<and> page_base x = ?b" for x
    using chunk_list_props(3) [of ?b "hobj_size h" x] ok k(6) by (auto simp: all_chunks_def page_ok_def)
  have fo: "free_on ?fl ?b \<subseteq> ?cs" using on finite_chunks(2) [OF k(3)] by (auto simp: free_on_def)
  have cd: "card ?cs = chunk_count (hobj_size h)"
    using chunk_list_props(1,2) [of ?b "hobj_size h"] ok distinct_card by (fastforce simp: page_ok_def)
  have cnt: "free_count h = total_count h \<longleftrightarrow> free_on ?fl ?b = ?cs"
  proof -
    have small: "chunk_count (hobj_size h) < 65536" using chunk_count_bounds(2) ok by (fastforce simp: page_ok_def)
    then have "card (free_on ?fl ?b) < 65536" using card_mono [OF _ fo] cd by simp
    with small have "free_count h = total_count h \<longleftrightarrow> card (free_on ?fl ?b) = card ?cs"
      using ok cd by (simp add: page_ok_def of_nat_eq_u16)
    also have "\<dots> \<longleftrightarrow> free_on ?fl ?b = ?cs" using card_subset_eq [OF _ fo] by auto
    finally show ?thesis .
  qed
  have all: "free_on ?fl ?b = ?cs \<longleftrightarrow> \<not> (\<exists>q\<in>live kp - {p}. page_base q = ?b)"
    unfolding live1 [symmetric] live_rep [OF k(3)] using on fo by (auto simp: free_on_def)
  show ?thesis
  proof (cases "free_on ?fl ?b = ?cs")
    case False
    then have "kfree p kp s = Inr (kp1, s)" using k(1) p0 cnt by (simp add: kfree_def)
    moreover have "pool_inv kp1 s" using k(3,7) s by (auto simp: pool_inv_def)
    ultimately show ?thesis using live1 all False by auto
  next
    case True
    note cl = pool_repD(3) [OF k(3,2), unfolded class_list_def]
    obtain kp2 q v where sw: "sweep i ?b Head kp1 = Some (Inr kp2)" "read_cell i Head kp2 = Inr q"
      "flist (chunk_links kp2) q (filter (\<lambda>x. page_base x \<noteq> ?b) (?fl i))"
      "\<And>x. x \<notin> set (?fl i) \<Longrightarrow> chunk_links kp2 x = chunk_links kp1 x"
      "kp2 = kp1\<lparr>caches := (caches kp1)[i := (caches kp1 ! i)\<lparr>free_list := v\<rparr>], chunk_links := chunk_links kp2\<rparr>"
      using sweep_spec [of i Head kp1 "free_list (caches kp1 ! i)" "?fl i" ?b] cl pool_repD(2) [OF k(3)] k(2)
      by (auto simp: read_cell_def)
    have "caches kp2 = (caches kp1)[i := (caches kp1 ! i)\<lparr>free_list := v\<rparr>]" by (subst sw(5)) simp
    then have "v = q" using sw(2) pool_repD(2) [OF k(3)] k(2) by (simp add: read_cell_def)
    note sw5 = sw(5) [unfolded this]
    have hz: "hobj_size h = cache_sizes ! i" using cl k(6) by (simp add: chunk_size_def)
    define kp3 where "kp3 = forget_page ?b (kp2\<lparr>cpool_page_count := cpool_page_count kp2 - 1\<rparr>)"
    have "pool_rep (?fl(i := filter (\<lambda>x. page_base x \<noteq> ?b) (?fl i))) kp3 \<and> live kp3 = live kp1 \<and>
        dom (cpool_hdrs kp3) = dom (cpool_hdrs kp1) - {?b}"
      by (rule drop_page_rep [OF k(3,2,6) hz _ sw5 sw(3,4) kp3_def]) (use True in \<open>unfold free_on_def, blast\<close>)
    then have r3: "pool_rep (?fl(i := filter (\<lambda>x. page_base x \<noteq> ?b) (?fl i))) kp3" "live kp3 = live kp1"
      "dom (cpool_hdrs kp3) = dom (cpool_hdrs kp1) - {?b}" by auto
    have "?b \<in> zone_pages s" using k(6,7) s(2) by auto
    then obtain s' where s': "free_page ?b s = Inr s'" "page_inv s'" "mapped_pages s' = mapped_pages s - {?b}"
        "card (free_frames (frame_bitmap s)) < card (free_frames (frame_bitmap s'))" "?b \<in> zone_pages s"
      using kpages.release_mapped [OF s(1), of ?b] by (auto simp: zone_pages_def)
    have z: "zone_pages s' = zone_pages s - {?b}" using s'(3) by (auto simp: zone_pages_def)
    have "kfree p kp s = Inr (kp3, s')"
      using k(1) p0 cnt True sw(1) s'(1) by (simp add: kfree_def kp3_def)
    moreover have "pool_inv kp3 s'" using r3(1,3) s'(2) z k(7) s(2) by (auto simp: pool_inv_def)
    moreover have "mapped_pages s' - zone_pages s' = mapped_pages s - zone_pages s"
      using s'(3,5) z by auto
    ultimately show ?thesis using live1 all True r3(2) z s'(4) by auto
  qed
qed

lemma kmalloc_init_inv:
  assumes "page_inv s" and "zone_pages s = {}" and "cpool_hdrs kp = Map.empty"
  shows "pool_inv (kmalloc_init kp) s" and "live (kmalloc_init kp) = {}"
proof -
  have "class_list (kmalloc_init kp) i []" if "i < 6" for i
    using that by (simp add: class_list_def kmalloc_init_def)
  then have "pool_rep (\<lambda>_. []) (kmalloc_init kp)"
    using assms(3) by (simp add: pool_rep_def free_in_def all_chunks_def kmalloc_init_def comp_def)
  with assms show "pool_inv (kmalloc_init kp) s" by (auto simp: pool_inv_def kmalloc_init_def)
  show "live (kmalloc_init kp) = {}" using assms(3) by (simp add: live_def all_chunks_def kmalloc_init_def)
qed

text \<open>The invariant depends on the address space only through the pages of the pool's zone.\<close>

lemma pool_inv_frame:
  assumes "pool_inv kp s" and "page_inv s'" and "zone_pages s' = zone_pages s"
  shows "pool_inv kp s'"
  using assms by (simp add: pool_inv_def)

text \<open>The two ways the pool can fail: its zone is used up, or no two frames are left.\<close>

definition pool_exhausted :: "kpool \<Rightarrow> mm \<Rightarrow> bool" where
  "pool_exhausted kp s \<longleftrightarrow> cpool_vptr kp = 0xEEFFF000 \<or> card (free_frames (frame_bitmap s)) < 2"

section \<open>The contract towards clients\<close>

text \<open>
  An allocator of small objects kept in two state components: an allocation adds one new object or
  ends in a panic, a release removes one, and neither touches what lies outside its zone.
\<close>

locale object_provider =
  fixes alloc :: "u32 \<Rightarrow> 'k \<Rightarrow> 's \<Rightarrow> (u32 \<times> 'k \<times> 's) res"
    and release :: "u32 \<Rightarrow> 'k \<Rightarrow> 's \<Rightarrow> ('k \<times> 's) res"
    and inv :: "'k \<Rightarrow> 's \<Rightarrow> bool"
    and objects :: "'k \<Rightarrow> u32 set"
    and outside :: "'s \<Rightarrow> u32 set"
    and limit :: u32
    and exhausted :: "'k \<Rightarrow> 's \<Rightarrow> bool"
    and budget :: "'s \<Rightarrow> nat"
  assumes alloc_object: "inv k s \<Longrightarrow> 0 < n \<Longrightarrow> n \<le> limit \<Longrightarrow>
      (\<exists>msg. alloc n k s = Inl (Kpanic msg) \<and> exhausted k s) \<or>
      (\<exists>p k' s'. alloc n k s = Inr (p, k', s') \<and> inv k' s' \<and> p \<notin> objects k \<and> objects k' = insert p (objects k) \<and>
         outside s' = outside s \<and> budget s \<le> budget s' + 2)"
    and release_object: "inv k s \<Longrightarrow> p \<in> objects k \<Longrightarrow>
      \<exists>k' s'. release p k s = Inr (k', s') \<and> inv k' s' \<and> objects k' = objects k - {p} \<and> outside s' = outside s"
    and objects_nonnull: "inv k s \<Longrightarrow> p \<in> objects k \<Longrightarrow> p \<noteq> 0"
begin

lemma alloc_object_cases:
  assumes "inv k s" and "0 < n" and "n \<le> limit"
  obtains (panic) msg where "alloc n k s = Inl (Kpanic msg)" "exhausted k s"
    | (ok) p k' s' where "alloc n k s = Inr (p, k', s')" "p \<noteq> 0" "inv k' s'" "p \<notin> objects k"
        "objects k' = insert p (objects k)" "outside s' = outside s" "budget s \<le> budget s' + 2"
  using alloc_object [OF assms] objects_nonnull by (metis insertI1)

lemma alloc_release:
  assumes "inv k s" and "0 < n" and "n \<le> limit" and "alloc n k s = Inr (p, k1, s1)"
  shows "\<exists>k2 s2. release p k1 s1 = Inr (k2, s2) \<and> inv k2 s2 \<and> objects k2 = objects k \<and> outside s2 = outside s"
  using assms(1-3)
proof (cases rule: alloc_object_cases)
  case (ok q k' s')
  with assms(4) release_object [of k1 s1 p] show ?thesis by auto
qed (use assms(4) in simp)

end

interpretation pool: object_provider kmalloc kfree pool_inv live "\<lambda>s. mapped_pages s - zone_pages s" 256
  pool_exhausted "\<lambda>s. card (free_frames (frame_bitmap s))"
proof
  show "(\<exists>msg. kmalloc n k s = Inl (Kpanic msg) \<and> pool_exhausted k s) \<or>
      (\<exists>p k' s'. kmalloc n k s = Inr (p, k', s') \<and> pool_inv k' s' \<and> p \<notin> live k \<and> live k' = insert p (live k) \<and>
         mapped_pages s' - zone_pages s' = mapped_pages s - zone_pages s \<and>
         card (free_frames (frame_bitmap s)) \<le> card (free_frames (frame_bitmap s')) + 2)"
    if "pool_inv k s" "0 < n" "n \<le> 256" for k s n using kmalloc_spec [OF that] unfolding pool_exhausted_def by blast
  show "\<exists>k' s'. kfree p k s = Inr (k', s') \<and> pool_inv k' s' \<and> live k' = live k - {p} \<and>
      mapped_pages s' - zone_pages s' = mapped_pages s - zone_pages s"
    if "pool_inv k s" "p \<in> live k" for k s p using kfree_spec [OF that] by blast
  show "p \<noteq> 0" if k: "pool_inv k s" "p \<in> live k" for k s p
  proof -
    obtain fl where rep: "pool_rep fl k" using k(1) by (auto simp: pool_inv_def)
    obtain h where "page_ok fl (cpool_vptr k) (page_base p) h" "p \<in> set (chunk_list (page_base p) (hobj_size h))"
      using pool_chunk [OF rep, of p] k(2) by (auto simp: live_def)
    then show ?thesis using chunk_list_props(3) [of "page_base p" "hobj_size h" p] by (simp add: page_ok_def)
  qed
qed

section \<open>Properties\<close>

text \<open>Two live chunks never overlap: each lies whole inside its own slot of its page.\<close>

lemma live_chunks_disjoint:
  assumes "pool_inv kp s" and "p \<in> live kp" and "q \<in> live kp" and "p \<noteq> q"
  shows "unat p + unat (chunk_size kp p) \<le> unat q \<or> unat q + unat (chunk_size kp q) \<le> unat p"
proof -
  obtain fl where rep: "pool_rep fl kp" using assms(1) by (auto simp: pool_inv_def)
  have slot: "\<exists>k. page_base x AND 0xFFF = 0 \<and> chunk_size kp x \<in> set cache_sizes \<and> k < chunk_count (chunk_size kp x) \<and>
      x = chunk_at (page_base x) (chunk_size kp x) k" if x: "x \<in> live kp" for x
  proof -
    have "x \<in> all_chunks kp" using x by (simp add: live_def)
    from rep this show ?thesis
    proof (rule pool_chunk)
      fix h assume h: "page_ok fl (cpool_vptr kp) (page_base x) h" "chunk_size kp x = hobj_size h"
        "x \<in> set (chunk_list (page_base x) (hobj_size h))"
      then obtain k where "k < chunk_count (hobj_size h)" "x = chunk_at (page_base x) (hobj_size h) k"
        by (auto simp: chunk_list_def)
      with h(1,2) show ?thesis by (auto simp: page_ok_def)
    qed
  qed
  obtain j where j: "page_base p AND 0xFFF = 0" "chunk_size kp p \<in> set cache_sizes" "j < chunk_count (chunk_size kp p)"
    "p = chunk_at (page_base p) (chunk_size kp p) j" using slot [OF assms(2)] by auto
  obtain k where k: "page_base q AND 0xFFF = 0" "chunk_size kp q \<in> set cache_sizes" "k < chunk_count (chunk_size kp q)"
    "q = chunk_at (page_base q) (chunk_size kp q) k" using slot [OF assms(3)] by auto
  have up: "unat p = unat (page_base p) + 8 + j * unat (chunk_size kp p)" using chunk_at_unat [OF j(1-3)] j(4) by simp
  have uq: "unat q = unat (page_base q) + 8 + k * unat (chunk_size kp q)" using chunk_at_unat [OF k(1-3)] k(4) by simp
  note ends = chunk_end [OF j(2,3)] chunk_end [OF k(2,3)]
  show ?thesis
  proof (cases "page_base p = page_base q")
    case True
    then have sz: "chunk_size kp p = chunk_size kp q" by (simp add: chunk_size_def)
    have "j \<noteq> k"
    proof
      assume "j = k"
      then have "unat p = unat q" unfolding up uq True sz by simp
      then show False using assms(4) by (simp add: word_unat_eq_iff)
    qed
    then have "Suc j * unat (chunk_size kp q) \<le> k * unat (chunk_size kp q) \<or>
        Suc k * unat (chunk_size kp q) \<le> j * unat (chunk_size kp q)"
      by (metis Suc_leI mult_le_mono1 nat_neq_iff)
    then show ?thesis unfolding up uq True sz mult_Suc by linarith
  next
    case False
    obtain a b where ab: "unat (page_base p) = 4096 * a" "unat (page_base q) = 4096 * b" by (auto simp: unat_page_base)
    with False have "a \<noteq> b" by (auto simp: word_unat_eq_iff)
    then have "4096 * a + 4096 \<le> 4096 * b \<or> 4096 * b + 4096 \<le> 4096 * a" by auto
    then show ?thesis using up uq ab ends by linarith
  qed
qed

definition empty_pool :: kpool where
  "empty_pool = \<lparr>caches = [], cpool_vptr = 0, cpool_page_count = 0, cpool_used_count = 0,
     cpool_hdrs = Map.empty, chunk_links = Map.empty\<rparr>"

lemma boot_pool: "pool_inv (kmalloc_init empty_pool) boot_full" "live (kmalloc_init empty_pool) = {}"
  using kmalloc_init_inv [of boot_full empty_pool] boot_full by (auto simp: empty_pool_def zone_pages_def)

text \<open>
  C8. \<open>kmalloc\<close> refines a set of live chunks: from a well-formed pool a request of 1 to 256 bytes
  returns a chunk that was not live, of the smallest class that holds the request, and makes exactly
  it live, leaving the pool well formed and all pages outside its zone alone; a request of 0 returns
  NULL, a larger one panics, and the only other panics are an exhausted zone and missing frames.
\<close>

theorem kmalloc_refines_live_set:
  assumes "pool_inv kp s"
  shows "if sz = 0 then kmalloc sz kp s = Inr (0, kp, s)
    else if 256 < sz then kmalloc sz kp s = Inl (Kpanic ''kmalloc: size > 256, use kmem_alloc for large allocations'')
    else kmalloc sz kp s = Inl (Kpanic ''kmalloc: chunk pool zone exhausted'') \<and> cpool_vptr kp = 0xEEFFF000 \<or>
      kmalloc sz kp s = Inl (Kpanic ''kmalloc: alloc_page failed in cpool_refill'') \<and> card (free_frames (frame_bitmap s)) < 2 \<or>
      (\<exists>p kp' s'. kmalloc sz kp s = Inr (p, kp', s') \<and> pool_inv kp' s' \<and> p \<notin> live kp \<and> live kp' = insert p (live kp) \<and>
         (\<exists>osz\<in>set cache_sizes. ksize p kp' = Inr osz \<and> sz \<le> osz \<and> (\<forall>o'\<in>set cache_sizes. sz \<le> o' \<longrightarrow> osz \<le> o')) \<and>
         mapped_pages s' - zone_pages s' = mapped_pages s - zone_pages s)"
proof -
  consider "sz = 0" | "256 < sz" | "sz \<noteq> 0" "0 < sz" "sz \<le> 256" using not_less word_neq_0_conv [of sz] by blast
  then show ?thesis
  proof cases
    case 3
    from kmalloc_spec [OF assms 3(2,3)] show ?thesis
      unfolding if_not_P [OF 3(1)] if_not_P [OF leD [OF 3(3)]] by blast
  qed (auto simp: kmalloc_def)
qed

theorem kmalloc_refines_live_set_witness:
  "\<exists>p kp' s'. kmalloc 12 (kmalloc_init empty_pool) boot_full = Inr (p, kp', s') \<and> live kp' = {p} \<and> ksize p kp' = Inr 16"
proof -
  have c: "\<not> card (free_frames (frame_bitmap boot_full)) < 2" by (simp add: boot_full(3))
  have v: "cpool_vptr (kmalloc_init empty_pool) \<noteq> 0xEEFFF000" by (simp add: kmalloc_init_def)
  from kmalloc_refines_live_set [OF boot_pool(1), of 12] c v obtain p kp' s' osz where
    k: "kmalloc 12 (kmalloc_init empty_pool) boot_full = Inr (p, kp', s')" "live kp' = insert p {}"
      "osz \<in> set cache_sizes" "ksize p kp' = Inr osz" "12 \<le> osz" "\<forall>o'\<in>set cache_sizes. 12 \<le> o' \<longrightarrow> osz \<le> o'"
    unfolding boot_pool(2) by auto
  have "osz \<le> 16" using k(6) by (simp add: cache_sizes_def)
  then have "osz = 16" using k(3,5) by (auto simp: cache_sizes_def)
  with k show ?thesis by blast
qed

text \<open>
  C9. \<open>kfree\<close> of a live chunk returns, the sweep of the free list included, and removes exactly that
  chunk from the live set of a pool that stays well formed; when it was the last live chunk of its
  page the page is unmapped and its frame given back, otherwise the address space is untouched.
\<close>

theorem kfree_returns_empty_pages:
  assumes "pool_inv kp s" and "p \<in> live kp"
  shows "\<exists>kp' s'. kfree p kp s = Inr (kp', s') \<and> pool_inv kp' s' \<and> live kp' = live kp - {p} \<and>
    mapped_pages s' - zone_pages s' = mapped_pages s - zone_pages s \<and>
    (if \<exists>q\<in>live kp - {p}. page_base q = page_base p then s' = s
     else zone_pages s' = zone_pages s - {page_base p} \<and>
       card (free_frames (frame_bitmap s)) < card (free_frames (frame_bitmap s')))"
  using kfree_spec [OF assms] .

theorem kfree_returns_empty_pages_witness:
  "\<exists>p kp1 s1 kp2 s2. kmalloc 12 (kmalloc_init empty_pool) boot_full = Inr (p, kp1, s1) \<and>
     kfree p kp1 s1 = Inr (kp2, s2) \<and> live kp2 = {} \<and> zone_pages s2 = zone_pages s1 - {page_base p}"
proof -
  have c: "\<not> card (free_frames (frame_bitmap boot_full)) < 2" by (simp add: boot_full(3))
  have v: "cpool_vptr (kmalloc_init empty_pool) \<noteq> 0xEEFFF000" by (simp add: kmalloc_init_def)
  obtain p kp1 s1 where k: "kmalloc 12 (kmalloc_init empty_pool) boot_full = Inr (p, kp1, s1)" "pool_inv kp1 s1" "live kp1 = {p}"
    using kmalloc_spec [OF boot_pool(1), of 12] c v boot_pool(2) by auto
  with kfree_returns_empty_pages [OF k(2), of p] show ?thesis by auto
qed

end
