(* ===== verification/Vmalloc.thy ===== *)
theory Vmalloc
  imports Kmalloc_Spec
begin

text \<open>
  The page-granular virtual allocator, \<open>src/src/memory/vmalloc.c\<close>: a bitmap with one bit per page of
  its zone and a list of regions, whose nodes are chunks of the \<open>kmalloc\<close> pool. The nodes live in a
  store indexed by address; a node is gone once it is given back to the pool.
\<close>

section \<open>State\<close>

record vmalloc_region =
  rstart :: u32
  rnpages :: u32
  rnext :: u32

record vzone =
  vbitmap :: "u32 list"
  region_list :: u32
  regions :: "u32 \<Rightarrow> vmalloc_region option"

abbreviation (input) VMALLOC_BASE :: u32 where "VMALLOC_BASE \<equiv> 0xF0000000"
abbreviation (input) VMALLOC_MAX :: u32 where "VMALLOC_MAX \<equiv> 0xFFBFFFFF"
abbreviation (input) VMALLOC_PAGES :: u32 where "VMALLOC_PAGES \<equiv> 64512"
abbreviation (input) VBITMAP_WORDS :: u32 where "VBITMAP_WORDS \<equiv> 2016"

lemma vmalloc_constants:
  "VMALLOC_PAGES = (VMALLOC_MAX - VMALLOC_BASE + 1) div PAGE_SIZE" "VBITMAP_WORDS = (VMALLOC_PAGES + 31) div 32"
  by simp_all

definition region_at :: "u32 \<Rightarrow> vzone \<Rightarrow> vmalloc_region res" where
  "region_at p v = of_option (BadPointer p) (regions v p)"

section \<open>The bitmap\<close>

definition vbitmap_set :: "u32 \<Rightarrow> u32 list \<Rightarrow> u32 list res" where
  "vbitmap_set idx bm =
     (let w = unat (idx div 32) in
      if w < length bm then Inr (bm[w := bm ! w OR push_bit (unat (idx mod 32)) 1]) else Inl (OutOfBounds idx))"

definition vbitmap_clear :: "u32 \<Rightarrow> u32 list \<Rightarrow> u32 list res" where
  "vbitmap_clear idx bm =
     (let w = unat (idx div 32) in
      if w < length bm then Inr (bm[w := bm ! w AND NOT (push_bit (unat (idx mod 32)) 1)]) else Inl (OutOfBounds idx))"

definition vbitmap_test :: "u32 \<Rightarrow> u32 list \<Rightarrow> u32 res" where
  "vbitmap_test idx bm =
     (let w = unat (idx div 32) in
      if w < length bm then Inr (drop_bit (unat (idx mod 32)) (bm ! w) AND 1) else Inl (OutOfBounds idx))"

definition zero_word :: "u32 \<Rightarrow> u32 list \<Rightarrow> u32 list res" where
  "zero_word i bm = (if unat i < length bm then Inr (bm[unat i := 0]) else Inl (OutOfBounds i))"

definition vmalloc_init :: "vzone \<Rightarrow> vzone res" where
  "vmalloc_init v =
     bnd (for_each zero_word (u32_range 0 VBITMAP_WORDS) (vbitmap v)) (\<lambda>bm. Inr (v\<lparr>vbitmap := bm\<rparr>))"

section \<open>Allocation\<close>

text \<open>
  The two search loops with their locals \<open>run\<close> and \<open>start\<close>. In one word, \<open>Inl start\<close> is the exit on a
  complete run and \<open>Inr (run, start)\<close> the end of the loop, also by its \<open>break\<close>.
\<close>

primrec scan_bits :: "u32 \<Rightarrow> u32 list \<Rightarrow> u32 \<Rightarrow> u32 \<Rightarrow> u32 \<Rightarrow> u32 list \<Rightarrow> u32 + u32 \<times> u32" where
  "scan_bits npages bm w run start [] = Inr (run, start)"
| "scan_bits npages bm w run start (b # bs) =
     (let i = w * 32 + b in
      if i \<ge> VMALLOC_PAGES then Inr (run, start)
      else if drop_bit (unat b) (bm ! unat w) AND 1 = 0 then
        let start' = (if run = 0 then i else start); run' = run + 1 in
        if run' = npages then Inl start' else scan_bits npages bm w run' start' bs
      else scan_bits npages bm w 0 start bs)"

primrec scan_words :: "u32 \<Rightarrow> u32 list \<Rightarrow> u32 \<Rightarrow> u32 \<Rightarrow> u32 list \<Rightarrow> u32 option" where
  "scan_words npages bm run start [] = None"
| "scan_words npages bm run start (w # ws) =
     (if bm ! unat w = 0xFFFFFFFF then scan_words npages bm 0 start ws
      else case scan_bits npages bm w run start (u32_range 0 32) of
          Inl found \<Rightarrow> Some found
        | Inr (run', start') \<Rightarrow> scan_words npages bm run' start' ws)"

definition map_vpage :: "u32 \<Rightarrow> u32 list \<times> mm \<Rightarrow> (u32 list \<times> mm) res" where
  "map_vpage j = (\<lambda>(bm, s).
     bnd (alloc_page (VMALLOC_BASE + j * PAGE_SIZE) (PAGE_PRESENT OR PAGE_RW) s) (\<lambda>(r, s).
     if r = 0 then Inl (Kpanic ''vmalloc: alloc_page failed'')
     else bnd (vbitmap_set j bm) (\<lambda>bm. Inr (bm, s))))"

definition vmalloc :: "u32 \<Rightarrow> vzone \<Rightarrow> kpool \<Rightarrow> mm \<Rightarrow> (u32 \<times> vzone \<times> kpool \<times> mm) res" where
  "vmalloc npages v kp s =
     (if npages = 0 then Inr (0, v, kp, s)
      else bnd (kmalloc 12 kp s) (\<lambda>(region, kp, s).
        if region = 0 then Inr (0, v, kp, s)
        else case scan_words npages (vbitmap v) 0 0 (u32_range 0 VBITMAP_WORDS) of
            Some start \<Rightarrow>
              bnd (for_each map_vpage (u32_range start (start + npages)) (vbitmap v, s)) (\<lambda>(bm, s).
              let v = v\<lparr>vbitmap := bm,
                        regions := (regions v)(region \<mapsto> \<lparr>rstart = start, rnpages = npages, rnext = region_list v\<rparr>),
                        region_list := region\<rparr> in
              Inr (VMALLOC_BASE + start * PAGE_SIZE, v, kp, s))
          | None \<Rightarrow> bnd (kfree region kp s) (\<lambda>(kp, s). Inr (0, v, kp, s))))"

section \<open>Release\<close>

text \<open>The walk of \<open>vfree\<close> along the regions: it stops at the node with the wanted start, or at NULL.\<close>

partial_function (option) find_region :: "u32 \<Rightarrow> vzone \<Rightarrow> u32 \<Rightarrow> u32 \<Rightarrow> (u32 \<times> u32) res option" where
  "find_region idx v prev cur =
     (if cur = 0 then Some (Inr (prev, cur))
      else case regions v cur of
          None \<Rightarrow> Some (Inl (BadPointer cur))
        | Some r \<Rightarrow> if rstart r \<noteq> idx then find_region idx v cur (rnext r) else Some (Inr (prev, cur)))"

definition unlink_region :: "u32 \<Rightarrow> vmalloc_region \<Rightarrow> vzone \<Rightarrow> vzone res" where
  "unlink_region prev r v =
     (if prev \<noteq> 0 then
        bnd (region_at prev v) (\<lambda>q. Inr (v\<lparr>regions := (regions v)(prev \<mapsto> q\<lparr>rnext := rnext r\<rparr>)\<rparr>))
      else Inr (v\<lparr>region_list := rnext r\<rparr>))"

definition unmap_vpage :: "u32 \<Rightarrow> u32 \<Rightarrow> u32 list \<times> mm \<Rightarrow> (u32 list \<times> mm) res" where
  "unmap_vpage idx i = (\<lambda>(bm, s).
     bnd (free_page (VMALLOC_BASE + (idx + i) * PAGE_SIZE) s) (\<lambda>s.
     bnd (vbitmap_clear (idx + i) bm) (\<lambda>bm. Inr (bm, s))))"

definition vfree :: "u32 \<Rightarrow> vzone \<Rightarrow> kpool \<Rightarrow> mm \<Rightarrow> (vzone \<times> kpool \<times> mm) res" where
  "vfree addr v kp s =
     (if addr = 0 then Inr (v, kp, s)
      else if addr < VMALLOC_BASE \<or> addr \<ge> VMALLOC_MAX then Inl (Kpanic ''vfree: pointer outside vmalloc zone'')
      else
        let idx = (addr - VMALLOC_BASE) div PAGE_SIZE in
        bnd (loop_res (find_region idx v 0 (region_list v))) (\<lambda>(prev, cur).
        if cur = 0 then Inl (Kpanic ''vfree: pointer not allocated by vmalloc'')
        else
          bnd (region_at cur v) (\<lambda>r.
          bnd (unlink_region prev r v) (\<lambda>v.
          bnd (kfree cur kp s) (\<lambda>(kp, s).
          bnd (for_each (unmap_vpage idx) (u32_range 0 (rnpages r)) (vbitmap v, s)) (\<lambda>(bm, s).
          Inr (v\<lparr>vbitmap := bm, regions := (regions v)(cur := None)\<rparr>, kp, s)))))))"

section \<open>Queries\<close>

primrec first_clear :: "u32 list \<Rightarrow> u32 list \<Rightarrow> u32 option res" where
  "first_clear bm [] = Inr None"
| "first_clear bm (i # is) =
     bnd (vbitmap_test i bm) (\<lambda>t. if t = 0 then Inr (Some i) else first_clear bm is)"

definition vbrk :: "vzone \<Rightarrow> u32 res" where
  "vbrk v =
     bnd (first_clear (vbitmap v) (u32_range 0 VMALLOC_PAGES)) (\<lambda>r.
     Inr (case r of Some i \<Rightarrow> VMALLOC_BASE + i * PAGE_SIZE | None \<Rightarrow> VMALLOC_MAX))"

definition vsize :: u32 where
  "vsize = PAGE_SIZE"

record vmalloc_stats =
  used_pages :: u32
  total_pages :: u32
  region_count :: u32

partial_function (option) count_regions :: "vzone \<Rightarrow> u32 \<Rightarrow> u32 \<Rightarrow> u32 res option" where
  "count_regions v p n =
     (if p = 0 then Some (Inr n)
      else case regions v p of None \<Rightarrow> Some (Inl (BadPointer p)) | Some r \<Rightarrow> count_regions v (rnext r) (n + 1))"

definition vmalloc_query :: "vzone \<Rightarrow> vmalloc_stats res" where
  "vmalloc_query v =
     bnd (for_each (\<lambda>i n. bnd (vbitmap_test i (vbitmap v)) (\<lambda>t. Inr (if t \<noteq> 0 then n + 1 else n)))
           (u32_range 0 VMALLOC_PAGES) 0) (\<lambda>used.
     bnd (loop_res (count_regions v (region_list v) 0)) (\<lambda>cnt.
     Inr \<lparr>used_pages = used, total_pages = VMALLOC_PAGES, region_count = cnt\<rparr>))"

end
