(* ===== verification/Vmalloc_Spec.thy ===== *)
theory Vmalloc_Spec
  imports Vmalloc
begin

text \<open>
  \<open>vmalloc\<close> implements first fit on a set of page areas: the bitmap, the region list and the page
  tables of the zone always describe the same disjoint areas, and the two operations add and remove
  exactly one of them. The proofs use the pool through its contract for clients and the paging layer
  through the contract of a page provider.
\<close>

section \<open>The bitmap\<close>

definition vused :: "u32 list \<Rightarrow> nat \<Rightarrow> bool" where
  "vused bm i = bit (bm ! (i div 32)) (i mod 32)"

definition vbitmap_wf :: "u32 list \<Rightarrow> bool" where
  "vbitmap_wf bm \<longleftrightarrow> length bm = 2016"

lemma vused_update:
  assumes "i < 64512" and "j < 64512" and "vbitmap_wf bm"
  shows "vused (bm[i div 32 := w]) j = (if j div 32 = i div 32 then bit w (j mod 32) else vused bm j)"
  using assms by (auto simp: vused_def vbitmap_wf_def nth_list_update)

lemma vbitmap_write:
  assumes "vbitmap_wf bm" and "unat i < 64512"
  shows "\<exists>b'. vbitmap_set i bm = Inr b' \<and> vbitmap_wf b' \<and> (\<forall>j<64512. vused b' j \<longleftrightarrow> j = unat i \<or> vused bm j)"
    and "\<exists>b'. vbitmap_clear i bm = Inr b' \<and> vbitmap_wf b' \<and> (\<forall>j<64512. vused b' j \<longleftrightarrow> j \<noteq> unat i \<and> vused bm j)"
proof -
  have u: "unat (i div 32) = unat i div 32" "unat (i mod 32) = unat i mod 32" by (simp_all add: unat_div unat_mod)
  have lt: "unat i div 32 < length bm" using assms by (simp add: vbitmap_wf_def)
  let ?s = "bm[unat i div 32 := bm ! (unat i div 32) OR push_bit (unat i mod 32) 1]"
  let ?c = "bm[unat i div 32 := bm ! (unat i div 32) AND NOT (push_bit (unat i mod 32) 1)]"
  have same: "unat i mod 32 = j mod 32 \<longleftrightarrow> j = unat i" if "j div 32 = unat i div 32" for j
    using that div_mod_32_eq [of j "unat i"] by auto
  have "vused ?s j \<longleftrightarrow> j = unat i \<or> vused bm j" if "j < 64512" for j
    unfolding vused_update [OF assms(2) that assms(1)]
    by (auto simp: vused_def bit_or_iff bit_exp_u32 same)
  moreover have "vused ?c j \<longleftrightarrow> j \<noteq> unat i \<and> vused bm j" if "j < 64512" for j
    unfolding vused_update [OF assms(2) that assms(1)]
    by (auto simp: vused_def bit_and_iff bit_not_iff bit_exp_u32 same)
  ultimately show "\<exists>b'. vbitmap_set i bm = Inr b' \<and> vbitmap_wf b' \<and> (\<forall>j<64512. vused b' j \<longleftrightarrow> j = unat i \<or> vused bm j)"
    "\<exists>b'. vbitmap_clear i bm = Inr b' \<and> vbitmap_wf b' \<and> (\<forall>j<64512. vused b' j \<longleftrightarrow> j \<noteq> unat i \<and> vused bm j)"
    using lt u assms(1) by (simp_all add: vbitmap_set_def vbitmap_clear_def vbitmap_wf_def Let_def)
qed

lemma vbitmap_ext:
  assumes "vbitmap_wf b" and "vbitmap_wf b'" and "\<And>j. j < 64512 \<Longrightarrow> vused b j = vused b' j"
  shows "b = b'"
proof (rule nth_equalityI)
  show "length b = length b'" using assms by (simp add: vbitmap_wf_def)
next
  fix w assume w: "w < length b"
  show "b ! w = b' ! w"
  proof (rule bit_word_eqI)
    fix n assume "n < LENGTH(32)"
    then show "bit (b ! w) n = bit (b' ! w) n"
      using w assms(3) [of "w * 32 + n"] assms(1) by (simp add: vused_def vbitmap_wf_def)
  qed
qed

interpretation vbits: bit_array 64512 vbitmap_wf vused vbitmap_set vbitmap_clear
  by unfold_locales (simp, rule vbitmap_write, assumption+, rule vbitmap_write, assumption+, rule vbitmap_ext, assumption+)

lemma drop_bit_test: "drop_bit n (w :: u32) AND 1 = 0 \<longleftrightarrow> \<not> bit w n"
  by (simp add: and_one_eq mod_2_eq_odd bit_iff_odd_drop_bit)

lemma vbitmap_test_vused:
  assumes "vbitmap_wf bm" and "i < 64512"
  shows "\<exists>t. vbitmap_test (of_nat i) bm = Inr t \<and> (t = 0 \<longleftrightarrow> \<not> vused bm i)"
proof -
  have u: "unat (of_nat i :: u32) = i" using assms(2) by (intro unat_of_nat_u32) simp
  have "unat (of_nat i div 32 :: u32) = i div 32" "unat (of_nat i mod 32 :: u32) = i mod 32"
    by (simp_all add: unat_div unat_mod u)
  then show ?thesis using assms by (simp add: vbitmap_test_def vbitmap_wf_def Let_def drop_bit_test vused_def)
qed

section \<open>Searching a run\<close>

text \<open>The search on the bits one by one, as a reference for the word-wise loops.\<close>

primrec run_scan :: "(nat \<Rightarrow> bool) \<Rightarrow> nat \<Rightarrow> nat \<Rightarrow> nat \<Rightarrow> nat list \<Rightarrow> nat + nat \<times> nat" where
  "run_scan used n c st [] = Inr (c, st)"
| "run_scan used n c st (i # is) =
     (if used i then run_scan used n 0 st is
      else let st' = (if c = 0 then i else st) in
           if Suc c = n then Inl st' else run_scan used n (Suc c) st' is)"

lemma run_scan_append:
  "run_scan used n c st (xs @ ys) =
     (case run_scan used n c st xs of Inl r \<Rightarrow> Inl r | Inr (c', st') \<Rightarrow> run_scan used n c' st' ys)"
  by (induction xs arbitrary: c st) (simp_all add: Let_def)

lemma run_scan_used: "xs \<noteq> [] \<Longrightarrow> (\<And>i. i \<in> set xs \<Longrightarrow> used i) \<Longrightarrow> run_scan used n c st xs = Inr (0, st)"
proof (induction xs arbitrary: c)
  case (Cons x xs)
  then show ?case by (cases "xs = []") simp_all
qed simp

lemma run_scan_bound: "run_scan used n c st xs = Inr (c', st') \<Longrightarrow> c < n \<Longrightarrow> c' < n"
  by (induction xs arbitrary: c st) (auto simp: Let_def split: if_splits)

definition run_at :: "(nat \<Rightarrow> bool) \<Rightarrow> nat \<Rightarrow> nat \<Rightarrow> nat \<Rightarrow> bool" where
  "run_at used n m st \<longleftrightarrow> st + n \<le> m \<and> (\<forall>j. st \<le> j \<and> j < st + n \<longrightarrow> \<not> used j)"

definition first_run_at :: "(nat \<Rightarrow> bool) \<Rightarrow> nat \<Rightarrow> nat \<Rightarrow> nat \<Rightarrow> bool" where
  "first_run_at used n m st \<longleftrightarrow> run_at used n m st \<and> (\<forall>st'. run_at used n m st' \<longrightarrow> st \<le> st')"

lemma first_run_ex: "(\<exists>st. first_run_at used n m st) \<longleftrightarrow> (\<exists>st. run_at used n m st)"
  unfolding first_run_at_def by (metis LeastI Least_le)

lemma run_scan_first:
  assumes "i \<le> m" and "c < n" and "c \<le> i" and "c > 0 \<Longrightarrow> st = i - c" and "\<And>j. i - c \<le> j \<Longrightarrow> j < i \<Longrightarrow> \<not> used j"
    and "\<And>st'. st' + n \<le> m \<Longrightarrow> (\<forall>j. st' \<le> j \<and> j < st' + n \<longrightarrow> \<not> used j) \<Longrightarrow> i - c \<le> st'"
  shows "case run_scan used n c st [i..<m] of
      Inl r \<Rightarrow> first_run_at used n m r
    | Inr _ \<Rightarrow> \<not> (\<exists>st. first_run_at used n m st)"
  using assms
proof (induction "m - i" arbitrary: i c st)
  case 0
  then have "\<not> first_run_at used n m st'" for st' unfolding first_run_at_def run_at_def using 0(6) [of st'] 0(1-4) 0(7) by force
  with 0 show ?case by simp
next
  case (Suc k)
  then have i: "i < m" by simp
  show ?case
  proof (cases "used i")
    case True
    have later: "Suc i \<le> st'" if r: "st' + n \<le> m" "\<forall>j. st' \<le> j \<and> j < st' + n \<longrightarrow> \<not> used j" for st'
    proof (rule ccontr)
      assume "\<not> Suc i \<le> st'"
      moreover have "i - c \<le> st'" using Suc.prems(6) [OF r] .
      ultimately have "st' \<le> i \<and> i < st' + n" using Suc.prems(2,3) by simp
      with r(2) True show False by blast
    qed
    have "case run_scan used n 0 st [Suc i..<m] of Inl r \<Rightarrow> first_run_at used n m r
        | Inr _ \<Rightarrow> \<not> (\<exists>st. first_run_at used n m st)"
      by (rule Suc.hyps(1)) (use Suc.hyps(2) Suc.prems(2) i later in auto)
    then show ?thesis using i True by (simp add: upt_conv_Cons)
  next
    case False
    have st: "(if c = 0 then i else st) = i - c" using Suc.prems(4) by auto
    have run: "\<not> used j" if "i - c \<le> j" "j < Suc i" for j using Suc.prems(5) [of j] that False by (cases "j = i") auto
    show ?thesis
    proof (cases "Suc c = n")
      case True
      then have "first_run_at used n m (i - c)"
        unfolding first_run_at_def run_at_def using run i Suc.prems(3,6) by auto
      then show ?thesis using i False True st by (simp add: upt_conv_Cons)
    next
      case no: False
      have "case run_scan used n (Suc c) (i - c) [Suc i..<m] of Inl r \<Rightarrow> first_run_at used n m r
          | Inr _ \<Rightarrow> \<not> (\<exists>st. first_run_at used n m st)"
        by (rule Suc.hyps(1)) (use Suc.hyps(2) Suc.prems i no run in auto)
      then show ?thesis using i False no st by (simp add: upt_conv_Cons)
    qed
  qed
qed

text \<open>The loops over words and bits compute the reference search.\<close>

lemma scan_bits_run_scan:
  assumes "w < 2016" and "b \<le> 32" and "c < n" and "n < 4294967296"
  shows "scan_bits (of_nat n) bm (of_nat w) (of_nat c) (of_nat st) (map of_nat [b..<32]) =
    map_sum of_nat (map_prod of_nat of_nat) (run_scan (vused bm) n c st [32 * w + b..<32 * w + 32])"
  using assms(2,3)
proof (induction "32 - b" arbitrary: b c st)
  case (Suc k)
  then have b: "b < 32" by simp
  let ?i = "32 * w + b"
  have i: "(of_nat w :: u32) * 32 + of_nat b = of_nat ?i" by (simp add: mult.commute)
  have "\<not> (of_nat ?i :: u32) \<ge> 64512"
    using assms(1) b by (simp add: word_le_nat_alt unat_of_nat_u32 del: of_nat_add of_nat_mult)
  then have ge: "\<not> (of_nat w :: u32) * 32 + of_nat b \<ge> 64512" unfolding i .
  have ub: "unat (of_nat b :: u32) = b" "unat (of_nat w :: u32) = w" using b assms(1) by (auto intro!: unat_of_nat_u32)
  have bit: "bit (bm ! w) b \<longleftrightarrow> vused bm ?i" using b by (simp add: vused_def)
  have c0: "(of_nat c :: u32) = 0 \<longleftrightarrow> c = 0"
    using assms(4) Suc.prems(2) unat_of_nat_u32 [of c] by (auto simp: unat_eq_zero [symmetric])
  have cn: "(of_nat c :: u32) + 1 = of_nat n \<longleftrightarrow> Suc c = n"
  proof -
    have "unat (of_nat (Suc c) :: u32) = Suc c" "unat (of_nat n :: u32) = n"
      by (rule unat_of_nat_u32, use assms(4) Suc.prems(2) in simp)+
    then show ?thesis by (metis of_nat_Suc add.commute)
  qed
  have suc: "[?i..<32 * w + 32] = ?i # [32 * w + Suc b..<32 * w + 32]" "[b..<32] = b # [Suc b..<32]"
    using b by (simp_all add: upt_conv_Cons)
  note IH = Suc.hyps(1) [of "Suc b"]
  have c1: "(of_nat c :: u32) + 1 = of_nat (Suc c)" by (simp add: add.commute)
  show ?case
  proof (cases "vused bm ?i")
    case True
    have "scan_bits (of_nat n) bm (of_nat w) (of_nat 0) (of_nat st) (map of_nat [Suc b..<32]) =
        map_sum of_nat (map_prod of_nat of_nat) (run_scan (vused bm) n 0 st [32 * w + Suc b..<32 * w + 32])"
      using Suc.hyps(2) Suc.prems b by (intro IH) auto
    then show ?thesis unfolding suc using ge True bit ub by (simp add: Let_def drop_bit_test)
  next
    case False
    show ?thesis
    proof (cases "Suc c = n")
      case True
      then show ?thesis unfolding suc using ge False bit ub c0 cn by (simp add: Let_def drop_bit_test mult.commute)
    next
      case no: False
      have "scan_bits (of_nat n) bm (of_nat w) (of_nat (Suc c)) (of_nat (if c = 0 then ?i else st)) (map of_nat [Suc b..<32]) =
        map_sum of_nat (map_prod of_nat of_nat) (run_scan (vused bm) n (Suc c) (if c = 0 then ?i else st) [32 * w + Suc b..<32 * w + 32])"
        using Suc.hyps(2) Suc.prems no b by (intro IH) auto
      then show ?thesis unfolding suc using ge False no bit ub c0 cn
        by (cases "c = 0") (simp_all add: Let_def drop_bit_test c1 add.commute mult.commute)
    qed
  qed
qed simp

lemma scan_words_run_scan:
  assumes "w \<le> 2016" and "c < n" and "n < 4294967296"
  shows "scan_words (of_nat n) bm (of_nat c) (of_nat st) (map of_nat [w..<2016]) =
    (case run_scan (vused bm) n c st [32 * w..<64512] of Inl r \<Rightarrow> Some (of_nat r) | Inr _ \<Rightarrow> None)"
  using assms(1,2)
proof (induction "2016 - w" arbitrary: w c st)
  case (Suc k)
  then have w: "w < 2016" by simp
  have uw: "unat (of_nat w :: u32) = w" using w by (intro unat_of_nat_u32) simp
  have split: "[32 * w..<64512] = [32 * w..<32 * w + 32] @ [32 * Suc w..<64512]"
    using w upt_add_eq_append [of "32 * w" "32 * w + 32" "64480 - 32 * w"] by (simp add: add.commute)
  have cons: "map of_nat [w..<2016] = (of_nat w :: u32) # map of_nat [Suc w..<2016]" using w by (simp add: upt_conv_Cons)
  note IH = Suc.hyps(1) [of "Suc w"]
  note bits = scan_bits_run_scan [OF w, of 0 c n bm st, OF _ Suc.prems(2) assms(3)]
  show ?case
  proof (cases "bm ! w = 0xFFFFFFFF")
    case True
    have "vused bm i" if "i \<in> set [32 * w..<32 * w + 32]" for i
    proof -
      have "i div 32 = w" "i mod 32 < 32" using that by auto
      then show ?thesis using True all_ones_bit [of "bm ! w"] by (simp add: vused_def)
    qed
    then have "run_scan (vused bm) n c st [32 * w..<32 * w + 32] = Inr (0, st)" by (intro run_scan_used) simp_all
    then show ?thesis unfolding split cons using True uw IH [of 0 st] Suc.hyps(2) w Suc.prems(2)
      by (simp add: run_scan_append)
  next
    case False
    show ?thesis
    proof (cases "run_scan (vused bm) n c st [32 * w..<32 * w + 32]")
      case (Inl r)
      then show ?thesis unfolding split cons using False uw bits
        by (simp add: run_scan_append u32_range_consts)
    next
      case (Inr x)
      obtain c' st' where x: "x = (c', st')" by (cases x)
      have "c' < n" using run_scan_bound Inr x Suc.prems(2) by metis
      then show ?thesis unfolding split cons using False uw bits Inr x IH [of c' st'] Suc.hyps(2) w
        by (simp add: run_scan_append u32_range_consts)
    qed
  qed
qed simp

lemma vmalloc_search:
  assumes "npages \<noteq> 0"
  shows "case scan_words npages bm 0 0 (u32_range 0 2016) of
      Some r \<Rightarrow> \<exists>st. r = of_nat st \<and> first_run_at (vused bm) (unat npages) 64512 st
    | None \<Rightarrow> \<not> (\<exists>st. run_at (vused bm) (unat npages) 64512 st)"
proof -
  have n: "0 < unat npages" "unat npages < 4294967296" using assms unat_lt_u32 by (simp_all add: unat_gt_0)
  have "u32_range 0 2016 = map of_nat [0..<2016]" by (simp add: u32_range_def)
  then have "scan_words npages bm 0 0 (u32_range 0 2016) =
      (case run_scan (vused bm) (unat npages) 0 0 [0..<64512] of Inl r \<Rightarrow> Some (of_nat r) | Inr _ \<Rightarrow> None)"
    using scan_words_run_scan [OF _ n, of 0 bm 0] by simp
  moreover have "case run_scan (vused bm) (unat npages) 0 0 [0..<64512] of
      Inl r \<Rightarrow> first_run_at (vused bm) (unat npages) 64512 r | Inr _ \<Rightarrow> \<not> (\<exists>st. first_run_at (vused bm) (unat npages) 64512 st)"
    by (rule run_scan_first) (use n in auto)
  ultimately show ?thesis by (auto simp: first_run_ex split: sum.splits)
qed

section \<open>The zone as a set of areas\<close>

definition vpage :: "nat \<Rightarrow> u32" where
  "vpage i = 0xF0000000 + of_nat i * 4096"

lemma vpage:
  assumes "i < 64512"
  shows "unat (vpage i) = 4026531840 + i * 4096" "kernel_page (vpage i)"
    "vpage i < KCPOOL_VIRT_BASE \<or> KCPOOL_VIRT_MAX < vpage i"
proof -
  have m: "unat (of_nat i * 4096 :: u32) = i * 4096"
    using assms by (simp add: unat_word_ariths unat_of_nat_u32)
  show u: "unat (vpage i) = 4026531840 + i * 4096"
    using assms m by (simp add: vpage_def unat_word_ariths)
  have "unat (vpage i) = 4096 * (983040 + i)" unfolding u by simp
  then have "unat (vpage i) mod 4096 = 0" by (simp only: mod_mult_self1_is_0)
  then show "kernel_page (vpage i)" unfolding kernel_page_def page_aligned_iff word_le_nat_alt word_less_nat_alt
    using assms u by simp
  show "vpage i < KCPOOL_VIRT_BASE \<or> KCPOOL_VIRT_MAX < vpage i" using u by (simp add: word_less_nat_alt)
qed

lemma vpage_inj: "i < 64512 \<Longrightarrow> j < 64512 \<Longrightarrow> vpage i = vpage j \<longleftrightarrow> i = j"
proof
  assume "i < 64512" "j < 64512" "vpage i = vpage j"
  then have "4026531840 + i * 4096 = 4026531840 + j * 4096" by (simp only: vpage(1) [symmetric])
  then show "i = j" by simp
qed simp

definition vnodes :: "vzone \<Rightarrow> u32 set" where
  "vnodes v = {a. \<exists>ns. flist (\<lambda>p. map_option rnext (regions v p)) (region_list v) ns \<and> a \<in> set ns}"

definition area :: "vmalloc_region \<Rightarrow> nat \<times> nat" where
  "area r = (unat (rstart r), unat (rnpages r))"

definition areas :: "vzone \<Rightarrow> (nat \<times> nat) set" where
  "areas v = {area r |a r. a \<in> vnodes v \<and> regions v a = Some r}"

definition span :: "nat \<times> nat \<Rightarrow> nat set" where
  "span x = {fst x..<fst x + snd x}"

definition areas_disjoint :: "vzone \<Rightarrow> bool" where
  "areas_disjoint v \<longleftrightarrow> (\<forall>a b r r'. a \<in> vnodes v \<and> b \<in> vnodes v \<and> a \<noteq> b \<and> regions v a = Some r \<and> regions v b = Some r' \<longrightarrow>
     span (area r) \<inter> span (area r') = {})"

definition zone_ok :: "vzone \<Rightarrow> bool" where
  "zone_ok v \<longleftrightarrow> vbitmap_wf (vbitmap v) \<and>
     (\<exists>ns. flist (\<lambda>p. map_option rnext (regions v p)) (region_list v) ns) \<and>
     (\<forall>x\<in>areas v. 0 < snd x \<and> fst x + snd x \<le> 64512) \<and> areas_disjoint v \<and>
     (\<forall>i<64512. vused (vbitmap v) i \<longleftrightarrow> i \<in> \<Union> (span ` areas v))"

definition vz_inv :: "vzone \<Rightarrow> kpool \<Rightarrow> mm \<Rightarrow> bool" where
  "vz_inv v kp s \<longleftrightarrow> zone_ok v \<and> pool_inv kp s \<and> vnodes v \<subseteq> live kp \<and>
     (\<forall>i<64512. vpage i \<in> mapped_pages s \<longleftrightarrow> vused (vbitmap v) i)"

text \<open>The part of the invariant that the region list determines, for a given list of nodes.\<close>

lemma vnodes_list:
  assumes "flist (\<lambda>p. map_option rnext (regions v p)) (region_list v) ns"
  shows "vnodes v = set ns"
  using assms flist_unique unfolding vnodes_def by blast

text \<open>Pages of the zone are not pages of the pool, so the pool does not notice them.\<close>

lemma vpage_outside: "i < 64512 \<Longrightarrow> vpage i \<in> mapped_pages s \<longleftrightarrow> vpage i \<in> mapped_pages s - zone_pages s"
  using vpage(3) [of i] by (auto simp: zone_pages_def)

lemma vpage_image: "i < 64512 \<Longrightarrow> hi \<le> 64512 \<Longrightarrow> vpage i \<in> vpage ` {lo..<hi} \<longleftrightarrow> i \<in> {lo..<hi}"
proof
  assume i: "i < 64512" "hi \<le> 64512" "vpage i \<in> vpage ` {lo..<hi}"
  then obtain j where "j \<in> {lo..<hi}" "vpage i = vpage j" by blast
  then show "i \<in> {lo..<hi}" using vpage_inj [of i j] i by simp
qed simp

lemma zone_pages_vpages:
  assumes "hi \<le> 64512" and "\<And>x. x \<notin> vpage ` {lo..<hi} \<Longrightarrow> x \<in> mapped_pages s' \<longleftrightarrow> x \<in> mapped_pages s"
  shows "zone_pages s' = zone_pages s"
proof -
  have "x \<notin> vpage ` {lo..<hi}" if "KCPOOL_VIRT_BASE \<le> x" "x \<le> KCPOOL_VIRT_MAX" for x
  proof
    assume "x \<in> vpage ` {lo..<hi}"
    then obtain i where "i \<in> {lo..<hi}" "x = vpage i" by blast
    then show False using vpage(3) [of i] assms(1) that by auto
  qed
  with assms(2) show ?thesis unfolding zone_pages_def by blast
qed

lemma for_each_invariant_panic:
  assumes "P lo s" and "lo \<le> hi"
    and "\<And>i s. lo \<le> i \<Longrightarrow> i < hi \<Longrightarrow> P i s \<Longrightarrow> f i s = Inl e \<and> Q \<or> (\<exists>s'. f i s = Inr s' \<and> P (Suc i) s')"
  shows "for_each f [lo..<hi] s = Inl e \<and> Q \<or> (\<exists>s'. for_each f [lo..<hi] s = Inr s' \<and> P hi s')"
  using assms
proof (induction "hi - lo" arbitrary: lo s)
  case (Suc n)
  then have lt: "lo < hi" by simp
  then have cons: "[lo..<hi] = lo # [Suc lo..<hi]" by (simp add: upt_conv_Cons)
  show ?case
  proof (cases "f lo s")
    case (Inl e')
    then show ?thesis using Suc.prems(3) [of lo s] Suc.prems(1) lt cons by auto
  next
    case (Inr s')
    have "for_each f [Suc lo..<hi] s' = Inl e \<and> Q \<or> (\<exists>s''. for_each f [Suc lo..<hi] s' = Inr s'' \<and> P hi s'')"
    proof (rule Suc.hyps(1))
      show "P (Suc lo) s'" using Suc.prems(3) [of lo s] Suc.prems(1) lt Inr by auto
      show "f i s = Inl e \<and> Q \<or> (\<exists>s'. f i s = Inr s' \<and> P (Suc i) s')" if "Suc lo \<le> i" "i < hi" "P i s" for i s
        using Suc.prems(3) [of i s] that by simp
    qed (use Suc.hyps(2) lt in simp_all)
    then show ?thesis unfolding cons using Inr by simp
  qed
qed simp

lemma map_vpages:
  assumes "page_inv s" and "vbitmap_wf bm" and "lo \<le> hi" and "hi \<le> 64512"
    and "\<And>i. lo \<le> i \<Longrightarrow> i < hi \<Longrightarrow> vpage i \<notin> mapped_pages s"
  shows "for_each map_vpage (map of_nat [lo..<hi]) (bm, s) = Inl (Kpanic ''vmalloc: alloc_page failed'') \<and>
      card (free_frames (frame_bitmap s)) < 2 * (hi - lo) \<or>
    (\<exists>bm' s'. for_each map_vpage (map of_nat [lo..<hi]) (bm, s) = Inr (bm', s') \<and> page_inv s' \<and> vbitmap_wf bm' \<and>
       mapped_pages s' = mapped_pages s \<union> vpage ` {lo..<hi} \<and>
       (\<forall>j<64512. vused bm' j \<longleftrightarrow> j \<in> {lo..<hi} \<or> vused bm j))"
proof -
  let ?F = "\<lambda>s. card (free_frames (frame_bitmap s))"
  let ?P = "\<lambda>i (bm', s'). page_inv s' \<and> vbitmap_wf bm' \<and> mapped_pages s' = mapped_pages s \<union> vpage ` {lo..<i} \<and>
       (\<forall>j<64512. vused bm' j \<longleftrightarrow> j \<in> {lo..<i} \<or> vused bm j) \<and> ?F s \<le> ?F s' + 2 * (i - lo)"
  have "for_each (\<lambda>i. map_vpage (of_nat i)) [lo..<hi] (bm, s) = Inl (Kpanic ''vmalloc: alloc_page failed'') \<and> ?F s < 2 * (hi - lo) \<or>
      (\<exists>x. for_each (\<lambda>i. map_vpage (of_nat i)) [lo..<hi] (bm, s) = Inr x \<and> ?P hi x)"
  proof (rule for_each_invariant_panic)
    fix i x assume i: "lo \<le> i" "i < hi" and P: "?P i x"
    obtain bm1 s1 where x: "x = (bm1, s1)" by (cases x)
    have i2: "i < 64512" using i assms(4) by simp
    have u: "unat (of_nat i :: u32) = i" using i2 by (intro unat_of_nat_u32) simp
    have "vpage i \<notin> vpage ` {lo..<i}" using vpage_inj i2 by fastforce
    then have new: "vpage i \<notin> mapped_pages s1" using P x assms(5) [OF i] by auto
    have va: "VMALLOC_BASE + of_nat i * PAGE_SIZE = vpage i" by (simp add: vpage_def)
    obtain bm2 where bm2: "vbitmap_set (of_nat i) bm1 = Inr bm2" "vbitmap_wf bm2"
        "\<forall>j<64512. vused bm2 j \<longleftrightarrow> j = i \<or> vused bm1 j"
      using vbits.set_ok [of bm1 "of_nat i"] P x i2 u by auto
    have pinv: "page_inv s1" using P x by simp
    from pinv vpage(2) [OF i2] new
    show "map_vpage (of_nat i) x = Inl (Kpanic ''vmalloc: alloc_page failed'') \<and> ?F s < 2 * (hi - lo) \<or>
        (\<exists>x'. map_vpage (of_nat i) x = Inr x' \<and> ?P (Suc i) x')"
    proof (cases rule: kpages.alloc_cases [of s1 "vpage i" "PAGE_PRESENT OR PAGE_RW"])
      case fail
      moreover have "?F s < 2 * (hi - lo)" using fail(2) P x i by auto
      ultimately show ?thesis using va x by (simp add: map_vpage_def)
    next
      case (ok s2)
      have step: "map_vpage (of_nat i) x = Inr (bm2, s2)" using ok(1,2) va x bm2(1) by (simp add: map_vpage_def)
      have "{lo..<Suc i} = insert i {lo..<i}" using i by auto
      moreover have "?F s \<le> ?F s2 + 2 * (Suc i - lo)" using P x ok(6) i(1) by (simp add: Suc_diff_le)
      ultimately have "?P (Suc i) (bm2, s2)" using ok(3,4) bm2(2,3) P x by auto
      with step show ?thesis by blast
    qed
  qed (use assms in auto)
  then show ?thesis by (auto simp: for_each_map)
qed

lemma unmap_vpages:
  assumes "page_inv s" and "vbitmap_wf bm" and "st + n \<le> 64512"
    and "\<And>i. st \<le> i \<Longrightarrow> i < st + n \<Longrightarrow> vpage i \<in> mapped_pages s"
  shows "\<exists>bm' s'. for_each (unmap_vpage (of_nat st)) (map of_nat [0..<n]) (bm, s) = Inr (bm', s') \<and> page_inv s' \<and>
       vbitmap_wf bm' \<and> mapped_pages s' = mapped_pages s - vpage ` {st..<st + n} \<and>
       (\<forall>j<64512. vused bm' j \<longleftrightarrow> j \<notin> {st..<st + n} \<and> vused bm j)"
proof -
  let ?P = "\<lambda>i (bm', s'). page_inv s' \<and> vbitmap_wf bm' \<and> mapped_pages s' = mapped_pages s - vpage ` {st..<st + i} \<and>
       (\<forall>j<64512. vused bm' j \<longleftrightarrow> j \<notin> {st..<st + i} \<and> vused bm j)"
  have "\<exists>x. for_each (\<lambda>i. unmap_vpage (of_nat st) (of_nat i)) [0..<n] (bm, s) = Inr x \<and> ?P n x"
  proof (rule for_each_invariant)
    fix i x assume i: "i < n" and P: "?P i x"
    obtain bm1 s1 where x: "x = (bm1, s1)" by (cases x)
    have i2: "st + i < 64512" using i assms(3) by simp
    have u: "unat (of_nat (st + i) :: u32) = st + i" using i2 by (intro unat_of_nat_u32) simp
    have "vpage (st + i) \<notin> vpage ` {st..<st + i}" using vpage_inj i2 by fastforce
    then have old: "vpage (st + i) \<in> mapped_pages s1" using P x assms(4) [of "st + i"] i by auto
    have va: "VMALLOC_BASE + (of_nat st + of_nat i) * PAGE_SIZE = vpage (st + i)" by (simp add: vpage_def)
    obtain bm2 where bm2: "vbitmap_clear (of_nat st + of_nat i) bm1 = Inr bm2" "vbitmap_wf bm2"
        "\<forall>j<64512. vused bm2 j \<longleftrightarrow> j \<noteq> st + i \<and> vused bm1 j"
      using vbits.clr_ok [of bm1 "of_nat (st + i)"] P x i2 u by auto
    obtain s2 where s2: "free_page (vpage (st + i)) s1 = Inr s2" "page_inv s2" "mapped_pages s2 = mapped_pages s1 - {vpage (st + i)}"
      using kpages.release_mapped [of s1 "vpage (st + i)"] P x old by auto
    have "unmap_vpage (of_nat st) (of_nat i) x = Inr (bm2, s2)" unfolding unmap_vpage_def x using bm2(1) s2(1) va by simp
    moreover have "{st..<st + Suc i} = insert (st + i) {st..<st + i}" by auto
    then have "?P (Suc i) (bm2, s2)" using s2(2,3) bm2(2,3) P x by auto
    ultimately show "\<exists>x'. unmap_vpage (of_nat st) (of_nat i) x = Inr x' \<and> ?P (Suc i) x'" by blast
  qed (use assms in auto)
  then show ?thesis by (auto simp: for_each_map)
qed

section \<open>Adding and removing an area\<close>

lemma vz_invD:
  assumes "vz_inv v kp s"
  shows "vbitmap_wf (vbitmap v)" "pool_inv kp s" "\<exists>ns. flist (\<lambda>p. map_option rnext (regions v p)) (region_list v) ns"
    "vnodes v \<subseteq> live kp" "x \<in> areas v \<Longrightarrow> 0 < snd x \<and> fst x + snd x \<le> 64512" "areas_disjoint v"
    "i < 64512 \<Longrightarrow> vused (vbitmap v) i \<longleftrightarrow> i \<in> \<Union> (span ` areas v)"
    "i < 64512 \<Longrightarrow> vpage i \<in> mapped_pages s \<longleftrightarrow> vused (vbitmap v) i" "page_inv s" "zone_ok v"
proof -
  show z: "zone_ok v" and "pool_inv kp s" "vnodes v \<subseteq> live kp" using assms by (simp_all add: vz_inv_def)
  then show "page_inv s" by (simp add: pool_inv_def)
  show "i < 64512 \<Longrightarrow> vpage i \<in> mapped_pages s \<longleftrightarrow> vused (vbitmap v) i" using assms by (simp add: vz_inv_def)
  show "vbitmap_wf (vbitmap v)" "\<exists>ns. flist (\<lambda>p. map_option rnext (regions v p)) (region_list v) ns"
    "x \<in> areas v \<Longrightarrow> 0 < snd x \<and> fst x + snd x \<le> 64512" "areas_disjoint v"
    "i < 64512 \<Longrightarrow> vused (vbitmap v) i \<longleftrightarrow> i \<in> \<Union> (span ` areas v)"
    using z by (simp_all add: zone_ok_def)
qed

lemma areasI: "a \<in> vnodes v \<Longrightarrow> regions v a = Some r \<Longrightarrow> area r \<in> areas v"
  by (auto simp: areas_def)

text \<open>The zone does not depend on the part of the pool and of the address space it does not use.\<close>

lemma vz_inv_pool:
  assumes "vz_inv v kp s" and "pool_inv kp' s'" and "live kp \<subseteq> live kp'"
    and "mapped_pages s' - zone_pages s' = mapped_pages s - zone_pages s"
  shows "vz_inv v kp' s'"
proof -
  have "vpage i \<in> mapped_pages s' \<longleftrightarrow> vpage i \<in> mapped_pages s" if "i < 64512" for i
    using vpage_outside [OF that] assms(4) by metis
  then show ?thesis using assms(1-3) by (auto simp: vz_inv_def)
qed

lemma add_area:
  assumes inv: "vz_inv v kp s" and p: "p \<in> live kp" "p \<noteq> 0" "p \<notin> vnodes v" and np: "npages \<noteq> 0"
    and run: "run_at (vused (vbitmap v)) (unat npages) 64512 st"
    and new: "pool_inv kp s'" "vbitmap_wf bm'" "mapped_pages s' = mapped_pages s \<union> vpage ` {st..<st + unat npages}"
      "\<And>j. j < 64512 \<Longrightarrow> vused bm' j \<longleftrightarrow> j \<in> {st..<st + unat npages} \<or> vused (vbitmap v) j"
    and v': "v' = v\<lparr>vbitmap := bm', regions := (regions v)(p \<mapsto> \<lparr>rstart = of_nat st, rnpages = npages, rnext = region_list v\<rparr>),
               region_list := p\<rparr>"
  shows "vz_inv v' kp s' \<and> areas v' = insert (st, unat npages) (areas v) \<and> vnodes v' = insert p (vnodes v)"
proof -
  let ?r = "\<lparr>rstart = of_nat st, rnpages = npages, rnext = region_list v\<rparr>"
  have n: "0 < unat npages" "st + unat npages \<le> 64512" using np run by (simp_all add: unat_gt_0 run_at_def)
  have ar: "area ?r = (st, unat npages)" using n by (simp add: area_def unat_of_nat_u32)
  obtain ns where ns: "flist (\<lambda>p. map_option rnext (regions v p)) (region_list v) ns" using vz_invD(3) [OF inv] by blast
  note nodes = vnodes_list [OF ns]
  have reg: "regions v' = (regions v)(p \<mapsto> ?r)" "region_list v' = p" "vbitmap v' = bm'" by (simp_all add: v')
  have "map_option rnext (regions v' q) = map_option rnext (regions v q)" if "q \<in> set ns" for q
    using that p(3) nodes by (auto simp: reg)
  then have "flist (\<lambda>q. map_option rnext (regions v' q)) (region_list v) ns"
    using ns by (subst flist_cong [where l' = "\<lambda>q. map_option rnext (regions v q)"])
  then have fl': "flist (\<lambda>q. map_option rnext (regions v' q)) (region_list v') (p # ns)" using p(2) by (simp add: reg)
  have nodes': "vnodes v' = insert p (vnodes v)" using vnodes_list [OF fl'] nodes by simp
  have areas': "areas v' = insert (st, unat npages) (areas v)"
    unfolding areas_def nodes' using p(3) ar by (auto simp: reg)
  have free: "span x \<inter> {st..<st + unat npages} = {}" if "x \<in> areas v" for x
  proof -
    have "i \<notin> span x" if "i \<in> {st..<st + unat npages}" for i
      using run that \<open>x \<in> areas v\<close> vz_invD(7) [OF inv, of i] n(2) by (auto simp: run_at_def)
    then show ?thesis by blast
  qed
  have sp: "span (st, unat npages) = {st..<st + unat npages}" by (simp add: span_def)
  have disj: "areas_disjoint v'"
    unfolding areas_disjoint_def
  proof (intro allI impI, elim conjE)
    fix a b r r' assume ab: "a \<in> vnodes v'" "b \<in> vnodes v'" "a \<noteq> b" "regions v' a = Some r" "regions v' b = Some r'"
    consider "a = p" "b \<in> vnodes v" | "b = p" "a \<in> vnodes v" | "a \<noteq> p" "b \<noteq> p" using ab(1-3) nodes' by auto
    then show "span (area r) \<inter> span (area r') = {}"
    proof cases
      case 1
      then have "area r = (st, unat npages)" "area r' \<in> areas v" using ab p(3) areasI ar by (auto simp: reg)
      then show ?thesis using free [of "area r'"] sp by (simp add: Int_commute)
    next
      case 2
      then have "area r' = (st, unat npages)" "area r \<in> areas v" using ab p(3) areasI ar by (auto simp: reg)
      then show ?thesis using free [of "area r"] sp by simp
    next
      case 3
      then show ?thesis using ab nodes' vz_invD(6) [OF inv] unfolding areas_disjoint_def by (simp add: reg)
    qed
  qed
  have bits: "vused bm' i \<longleftrightarrow> i \<in> \<Union> (span ` areas v')" if "i < 64512" for i
    using new(4) [OF that] vz_invD(7) [OF inv that] by (simp add: areas' sp)
  have pages: "vpage i \<in> mapped_pages s' \<longleftrightarrow> vused bm' i" if i: "i < 64512" for i
  proof -
    show ?thesis using vpage_image [OF i n(2), of st] new(3) new(4) [OF i] vz_invD(8) [OF inv i] by blast
  qed
  have "\<forall>x\<in>areas v'. 0 < snd x \<and> fst x + snd x \<le> 64512" using vz_invD(5) [OF inv] n areas' by auto
  then have "zone_ok v'" unfolding zone_ok_def reg(3) using new(2) fl' disj bits by blast
  moreover have "vnodes v' \<subseteq> live kp" using vz_invD(4) [OF inv] p(1) nodes' by simp
  ultimately have "vz_inv v' kp s'" using new(1) pages by (simp add: vz_inv_def reg(3))
  with areas' nodes' show ?thesis by blast
qed

lemma vmalloc_spec:
  assumes inv: "vz_inv v kp s" and np: "npages \<noteq> 0"
  shows "(\<exists>msg. vmalloc npages v kp s = Inl (Kpanic msg)) \<and>
      (cpool_vptr kp = 0xEEFFF000 \<or> card (free_frames (frame_bitmap s)) < 2 + 2 * unat npages) \<or>
    (\<exists>v' kp' s'. vmalloc npages v kp s = Inr (0, v', kp', s') \<and> v' = v \<and> vz_inv v kp' s' \<and> live kp' = live kp \<and>
       \<not> (\<exists>st. run_at (vused (vbitmap v)) (unat npages) 64512 st)) \<or>
    (\<exists>st v' kp' s'. vmalloc npages v kp s = Inr (vpage st, v', kp', s') \<and> vz_inv v' kp' s' \<and>
       first_run_at (vused (vbitmap v)) (unat npages) 64512 st \<and> areas v' = insert (st, unat npages) (areas v))"
proof -
  note pinv = vz_invD(2) [OF inv] and search = vmalloc_search [OF np, of "vbitmap v"]
  have "(0 :: u32) < 12" "(12 :: u32) \<le> 256" by simp_all
  with pinv show ?thesis
  proof (cases rule: pool.alloc_object_cases [of kp s 12])
    case (panic msg)
    then show ?thesis using np by (auto simp: vmalloc_def pool_exhausted_def)
  next
    case (ok p kp1 s1)
    have inv1: "vz_inv v kp1 s1" using vz_inv_pool [OF inv ok(3)] ok(5,6) by auto
    have pn: "p \<notin> vnodes v" "p \<in> live kp1" using vz_invD(4) [OF inv] ok(4,5) by auto
    show ?thesis
    proof (cases "scan_words npages (vbitmap v) 0 0 (u32_range 0 2016)")
      case None
      obtain kp2 s2 where k2: "kfree p kp1 s1 = Inr (kp2, s2)" "pool_inv kp2 s2" "live kp2 = live kp"
          "mapped_pages s2 - zone_pages s2 = mapped_pages s - zone_pages s"
        using pool.alloc_release [OF pinv _ _ ok(1)] by auto
      have "vmalloc npages v kp s = Inr (0, v, kp2, s2)" using np ok(1,2) None k2(1) by (simp add: vmalloc_def)
      moreover have "vz_inv v kp2 s2" using vz_inv_pool [OF inv k2(2)] k2(3,4) by simp
      ultimately show ?thesis using search None k2(3) by auto
    next
      case (Some r)
      with search obtain st where st: "r = of_nat st" "first_run_at (vused (vbitmap v)) (unat npages) 64512 st" by auto
      then have run: "run_at (vused (vbitmap v)) (unat npages) 64512 st" by (simp add: first_run_at_def)
      have le: "st + unat npages \<le> 64512" using run by (simp add: run_at_def)
      have rng: "u32_range r (r + npages) = map of_nat [st..<st + unat npages]"
      proof -
        have "r + npages = of_nat (st + unat npages)" by (simp add: st)
        then show ?thesis unfolding st(1) using le by (simp only: u32_range_of_nat)
      qed
      have unmapped: "vpage i \<notin> mapped_pages s1" if "st \<le> i" "i < st + unat npages" for i
        using vz_invD(8) [OF inv1, of i] run that le by (simp add: run_at_def)
      have loop: "for_each map_vpage (map of_nat [st..<st + unat npages]) (vbitmap v, s1) = Inl (Kpanic ''vmalloc: alloc_page failed'') \<and>
            card (free_frames (frame_bitmap s1)) < 2 * (st + unat npages - st) \<or>
          (\<exists>bm' s'. for_each map_vpage (map of_nat [st..<st + unat npages]) (vbitmap v, s1) = Inr (bm', s') \<and> page_inv s' \<and>
             vbitmap_wf bm' \<and> mapped_pages s' = mapped_pages s1 \<union> vpage ` {st..<st + unat npages} \<and>
             (\<forall>j<64512. vused bm' j \<longleftrightarrow> j \<in> {st..<st + unat npages} \<or> vused (vbitmap v) j))"
        by (rule map_vpages [OF vz_invD(9,1) [OF inv1] _ le]) (use unmapped in simp_all)
      then show ?thesis
      proof (elim disjE exE conjE)
        assume e: "for_each map_vpage (map of_nat [st..<st + unat npages]) (vbitmap v, s1) = Inl (Kpanic ''vmalloc: alloc_page failed'')"
          "card (free_frames (frame_bitmap s1)) < 2 * (st + unat npages - st)"
        then have "card (free_frames (frame_bitmap s)) < 2 + 2 * unat npages" using ok(7) by simp
        then show ?thesis using np ok(1,2) Some rng e(1) by (simp add: vmalloc_def)
      next
        fix bm' s'
        assume m: "for_each map_vpage (map of_nat [st..<st + unat npages]) (vbitmap v, s1) = Inr (bm', s')"
          "page_inv s'" "vbitmap_wf bm'" "mapped_pages s' = mapped_pages s1 \<union> vpage ` {st..<st + unat npages}"
          "\<forall>j<64512. vused bm' j \<longleftrightarrow> j \<in> {st..<st + unat npages} \<or> vused (vbitmap v) j"
        define v' where "v' = v\<lparr>vbitmap := bm', regions := (regions v)(p \<mapsto> \<lparr>rstart = of_nat st, rnpages = npages, rnext = region_list v\<rparr>),
               region_list := p\<rparr>"
        have "zone_pages s' = zone_pages s1"
          by (rule zone_pages_vpages [OF le, of st]) (use m(4) in blast)
        then have p1: "pool_inv kp1 s'" by (rule pool_inv_frame [OF ok(3) m(2)])
        have "vz_inv v' kp1 s' \<and> areas v' = insert (st, unat npages) (areas v) \<and> vnodes v' = insert p (vnodes v)"
          by (rule add_area [OF inv1 pn(2) ok(2) pn(1) np run p1 m(3,4) _ v'_def]) (use m(5) in blast)
        moreover have "vmalloc npages v kp s = Inr (vpage st, v', kp1, s')"
          using np ok(1,2) Some rng m(1) by (simp add: vmalloc_def v'_def vpage_def st(1))
        ultimately show ?thesis using st(2) by blast
      qed
    qed
  qed
qed

text \<open>The walk of \<open>vfree\<close> finds the node of an area, with its predecessor.\<close>

lemma find_region_spec:
  assumes "flist (\<lambda>p. map_option rnext (regions v p)) cur (us @ a # ws)" and "regions v a = Some r" and "rstart r = idx"
    and "\<And>b r'. b \<in> set us \<Longrightarrow> regions v b = Some r' \<Longrightarrow> rstart r' \<noteq> idx"
  shows "find_region idx v prev cur = Some (Inr (if us = [] then prev else last us, a))"
  using assms(1,4)
proof (induction us arbitrary: prev cur)
  case Nil
  then show ?case using assms(2,3) by (subst find_region.simps) simp
next
  case (Cons u us)
  then obtain ru where ru: "cur = u" "u \<noteq> 0" "regions v u = Some ru"
    "flist (\<lambda>p. map_option rnext (regions v p)) (rnext ru) (us @ a # ws)" by auto
  have "rstart ru \<noteq> idx" using Cons.prems(2) [of u ru] ru by simp
  then have "find_region idx v prev cur = find_region idx v u (rnext ru)" using ru by (subst find_region.simps) simp
  also have "\<dots> = Some (Inr (if us = [] then u else last us, a))" using Cons.prems(2) by (intro Cons.IH [OF ru(4)]) auto
  finally show ?case by simp
qed

lemma flist_drop:
  assumes "flist l p (us @ a # ws)" and "l a = Some q"
  shows "if us = [] then flist l q ws else flist (l(last us \<mapsto> q)) p (us @ ws)"
  using assms(1)
proof (induction us arbitrary: p)
  case Nil
  then show ?case using assms(2) by simp
next
  case (Cons u us)
  from Cons.prems obtain x where x: "p = u" "u \<noteq> 0" "l u = Some x" "flist l x (us @ a # ws)" by auto
  have dst: "distinct (u # us @ a # ws)" using flist_distinct [OF Cons.prems] by simp
  show ?case
  proof (cases "us = []")
    case True
    then have "flist l q ws" using x(4) assms(2) by auto
    moreover have "u \<notin> set ws" using dst by simp
    ultimately have "flist (l(u \<mapsto> q)) q ws" by (subst flist_cong [where l' = l]) auto
    then show ?thesis using True x by simp
  next
    case False
    then have "u \<noteq> last us" using dst by (metis Un_iff distinct.simps(2) last_in_set set_append)
    then show ?thesis using Cons.IH [OF x(4)] False x by simp
  qed
qed

lemma unlink_spec:
  assumes ns: "flist (\<lambda>p. map_option rnext (regions v p)) (region_list v) (us @ a # ws)" and r: "regions v a = Some r"
  shows "\<exists>v1. unlink_region (if us = [] then 0 else last us) r v = Inr v1 \<and> vbitmap v1 = vbitmap v \<and>
    flist (\<lambda>p. map_option rnext (regions v1 p)) (region_list v1) (us @ ws) \<and>
    (\<forall>x. map_option area (regions v1 x) = map_option area (regions v x))"
proof (cases "us = []")
  case True
  then show ?thesis using flist_drop [OF ns, of "rnext r"] r by (simp add: unlink_region_def)
next
  case False
  let ?u = "last us"
  have u: "?u \<in> set (us @ a # ws)" using False by simp
  then have "?u \<noteq> 0 \<and> (\<lambda>p. map_option rnext (regions v p)) ?u \<noteq> None" using ns unfolding flist_chain by blast
  then obtain ru where ru: "?u \<noteq> 0" "regions v ?u = Some ru" by auto
  define v1 where "v1 = v\<lparr>regions := (regions v)(?u \<mapsto> ru\<lparr>rnext := rnext r\<rparr>)\<rparr>"
  have "(\<lambda>p. map_option rnext (regions v1 p)) = (\<lambda>p. map_option rnext (regions v p))(?u \<mapsto> rnext r)"
    by (auto simp: v1_def)
  then have "flist (\<lambda>p. map_option rnext (regions v1 p)) (region_list v1) (us @ ws)"
    using flist_drop [OF ns, of "rnext r"] r False by (simp add: v1_def)
  moreover have "unlink_region ?u r v = Inr v1" using ru by (simp add: unlink_region_def region_at_def v1_def)
  moreover have "map_option area (regions v1 x) = map_option area (regions v x)" for x
    using ru(2) by (simp add: v1_def area_def)
  ultimately show ?thesis using False by (auto simp: v1_def)
qed

lemma remove_area:
  assumes inv: "vz_inv v kp s" and a: "a \<in> vnodes v" "regions v a = Some r" "area r = (st, n)"
    and fl2: "flist (\<lambda>p. map_option rnext (regions v2 p)) (region_list v2) ns" "set ns = vnodes v - {a}"
    and same: "\<And>x. x \<noteq> a \<Longrightarrow> map_option area (regions v2 x) = map_option area (regions v x)"
    and bm: "vbitmap_wf (vbitmap v2)" "\<And>j. j < 64512 \<Longrightarrow> vused (vbitmap v2) j \<longleftrightarrow> j \<notin> {st..<st + n} \<and> vused (vbitmap v) j"
  shows "zone_ok v2" and "areas v2 = areas v - {(st, n)}" and "vnodes v2 = vnodes v - {a}"
proof -
  show nodes2: "vnodes v2 = vnodes v - {a}" using vnodes_list [OF fl2(1)] fl2(2) by simp
  have area: "(st, n) \<in> areas v" using areasI [OF a(1,2)] a(3) by simp
  have n: "0 < n" "st + n \<le> 64512" using vz_invD(5) [OF inv area] by simp_all
  have sp: "span (area r) = {st..<st + n}" using a(3) by (simp add: span_def)
  have ra: "\<exists>r0. regions v x = Some r0 \<and> area r0 = area r2" if "x \<in> vnodes v2" "regions v2 x = Some r2" for x r2
    using same [of x] that nodes2 by (cases "regions v x") auto
  have ra': "\<exists>r2. regions v2 x = Some r2 \<and> area r2 = area r0" if "x \<in> vnodes v2" "regions v x = Some r0" for x r0
    using same [of x] that nodes2 by (cases "regions v2 x") auto
  have oth: "area r0 \<noteq> (st, n)" "span (area r0) \<inter> {st..<st + n} = {}" if "x \<in> vnodes v2" "regions v x = Some r0" for x r0
  proof -
    have "x \<in> vnodes v" "x \<noteq> a" using that(1) nodes2 by auto
    then have d: "span (area r0) \<inter> span (area r) = {}"
      using vz_invD(6) [OF inv] that(2) a(1,2) unfolding areas_disjoint_def by metis
    show "span (area r0) \<inter> {st..<st + n} = {}" using d unfolding sp .
    have "st \<in> span (area r)" using n unfolding sp by simp
    then show "area r0 \<noteq> (st, n)" using d a(3) by auto
  qed
  have sub: "\<exists>y r0. y \<in> vnodes v2 \<and> regions v y = Some r0 \<and> x = area r0" if x: "x \<in> areas v2" for x
  proof -
    obtain y r2 where y: "y \<in> vnodes v2" "regions v2 y = Some r2" "x = area r2" using x by (auto simp: areas_def)
    obtain r0 where "regions v y = Some r0" "area r0 = area r2" using ra [OF y(1,2)] by blast
    with y show ?thesis by auto
  qed
  show areas2: "areas v2 = areas v - {(st, n)}"
  proof (intro equalityI subsetI)
    fix x assume "x \<in> areas v2"
    then obtain y r0 where "y \<in> vnodes v2" "regions v y = Some r0" "x = area r0" using sub by blast
    then show "x \<in> areas v - {(st, n)}" using oth(1) areasI [of y v r0] nodes2 by auto
  next
    fix x assume x: "x \<in> areas v - {(st, n)}"
    then obtain y r0 where y: "y \<in> vnodes v" "regions v y = Some r0" "x = area r0" by (auto simp: areas_def)
    have "y \<noteq> a" using x a(2,3) y(2,3) by auto
    then have y2: "y \<in> vnodes v2" using y(1) nodes2 by simp
    obtain r2 where "regions v2 y = Some r2" "area r2 = area r0" using ra' [OF y2 y(2)] by blast
    then show "x \<in> areas v2" using areasI [OF y2, of r2] y(3) by simp
  qed
  have disj: "areas_disjoint v2" unfolding areas_disjoint_def
  proof (intro allI impI, elim conjE)
    fix x y r1 r2 assume xy: "x \<in> vnodes v2" "y \<in> vnodes v2" "x \<noteq> y" "regions v2 x = Some r1" "regions v2 y = Some r2"
    obtain q1 q2 where q: "regions v x = Some q1" "area q1 = area r1" "regions v y = Some q2" "area q2 = area r2"
      using ra xy by metis
    have "span (area q1) \<inter> span (area q2) = {}"
      using vz_invD(6) [OF inv] xy(1-3) nodes2 q(1,3) unfolding areas_disjoint_def by blast
    then show "span (area r1) \<inter> span (area r2) = {}" using q(2,4) by simp
  qed
  have bits: "vused (vbitmap v2) i \<longleftrightarrow> i \<in> \<Union> (span ` areas v2)" if i: "i < 64512" for i
  proof -
    have d: "span x \<inter> {st..<st + n} = {}" if "x \<in> areas v2" for x using sub [OF that] oth(2) by metis
    have "areas v = insert (st, n) (areas v2)" using areas2 area by blast
    then have "\<Union> (span ` areas v) = {st..<st + n} \<union> \<Union> (span ` areas v2)" by (simp add: span_def)
    then show ?thesis using bm(2) [OF i] vz_invD(7) [OF inv i] d by blast
  qed
  have bnds: "\<forall>x\<in>areas v2. 0 < snd x \<and> fst x + snd x \<le> 64512"
    using vz_invD(5) [OF inv] areas2 by (metis DiffD1)
  show "zone_ok v2" unfolding zone_ok_def using bm(1) fl2(1) bnds disj bits by (intro conjI) auto
qed

lemma vpage_index:
  assumes "st < 64512"
  shows "vpage st \<noteq> 0" "\<not> (vpage st < VMALLOC_BASE \<or> vpage st \<ge> VMALLOC_MAX)"
    "(vpage st - VMALLOC_BASE) div PAGE_SIZE = of_nat st"
proof -
  have u: "unat (vpage st) = 4026531840 + st * 4096" using vpage(1) [OF assms] .
  show "vpage st \<noteq> 0" "\<not> (vpage st < VMALLOC_BASE \<or> vpage st \<ge> VMALLOC_MAX)"
    using u assms by (auto simp: word_less_nat_alt word_le_nat_alt)
  have m: "unat (of_nat st * 4096 :: u32) = st * 4096" using assms by (simp add: unat_word_ariths unat_of_nat_u32)
  have "vpage st - VMALLOC_BASE = of_nat st * 4096" by (simp add: vpage_def)
  then have "unat ((vpage st - VMALLOC_BASE) div PAGE_SIZE) = st" using m by (simp add: unat_div)
  then show "(vpage st - VMALLOC_BASE) div PAGE_SIZE = of_nat st"
    using assms by (simp add: word_unat_eq_iff unat_of_nat_u32)
qed

text \<open>No other region starts where the area starts, so the walk stops at its node.\<close>

lemma find_area:
  assumes inv: "vz_inv v kp s" and a: "a \<in> vnodes v" "regions v a = Some r" "area r = (st, n)"
    and ns: "flist (\<lambda>p. map_option rnext (regions v p)) (region_list v) (us @ a # ws)"
  shows "find_region (of_nat st) v 0 (region_list v) = Some (Inr (if us = [] then 0 else last us, a))"
proof (rule find_region_spec [OF ns a(2)])
  have n: "0 < n" "st + n \<le> 64512" using vz_invD(5) [OF inv areasI [OF a(1,2)]] a(3) by simp_all
  show "rstart r = of_nat st" using a(3) by (auto simp: area_def)
  fix b r' assume b: "b \<in> set us" "regions v b = Some r'"
  have b2: "b \<in> vnodes v" "b \<noteq> a" using b(1) flist_distinct [OF ns] vnodes_list [OF ns] by auto
  show "rstart r' \<noteq> of_nat st"
  proof
    assume eq: "rstart r' = of_nat st"
    have d: "span (area r) \<inter> span (area r') = {}"
      using vz_invD(6) [OF inv] a(1,2) b(2) b2 unfolding areas_disjoint_def by metis
    have "0 < snd (area r')" using vz_invD(5) [OF inv areasI [OF b2(1) b(2)]] by simp
    then have "st \<in> span (area r')" using eq n by (simp add: span_def area_def unat_of_nat_u32)
    moreover have "st \<in> span (area r)" using n a(3) by (simp add: span_def)
    ultimately show False using d by blast
  qed
qed

lemma vfree_spec:
  assumes inv: "vz_inv v kp s" and area: "(st, n) \<in> areas v"
  shows "\<exists>v' kp' s'. vfree (vpage st) v kp s = Inr (v', kp', s') \<and> vz_inv v' kp' s' \<and> areas v' = areas v - {(st, n)} \<and>
    (\<forall>i<64512. vpage i \<in> mapped_pages s' \<longleftrightarrow> vpage i \<in> mapped_pages s \<and> \<not> (st \<le> i \<and> i < st + n))"
proof -
  obtain a r where a: "a \<in> vnodes v" "regions v a = Some r" "area r = (st, n)" using area by (auto simp: areas_def)
  have n: "0 < n" "st + n \<le> 64512" using vz_invD(5) [OF inv area] by simp_all
  have rs: "rnpages r = of_nat n" using a(3) by (auto simp: area_def)
  obtain ns where ns: "flist (\<lambda>p. map_option rnext (regions v p)) (region_list v) ns" using vz_invD(3) [OF inv] by blast
  note nodes = vnodes_list [OF ns]
  obtain us ws where uw: "ns = us @ a # ws" using a(1) nodes by (metis split_list)
  have notin: "a \<notin> set (us @ ws)" using flist_distinct [OF ns] uw by simp
  note find = find_area [OF inv a ns [unfolded uw]]
  obtain v1 where v1: "unlink_region (if us = [] then 0 else last us) r v = Inr v1" "vbitmap v1 = vbitmap v"
      "flist (\<lambda>p. map_option rnext (regions v1 p)) (region_list v1) (us @ ws)"
      "\<And>x. map_option area (regions v1 x) = map_option area (regions v x)"
    using unlink_spec [OF ns [unfolded uw] a(2)] by blast
  have al: "a \<in> live kp" "a \<noteq> 0" using a(1) vz_invD(2,4) [OF inv] pool.objects_nonnull by blast+
  obtain kp1 s1 where k1: "kfree a kp s = Inr (kp1, s1)" "pool_inv kp1 s1" "live kp1 = live kp - {a}"
      "mapped_pages s1 - zone_pages s1 = mapped_pages s - zone_pages s"
    using pool.release_object [OF vz_invD(2) [OF inv] al(1)] by blast
  have same: "vpage i \<in> mapped_pages s1 \<longleftrightarrow> vpage i \<in> mapped_pages s" if "i < 64512" for i
    using vpage_outside [OF that] k1(4) by metis
  have mapped: "vpage i \<in> mapped_pages s1" if i: "st \<le> i" "i < st + n" for i
  proof -
    have "i \<in> span (st, n)" using i by (simp add: span_def)
    then have "i \<in> \<Union> (span ` areas v)" using area by blast
    then show ?thesis using same [of i] vz_invD(7,8) [OF inv, of i] i n(2) by simp
  qed
  have pi1: "page_inv s1" using k1(2) by (simp add: pool_inv_def)
  obtain bm2 s2 where m: "for_each (unmap_vpage (of_nat st)) (map of_nat [0..<n]) (vbitmap v, s1) = Inr (bm2, s2)"
      "page_inv s2" "vbitmap_wf bm2" "mapped_pages s2 = mapped_pages s1 - vpage ` {st..<st + n}"
      "\<forall>j<64512. vused bm2 j \<longleftrightarrow> j \<notin> {st..<st + n} \<and> vused (vbitmap v) j"
    using unmap_vpages [OF pi1 vz_invD(1) [OF inv] n(2) mapped] by blast
  define v2 where "v2 = v1\<lparr>vbitmap := bm2, regions := (regions v1)(a := None)\<rparr>"
  have reg: "regions v2 = (regions v1)(a := None)" "region_list v2 = region_list v1" "vbitmap v2 = bm2" by (simp_all add: v2_def)
  have rng: "u32_range 0 (of_nat n) = map of_nat [0..<n]" using n by (simp add: u32_range_def unat_of_nat_u32)
  have run: "vfree (vpage st) v kp s = Inr (v2, kp1, s2)"
    unfolding vfree_def using vpage_index [of st] n find al(2) a(2) v1(1,2) k1(1) m(1) rng rs
    by (simp add: Let_def region_at_def v2_def)
  have "flist (\<lambda>p. map_option rnext (regions v2 p)) (region_list v2) (us @ ws)"
    using v1(3) notin unfolding reg(2) by (subst flist_cong [where l' = "\<lambda>p. map_option rnext (regions v1 p)"]) (auto simp: reg(1))
  moreover have "set (us @ ws) = vnodes v - {a}" using nodes uw notin by auto
  moreover have "map_option area (regions v2 x) = map_option area (regions v x)" if "x \<noteq> a" for x
    using v1(4) that by (simp add: reg(1))
  ultimately have z: "zone_ok v2" "areas v2 = areas v - {(st, n)}" "vnodes v2 = vnodes v - {a}"
    using remove_area [OF inv a, of v2 "us @ ws"] m(3,5) reg(3) by simp_all
  have pages: "vpage i \<in> mapped_pages s2 \<longleftrightarrow> vpage i \<in> mapped_pages s \<and> \<not> (st \<le> i \<and> i < st + n)" if i: "i < 64512" for i
    using vpage_image [OF i n(2), of st] m(4) same [OF i] by simp
  have "zone_pages s2 = zone_pages s1" by (rule zone_pages_vpages [OF n(2), of st]) (use m(4) in blast)
  then have "pool_inv kp1 s2" by (rule pool_inv_frame [OF k1(2) m(2)])
  moreover have "\<forall>i<64512. vpage i \<in> mapped_pages s2 \<longleftrightarrow> vused bm2 i"
    using pages vz_invD(8) [OF inv] m(5) by auto
  moreover have "vnodes v2 \<subseteq> live kp1" using vz_invD(4) [OF inv] k1(3) z(3) by blast
  ultimately have "vz_inv v2 kp1 s2" using z(1) by (simp add: vz_inv_def reg(3))
  with run z(2) pages show ?thesis by blast
qed

section \<open>Queries\<close>

lemma first_clear_spec:
  assumes "vbitmap_wf bm" and "i \<le> 64512"
  shows "first_clear bm (map of_nat [i..<64512]) =
    Inr (if \<exists>j. i \<le> j \<and> j < 64512 \<and> \<not> vused bm j then Some (of_nat (LEAST j. i \<le> j \<and> \<not> vused bm j)) else None)"
  using assms(2)
proof (induction "64512 - i" arbitrary: i)
  case (Suc k)
  then have i: "i < 64512" by simp
  obtain t where t: "vbitmap_test (of_nat i) bm = Inr t" "t = 0 \<longleftrightarrow> \<not> vused bm i"
    using vbitmap_test_vused [OF assms(1) i] by blast
  show ?case
  proof (cases "vused bm i")
    case True
    then have e: "i \<le> j \<and> \<not> vused bm j \<longleftrightarrow> Suc i \<le> j \<and> \<not> vused bm j" for j by (metis Suc_leI Suc_le_lessD le_neq_implies_less less_imp_le)
    then have e2: "(\<exists>j. i \<le> j \<and> j < 64512 \<and> \<not> vused bm j) \<longleftrightarrow> (\<exists>j. Suc i \<le> j \<and> j < 64512 \<and> \<not> vused bm j)" by blast
    show ?thesis unfolding e e2 using Suc.hyps(1) [of "Suc i"] Suc.hyps(2) i t True by (simp add: upt_conv_Cons)
  next
    case False
    then have "(LEAST j. i \<le> j \<and> \<not> vused bm j) = i" by (intro Least_equality) auto
    then show ?thesis using i t False by (auto simp: upt_conv_Cons)
  qed
qed simp

lemma vbrk_lowest_free_page:
  assumes "vbitmap_wf (vbitmap v)"
  shows "vbrk v = Inr (if \<exists>j<64512. \<not> vused (vbitmap v) j then vpage (LEAST j. \<not> vused (vbitmap v) j) else VMALLOC_MAX)"
proof -
  have "u32_range 0 64512 = map of_nat [0..<64512]" by (simp add: u32_range_def)
  then show ?thesis using first_clear_spec [OF assms, of 0]
    by (cases "\<exists>j<64512. \<not> vused (vbitmap v) j") (auto simp: vbrk_def vpage_def)
qed

lemma count_regions_spec:
  "flist (\<lambda>p. map_option rnext (regions v p)) p ns \<Longrightarrow> count_regions v p n = Some (Inr (n + of_nat (length ns)))"
proof (induction ns arbitrary: p n)
  case Nil
  then show ?case by (subst count_regions.simps) simp
next
  case (Cons a ns)
  then obtain r where "p = a" "a \<noteq> 0" "regions v a = Some r" "flist (\<lambda>p. map_option rnext (regions v p)) (rnext r) ns" by auto
  with Cons.IH [of "rnext r" "n + 1"] show ?case by (subst count_regions.simps) (simp add: algebra_simps)
qed

lemma vmalloc_query_counts:
  assumes inv: "vz_inv v kp s"
  shows "vmalloc_query v = Inr \<lparr>used_pages = of_nat (card {i. i < 64512 \<and> vused (vbitmap v) i}),
    total_pages = 64512, region_count = of_nat (card (vnodes v))\<rparr>"
proof -
  let ?f = "\<lambda>i n. bnd (vbitmap_test i (vbitmap v)) (\<lambda>t. Inr (if t \<noteq> 0 then n + 1 else n)) :: u32 res"
  have "\<exists>m. for_each (\<lambda>i. ?f (of_nat i)) [0..<64512] 0 = Inr m \<and> m = of_nat (card {i. i < 64512 \<and> vused (vbitmap v) i})"
  proof (rule for_each_invariant [where P = "\<lambda>i m. (m :: u32) = of_nat (card {j. j < i \<and> vused (vbitmap v) j})"])
    fix i and m :: u32 assume i: "i < 64512" and m: "m = of_nat (card {j. j < i \<and> vused (vbitmap v) j})"
    obtain t where t: "vbitmap_test (of_nat i) (vbitmap v) = Inr t" "t = 0 \<longleftrightarrow> \<not> vused (vbitmap v) i"
      using vbitmap_test_vused [OF vz_invD(1) [OF inv] i] by blast
    have "{j. j < Suc i \<and> vused (vbitmap v) j} =
        (if vused (vbitmap v) i then insert i {j. j < i \<and> vused (vbitmap v) j} else {j. j < i \<and> vused (vbitmap v) j})"
      by (auto simp: less_Suc_eq)
    then show "\<exists>m'. ?f (of_nat i) m = Inr m' \<and> m' = of_nat (card {j. j < Suc i \<and> vused (vbitmap v) j})"
      using t m by simp
  qed simp_all
  then have used: "for_each ?f (u32_range 0 64512) 0 = Inr (of_nat (card {i. i < 64512 \<and> vused (vbitmap v) i}))"
    by (simp add: u32_range_def for_each_map)
  obtain ns where ns: "flist (\<lambda>p. map_option rnext (regions v p)) (region_list v) ns" using vz_invD(3) [OF inv] by blast
  have "card (vnodes v) = length ns" using vnodes_list [OF ns] flist_distinct [OF ns] distinct_card by simp
  then show ?thesis using used count_regions_spec [OF ns, of 0] by (simp add: vmalloc_query_def)
qed

section \<open>Properties\<close>

lemma vmalloc_init_inv:
  assumes "length (vbitmap v) = 2016" and "region_list v = 0" and "pool_inv kp s"
    and "\<And>i. i < 64512 \<Longrightarrow> vpage i \<notin> mapped_pages s"
  shows "\<exists>v'. vmalloc_init v = Inr v' \<and> vz_inv v' kp s \<and> areas v' = {} \<and> (\<forall>i<64512. \<not> vused (vbitmap v') i)"
proof -
  let ?P = "\<lambda>i bm. length bm = 2016 \<and> (\<forall>j<i. bm ! j = (0 :: u32))"
  have "\<exists>bm. for_each (\<lambda>i. zero_word (of_nat i)) [0..<2016] (vbitmap v) = Inr bm \<and> ?P 2016 bm"
  proof (rule for_each_invariant [where P = ?P])
    fix i bm assume "i < 2016" "?P i bm"
    then show "\<exists>bm'. zero_word (of_nat i) bm = Inr bm' \<and> ?P (Suc i) bm'"
      by (simp add: zero_word_def unat_of_nat_u32 nth_list_update less_Suc_eq)
  qed (use assms(1) in simp_all)
  then obtain bm where bm: "for_each zero_word (u32_range 0 2016) (vbitmap v) = Inr bm" "?P 2016 bm"
    by (auto simp: u32_range_def for_each_map)
  let ?v = "v\<lparr>vbitmap := bm\<rparr>"
  have run: "vmalloc_init v = Inr ?v" using bm(1) by (simp add: vmalloc_init_def)
  have clear: "\<not> vused bm i" if "i < 64512" for i using bm(2) that by (simp add: vused_def)
  have no: "vnodes ?v = {}" "areas ?v = {}" using assms(2) by (auto simp: vnodes_def areas_def)
  then have "zone_ok ?v" using bm(2) clear assms(2) by (simp add: zone_ok_def vbitmap_wf_def areas_disjoint_def)
  then have "vz_inv ?v kp s" using assms(3,4) clear no by (simp add: vz_inv_def)
  with run no clear show ?thesis by auto
qed

definition empty_zone :: vzone where
  "empty_zone = \<lparr>vbitmap = replicate 2016 0, region_list = 0, regions = Map.empty\<rparr>"

lemma boot_zone:
  "\<exists>v. vmalloc_init empty_zone = Inr v \<and> vz_inv v (kmalloc_init empty_pool) boot_full \<and> areas v = {} \<and>
     (\<forall>i<64512. \<not> vused (vbitmap v) i)"
  using vmalloc_init_inv [of empty_zone "kmalloc_init empty_pool" boot_full] boot_pool(1) boot_full(2)
  by (auto simp: empty_zone_def)

text \<open>
  C10. \<open>vmalloc\<close> is first fit on page areas: from a well-formed zone it returns the lowest run of the
  requested number of free pages, adds exactly this area and keeps the areas disjoint and in step
  with the bitmap, the region list and the page tables; with no such run (or a request of 0) it returns
  NULL and the zone and the pool's live objects are as before. It panics only when the pool's zone is
  used up or fewer than two frames per page plus two are left.
\<close>

theorem vmalloc_first_fit:
  assumes "vz_inv v kp s"
  shows "if npages = 0 then vmalloc npages v kp s = Inr (0, v, kp, s)
    else (\<exists>msg. vmalloc npages v kp s = Inl (Kpanic msg)) \<and>
        (cpool_vptr kp = 0xEEFFF000 \<or> card (free_frames (frame_bitmap s)) < 2 + 2 * unat npages) \<or>
      (\<exists>kp' s'. vmalloc npages v kp s = Inr (0, v, kp', s') \<and> vz_inv v kp' s' \<and> live kp' = live kp \<and>
         \<not> (\<exists>st. run_at (vused (vbitmap v)) (unat npages) 64512 st)) \<or>
      (\<exists>st v' kp' s'. vmalloc npages v kp s = Inr (vpage st, v', kp', s') \<and> vz_inv v' kp' s' \<and>
         first_run_at (vused (vbitmap v)) (unat npages) 64512 st \<and> areas v' = insert (st, unat npages) (areas v))"
proof (cases "npages = 0")
  case False
  from vmalloc_spec [OF assms False] show ?thesis unfolding if_not_P [OF False] by blast
qed (simp add: vmalloc_def)

theorem vmalloc_first_fit_witness:
  "\<exists>v v' kp' s'. vmalloc_init empty_zone = Inr v \<and>
     vmalloc 4 v (kmalloc_init empty_pool) boot_full = Inr (0xF0000000, v', kp', s') \<and> areas v' = {(0, 4)}"
proof -
  obtain v where v: "vmalloc_init empty_zone = Inr v" "vz_inv v (kmalloc_init empty_pool) boot_full" "areas v = {}"
    "\<forall>i<64512. \<not> vused (vbitmap v) i" using boot_zone by blast
  have run: "run_at (vused (vbitmap v)) 4 64512 0" using v(4) by (simp add: run_at_def)
  have c: "\<not> card (free_frames (frame_bitmap boot_full)) < 2 + 2 * unat (4 :: u32)" by (simp add: boot_full(3))
  have p: "cpool_vptr (kmalloc_init empty_pool) \<noteq> 0xEEFFF000" by (simp add: kmalloc_init_def)
  have n: "unat (4 :: u32) = 4" "(4 :: u32) \<noteq> 0" by simp_all
  from vmalloc_first_fit [OF v(2), of 4] c p run obtain st v' kp' s' where
    m: "vmalloc 4 v (kmalloc_init empty_pool) boot_full = Inr (vpage st, v', kp', s')"
      "first_run_at (vused (vbitmap v)) 4 64512 st" "areas v' = {(st, 4)}"
    unfolding if_not_P [OF n(2)] n(1) v(3) by blast
  have "st = 0" using m(2) run by (auto simp: first_run_at_def)
  then show ?thesis using v(1) m(1,3) by (auto simp: vpage_def)
qed

text \<open>
  C11. \<open>vfree\<close> of the address of an area returns: it finds the region's node, unlinks it and gives it
  back to the pool, unmaps exactly the pages of the area and clears their bits, so that the zone is
  well formed with exactly this area less.
\<close>

theorem vfree_releases_area:
  assumes "vz_inv v kp s" and "(st, n) \<in> areas v"
  shows "\<exists>v' kp' s'. vfree (vpage st) v kp s = Inr (v', kp', s') \<and> vz_inv v' kp' s' \<and> areas v' = areas v - {(st, n)} \<and>
    (\<forall>i<64512. vpage i \<in> mapped_pages s' \<longleftrightarrow> vpage i \<in> mapped_pages s \<and> \<not> (st \<le> i \<and> i < st + n))"
  using vfree_spec [OF assms] .

theorem vfree_releases_area_witness:
  "\<exists>v v1 kp1 s1 v2 kp2 s2. vmalloc_init empty_zone = Inr v \<and>
     vmalloc 4 v (kmalloc_init empty_pool) boot_full = Inr (0xF0000000, v1, kp1, s1) \<and>
     vfree 0xF0000000 v1 kp1 s1 = Inr (v2, kp2, s2) \<and> areas v2 = {}"
proof -
  obtain v where v: "vmalloc_init empty_zone = Inr v" "vz_inv v (kmalloc_init empty_pool) boot_full" "areas v = {}"
    "\<forall>i<64512. \<not> vused (vbitmap v) i" using boot_zone by blast
  have run: "run_at (vused (vbitmap v)) 4 64512 0" using v(4) by (simp add: run_at_def)
  have c: "\<not> card (free_frames (frame_bitmap boot_full)) < 2 + 2 * unat (4 :: u32)" by (simp add: boot_full(3))
  have p: "cpool_vptr (kmalloc_init empty_pool) \<noteq> 0xEEFFF000" by (simp add: kmalloc_init_def)
  have n: "unat (4 :: u32) = 4" "(4 :: u32) \<noteq> 0" by simp_all
  from vmalloc_spec [OF v(2) n(2)] c p run obtain st v1 kp1 s1 where
    m: "vmalloc 4 v (kmalloc_init empty_pool) boot_full = Inr (vpage st, v1, kp1, s1)" "vz_inv v1 kp1 s1"
      "first_run_at (vused (vbitmap v)) 4 64512 st" "areas v1 = {(st, 4)}"
    unfolding n(1) v(3) by blast
  have st: "st = 0" using m(3) run by (auto simp: first_run_at_def)
  have v0: "vpage 0 = 0xF0000000" by (simp add: vpage_def)
  from vfree_releases_area [OF m(2), of 0 4] m(1,4) st v(1) v0 show ?thesis by auto
qed

end
