(* ===== verification/Boot.thy ===== *)
theory Boot
  imports Kmem_Heap Vmalloc_Spec Sched_Spec
begin

text \<open>
  The initialisations of memory and tasks in the order of \<open>kernel_main\<close> (\<open>src/src/kernel.c\<close>), without the
  self-tests between them, and the invariants they hand to each other: paging before the frame bitmap, the
  heap on both, the pool and the zone beside the heap, the tasks last.
\<close>

definition kernel_init :: "mm \<Rightarrow> kmem \<Rightarrow> kpool \<Rightarrow> vzone \<Rightarrow> (kst \<times> vzone) res" where
  "kernel_init m k kp v =
     (let m = paging_init m in
      bnd (phys_mem_init (frame_bitmap m)) (\<lambda>bm.
      bnd (kmem_dyn_alloc_init k (m\<lparr>frame_bitmap := bm\<rparr>)) (\<lambda>(k, m).
      bnd (vmalloc_init v) (\<lambda>v.
      Inr (task_init (cr3 m) (boot_kst m k (kmalloc_init kp)), v)))))"

lemma pstore_bitmap: "pstore a x (m\<lparr>frame_bitmap := bm\<rparr>) = (pstore a x m)\<lparr>frame_bitmap := bm\<rparr>"
  by (simp add: pstore_def)

lemma fold_pstore_bitmap:
  "fold (\<lambda>i. pstore (a i) (x i)) is (m\<lparr>frame_bitmap := bm\<rparr>) = (fold (\<lambda>i. pstore (a i) (x i)) is m)\<lparr>frame_bitmap := bm\<rparr>"
  by (induction "is" arbitrary: m) (simp_all add: pstore_bitmap)

lemma paging_init_bitmap: "paging_init (m\<lparr>frame_bitmap := bm\<rparr>) = (paging_init m)\<lparr>frame_bitmap := bm\<rparr>"
  by (simp add: paging_init_def Let_def pd_of_def fold_pstore_bitmap pstore_bitmap enable_paging_def load_page_directory_def)

text \<open>Address space and frames: nothing of the kernel half is mapped, every frame above 4 MiB is free.\<close>

lemma memory_ready:
  assumes "static_tables m" and "bitmap_wf (frame_bitmap m)"
  obtains bm where "phys_mem_init (frame_bitmap (paging_init m)) = Inr bm"
    "page_inv ((paging_init m)\<lparr>frame_bitmap := bm\<rparr>)" "mapped_pages ((paging_init m)\<lparr>frame_bitmap := bm\<rparr>) = {}"
    "free_frames bm = {1024..<16384}"
proof -
  obtain bm where bm: "phys_mem_init (frame_bitmap m) = Inr bm" "pmm_inv bm" "free_frames bm = {1024..<16384}"
    using phys_mem_init_spec [OF assms(2)] by blast
  have st: "static_tables (m\<lparr>frame_bitmap := bm\<rparr>)" using assms(1) by (simp add: static_tables_def)
  have "page_inv ((paging_init m)\<lparr>frame_bitmap := bm\<rparr>)" "mapped_pages ((paging_init m)\<lparr>frame_bitmap := bm\<rparr>) = {}"
    using paging_init_page_inv [OF st] bm(2) by (simp_all add: paging_init_bitmap)
  then show thesis using that bm(1,3) paging_init_entries(2) [OF assms(1)] by simp
qed

text \<open>The heap takes its first page and nothing else.\<close>

lemma heap_ready:
  assumes "page_inv s" and "mapped_pages s = {}" and "2 \<le> card (free_frames (frame_bitmap s))"
  obtains k' s' where "kmem_dyn_alloc_init k s = Inr (k', s')" "kheap_inv k' s' [(4080, False)]"
    "mapped_pages s' = {0xC0000000}" "page_inv s'"
proof -
  let ?k = "k\<lparr>kmem_heap_head := 0, kmem_heap_end := 0xC0000000\<rparr>"
  have "\<not> unat va < 3221225472" if "kernel_page va" for va using that by (simp add: kernel_page_def word_le_nat_alt)
  then have inv: "kheap_inv ?k s []"
    using assms(1,2) by (simp add: kheap_inv_def kmem_rep_def blocks_ok_def ptr_def)
  have one: "grow_pages 0 = 1" by (simp add: grow_pages_def)
  then have g: "grow_blocks (4096 * grow_pages 0) [] = [(4080, False)]" by (simp add: grow_blocks_def)
  have "\<not> no_growth 0 s []" using assms(3) by (simp add: no_growth_def one)
  then obtain k' s' where k': "kmem_heap_grow 0 ?k s = Inr (k', s')" "kheap_inv k' s' [(4080, False)]"
      "mapped_pages s' = (\<lambda>i. ptr (bend heap_base [] + 4096 * i)) ` {..<grow_pages 0}"
    using heap_grow_spec [OF inv, of 0, unfolded g] assms(2) by auto
  have "mapped_pages s' = {0xC0000000}" using k'(3) by (simp add: one ptr_def lessThan_Suc)
  then show thesis using that [of k' s'] k'(1,2) by (simp add: kmem_dyn_alloc_init_def kheap_inv_def)
qed

lemma task_init_run_queue: "runq (task_init pd (boot_kst m k kp)) [Init_task]"
  by (simp add: runq_def task_init_def Let_def task_add_child_def boot_kst_def init_task_def zero_task_def kthreadd_task_def)

end
