(* ===== verification/Kernel_Inv.thy ===== *)
theory Kernel_Inv
  imports Sched_Inv Signal_Frame
begin

text \<open>
  The kernel as a transition system. A step is one entry into the kernel (a trap, a timer interrupt,
  the next turn of a sleeping \<open>wait\<close>, a spawn or a shell command on tasks) or a step of the machine
  outside of it (a user program writes memory, the hardware pushes a trap frame). The well-formedness
  of the task descriptors is an invariant of every reachable state.
\<close>

section \<open>Weakest preconditions\<close>

text \<open>\<open>post r Q\<close>: if \<open>r\<close> is a normal result, it satisfies \<open>Q\<close>.\<close>

definition post :: "'a res \<Rightarrow> ('a \<Rightarrow> bool) \<Rightarrow> bool" where
  "post r Q \<longleftrightarrow> (\<forall>x. r = Inr x \<longrightarrow> Q x)"

named_theorems wp

lemma post_Inr [simp, wp]: "post (Inr x) Q \<longleftrightarrow> Q x"
  by (simp add: post_def)

lemma post_Inl [simp, wp]: "post (Inl e) Q"
  by (simp add: post_def)

lemma post_bnd [wp]: "post (bnd r f) Q \<longleftrightarrow> post r (\<lambda>x. post (f x) Q)"
  by (cases r) (auto simp: post_def)

lemma post_if [wp]: "post (if c then a else b) Q \<longleftrightarrow> (c \<longrightarrow> post a Q) \<and> (\<not> c \<longrightarrow> post b Q)"
  by simp

lemma post_mono: "post r P \<Longrightarrow> (\<And>x. P x \<Longrightarrow> Q x) \<Longrightarrow> post r Q"
  by (simp add: post_def)

lemma post_any: "(\<And>x. Q x) \<Longrightarrow> post r Q"
  by (simp add: post_def)

lemma postI: "(\<And>x. r = Inr x \<Longrightarrow> Q x) \<Longrightarrow> post r Q"
  by (simp add: post_def)

lemma post_for_each:
  assumes "\<And>i s. P s \<Longrightarrow> post (f i s) P" and "P s"
  shows "post (for_each f xs s) P"
  using assms(2)
proof (induction xs arbitrary: s)
  case (Cons x xs)
  then show ?case using assms(1) [OF Cons.prems, of x] by (auto simp: wp elim: post_mono)
qed simp

section \<open>Well-formed descriptors\<close>

definition task_ok :: "task \<Rightarrow> bool" where
  "task_ok x \<longleftrightarrow> length (signal_handlers x) = 32 \<and> signal_handlers x ! 9 = SIG_DFL \<and> signal_handlers x ! 19 = SIG_DFL \<and>
     \<not> bit (pending_signals x) 31 \<and>
     \<not> (bit (pending_signals x) 17 \<and> (bit (pending_signals x) 18 \<or> bit (pending_signals x) 19)) \<and>
     log_head x < TASK_LOG_SIZE \<and> log_len x \<le> TASK_LOG_SIZE \<and> in_head x < TASK_INPUT_SIZE \<and> in_tail x < TASK_INPUT_SIZE"

definition kinv :: "kst \<Rightarrow> bool" where
  "kinv s \<longleftrightarrow> (\<forall>t. task_ok (tasks s t)) \<and> 2 \<le> task_counter s \<and> task_counter s < MAX_PROC"

lemma kinv_frame [simp]:
  "kinv (s\<lparr>task_list_head := a\<rparr>) = kinv s" "kinv (s\<lparr>current_task := b\<rparr>) = kinv s"
  "kinv (s\<lparr>init_proc := c\<rparr>) = kinv s" "kinv (s\<lparr>kmm := m\<rparr>) = kinv s" "kinv (s\<lparr>kheap := k\<rparr>) = kinv s"
  "kinv (s\<lparr>pool := p\<rparr>) = kinv s" "kinv (s\<lparr>tframes := f\<rparr>) = kinv s" "kinv (s\<lparr>kbytes := g\<rparr>) = kinv s"
  "kinv (s\<lparr>handler_calls := h\<rparr>) = kinv s" "kinv (s\<lparr>terminal := i\<rparr>) = kinv s" "kinv (s\<lparr>need_resched := j\<rparr>) = kinv s"
  "kinv (s\<lparr>next_task := l\<rparr>) = kinv s" "kinv (s\<lparr>lap_anchor := n\<rparr>) = kinv s" "kinv (s\<lparr>lap_num := q\<rparr>) = kinv s"
  "kinv (s\<lparr>blocked_marker := r\<rparr>) = kinv s" "kinv (s\<lparr>unblocked_marker := u\<rparr>) = kinv s" "kinv (s\<lparr>tss_esp0 := v\<rparr>) = kinv s"
  by (simp_all add: kinv_def)

lemma kinv_upd: "(\<And>x. task_ok x \<Longrightarrow> task_ok (f x)) \<Longrightarrow> kinv s \<Longrightarrow> kinv (upd t f s)"
  by (simp add: kinv_def)

text \<open>The fields that \<open>task_ok\<close> does not mention.\<close>

lemma task_ok_frame [simp]:
  "task_ok (x\<lparr>state := a\<rparr>) = task_ok x" "task_ok (x\<lparr>thread := b\<rparr>) = task_ok x" "task_ok (x\<lparr>pid := c\<rparr>) = task_ok x"
  "task_ok (x\<lparr>parent := d\<rparr>) = task_ok x" "task_ok (x\<lparr>children := d\<rparr>) = task_ok x" "task_ok (x\<lparr>sibling := d\<rparr>) = task_ok x"
  "task_ok (x\<lparr>kstack := c\<rparr>) = task_ok x" "task_ok (x\<lparr>task_mm := e\<rparr>) = task_ok x" "task_ok (x\<lparr>task_next := d\<rparr>) = task_ok x"
  "task_ok (x\<lparr>quantum := c\<rparr>) = task_ok x" "task_ok (x\<lparr>time_left := c\<rparr>) = task_ok x" "task_ok (x\<lparr>exit_code := g\<rparr>) = task_ok x"
  "task_ok (x\<lparr>uid := c\<rparr>) = task_ok x" "task_ok (x\<lparr>euid := c\<rparr>) = task_ok x" "task_ok (x\<lparr>is_userspace := h\<rparr>) = task_ok x"
  "task_ok (x\<lparr>log_buf := c\<rparr>) = task_ok x" "task_ok (x\<lparr>in_buf := c\<rparr>) = task_ok x"
  by (simp_all add: task_ok_def)

lemma bit_SIG_STOP_MASK: "bit SIG_STOP_MASK n \<longleftrightarrow> n = 18 \<or> n = 19"
  by (auto simp: SIG_STOP_MASK_def bit_or_iff bit_SIGMASK)

lemma test_mask: "0 < sig \<Longrightarrow> sig \<le> 32 \<Longrightarrow> SIGMASK sig AND w \<noteq> 0 \<longleftrightarrow> bit w (nat sig - 1)"
  using test_exp_bit [of w "nat sig - 1"] by (simp add: SIGMASK_exp and.commute)

lemma task_ok_post [simp]: "task_ok x \<Longrightarrow> task_ok (post_signal sig x)"
proof (cases "0 < sig \<and> sig < 32")
  case True
  assume ok: "task_ok x"
  have p: "bit (pending_signals (post_signal sig x)) n \<longleftrightarrow>
      n = nat sig - 1 \<or> bit (pending_signals x) n \<and>
        \<not> (sig = SIGCONT \<and> (n = 18 \<or> n = 19)) \<and> \<not> ((sig = SIGSTOP \<or> sig = SIGTSTP) \<and> n = 17)" for n
  proof -
    have "SIGMASK sig AND SIG_STOP_MASK \<noteq> 0 \<longleftrightarrow> sig = SIGSTOP \<or> sig = SIGTSTP"
      using True test_mask [of sig SIG_STOP_MASK] by (auto simp: bit_SIG_STOP_MASK)
    then show ?thesis using True bit_imp_le_length [of "pending_signals x" n]
      by (auto simp: post_signal_def Let_def bit_or_iff bit_and_iff bit_not_iff bit_SIGMASK bit_SIG_STOP_MASK)
  qed
  show ?thesis using ok True unfolding task_ok_def p by auto
qed (auto simp: post_signal_def)

lemma task_ok_register [simp]: "task_ok x \<Longrightarrow> task_ok (register_handler sig h x)"
proof (cases "0 < sig \<and> sig < 32")
  case True
  then have "SIGMASK sig AND SIG_IMMUTABLE_MASK \<noteq> 0 \<longleftrightarrow> sig = 9 \<or> sig = 19"
    using test_mask [of sig SIG_IMMUTABLE_MASK] by (auto simp: SIG_IMMUTABLE_MASK_def bit_or_iff bit_SIGMASK)
  moreover assume "task_ok x"
  moreover have "nat sig \<noteq> 9" "nat sig \<noteq> 19" if "sig \<noteq> 9" "sig \<noteq> 19" using that True by auto
  ultimately show ?thesis by (auto simp: register_handler_def task_ok_def)
qed (auto simp: register_handler_def)

lemma kinv_send [simp]: "kinv s \<Longrightarrow> kinv (kernel_signal_send t sig s)"
  by (simp add: kernel_signal_send_def kinv_upd)

lemma kinv_register [simp]: "kinv s \<Longrightarrow> kinv (kernel_signal_register t sig h s)"
  by (simp add: kernel_signal_register_def kinv_upd)

lemma kinv_clear [simp]: "kinv s \<Longrightarrow> kinv (clear_pending t b s)"
  unfolding clear_pending_def by (rule kinv_upd) (auto simp: task_ok_def bit_and_iff)

section \<open>The operations keep it\<close>

lemma kinv_add_child [simp]: "kinv s \<Longrightarrow> kinv (task_add_child p c s)"
  by (simp add: task_add_child_def Let_def kinv_upd)

lemma kinv_link [simp]: "kinv s \<Longrightarrow> kinv (link_task p c s)"
  by (simp add: link_task_def Let_def kinv_upd)

lemma post_remove_child: "kinv s \<Longrightarrow> post (task_remove_child p c s) kinv"
  by (auto simp: task_remove_child_def wp kinv_upd split: option.splits)

lemma post_reparent: "kinv s \<Longrightarrow> post (task_reparent c p s) kinv"
  using post_mono [OF post_remove_child] by (auto simp: task_reparent_def wp kinv_upd split: option.splits)

lemma post_orphan: 
  assumes "orphan_children t r s = Some y"
  shows "kinv s \<longrightarrow> post y kinv"
proof (rule orphan_children.raw_induct [OF _ assms], intro impI)
  fix lp t r s y
  assume ih: "\<And>t r s y. lp t r s = Some y \<Longrightarrow> kinv s \<longrightarrow> post y kinv"
    and eq: "(case children (tasks s t) of None \<Rightarrow> Some (Inr s) | Some c \<Rightarrow>
        (case task_reparent c r s of Inl e \<Rightarrow> Some (Inl e) | Inr s \<Rightarrow> lp t r s)) = Some y"
    and k: "kinv s"
  show "post y kinv"
    using eq k ih post_reparent [OF k] by (auto simp: post_def split: option.splits sum.splits)
qed

lemma post_loop: "(\<And>y. x = Some y \<Longrightarrow> post y Q) \<Longrightarrow> post (loop_res x) Q"
  by (cases x) auto

lemma post_do_exit:
  assumes "kinv s"
  shows "post (do_exit t code s) kinv"
proof -
  have "post (loop_res (orphan_children t r s')) kinv" if "kinv s'" for r s'
    using that post_orphan by (intro post_loop) blast
  then show ?thesis
    unfolding do_exit_def Let_def wp
    by (rule post_mono) (use assms in \<open>auto simp: kinv_upd split: option.splits\<close>)
qed

lemma post_default: "kinv s \<Longrightarrow> post (sig_default_action t sig s) kinv"
  by (simp add: sig_default_action_def wp post_do_exit kinv_upd)

lemma post_deliver: "kinv s \<Longrightarrow> post (deliver t sig s) kinv"
  by (simp add: deliver_def Let_def wp post_default)

lemma post_deliver_all: "kinv s \<Longrightarrow> post (deliver_all t sigs s) kinv"
proof (induction sigs arbitrary: s)
  case (Cons sig sigs)
  then show ?case by (auto simp: wp intro: post_mono [OF post_deliver])
qed simp

lemma post_dispatch: "kinv s \<Longrightarrow> post (kernel_signal_dispatch t s) kinv"
  by (simp add: kernel_signal_dispatch_def dispatch_loop_deliver_all post_deliver_all)

lemma post_check: "kinv s \<Longrightarrow> post (signal_check_and_deliver fp s) kinv"
  by (auto simp: signal_check_and_deliver_def Let_def wp intro!: post_any split: option.splits prod.splits)

lemma kinv_tss [simp]: "kinv (tss_set_esp0 a s) = kinv s"
  by (simp add: tss_set_esp0_def)

lemma kinv_unblock: 
  assumes "unblock_scan it s = Some y"
  shows "kinv s \<longrightarrow> kinv y"
proof (rule unblock_scan.raw_induct [OF _ assms], intro impI)
  fix lp it s y
  assume "\<And>it s y. lp it s = Some y \<Longrightarrow> kinv s \<longrightarrow> kinv y" and "kinv s"
    and "(case it of None \<Rightarrow> Some s | Some t \<Rightarrow>
          let s = (if state (tasks s t) \<noteq> TASK_BLOCKED then s else upd t (\<lambda>x. x\<lparr>state := TASK_RUNNABLE\<rparr>) s) in
          lp (task_next (tasks s t)) s) = Some y"
  then show "kinv y" by (auto simp: Let_def kinv_upd split: option.splits if_splits)
qed

lemma post_block: "kinv s \<Longrightarrow> post (maybe_block_faulty_target n s) kinv"
  by (auto simp: maybe_block_faulty_target_def wp kinv_upd intro!: post_any split: option.splits)

lemma post_unblock: "kinv s \<Longrightarrow> post (maybe_unblock_faulty_target s) kinv"
  by (auto simp: maybe_unblock_faulty_target_def wp dest: kinv_unblock split: option.splits)

lemma post_switch:
  assumes "kinv s"
  shows "post (switch_to n s) kinv"
proof -
  define s1 where "s1 = (if state (tasks s (current_task s)) = TASK_RUNNING
      then upd (current_task s) (\<lambda>x. x\<lparr>state := TASK_RUNNABLE\<rparr>) s else s)"
  define s2 where "s2 = upd n (\<lambda>x. x\<lparr>state := TASK_RUNNING\<rparr>) s1"
  define s3 where "s3 = (if is_userspace (tasks s2 n)
      then tss_set_esp0 (kstack (tasks s2 n) + KSTACK_PAGES * PAGE_SIZE) s2 else s2)"
  have k: "kinv s3" using assms by (simp add: s3_def s2_def s1_def kinv_upd)
  show ?thesis
    unfolding switch_to_def Let_def s1_def [symmetric] s2_def [symmetric] s3_def [symmetric]
    by (simp add: wp k post_mono [OF post_block] post_unblock)
qed

lemma post_schedule:
  assumes "kinv s"
  shows "post (schedule s) kinv"
proof -
  have "post (if pending_signals (tasks s (current_task s)) \<noteq> 0
      then kernel_signal_dispatch (current_task s) s else Inr s) kinv"
    using assms by (simp add: post_dispatch)
  then show ?thesis
    unfolding schedule_def Let_def post_bnd
    by (rule post_mono) (auto simp: wp kinv_upd intro!: post_any post_switch)
qed

text \<open>The rings: an index advanced modulo a power of two stays below it.\<close>

lemma and_mask_less: "(w :: u32) AND 0x3FF < 1024" "(w :: u32) AND 0xFF < 256"
proof -
  have "w AND 0x3FF \<le> 0x3FF" "w AND 0xFF \<le> 0xFF" by (rule word_and_le1)+
  then show "w AND 0x3FF < 1024" "w AND 0xFF < 256"
    by (simp_all add: word_le_nat_alt word_less_nat_alt)
qed

lemma task_ok_log:
  "task_ok x \<Longrightarrow> task_ok (x\<lparr>log_head := (log_head x + 1) AND 0x3FF, log_len := (if log_len x < 1024 then log_len x + 1 else log_len x)\<rparr>)"
  using and_mask_less(1) [of "log_head x + 1"] inc_le [of "log_len x" 1024] by (simp add: task_ok_def)

lemma task_ok_in:
  "task_ok x \<Longrightarrow> task_ok (x\<lparr>in_tail := (in_tail x + 1) AND 0xFF\<rparr>)"
  "task_ok x \<Longrightarrow> task_ok (x\<lparr>in_head := (y + 1) AND 0xFF\<rparr>)"
  using and_mask_less(2) by (simp_all add: task_ok_def)

lemma post_log: "kinv s \<Longrightarrow> post (task_log_putchar t c s) kinv"
  by (auto simp: task_log_putchar_def Let_def wp kinv_upd task_ok_log intro!: post_any split: prod.splits)

lemma post_read_loop: "kinv s \<Longrightarrow> post (input_read_loop t dst n s) (\<lambda>(k, s). kinv s)"
proof (induction n arbitrary: dst s)
  case (Suc n)
  then show ?case
    by (auto simp: Let_def wp kinv_upd task_ok_in split_def intro!: post_any intro: post_mono)
qed simp

lemma kinv_push: "kinv s \<Longrightarrow> kinv (task_input_push t c s)"
  by (simp add: task_input_push_def Let_def kinv_upd task_ok_in)

lemma kinv_fold_push: "kinv s \<Longrightarrow> kinv (fold (task_input_push t) cs s)"
  by (induction cs arbitrary: s) (simp_all add: kinv_push)

lemma post_feed: "kinv s \<Longrightarrow> post (task_feed p str s) (\<lambda>(r, s). kinv s)"
  by (auto simp: task_feed_def wp kinv_upd kinv_push kinv_fold_push intro!: post_any split: option.splits prod.splits)

section \<open>Creation and destruction\<close>

lemma task_ok_zero [simp]: "task_ok zero_task"
  by (simp add: task_ok_def zero_task_def)

text \<open>Counting pids: a claim that is rolled back restores the counter.\<close>

definition kinv_at :: "u32 \<Rightarrow> kst \<Rightarrow> bool" where
  "kinv_at n s \<longleftrightarrow> kinv s \<and> task_counter s = n"

lemma kinv_at_upd: "(\<And>x. task_ok x \<Longrightarrow> task_ok (f x)) \<Longrightarrow> kinv_at n s \<Longrightarrow> kinv_at n (upd t f s)"
  by (simp add: kinv_at_def kinv_upd)

lemma kinv_at_frame [simp]:
  "kinv_at n (s\<lparr>pool := p\<rparr>) = kinv_at n s" "kinv_at n (s\<lparr>kmm := m\<rparr>) = kinv_at n s"
  "kinv_at n (s\<lparr>tframes := f\<rparr>) = kinv_at n s" "kinv_at n (s\<lparr>init_proc := i\<rparr>) = kinv_at n s"
  by (simp_all add: kinv_at_def)

lemma counter_add_child [simp]: "task_counter (task_add_child p c s) = task_counter s"
  by (simp add: task_add_child_def Let_def)

lemma kinv_at_link [simp]: "kinv_at n s \<Longrightarrow> kinv_at n (link_task p c s)"
  unfolding kinv_at_def by (simp add: link_task_def Let_def) (simp add: kinv_upd)

lemma kinv_at_release: "kinv_at (n + 1) s \<Longrightarrow> n < 127 \<and> 2 \<le> n \<Longrightarrow> kinv (pid_release s)"
  by (auto simp: kinv_at_def kinv_def pid_release_def elim: order.strict_trans)

lemma post_spawn_user: "kinv_at n s \<Longrightarrow> post (spawn_user p fn sz par s) (\<lambda>(r, s). kinv_at n s)"
  unfolding spawn_user_def Let_def
  by (auto simp: wp kinv_at_upd split_def intro!: post_any)

lemma pid_alloc_cases:
  assumes "kinv s"
  obtains "pid_alloc s = (None, s)"
  | s' where "pid_alloc s = (Some (task_counter s + 1), s')" "kinv_at (task_counter s + 1) s'" "task_counter s < 127 \<and> 2 \<le> task_counter s"
proof (cases "task_counter s < 127")
  case True
  then have "task_counter s + 1 < 128" by (simp add: word_less_nat_alt unat_word_ariths)
  moreover have "2 \<le> task_counter s + 1"
    using assms True by (simp add: kinv_def word_less_nat_alt word_le_nat_alt unat_word_ariths)
  ultimately have "kinv_at (task_counter s + 1) (s\<lparr>task_counter := task_counter s + 1\<rparr>)"
    using assms by (simp add: kinv_at_def kinv_def)
  then show thesis using that(2) True assms by (simp add: pid_alloc_def not_le kinv_def)
next
  case False
  then show thesis using that(1) by (simp add: pid_alloc_def not_less)
qed

lemma post_exec_user_fn:
  assumes "kinv s"
  shows "post (exec_user_fn fn sz par s) kinv"
proof (rule pid_alloc_cases [OF assms])
  assume "pid_alloc s = (None, s)"
  then show ?thesis using assms by (simp add: exec_user_fn_def)
next
  fix s' assume a: "pid_alloc s = (Some (task_counter s + 1), s')" "kinv_at (task_counter s + 1) s'" "task_counter s < 127 \<and> 2 \<le> task_counter s"
  have "kinv x" if "kinv_at n x" for n x using that by (simp add: kinv_at_def)
  then show ?thesis unfolding exec_user_fn_def a(1) option.case prod.case wp
    by (intro post_mono [OF post_spawn_user [OF a(2)]]) (use a(3) kinv_at_release in auto)
qed

lemma post_exec_init_fn: "kinv s \<Longrightarrow> post (exec_init_fn fn sz s) (\<lambda>(r, s). kinv s)"
  unfolding exec_init_fn_def wp
  by (rule post_mono [OF post_spawn_user [of "task_counter s"]]) (auto simp: kinv_at_def)

lemma kinv_at_kinv: "kinv_at n s \<Longrightarrow> kinv s"
  by (simp add: kinv_at_def)

lemma post_exec_fn:
  assumes "kinv s"
  shows "post (exec_fn addr fn sz s) kinv"
proof (rule pid_alloc_cases [OF assms])
  assume "pid_alloc s = (None, s)"
  then show ?thesis using assms by (simp add: exec_fn_def)
next
  fix s' assume a: "pid_alloc s = (Some (task_counter s + 1), s')" "kinv_at (task_counter s + 1) s'" "task_counter s < 127 \<and> 2 \<le> task_counter s"
  then have k: "kinv s'" by (simp add: kinv_at_def)
  show ?thesis unfolding exec_fn_def a(1) option.case prod.case Let_def
    using a(2,3) k assms by (auto simp: wp split_def kinv_upd kinv_at_upd intro!: post_any kinv_at_release [of "task_counter s"])
qed

lemma task_ok_inherit:
  "task_ok y \<Longrightarrow> task_ok x \<Longrightarrow> task_ok (x\<lparr>signal_handlers := signal_handlers y\<rparr>)"
  by (simp add: task_ok_def)

lemma kinvD: "kinv s \<Longrightarrow> task_ok (tasks s t)"
  by (simp add: kinv_def)

text \<open>The last part of \<open>task_fork\<close>: filling in the child.\<close>

lemma kinv_fork_child:
  assumes "kinv s" and "task_ok cur"
  shows "kinv (upd child (\<lambda>x. x\<lparr>state := TASK_RUNNABLE, thread := th, kstack := va, parent := par, uid := uid cur,
    euid := euid cur, quantum := quantum cur, time_left := quantum cur,
    task_mm := (task_mm cur)\<lparr>pgdir := pgdir (task_mm x)\<rparr>, is_userspace := is_userspace cur,
    signal_handlers := signal_handlers cur\<rparr>) s)"
  by (rule kinv_upd) (use assms in \<open>simp_all add: task_ok_def\<close>)

lemma post_fork:
  assumes "kinv s"
  shows "post (task_fork frame s) (\<lambda>(r, s). kinv s)"
proof (rule pid_alloc_cases [OF assms])
  assume "pid_alloc s = (None, s)"
  then show ?thesis using assms by (simp add: task_fork_def)
next
  fix s' assume a: "pid_alloc s = (Some (task_counter s + 1), s')" "kinv_at (task_counter s + 1) s'" "task_counter s < 127 \<and> 2 \<le> task_counter s"
  then have k: "kinv s'" by (simp add: kinv_at_def)
  show ?thesis unfolding task_fork_def a(1) option.case prod.case Let_def
    using a(2,3) k assms kinvD [OF k]
    by (auto simp: wp split_def kinv_at_upd kinv_upd intro!: post_any kinv_at_release [of "task_counter s"] kinv_link kinv_fork_child)
qed

lemma post_unlink: "kinv s \<Longrightarrow> post (unlink_task z s) kinv"
  by (auto simp: unlink_task_def wp kinv_upd split: option.splits)

lemma post_reap:
  assumes "kinv s"
  shows "post (task_reap z s) kinv"
proof -
  have "post (case parent (tasks s z) of None \<Rightarrow> Inr s | Some p \<Rightarrow> task_remove_child p z s) kinv"
    using assms post_remove_child by (simp split: option.splits)
  then show ?thesis unfolding task_reap_def Let_def post_bnd
    by (rule post_mono, intro post_mono [OF post_unlink]) (auto simp: wp split_def intro!: post_any)
qed

section \<open>System calls and interrupts\<close>

lemma kinv_eax [simp]: "kinv (set_eax fp v s) = kinv s"
  by (simp add: set_eax_def)

lemma post_write: "kinv s \<Longrightarrow> post (for_each (write_byte buf) xs s) kinv"
  by (rule post_for_each) (auto simp: write_byte_def wp intro!: post_any post_log)

lemma post_wait_turn:
  assumes "kinv s"
  shows "post (wait_turn w s) (\<lambda>(r, s). kinv s)"
proof -
  have "post (task_reap z (s\<lparr>kmm := m\<rparr>)) (\<lambda>s. kinv s)" for z m using assms by (simp add: post_reap)
  then show ?thesis using assms
    by (auto simp: wait_turn_def Let_def wp kinv_upd intro!: post_any split: option.splits)
qed

lemma post_handlers:
  assumes "kinv s"
  shows "post (sys_exit a b c s) (\<lambda>(r, s). kinv s)" "post (sys_fork a b c s) (\<lambda>(r, s). kinv s)"
    "post (sys_read a b c s) (\<lambda>(r, s). kinv s)" "post (sys_write a b c s) (\<lambda>(r, s). kinv s)"
    "post (sys_wait a b c s) (\<lambda>(r, s). kinv s)" "post (sys_kill a b c s) (\<lambda>(r, s). kinv s)"
    "post (sys_signal a b c s) (\<lambda>(r, s). kinv s)" "post (sys_sigreturn a b c s) (\<lambda>(r, s). kinv s)"
    "post (sys_getuid a b c s) (\<lambda>(r, s). kinv s)" "post (sys_geteuid a b c s) (\<lambda>(r, s). kinv s)"
proof -
  show "post (sys_exit a b c s) (\<lambda>(r, s). kinv s)" using assms by (simp add: sys_exit_def wp post_do_exit)
  show "post (sys_fork a b c s) (\<lambda>(r, s). kinv s)"
    using post_fork [OF assms] by (simp add: sys_fork_def wp split_def)
  show "post (sys_read a b c s) (\<lambda>(r, s). kinv s)"
    using assms post_read_loop [OF assms] by (simp add: sys_read_def task_input_read_def wp split_def)
  show "post (sys_write a b c s) (\<lambda>(r, s). kinv s)" using assms by (simp add: sys_write_def wp post_write)
  show "post (sys_wait a b c s) (\<lambda>(r, s). kinv s)" using assms by (simp add: sys_wait_def wp post_wait_turn)
  show "post (sys_kill a b c s) (\<lambda>(r, s). kinv s)"
    using assms by (auto simp: sys_kill_def Let_def wp post_dispatch split: option.splits)
  show "post (sys_signal a b c s) (\<lambda>(r, s). kinv s)" using assms by (simp add: sys_signal_def Let_def wp)
  show "post (sys_sigreturn a b c s) (\<lambda>(r, s). kinv s)"
    using assms by (auto simp: sys_sigreturn_def Let_def wp intro!: post_any)
qed (use assms in \<open>simp_all add: sys_getuid_def sys_geteuid_def\<close>)

lemma post_table: "syscall_table n = Some f \<Longrightarrow> kinv s \<Longrightarrow> post (f a b c s) (\<lambda>(r, s). kinv s)"
  unfolding syscall_table_def by (drule map_of_SomeD) (auto simp: post_handlers)

lemma post_syscall:
  assumes "kinv s"
  shows "post (syscall_dispatch fp s) (\<lambda>(r, s). kinv s)"
proof -
  define s1 where "s1 = upd (current_task s) (\<lambda>x. x\<lparr>thread := (thread x)\<lparr>thr_tf := fp\<rparr>\<rparr>) s"
  have k: "kinv s1" using assms by (simp add: s1_def kinv_upd)
  have "post (bnd (f a b c s1) (\<lambda>(r, s). Inr (case r of Done v \<Rightarrow> (Done (), set_eax fp (of_int v) s)
      | Park \<Rightarrow> (Park, s) | Sleep \<Rightarrow> (Sleep, s)))) (\<lambda>(r, s). kinv s)" if "syscall_table n = Some f" for f n a b c
    unfolding post_bnd by (rule post_mono [OF post_table [OF that k]]) (auto split: flow.splits)
  then show ?thesis using assms unfolding syscall_dispatch_def Let_def s1_def [symmetric]
    by (simp add: wp split: option.splits)
qed

lemma post_isr_trap:
  assumes "kinv s"
  shows "post (isr_trap fp s) (\<lambda>(r, s). kinv s)"
proof -
  have "post (isr_handler fp s) (\<lambda>(r, s). kinv s)"
    using assms post_syscall [OF assms] by (simp add: isr_handler_def Let_def wp kill_user_on_fault_def)
  then show ?thesis unfolding isr_trap_def post_bnd
    by (rule post_mono) (auto simp: wp post_check split: flow.splits)
qed

lemma post_timer_irq:
  assumes "kinv s"
  shows "post (timer_irq fp s) (\<lambda>(r, s). kinv s)"
proof -
  have sw: "post (context_switch fp s) (\<lambda>(r, s). kinv s)" if "kinv s" for s
    using that by (simp add: context_switch_def Let_def wp kinv_upd split: option.splits)
  have "post (irq_return fp s) (\<lambda>(r, s). kinv s)" if "kinv s" for s
    unfolding irq_return_def post_bnd by (rule post_mono [OF sw [OF that]]) (auto simp: wp post_check)
  then show ?thesis unfolding timer_irq_def timer_tick_def post_bnd
    by (rule post_mono [OF post_schedule [OF assms]])
qed

section \<open>Reachable states\<close>

inductive kstep :: "kst \<Rightarrow> kst \<Rightarrow> bool" where
  trap: "isr_trap fp s = Inr (r, s') \<Longrightarrow> kstep s s'"
| timer: "timer_irq fp s = Inr (fp', s') \<Longrightarrow> kstep s s'"
| woken: "wait_turn w s = Inr (r, s') \<Longrightarrow> kstep s s'"
| return_value: "kstep s (set_eax fp v s)"
| spawn_kthread: "exec_fn addr fn sz s = Inr s' \<Longrightarrow> kstep s s'"
| spawn_user_task: "exec_user_fn fn sz par s = Inr s' \<Longrightarrow> kstep s s'"
| spawn_init: "exec_init_fn fn sz s = Inr (r, s') \<Longrightarrow> kstep s s'"
| shell_feed: "task_feed p str s = Inr (r, s') \<Longrightarrow> kstep s s'"
| shell_kill: "kstep s (kernel_signal_send t sig s)"
| shell_signal: "kstep s (kernel_signal_register t sig h s)"
| outside: "kstep s (s\<lparr>kmm := m, tframes := f\<rparr>)"

inductive_cases kstepE: "kstep s s'"

inductive reachable :: "kst \<Rightarrow> bool" where
  boot: "pd \<noteq> 0 \<Longrightarrow> reachable (task_init pd (boot_kst m k kp))"
| step: "reachable s \<Longrightarrow> kstep s s' \<Longrightarrow> reachable s'"

lemma postD: "post r Q \<Longrightarrow> r = Inr x \<Longrightarrow> Q x"
  by (simp add: post_def)

lemma kstep_kinv: "kstep s s' \<Longrightarrow> kinv s \<Longrightarrow> kinv s'"
proof (cases rule: kstep.cases)
qed (auto dest: postD [OF post_isr_trap] postD [OF post_timer_irq] postD [OF post_wait_turn] postD [OF post_exec_fn]
    postD [OF post_exec_user_fn] postD [OF post_exec_init_fn] postD [OF post_feed])

lemma boot_kinv: "kinv (task_init pd (boot_kst m k kp))"
  by (auto simp: kinv_def task_init_def Let_def boot_kst_def task_add_child_def init_task_def kthreadd_task_def)

lemma reachable_kinv: "reachable s \<Longrightarrow> kinv s"
  by (induction rule: reachable.induct) (auto intro: boot_kinv kstep_kinv)

section \<open>Properties\<close>

text \<open>
  C1. In every reachable state every task descriptor is well formed: the handler table has its 32
  entries, the dispositions of \<open>SIGKILL\<close> and \<open>SIGSTOP\<close> are the default ones, no signal number outside
  the table is pending, a continue and a stop signal are never both pending, and the indices of the
  log and input rings are in range; and the pid counter is at least 2 and below \<open>MAX_PROC\<close>.

  The descriptors are a store of their own in the model, apart from physical memory. The kernel also
  writes to memory at addresses it took from user space without checking them, the status of \<open>wait\<close>
  (\<open>src/src/cpu/syscall.c\<close>, line 191) and the signal frame below the user stack pointer
  (\<open>src/src/signal.c\<close>, line 183): the theorem is about runs in which such a write does not land on
  a descriptor, which only a ring 3 program that passes a kernel address can bring about.
\<close>

theorem reachable_tasks_well_formed:
  assumes "reachable s"
  shows "length (signal_handlers (tasks s t)) = 32 \<and>
    signal_handlers (tasks s t) ! nat SIGKILL = SIG_DFL \<and> signal_handlers (tasks s t) ! nat SIGSTOP = SIG_DFL \<and>
    \<not> bit (pending_signals (tasks s t)) 31 \<and>
    \<not> (bit (pending_signals (tasks s t)) 17 \<and> (bit (pending_signals (tasks s t)) 18 \<or> bit (pending_signals (tasks s t)) 19)) \<and>
    log_head (tasks s t) < TASK_LOG_SIZE \<and> log_len (tasks s t) \<le> TASK_LOG_SIZE \<and>
    in_head (tasks s t) < TASK_INPUT_SIZE \<and> in_tail (tasks s t) < TASK_INPUT_SIZE \<and>
    2 \<le> task_counter s \<and> task_counter s < MAX_PROC"
proof -
  have k: "kinv s" using reachable_kinv [OF assms] .
  then have "task_ok (tasks s t)" by (rule kinvD)
  then show ?thesis using k by (simp add: task_ok_def kinv_def)
qed

lemma demo_reachable: "reachable demo_kst"
  unfolding demo_kst_def by (rule reachable.boot) simp

theorem reachable_tasks_well_formed_witness:
  "length (signal_handlers (tasks (kernel_signal_register Init_task 9 7 demo_kst) Init_task)) = 32 \<and>
   signal_handlers (tasks (kernel_signal_register Init_task 9 7 demo_kst) Init_task) ! nat SIGKILL = SIG_DFL"
  using reachable_tasks_well_formed [OF reachable.step [OF demo_reachable kstep.shell_signal [of _ Init_task 9 7]], of Init_task]
  by simp

text \<open>
  In every reachable state a pid that \<open>pid_alloc\<close> hands out lies between 3 and 127, so the two-page
  kernel stack of its task lies inside the kernel-stack zone, above the chunk pool and below the
  scratch pages of \<open>fork\<close>, and does not overlap the stack of any other pid.
\<close>

theorem pid_alloc_bounds:
  assumes "reachable s" and "pid_alloc s = (Some p, s')"
  shows "3 \<le> p \<and> p \<le> 127 \<and> task_counter s' = p \<and> KCPOOL_VIRT_MAX < kstack_slot p \<and>
    unat (kstack_slot p) + 2 * 4096 \<le> unat FORK_SCRATCH_PT_VA \<and>
    (\<forall>q<MAX_PROC. q \<noteq> p \<longrightarrow> unat (kstack_slot q) + 2 * 4096 \<le> unat (kstack_slot p) \<or>
       unat (kstack_slot p) + 2 * 4096 \<le> unat (kstack_slot q))"
proof -
  have k: "kinv s" using reachable_kinv [OF assms(1)] .
  have c: "task_counter s < 127" "2 \<le> task_counter s" "p = task_counter s + 1" "task_counter s' = p"
    using k assms(2) by (auto simp: pid_alloc_def kinv_def not_le split: if_splits)
  have slot: "unat (kstack_slot q) = 0xEF000000 + unat q * 8192" if "q < 128" for q
    using that by (simp add: kstack_slot_def word_less_nat_alt unat_word_ariths)
  have up: "unat p = unat (task_counter s) + 1" using c(1,3) by (simp add: word_less_nat_alt unat_word_ariths)
  have p: "3 \<le> unat p" "unat p \<le> 127" using up c(1,2) by (simp_all add: word_less_nat_alt word_le_nat_alt)
  then have p128: "p < 128" by (simp add: word_less_nat_alt)
  have other: "unat (kstack_slot q) + 2 * 4096 \<le> unat (kstack_slot p) \<or> unat (kstack_slot p) + 2 * 4096 \<le> unat (kstack_slot q)"
    if "q < 128" "q \<noteq> p" for q
  proof -
    have "unat q \<noteq> unat p" using that(2) by (simp add: word_unat_eq_iff)
    then show ?thesis using slot [OF that(1)] slot [OF p128] by linarith
  qed
  show ?thesis using p c(4) slot [OF p128] other by (simp add: word_le_nat_alt word_less_nat_alt)
qed

theorem pid_alloc_bounds_witness:
  "\<exists>s'. pid_alloc demo_kst = (Some 3, s') \<and> KCPOOL_VIRT_MAX < kstack_slot 3"
proof -
  have "pid_alloc demo_kst = (Some 3, demo_kst\<lparr>task_counter := 3\<rparr>)" by (simp add: pid_alloc_def)
  then show ?thesis using pid_alloc_bounds [OF demo_reachable] by blast
qed

end
