(* ===== verification/Syscall_Spec.thy ===== *)
theory Syscall_Spec
  imports Kernel_Inv
begin

text \<open>
  What ring 3 can and cannot do through \<open>src/src/cpu/syscall.c\<close> and \<open>src/src/cpu/isr.c\<close>: the range check
  on user buffers, and the permission check of \<open>kill\<close>.
\<close>

lemma find_pid_chain:
  "chain (\<lambda>t. task_next (tasks s t)) it xs \<Longrightarrow> find_pid s p it = Some (find (\<lambda>t. pid (tasks s t) = p) xs)"
proof (induction xs arbitrary: it)
  case Nil
  then show ?case by (subst find_pid.simps) simp
next
  case (Cons x xs)
  then show ?case by (subst find_pid.simps) simp
qed

section \<open>Properties\<close>

text \<open>
  C23. The range check accepts exactly the buffers that lie in user space, read as natural numbers:
  those that start at or above the user code base and end at or below the kernel base, whatever the
  32-bit sum of address and length wraps to.
\<close>

theorem user_range_ok_exact:
  "user_range_ok addr n \<longleftrightarrow> unat USER_CODE_BASE \<le> unat addr \<and> unat addr + unat n \<le> unat KERNEL_VIRT_BASE"
proof (cases "unat addr + unat n < 4294967296")
  case True
  then have "unat (addr + n) = unat addr + unat n" by (simp add: unat_word_ariths)
  then show ?thesis by (auto simp: user_range_ok_def Let_def word_le_nat_alt word_less_nat_alt)
next
  case False
  have "unat (addr + n) = unat addr + unat n - 4294967296"
    using False unat_lt_u32 [of addr] unat_lt_u32 [of n] by (simp add: unat_word_ariths mod_if)
  then have "addr + n < addr" using False unat_lt_u32 [of n] unat_lt_u32 [of addr] by (simp add: word_less_nat_alt)
  then show ?thesis using False by (simp add: user_range_ok_def Let_def)
qed

text \<open>
  C22. \<open>kill\<close> acts only with permission: it returns, and whenever it changes anything at all or reports
  success, the caller is root or its effective uid is the real or effective uid of the first task with
  that pid, and the signal number is valid. An unknown pid, a bad signal or a missing permission is
  reported as -1 and changes nothing, and signal 0 only probes. The caller is any task that can exit
  (\<open>mortal\<close>: a well-formed family tree, not its own parent, and not the reaper while it has children):
  \<open>kill\<close> dispatches the caller's own signals before it returns, and the exit of a reaper with children
  would not return.
\<close>

theorem sys_kill_respects_permissions:
  assumes "runq s xs" and "mortal (current_task s) s \<and> \<not> bit (pending_signals (tasks s (current_task s))) 31"
  shows "\<exists>r s'. sys_kill p sg z s = Inr (r, s') \<and> (r = Done 0 \<or> r = Done (-1) \<and> s' = s) \<and>
    (r = Done 0 \<longleftrightarrow> 0 \<le> s32 sg \<and> s32 sg < NSIG \<and>
      (\<exists>t. find (\<lambda>t. pid (tasks s t) = p) xs = Some t \<and>
        (euid (tasks s (current_task s)) = 0 \<or> euid (tasks s (current_task s)) = uid (tasks s t) \<or>
         euid (tasks s (current_task s)) = euid (tasks s t)))) \<and>
    (s32 sg = 0 \<longrightarrow> s' = s)"
proof -
  let ?c = "current_task s"
  have f: "find_pid s p (task_list_head s) = Some (find (\<lambda>t. pid (tasks s t) = p) xs)"
    using assms(1) find_pid_chain by (simp add: runq_def)
  have "\<exists>s'. kernel_signal_dispatch ?c (kernel_signal_send t sig s) = Inr s'" if "0 < sig" "sig < 32" for t sig
  proof -
    have "\<not> bit (pending_signals (tasks (kernel_signal_send t sig s) ?c)) 31"
      using assms(2) that by (auto simp: kernel_signal_send_def post_signal_def Let_def bit_or_iff bit_and_iff bit_SIGMASK)
    then show ?thesis using kernel_signal_dispatch_total [of ?c "kernel_signal_send t sig s"] mortal_can_take assms(2) by auto
  qed
  moreover have "current_task (kernel_signal_send t sig s) = ?c" for t sig by (simp add: kernel_signal_send_def)
  ultimately show ?thesis
    by (auto simp: sys_kill_def Let_def f kill_allowed_def split: option.splits)
qed

text \<open>The same queue with the new task on the CPU.\<close>

definition demo_user :: kst where
  "demo_user = demo_queue\<lparr>current_task := Dyn 0x100\<rparr>"

lemma demo_user:
  "runq demo_user [Dyn 0x100, Init_task]" "current_task demo_user = Dyn 0x100" "mortal (Dyn 0x100) demo_user"
  "tasks demo_user (Dyn 0x100) = zero_task\<lparr>parent := Some Init_task, sibling := Some Kthreadd_task, task_next := Some Init_task\<rparr>"
  "tframes demo_user = (\<lambda>_. zero_frame)" "kmm demo_user = boot_mm one_free"
proof -
  show c: "current_task demo_user = Dyn 0x100" by (simp add: demo_user_def)
  show "runq demo_user [Dyn 0x100, Init_task]" using demo_queue(1) by (simp add: runq_def demo_user_def)
  show t: "tasks demo_user (Dyn 0x100) = zero_task\<lparr>parent := Some Init_task, sibling := Some Kthreadd_task, task_next := Some Init_task\<rparr>"
    by (simp add: demo_user_def demo_queue_def link_task_def task_add_child_def Let_def demo_task)
  have "tree demo_user ((\<lambda>_. [])(Init_task := [Dyn 0x100, Kthreadd_task]))"
    using demo_queue_tree by (rule tree_cong [THEN iffD1, rotated]) (simp add: demo_user_def same_links_def)
  moreover have "reaper_of demo_user = Init_task"
    by (simp add: reaper_of_def demo_user_def demo_queue_def link_task_def task_add_child_def Let_def)
  ultimately show "mortal (Dyn 0x100) demo_user" using t by (auto simp: mortal_def in_tree_def stuck_reaper_def zero_task_def)
  show "tframes demo_user = (\<lambda>_. zero_frame)" "kmm demo_user = boot_mm one_free"
    by (simp_all add: demo_user_def demo_queue_def link_task_def task_add_child_def Let_def)
qed

theorem sys_kill_respects_permissions_witness:
  "\<exists>r s'. sys_kill 7 9 0 demo_user = Inr (r, s') \<and> (r = Done 0 \<or> r = Done (-1) \<and> s' = demo_user)"
  using sys_kill_respects_permissions [OF demo_user(1), of 7 9 0] demo_user(2,3,4) by (auto simp: zero_task_def)

text \<open>
  C39. The range check does not look at the page tables: a ring 3 task that passes \<open>write\<close> a buffer inside
  user space whose first page is not mapped makes the kernel itself fault, and a page fault in ring 0
  is a panic.
\<close>

theorem sys_write_unmapped_buffer_panics:
  assumes "user_range_ok buf n" and "n \<noteq> 0" and "mmu_walk (kmm s) buf = None"
    and "tf_int_no (tframes s' fp) = 14" and "tf_cs (tframes s' fp) AND 3 = 0"
  shows "sys_write 1 buf n s = Inl (PageFault buf) \<and> isr_handler fp s' = Inl (Kpanic ''page fault'')"
proof -
  have "0 < unat n" using assms(2) by (simp add: unat_gt_0)
  then have "u32_range 0 n = 0 # map of_nat [1..<unat n]" by (simp add: u32_range_def upt_conv_Cons)
  then have "sys_write 1 buf n s = Inl (PageFault buf)"
    using assms(1,3) by (simp add: sys_write_def write_byte_def vread8_def)
  moreover have "isr_handler fp s' = Inl (Kpanic ''page fault'')"
    using assms(4,5) by (simp add: isr_handler_def Let_def panic_message_def)
  ultimately show ?thesis by simp
qed

theorem sys_write_unmapped_buffer_panics_witness:
  "sys_write 1 0x09000000 4 (demo_user\<lparr>kmm := boot_space\<rparr>) = Inl (PageFault 0x09000000)"
proof -
  have "mmu_walk boot_space 0x09000000 = None"
    using paging_init_walk [of "boot_mm one_free" "0x09000000"] boot_mm one_free(1) by (simp add: boot_space_def index_unat)
  then show ?thesis
    using sys_write_unmapped_buffer_panics [of "0x09000000" 4 "demo_user\<lparr>kmm := boot_space\<rparr>"
      "demo_user\<lparr>tframes := \<lambda>_. zero_frame\<lparr>tf_int_no := 14\<rparr>\<rparr>" 0]
    by (simp add: user_range_ok_def zero_frame_def)
qed

end
