(* ===== verification/Fault_Spec.thy ===== *)
theory Fault_Spec
  imports Syscall_Spec
begin

text \<open>
  The fate of a ring 3 task that faults, \<open>src/src/cpu/isr.c\<close>: with the default disposition it dies at the
  next dispatch; with a handler installed it stays in the halt loop of \<open>cpu_park_dying\<close> and its handler
  is never entered.
\<close>

lemma user_fault_parks:
  assumes "user_fault (tf_int_no (tframes s fp))" and "tf_cs (tframes s fp) AND 3 = 3"
  shows "isr_handler fp s =
    Inr (Park, kernel_signal_send (current_task s) (signal_from_exception (tf_int_no (tframes s fp))) s)"
  using assms by (auto simp: isr_handler_def Let_def kill_user_on_fault_def user_fault_def)

lemma fault_signal: "user_fault n \<Longrightarrow> signal_from_exception n \<in> {4, 7, 8, 11}"
  by (auto simp: user_fault_def signal_from_exception_def)

section \<open>A parked task\<close>

text \<open>
  After a fault in ring 3 the kernel halts in \<open>cpu_park_dying\<close>, inside the handler, with the faulting
  task \<open>c\<close> still the current one. The steps of the machine from there on, as far as \<open>c\<close> is concerned:
  an interrupt hits \<open>c\<close> itself, and the frame the processor pushes is a ring 0 one, because the halt loop
  is ring 0 code; an interrupt hits another task, with its frame on another stack than \<open>c\<close>'s; somebody
  sends a signal to a task, \<open>c\<close> included; or another task does other work (a system call, a fault),
  which leaves the handlers and pending signals of \<open>c\<close>, its saved context and the frame this points to
  as they are. An interrupt is the timer (with the scheduler) or any other one (the return path only).
\<close>

definition irq_on :: "u32 \<Rightarrow> trap_frame \<Rightarrow> kst \<Rightarrow> kst \<Rightarrow> bool" where
  "irq_on fp f s s' \<longleftrightarrow> (let s = s\<lparr>tframes := (tframes s)(fp := f)\<rparr> in
     \<exists>fp'. timer_irq fp s = Inr (fp', s') \<or> irq_return fp s = Inr (fp', s'))"

definition saved_frame :: "tptr \<Rightarrow> kst \<Rightarrow> trap_frame" where
  "saved_frame c s = tframes s (thr_esp (thread (tasks s c)))"

inductive parked_step :: "tptr \<Rightarrow> kst \<Rightarrow> kst \<Rightarrow> bool" for c where
  own_irq: "current_task s = c \<Longrightarrow> tf_cs f AND 3 = 0 \<Longrightarrow> irq_on fp f s s' \<Longrightarrow> parked_step c s s'"
| other_irq: "current_task s \<noteq> c \<Longrightarrow> fp \<noteq> thr_esp (thread (tasks s c)) \<Longrightarrow> irq_on fp f s s' \<Longrightarrow> parked_step c s s'"
| sent: "parked_step c s (kernel_signal_send t sg s)"
| other_work: "current_task s \<noteq> c \<Longrightarrow> current_task s' = current_task s \<Longrightarrow>
    signal_handlers (tasks s' c) = signal_handlers (tasks s c) \<Longrightarrow> pending_signals (tasks s' c) = pending_signals (tasks s c) \<Longrightarrow>
    is_userspace (tasks s' c) = is_userspace (tasks s c) \<Longrightarrow> thread (tasks s' c) = thread (tasks s c) \<Longrightarrow>
    saved_frame c s' = saved_frame c s \<Longrightarrow> parked_step c s s'"

text \<open>A task with a caught signal pending.\<close>

definition caught :: "int \<Rightarrow> task \<Rightarrow> bool" where
  "caught sig x \<longleftrightarrow> length (signal_handlers x) = 32 \<and> signal_handlers x ! nat sig \<noteq> SIG_DFL \<and>
     signal_handlers x ! nat sig \<noteq> SIG_IGN \<and> is_userspace x \<and> bit (pending_signals x) (nat sig - 1)"

text \<open>What everything but a return to ring 3 keeps of it.\<close>

definition held :: "tptr \<Rightarrow> int \<Rightarrow> kst \<Rightarrow> kst \<Rightarrow> bool" where
  "held c sig s s' \<longleftrightarrow> caught sig (tasks s' c) \<and> thread (tasks s' c) = thread (tasks s c) \<and>
     tframes s' = tframes s \<and> current_task s' = current_task s"

lemma held_refl: "caught sig (tasks s c) \<Longrightarrow> held c sig s s"
  by (simp add: held_def)

lemma held_upd:
  assumes "\<And>x. caught sig x \<Longrightarrow> caught sig (f x)" and "\<And>x. thread (f x) = thread x" and "held c sig s0 s"
  shows "held c sig s0 (upd t f s)"
  using assms by (auto simp: held_def)

lemma caught_frame [simp]:
  "caught sig (x\<lparr>state := a\<rparr>) = caught sig x" "caught sig (x\<lparr>parent := d\<rparr>) = caught sig x"
  "caught sig (x\<lparr>children := d\<rparr>) = caught sig x" "caught sig (x\<lparr>sibling := d\<rparr>) = caught sig x"
  "caught sig (x\<lparr>exit_code := g\<rparr>) = caught sig x" "caught sig (x\<lparr>time_left := k\<rparr>) = caught sig x"
  "caught sig (x\<lparr>thread := h\<rparr>) = caught sig x"
  by (simp_all add: caught_def)

text \<open>The four signals that exceptions raise are neither stop signals nor \<open>SIGCONT\<close>.\<close>

lemma caught_post:
  assumes "sig \<in> {4, 7, 8, 11}" and "caught sig x"
  shows "caught sig (post_signal sg x)"
proof -
  have "\<not> bit SIG_STOP_MASK (nat sig - 1)" "\<not> bit (SIGMASK SIGCONT) (nat sig - 1)" "nat sig - 1 < 32"
    using assms(1) by (auto simp: bit_SIG_STOP_MASK bit_SIGMASK)
  moreover have "bit (pending_signals x) (nat sig - 1)" using assms(2) by (simp add: caught_def)
  ultimately have "bit (pending_signals (post_signal sg x)) (nat sig - 1)"
    by (auto simp: post_signal_def Let_def bit_or_iff bit_and_iff bit_not_iff)
  then show ?thesis using assms(2) by (simp add: caught_def)
qed

section \<open>The operations hold it\<close>

lemma held_links:
  assumes "held c sig s0 s"
  shows "held c sig s0 (task_add_child p x s)" and "post (task_remove_child p x s) (held c sig s0)"
    and "post (task_reparent x p s) (held c sig s0)"
proof -
  have a: "held c sig s0 (task_add_child p x s)" if "held c sig s0 s" for s
    using that by (simp add: task_add_child_def Let_def held_upd)
  show "held c sig s0 (task_add_child p x s)" using a [OF assms] .
  have r: "post (task_remove_child p x s) (held c sig s0)" if "held c sig s0 s" for p s
    using that by (auto simp: task_remove_child_def wp held_upd split: option.splits)
  show "post (task_remove_child p x s) (held c sig s0)" using r [OF assms] .
  show "post (task_reparent x p s) (held c sig s0)"
    using post_mono [OF r] assms a by (auto simp: task_reparent_def wp held_upd split: option.splits)
qed

lemma held_orphan:
  assumes "orphan_children t r s = Some y"
  shows "held c sig s0 s \<longrightarrow> post y (held c sig s0)"
proof (rule orphan_children.raw_induct [OF _ assms], intro impI)
  fix lp t r s y
  assume ih: "\<And>t r s y. lp t r s = Some y \<Longrightarrow> held c sig s0 s \<longrightarrow> post y (held c sig s0)"
    and eq: "(case children (tasks s t) of None \<Rightarrow> Some (Inr s) | Some x \<Rightarrow>
        (case task_reparent x r s of Inl e \<Rightarrow> Some (Inl e) | Inr s \<Rightarrow> lp t r s)) = Some y"
    and k: "held c sig s0 s"
  show "post y (held c sig s0)"
    using eq k ih held_links(3) [OF k] by (auto simp: post_def split: option.splits sum.splits)
qed

lemma held_send: "sig \<in> {4, 7, 8, 11} \<Longrightarrow> held c sig s0 s \<Longrightarrow> held c sig s0 (kernel_signal_send t sg s)"
  unfolding kernel_signal_send_def by (rule held_upd) (simp_all add: caught_post)

lemma held_exit:
  assumes "sig \<in> {4, 7, 8, 11}" and "held c sig s0 s"
  shows "post (do_exit t code s) (held c sig s0)"
proof -
  have "post (loop_res (orphan_children t r s')) (held c sig s0)" if "held c sig s0 s'" for r s'
    using that held_orphan by (intro post_loop) blast
  then show ?thesis
    unfolding do_exit_def Let_def wp
    by (rule post_mono) (use assms in \<open>auto simp: held_upd held_send split: option.splits\<close>)
qed

lemma held_default: "sig \<in> {4, 7, 8, 11} \<Longrightarrow> held c sig s0 s \<Longrightarrow> post (sig_default_action t sg s) (held c sig s0)"
  using held_exit by (simp add: sig_default_action_def wp held_upd)

lemma held_deliver:
  assumes "sig \<in> {4, 7, 8, 11}" and "held c sig s0 s" and "0 < sg"
  shows "post (deliver t sg s) (held c sig s0)"
proof (cases "t = c \<and> sg = sig")
  case True
  then show ?thesis using assms(1,2) by (auto simp: deliver_def Let_def wp held_def caught_def)
next
  case False
  let ?k = "clear_pending t (SIGMASK sg) s"
  have "nat sg - 1 \<noteq> nat sig - 1" if "sg \<noteq> sig" using assms(1,3) that by auto
  moreover have "nat sig - 1 < 32" using assms(1) by auto
  ultimately have "caught sig (tasks ?k c)" using False assms(2,3)
    by (auto simp: clear_pending_def caught_def held_def bit_and_iff bit_not_iff bit_SIGMASK)
  then have k: "held c sig s0 ?k" using assms(2) by (auto simp: held_def clear_pending_def)
  have h: "held c sig s0 (?k\<lparr>handler_calls := h\<rparr>)" for h using k by (simp add: held_def)
  have "post (sig_default_action t sg ?k) (held c sig s0)"
    by (rule held_default [OF assms(1) k])
  then show ?thesis using k h assms(2) by (simp add: deliver_def Let_def wp)
qed

lemma held_dispatch:
  assumes "sig \<in> {4, 7, 8, 11}" and "held c sig s0 s"
  shows "post (kernel_signal_dispatch t s) (held c sig s0)"
proof -
  have "post (deliver_all t sigs s) (held c sig s0)" if "\<forall>i\<in>set sigs. 0 < i" "held c sig s0 s" for sigs s
    using that
  proof (induction sigs arbitrary: s)
    case (Cons sg sigs)
    then show ?case using post_mono [OF held_deliver [OF assms(1) Cons.prems(2), of sg t]] by (auto simp: wp)
  qed simp
  then show ?thesis using assms(2) by (simp add: kernel_signal_dispatch_def dispatch_loop_deliver_all in_sig_list)
qed

lemma held_globals [simp]:
  "held c sig s0 (s\<lparr>next_task := l\<rparr>) = held c sig s0 s" "held c sig s0 (s\<lparr>need_resched := j\<rparr>) = held c sig s0 s"
  "held c sig s0 (s\<lparr>lap_anchor := n\<rparr>) = held c sig s0 s" "held c sig s0 (s\<lparr>lap_num := q\<rparr>) = held c sig s0 s"
  "held c sig s0 (s\<lparr>blocked_marker := r\<rparr>) = held c sig s0 s" "held c sig s0 (s\<lparr>unblocked_marker := u\<rparr>) = held c sig s0 s"
  "held c sig s0 (tss_set_esp0 a s) = held c sig s0 s"
  by (simp_all add: held_def tss_set_esp0_def)

lemma held_unblock:
  assumes "unblock_scan it s = Some y"
  shows "held c sig s0 s \<longrightarrow> held c sig s0 y"
proof (rule unblock_scan.raw_induct [OF _ assms], intro impI)
  fix lp it s y
  assume "\<And>it s y. lp it s = Some y \<Longrightarrow> held c sig s0 s \<longrightarrow> held c sig s0 y" and "held c sig s0 s"
    and "(case it of None \<Rightarrow> Some s | Some t \<Rightarrow>
          let s = (if state (tasks s t) \<noteq> TASK_BLOCKED then s else upd t (\<lambda>x. x\<lparr>state := TASK_RUNNABLE\<rparr>) s) in
          lp (task_next (tasks s t)) s) = Some y"
  then show "held c sig s0 y" by (auto simp: Let_def held_upd split: option.splits if_splits)
qed

lemma held_switch:
  assumes "held c sig s0 s"
  shows "post (switch_to n s) (held c sig s0)"
proof -
  define s1 where "s1 = (if state (tasks s (current_task s)) = TASK_RUNNING
      then upd (current_task s) (\<lambda>x. x\<lparr>state := TASK_RUNNABLE\<rparr>) s else s)"
  define s2 where "s2 = upd n (\<lambda>x. x\<lparr>state := TASK_RUNNING\<rparr>) s1"
  define s3 where "s3 = (if is_userspace (tasks s2 n)
      then tss_set_esp0 (kstack (tasks s2 n) + KSTACK_PAGES * PAGE_SIZE) s2 else s2)"
  have k: "held c sig s0 s3" using assms by (simp add: s3_def s2_def s1_def held_upd)
  have b: "post (maybe_block_faulty_target n s) (held c sig s0)" if "held c sig s0 s" for s
    using that by (auto simp: maybe_block_faulty_target_def wp held_upd intro!: post_any split: option.splits)
  have u: "post (maybe_unblock_faulty_target s) (held c sig s0)" if "held c sig s0 s" for s
    using that by (auto simp: maybe_unblock_faulty_target_def wp dest: held_unblock split: option.splits)
  show ?thesis
    unfolding switch_to_def Let_def s1_def [symmetric] s2_def [symmetric] s3_def [symmetric]
    by (simp add: wp k post_mono [OF b] u)
qed

lemma held_schedule:
  assumes "sig \<in> {4, 7, 8, 11}" and "held c sig s0 s"
  shows "post (schedule s) (held c sig s0)"
proof -
  have "post (if pending_signals (tasks s (current_task s)) \<noteq> 0
      then kernel_signal_dispatch (current_task s) s else Inr s) (held c sig s0)"
    using assms held_dispatch by simp
  then show ?thesis
    unfolding schedule_def Let_def post_bnd
    by (rule post_mono) (auto simp: wp held_upd intro!: post_any held_switch)
qed

text \<open>
  The return path. The task keeps its signal and, when it is not on the CPU, a ring 0 frame to resume,
  if the frame that is returned through is a ring 0 one whenever it is the task's own.
\<close>

definition parked :: "tptr \<Rightarrow> int \<Rightarrow> kst \<Rightarrow> bool" where
  "parked c sig s \<longleftrightarrow> caught sig (tasks s c) \<and> (current_task s \<noteq> c \<longrightarrow> tf_cs (saved_frame c s) AND 3 \<noteq> 3)"

lemma parked_check:
  assumes "signal_check_and_deliver fp s = Inr s'" and "parked c sig s" and "current_task s = c \<longrightarrow> tf_cs (tframes s fp) AND 3 \<noteq> 3"
  shows "parked c sig s'"
proof -
  consider "s' = s" | b fr m where "tf_cs (tframes s fp) AND 3 = 3"
      "s' = (clear_pending (current_task s) b s)\<lparr>tframes := (tframes s)(fp := fr), kmm := m\<rparr>"
    using assms(1) unfolding signal_check_and_deliver_def Let_def
    by (auto simp: clear_pending_def split: if_splits option.splits prod.splits)
  then show ?thesis
  proof cases
    case 2
    then have "current_task s \<noteq> c" "thr_esp (thread (tasks s c)) \<noteq> fp" using assms(2,3) by (auto simp: parked_def saved_frame_def)
    then show ?thesis using assms(2) 2 by (simp add: parked_def saved_frame_def clear_pending_def)
  qed (use assms in simp)
qed

lemma parked_return:
  assumes "irq_return fp s = Inr (fp', s')" and "caught sig (tasks s c)"
    and "tf_cs (if current_task s = c then tframes s fp else saved_frame c s) AND 3 \<noteq> 3"
  shows "parked c sig s'"
proof -
  obtain s1 where s1: "context_switch fp s = Inr (fp', s1)" "signal_check_and_deliver fp' s1 = Inr s'"
    using assms(1) by (auto simp: irq_return_def)
  have "parked c sig s1 \<and> (current_task s1 = c \<longrightarrow> tf_cs (tframes s1 fp') AND 3 \<noteq> 3)"
  proof (cases "need_resched s = 0")
    case True
    then show ?thesis using s1(1) assms(2,3) by (auto simp: context_switch_def parked_def split: if_splits)
  next
    case False
    then obtain n where n: "next_task s = Some n" using s1(1) by (auto simp: context_switch_def split: option.splits)
    define t1 where "t1 = (upd (current_task s) (\<lambda>x. x\<lparr>thread := (thread x)\<lparr>thr_esp := fp\<rparr>\<rparr>) s)\<lparr>current_task := n\<rparr>"
    have t: "tasks s1 = tasks t1" "tframes s1 = tframes s" "current_task s1 = n" "fp' = thr_esp (thread (tasks t1 n))"
      using s1(1) False n by (auto simp: context_switch_def Let_def t1_def)
    have "caught sig (tasks t1 c)" using assms(2) by (auto simp: t1_def)
    moreover have "tf_cs (saved_frame c s1) AND 3 \<noteq> 3"
      using assms(3) by (simp add: saved_frame_def t t1_def split: if_splits)
    ultimately show ?thesis using t by (simp add: parked_def saved_frame_def)
  qed
  then show ?thesis using parked_check [OF s1(2)] by blast
qed

lemma parked_irq:
  assumes "sig \<in> {4, 7, 8, 11}" and "irq_on fp f s s'" and "caught sig (tasks s c)"
    and "if current_task s = c then tf_cs f AND 3 \<noteq> 3
      else fp \<noteq> thr_esp (thread (tasks s c)) \<and> tf_cs (saved_frame c s) AND 3 \<noteq> 3"
  shows "parked c sig s'"
proof -
  let ?s = "s\<lparr>tframes := (tframes s)(fp := f)\<rparr>"
  have ca: "caught sig (tasks ?s c)" using assms(3) by simp
  have g: "tf_cs (if current_task ?s = c then tframes ?s fp else saved_frame c ?s) AND 3 \<noteq> 3"
    using assms(4) by (auto simp: saved_frame_def split: if_splits)
  from assms(2) obtain fp' where "timer_irq fp ?s = Inr (fp', s') \<or> irq_return fp ?s = Inr (fp', s')"
    by (auto simp: irq_on_def Let_def)
  then show ?thesis
  proof
    assume "timer_irq fp ?s = Inr (fp', s')"
    then obtain s1 where s1: "schedule ?s = Inr s1" "irq_return fp s1 = Inr (fp', s')"
      by (auto simp: timer_irq_def timer_tick_def)
    have "held c sig ?s s1" using postD [OF held_schedule [OF assms(1) held_refl [OF ca]] s1(1)] .
    then show ?thesis using parked_return [OF s1(2)] g by (simp add: held_def saved_frame_def split: if_splits)
  qed (use parked_return ca g in blast)
qed

lemma parked_step_parked:
  assumes "parked_step c s s'" and "sig \<in> {4, 7, 8, 11}" and "parked c sig s"
  shows "parked c sig s'"
  using assms(1)
proof cases
  case (own_irq f fp)
  then have "tf_cs f AND 3 \<noteq> 3" by simp
  then show ?thesis using own_irq parked_irq [OF assms(2)] assms(3) by (simp add: parked_def)
next
  case (other_irq fp f)
  then show ?thesis using parked_irq [OF assms(2)] assms(3) by (simp add: parked_def)
next
  case (sent t sg)
  have "held c sig s s'" unfolding sent using held_send [OF assms(2) held_refl] assms(3) by (simp add: parked_def)
  then show ?thesis using assms(3) by (simp add: parked_def held_def saved_frame_def)
next
  case other_work
  then show ?thesis using assms(3) by (simp add: parked_def caught_def)
qed

lemma parked_run:
  assumes "(parked_step c)\<^sup>*\<^sup>* s s'" and "sig \<in> {4, 7, 8, 11}" and "parked c sig s"
  shows "parked c sig s'"
  using assms(1) by (induction rule: rtranclp_induct) (use assms(2,3) parked_step_parked in blast)+

section \<open>Properties\<close>


text \<open>The task of \<open>demo_user\<close> marked running, with the frame of a page fault in ring 3.\<close>

definition demo_fault :: "u32 list \<Rightarrow> kst" where
  "demo_fault hs = upd (Dyn 0x100) (\<lambda>x. x\<lparr>state := TASK_RUNNING, is_userspace := True, signal_handlers := hs\<rparr>)
     (demo_user\<lparr>tframes := \<lambda>_. zero_frame\<lparr>tf_int_no := 14, tf_cs := 0x23\<rparr>\<rparr>)"

lemma demo_fault:
  "tree (demo_fault hs) ((\<lambda>_. [])(Init_task := [Dyn 0x100, Kthreadd_task]))"
  "current_task (demo_fault hs) = Dyn 0x100" "reaper_of (demo_fault hs) = Init_task"
  "tframes (demo_fault hs) fp = zero_frame\<lparr>tf_int_no := 14, tf_cs := 0x23\<rparr>"
  "tasks (demo_fault hs) (Dyn 0x100) = (tasks demo_user (Dyn 0x100))\<lparr>state := TASK_RUNNING, is_userspace := True, signal_handlers := hs\<rparr>"
proof -
  show "tree (demo_fault hs) ((\<lambda>_. [])(Init_task := [Dyn 0x100, Kthreadd_task]))"
    using demo_queue_tree by (rule tree_cong [THEN iffD1, rotated]) (simp add: demo_fault_def demo_user_def same_links_def)
  show "reaper_of (demo_fault hs) = Init_task"
    by (simp add: reaper_of_def demo_fault_def demo_user_def demo_queue_def link_task_def task_add_child_def Let_def)
qed (simp_all add: demo_fault_def demo_user(2))


text \<open>
  C38. A ring 3 task that faults with a handler installed for the fault's signal never gets to run that
  handler. The kernel posts the signal and parks the task in ring 0. In every state the machine can go
  through from there (\<open>parked_step\<close>: interrupts that hit the task in its ring 0 halt loop, interrupts of
  other tasks, signals sent to anyone, other work of other tasks that does not touch this task) the
  signal is still pending, although delivering it would have taken it off, and as long as the task is
  off the CPU the frame it will resume is a ring 0 one, so it does not return to ring 3. And unless
  something else was pending, the signal does not end the task either: the dispatch of the scheduler
  skips it and leaves the task marked running.
\<close>

theorem user_fault_caught_never_delivered:
  fixes s fp
  defines "f \<equiv> tframes s fp" and "c \<equiv> current_task s"
  defines "sig \<equiv> signal_from_exception (tf_int_no f)"
  assumes "user_fault (tf_int_no f)" and "tf_cs f AND 3 = 3" and "length (signal_handlers (tasks s c)) = 32"
    and "signal_handlers (tasks s c) ! nat sig \<noteq> SIG_DFL" and "signal_handlers (tasks s c) ! nat sig \<noteq> SIG_IGN"
    and "is_userspace (tasks s c)"
  shows "\<exists>s1. isr_handler fp s = Inr (Park, s1) \<and>
    (\<forall>s'. (parked_step c)\<^sup>*\<^sup>* s1 s' \<longrightarrow> bit (pending_signals (tasks s' c)) (nat sig - 1) \<and>
       (current_task s' \<noteq> c \<longrightarrow> tf_cs (tframes s' (thr_esp (thread (tasks s' c)))) AND 3 \<noteq> 3)) \<and>
    (pending_signals (tasks s c) = 0 \<and> state (tasks s c) = TASK_RUNNING \<longrightarrow>
       state (tasks s1 c) = TASK_RUNNING \<and> kernel_signal_dispatch c s1 = Inr s1)"
proof -
  let ?s1 = "kernel_signal_send c sig s"
  have sig: "sig \<in> {4, 7, 8, 11}" using assms(4) fault_signal by (simp add: sig_def)
  then have r: "0 < sig" "sig < 32" "nat sig - 1 < 32" "int (nat sig - 1) + 1 = sig" by auto
  have i: "isr_handler fp s = Inr (Park, ?s1)"
    using assms(4,5) user_fault_parks unfolding f_def c_def sig_def by blast
  have ca: "caught sig (tasks ?s1 c)"
    using post_signal_pending [OF r(1,2), of "tasks s c"] assms(6-9) r(1) by (simp add: caught_def kernel_signal_send_def)
  then have p: "parked c sig ?s1" by (simp add: parked_def c_def kernel_signal_send_def)
  have "bit (pending_signals (tasks s' c)) (nat sig - 1) \<and>
      (current_task s' \<noteq> c \<longrightarrow> tf_cs (tframes s' (thr_esp (thread (tasks s' c)))) AND 3 \<noteq> 3)"
    if "(parked_step c)\<^sup>*\<^sup>* ?s1 s'" for s'
    using parked_run [OF that sig p] by (simp add: parked_def caught_def saved_frame_def)
  moreover have "state (tasks ?s1 c) = TASK_RUNNING \<and> kernel_signal_dispatch c ?s1 = Inr ?s1"
    if o: "pending_signals (tasks s c) = 0 \<and> state (tasks s c) = TASK_RUNNING"
  proof
    have pen: "pending_signals (tasks ?s1 c) = 2 ^ (nat sig - 1)"
      using o sig r by (auto simp: kernel_signal_send_def post_signal_def Let_def SIGMASK_exp)
    show st: "state (tasks ?s1 c) = TASK_RUNNING"
      using o post_signal_state [of sig "tasks s c"] sig by (auto simp: kernel_signal_send_def)
    have z: "(2 ^ (nat sig - 1) AND NOT (2 ^ (nat sig - 1)) :: u32) = 0" by simp
    have "sig_list (2 ^ (nat sig - 1)) = [sig]"
      using sig_list_low [of "2 ^ (nat sig - 1)" "nat sig - 1"] r(3,4) unfolding z by (auto simp: bit_exp_u32)
    moreover have "deliver c sig ?s1 = Inr ?s1" using ca sig by (auto simp: deliver_def Let_def caught_def)
    ultimately show "kernel_signal_dispatch c ?s1 = Inr ?s1"
      using st by (simp add: kernel_signal_dispatch_def dispatch_loop_deliver_all pen)
  qed
  ultimately show ?thesis using i by blast
qed

text \<open>A run of the witness: somebody sends the parked task \<open>SIGSEGV\<close> once more.\<close>

theorem user_fault_caught_never_delivered_witness:
  "\<exists>s1. isr_handler 0 (demo_fault (replicate 32 0x9000)) = Inr (Park, s1) \<and>
    bit (pending_signals (tasks (kernel_signal_send (Dyn 0x100) 11 s1) (Dyn 0x100))) 10 \<and>
    kernel_signal_dispatch (Dyn 0x100) s1 = Inr s1"
proof -
  let ?s = "demo_fault (replicate 32 0x9000)"
  have c: "current_task ?s = Dyn 0x100" by (rule demo_fault(2))
  have sg: "signal_from_exception (tf_int_no (tframes ?s 0)) = 11" by (simp add: demo_fault(4) signal_from_exception_def)
  obtain s1 where s1: "isr_handler 0 ?s = Inr (Park, s1)"
    "\<And>s'. (parked_step (Dyn 0x100))\<^sup>*\<^sup>* s1 s' \<Longrightarrow> bit (pending_signals (tasks s' (Dyn 0x100))) 10"
    "kernel_signal_dispatch (Dyn 0x100) s1 = Inr s1"
    using user_fault_caught_never_delivered [of ?s 0, unfolded c sg] demo_user(4)
    by (auto simp: demo_fault user_fault_def zero_task_def)
  then show ?thesis using r_into_rtranclp [of "parked_step (Dyn 0x100)", OF parked_step.sent] by blast
qed

end
