(* ===== verification/Ring_Buffer.thy ===== *)
theory Ring_Buffer
  imports Prelude
begin

text \<open>
  Rings that overwrite their oldest element, as the kernel log of \<open>src/src/klib/printk.c\<close> and the
  per-task log of \<open>src/src/task.c\<close> are: \<open>ring_read N b st n\<close> lists \<open>n\<close> cells of a ring of \<open>N\<close> cells from
  cell \<open>st\<close> on. Storing at the head of such a ring keeps the last \<open>N\<close> elements of everything stored.
\<close>

definition ring_read :: "nat \<Rightarrow> (nat \<Rightarrow> 'a) \<Rightarrow> nat \<Rightarrow> nat \<Rightarrow> 'a list" where
  "ring_read N b st n = map (\<lambda>i. b ((st + i) mod N)) [0..<n]"

definition last_n :: "nat \<Rightarrow> 'a list \<Rightarrow> 'a list" where
  "last_n n xs = drop (length xs - n) xs"

lemma length_ring_read [simp]: "length (ring_read N b st n) = n"
  by (simp add: ring_read_def)

lemma last_n_append: "last_n n (last_n n xs @ ys) = last_n n (xs @ ys)"
  by (cases "n \<le> length xs") (auto simp: last_n_def add.commute)

lemma last_n_all [simp]: "length xs \<le> n \<Longrightarrow> last_n n xs = xs"
  by (simp add: last_n_def)

lemma length_last_n [simp]: "length (last_n n xs) = min n (length xs)"
  by (simp add: last_n_def)

lemma ring_read_cong:
  assumes "0 < N" and "\<And>i. i < N \<Longrightarrow> b i = b' i"
  shows "ring_read N b st n = ring_read N b' st n"
  using assms by (simp add: ring_read_def)

lemma ring_read_upd_new:
  assumes "n < N" shows "ring_read N (b(n := c)) 0 (Suc n) = ring_read N b 0 n @ [c]"
  using assms by (simp add: ring_read_def)

lemma ring_read_upd_full:
  assumes "h < N"
  shows "ring_read N (b(h := c)) ((h + 1) mod N) N = tl (ring_read N b h N) @ [c]"
proof (rule nth_equalityI)
  fix i assume "i < length (ring_read N (b(h := c)) ((h + 1) mod N) N)"
  then have i: "i < N" by simp
  have ix: "((h + 1) mod N + i) mod N = (h + Suc i) mod N" by (simp add: mod_simps)
  show "ring_read N (b(h := c)) ((h + 1) mod N) N ! i = (tl (ring_read N b h N) @ [c]) ! i"
  proof (cases "Suc i = N")
    case True
    have "(h + Suc i) mod N = h" using assms True by simp
    moreover have "\<not> i < N - 1" using True by simp
    ultimately show ?thesis using True i ix by (simp add: ring_read_def nth_append)
  next
    case False
    then have "(h + Suc i) mod N \<noteq> h" using i assms by (cases "h + Suc i < N") (auto simp: mod_if)
    moreover have "i < N - 1" using False i by simp
    ultimately show ?thesis using False i ix by (simp add: ring_read_def nth_append nth_tl del: add_Suc_right)
  qed
qed (use assms in simp)

text \<open>
  One store. \<open>h\<close> is the cell to write and \<open>n\<close> the number of cells in use, which is also the head until
  the ring is full.
\<close>

definition ring_view :: "nat \<Rightarrow> (nat \<Rightarrow> 'a) \<Rightarrow> nat \<Rightarrow> nat \<Rightarrow> 'a list" where
  "ring_view N b h n = ring_read N b (if n < N then 0 else h) n"

definition ring_ok :: "nat \<Rightarrow> nat \<Rightarrow> nat \<Rightarrow> bool" where
  "ring_ok N h n \<longleftrightarrow> h < N \<and> n \<le> N \<and> (n < N \<longrightarrow> h = n)"

lemma ring_store:
  assumes "ring_ok N h n"
  shows "ring_view N (b(h := c)) ((h + 1) mod N) (min N (n + 1)) = last_n N (ring_view N b h n @ [c])"
    and "ring_ok N ((h + 1) mod N) (min N (n + 1))"
proof -
  have hN: "h < N" "n \<le> N" using assms by (simp_all add: ring_ok_def)
  show "ring_ok N ((h + 1) mod N) (min N (n + 1))"
    using assms by (auto simp: ring_ok_def mod_if)
  show "ring_view N (b(h := c)) ((h + 1) mod N) (min N (n + 1)) = last_n N (ring_view N b h n @ [c])"
  proof (cases "n < N")
    case True
    then have hn: "h = n" using assms by (simp add: ring_ok_def)
    have "min N (n + 1) = Suc n" "(if Suc n < N then 0 else (n + 1) mod N) = 0"
      using True by (simp, cases "n + 1 = N") auto
    then have "ring_view N (b(h := c)) ((h + 1) mod N) (min N (n + 1)) = ring_read N b 0 n @ [c]"
      using ring_read_upd_new [OF True, of b c] unfolding ring_view_def hn by presburger
    then show ?thesis using True hn by (simp add: ring_view_def)
  next
    case False
    then have n: "n = N" using hN by simp
    have "length (ring_read N b h N @ [c]) - N = 1" by simp
    moreover have "drop 1 (ring_read N b h N) = tl (ring_read N b h N)" by (simp add: drop_Suc)
    ultimately show ?thesis using n hN ring_read_upd_full [OF hN(1), of b c]
      by (simp add: ring_view_def last_n_def)
  qed
qed

end
