(* ===== verification/Printk.thy ===== *)
theory Printk
  imports Ring_Buffer
begin

text \<open>
  The kernel log, \<open>src/src/klib/printk.c\<close>: the ring of 4096 characters, number and format printing, and
  the readers of the ring. A C string is the list of its characters; a list that contains the
  terminator is read up to it. Variable arguments are a list, and asking for an argument that is
  missing or of the other kind is \<open>BadPointer\<close>.
\<close>

section \<open>State\<close>

record klog =
  klog_buf :: string
  log_write_idx :: u32
  log_size :: u32
  console_read_idx :: u32

abbreviation (input) LOG_BUF_SIZE :: u32 where "LOG_BUF_SIZE \<equiv> 4096"

definition HEX_DIGITS :: string where
  "HEX_DIGITS = ''0123456789abcdef''"

definition c_string :: "string \<Rightarrow> string" where
  "c_string str = takeWhile (\<lambda>c. c \<noteq> CHR 0x00) str"

definition klog_boot :: klog where
  "klog_boot = \<lparr>klog_buf = replicate 4096 (CHR 0x00), log_write_idx = 0, log_size = 0, console_read_idx = 0\<rparr>"

section \<open>Writing\<close>

definition log_buf_putchar :: "char \<Rightarrow> klog \<Rightarrow> klog" where
  "log_buf_putchar c k =
     k\<lparr>klog_buf := (klog_buf k)[unat (log_write_idx k) := c],
       log_write_idx := (log_write_idx k + 1) mod LOG_BUF_SIZE,
       log_size := (if log_size k < LOG_BUF_SIZE then log_size k + 1 else log_size k)\<rparr>"

definition printk_putchar :: "char \<Rightarrow> klog \<Rightarrow> klog" where
  "printk_putchar c k = log_buf_putchar c k"

definition print_string :: "string \<Rightarrow> klog \<Rightarrow> klog" where
  "print_string str k = fold printk_putchar (c_string str) k"

text \<open>
  The digit loop of \<open>print_int\<close> and \<open>print_hex\<close>: \<open>room\<close> places are left in the local buffer in front of the
  characters already produced. The callers pass the bases 10 and 16.
\<close>

primrec put_digits :: "nat \<Rightarrow> u32 \<Rightarrow> u32 \<Rightarrow> string \<Rightarrow> (nat \<times> string) res" where
  "put_digits 0 base v ptr = (if v > 0 then Inl (OutOfBounds v) else Inr (0, ptr))"
| "put_digits (Suc room) base v ptr =
     (if v > 0 then put_digits room base (v div base) (HEX_DIGITS ! unat (v mod base) # ptr) else Inr (Suc room, ptr))"

definition print_int :: "u32 \<Rightarrow> u32 \<Rightarrow> bool \<Rightarrow> klog \<Rightarrow> klog res" where
  "print_int val base is_signed k =
     (let negative = is_signed \<and> val <s 0;
          uvalue = (if negative then - (val + 1) + 1 else val) in
      bnd (if uvalue = 0 then Inr (30, ''0'') else put_digits 31 base uvalue '''') (\<lambda>(room, ptr).
      if negative then if room = 0 then Inl (OutOfBounds val) else Inr (print_string (CHR ''-'' # ptr) k)
      else Inr (print_string ptr k)))"

definition print_hex :: "u32 \<Rightarrow> klog \<Rightarrow> klog res" where
  "print_hex val k =
     (let k = print_string ''0x'' k in
      if val = 0 then Inr (printk_putchar (CHR ''0'') k)
      else bnd (put_digits 15 16 val '''') (\<lambda>(_, ptr). Inr (print_string ptr k)))"

datatype va = VStr "string option" | VInt u32

definition va_str :: "va list \<Rightarrow> (string option \<times> va list) res" where
  "va_str args = (case args of VStr s # rest \<Rightarrow> Inr (s, rest) | _ \<Rightarrow> Inl (BadPointer 0))"

definition va_int :: "va list \<Rightarrow> (u32 \<times> va list) res" where
  "va_int args = (case args of VInt v # rest \<Rightarrow> Inr (v, rest) | _ \<Rightarrow> Inl (BadPointer 0))"

text \<open>
  One conversion, the \<open>switch\<close> on the character after the percent sign: the characters counted, the
  arguments left and the log.
\<close>

definition conversion :: "char \<Rightarrow> va list \<Rightarrow> klog \<Rightarrow> (u32 \<times> va list \<times> klog) res" where
  "conversion f args k =
     (if f = CHR ''s'' then
        bnd (va_str args) (\<lambda>(s, args).
        let str = (case s of None \<Rightarrow> ''(null)'' | Some str \<Rightarrow> str) in
        Inr (of_nat (length (c_string str)), args, print_string str k))
      else if f = CHR ''d'' \<or> f = CHR ''i'' then
        bnd (va_int args) (\<lambda>(v, args). bnd (print_int v 10 True k) (\<lambda>k. Inr (1, args, k)))
      else if f = CHR ''u'' then
        bnd (va_int args) (\<lambda>(v, args). bnd (print_int v 10 False k) (\<lambda>k. Inr (1, args, k)))
      else if f = CHR ''x'' \<or> f = CHR ''p'' then
        bnd (va_int args) (\<lambda>(v, args). bnd (print_hex v k) (\<lambda>k. Inr (1, args, k)))
      else if f = CHR ''c'' then
        bnd (va_int args) (\<lambda>(v, args). Inr (1, args, printk_putchar (char_of (unat v)) k))
      else if f = CHR ''%'' then Inr (1, args, printk_putchar (CHR ''%'') k)
      else Inr (2, args, printk_putchar f (printk_putchar (CHR ''%'') k)))"

text \<open>
  The loop over the format. After a percent sign that ends the format the \<open>switch\<close> sees the terminator,
  and the increment that follows moves the pointer past it: \<open>OutOfBounds\<close>.
\<close>

fun printk_loop :: "string \<Rightarrow> va list \<Rightarrow> u32 \<Rightarrow> klog \<Rightarrow> (u32 \<times> klog) res" where
  "printk_loop [] args count k = Inr (count, k)"
| "printk_loop [c] args count k =
     (if c = CHR ''%'' then Inl (OutOfBounds count) else Inr (count + 1, printk_putchar c k))"
| "printk_loop (c # f # format) args count k =
     (if c = CHR ''%'' then
        bnd (conversion f args k) (\<lambda>(n, args, k). printk_loop format args (count + n) k)
      else printk_loop (f # format) args (count + 1) (printk_putchar c k))"

definition printk :: "string \<Rightarrow> va list \<Rightarrow> klog \<Rightarrow> (u32 \<times> klog) res" where
  "printk format args k = printk_loop (c_string format) args 0 k"

section \<open>Reading\<close>

text \<open>The first cell and the number of cells that \<open>dmesg\<close> and \<open>get_log_buf\<close> read.\<close>

definition log_span :: "klog \<Rightarrow> u32 \<times> u32" where
  "log_span k = (if log_size k < LOG_BUF_SIZE then (0, log_write_idx k) else (log_write_idx k, LOG_BUF_SIZE))"

text \<open>\<open>dmesg\<close>: the characters given to \<open>terminal_putchar\<close>, in order.\<close>

definition dmesg :: "klog \<Rightarrow> string" where
  "dmesg k = (let (start, count) = log_span k in
     map (\<lambda>i. klog_buf k ! unat ((start + i) mod LOG_BUF_SIZE)) (u32_range 0 count))"

text \<open>\<open>get_log_buf\<close>: the characters copied to the caller's buffer of \<open>len\<close> characters; their number is returned.\<close>

definition get_log_buf :: "u32 \<Rightarrow> klog \<Rightarrow> string" where
  "get_log_buf len k = (let (start, count) = log_span k in
     map (\<lambda>i. klog_buf k ! unat ((start + i) mod LOG_BUF_SIZE)) (u32_range 0 (min count len)))"

partial_function (option) console_loop :: "klog \<Rightarrow> string \<Rightarrow> (string \<times> klog) option" where
  "console_loop k out =
     (if console_read_idx k = log_write_idx k then Some (out, k)
      else console_loop (k\<lparr>console_read_idx := (console_read_idx k + 1) mod LOG_BUF_SIZE\<rparr>)
             (out @ [klog_buf k ! unat (console_read_idx k)]))"

definition console_flush :: "klog \<Rightarrow> (string \<times> klog) option" where
  "console_flush k = console_loop k ''''"

end
