(* ===== verification/Printk_Spec.thy ===== *)
theory Printk_Spec
  imports Printk
begin

text \<open>
  What \<open>src/src/klib/printk.c\<close> prints: a reference rendering of formats over integers, that \<open>printk\<close>
  appends exactly that text to the log, and what the readers of the ring show.
\<close>

section \<open>The ring\<close>

definition klog_inv :: "klog \<Rightarrow> bool" where
  "klog_inv k \<longleftrightarrow> length (klog_buf k) = 4096 \<and> ring_ok 4096 (unat (log_write_idx k)) (unat (log_size k)) \<and>
     console_read_idx k < LOG_BUF_SIZE"

lemma unat_mod_4096: "unat ((w :: u32) mod 4096) = unat w mod 4096"
  by (simp add: unat_mod)

lemma ring_index: "a < 4096 \<Longrightarrow> i < 4096 \<Longrightarrow> unat ((of_nat a + of_nat i) mod 4096 :: u32) = (a + i) mod 4096"
  by (simp add: unat_mod_4096 unat_word_ariths unat_of_nat_u32)

lemma dmesg_ring:
  assumes "klog_inv k"
  shows "dmesg k = ring_view 4096 (\<lambda>i. klog_buf k ! i) (unat (log_write_idx k)) (unat (log_size k))"
proof -
  let ?h = "unat (log_write_idx k)" and ?n = "unat (log_size k)"
  have ok: "?h < 4096" "?n \<le> 4096" "?n < 4096 \<longrightarrow> ?h = ?n" using assms by (auto simp: klog_inv_def ring_ok_def)
  define st where "st = (if ?n < 4096 then 0 else ?h)"
  have "log_span k = (of_nat st, of_nat ?n)"
    using ok by (auto simp: log_span_def st_def word_less_nat_alt word_unat_eq_iff)
  moreover have "unat ((of_nat st + of_nat i) mod 4096 :: u32) = (st + i) mod 4096" if "i < ?n" for i
    using ring_index [of st i] that ok by (auto simp: st_def)
  moreover have "unat (of_nat ?n :: u32) = ?n" by simp
  ultimately show ?thesis
    by (auto simp: dmesg_def ring_view_def ring_read_def u32_range_def st_def [symmetric])
qed

lemma get_log_buf_take: "get_log_buf len k = take (unat len) (dmesg k)"
  by (auto simp: get_log_buf_def dmesg_def u32_range_def take_map min_def word_le_nat_alt split: prod.splits)

lemma log_put:
  assumes "klog_inv k"
  shows "klog_inv (printk_putchar c k)" "dmesg (printk_putchar c k) = last_n 4096 (dmesg k @ [c])"
proof -
  let ?h = "unat (log_write_idx k)" and ?n = "unat (log_size k)" and ?k = "printk_putchar c k"
  have ok: "ring_ok 4096 ?h ?n" "length (klog_buf k) = 4096" using assms by (simp_all add: klog_inv_def)
  have lt: "?h < 4096" "?n \<le> 4096" using ok(1) by (simp_all add: ring_ok_def)
  have w: "unat (log_write_idx ?k) = (?h + 1) mod 4096"
    using lt by (simp add: printk_putchar_def log_buf_putchar_def unat_mod_4096 unat_word_ariths)
  have n: "unat (log_size ?k) = min 4096 (?n + 1)"
    using lt by (auto simp: printk_putchar_def log_buf_putchar_def word_less_nat_alt unat_word_ariths)
  have b: "klog_buf ?k = (klog_buf k)[?h := c]" by (simp add: printk_putchar_def log_buf_putchar_def)
  show inv: "klog_inv ?k"
    using ring_store(2) [OF ok(1)] assms
    by (simp add: klog_inv_def w n b) (simp add: printk_putchar_def log_buf_putchar_def)
  have "dmesg ?k = ring_view 4096 ((\<lambda>i. klog_buf k ! i)(?h := c)) ((?h + 1) mod 4096) (min 4096 (?n + 1))"
    unfolding dmesg_ring [OF inv] w n ring_view_def b using lt ok(2) by (intro ring_read_cong) auto
  then show "dmesg ?k = last_n 4096 (dmesg k @ [c])"
    using ring_store(1) [OF ok(1)] dmesg_ring [OF assms] by simp
qed

lemma dmesg_length: "klog_inv k \<Longrightarrow> length (dmesg k) \<le> 4096"
  by (simp add: dmesg_ring ring_view_def klog_inv_def ring_ok_def)

lemma log_put_all:
  "klog_inv k \<Longrightarrow> klog_inv (fold printk_putchar cs k) \<and> dmesg (fold printk_putchar cs k) = last_n 4096 (dmesg k @ cs)"
proof (induction cs arbitrary: k)
  case (Cons c cs)
  then show ?case using log_put [OF Cons.prems, of c] last_n_append [of 4096 "dmesg k @ [c]" cs] by simp
qed (simp add: dmesg_length)

section \<open>Numbers\<close>

text \<open>The numeral of a natural number in base 2 to 16.\<close>

fun numeral_in :: "nat \<Rightarrow> nat \<Rightarrow> string" where
  "numeral_in b n =
     (if b < 2 \<or> n < b then [HEX_DIGITS ! n] else numeral_in b (n div b) @ [HEX_DIGITS ! (n mod b)])"

declare numeral_in.simps [simp del]

lemma put_digits_zero [simp]: "put_digits room base 0 ptr = Inr (room, ptr)"
  by (cases room) simp_all

lemma put_digits_numeral:
  assumes "0 < v" and "unat v < unat base ^ n" and "2 \<le> unat base"
  shows "\<exists>r. put_digits (n + extra) base v ptr = Inr (r, numeral_in (unat base) (unat v) @ ptr) \<and> extra \<le> r"
  using assms(1,2)
proof (induction n arbitrary: v ptr)
  case 0
  then show ?case by (simp add: word_less_nat_alt)
next
  case (Suc n)
  let ?q = "v div base"
  have q: "unat ?q = unat v div unat base" by (simp add: unat_div)
  have m: "unat (v mod base) = unat v mod unat base" by (simp add: unat_mod)
  show ?case
  proof (cases "?q = 0")
    case True
    then have "unat v < unat base" using q assms(3) by (simp add: div_eq_0_iff)
    then show ?thesis using True Suc.prems m by (simp add: numeral_in.simps)
  next
    case False
    then have nz: "0 < ?q" by (simp add: word_gt_0)
    have "\<not> unat v < unat base" using False q by (auto simp: word_unat_eq_iff)
    then have num: "numeral_in (unat base) (unat v) = numeral_in (unat base) (unat ?q) @ [HEX_DIGITS ! unat (v mod base)]"
      using assms(3) q m by (subst numeral_in.simps) simp
    have "unat ?q < unat base ^ n" using Suc.prems(2) q assms(3) by (simp add: less_mult_imp_div_less mult.commute)
    from Suc.IH [OF nz this] show ?thesis using Suc.prems(1) num by simp
  qed
qed

lemma numeral_in_no_nul: "2 \<le> b \<Longrightarrow> b \<le> 16 \<Longrightarrow> CHR 0x00 \<notin> set (numeral_in b n)"
proof (induction b n rule: numeral_in.induct)
  case (1 b n)
  have d: "CHR 0x00 \<noteq> HEX_DIGITS ! i" if "i < 16" for i
    using that nth_mem [of i HEX_DIGITS] by (auto simp: HEX_DIGITS_def)
  have "n mod b < b" using 1 by simp
  then have "n mod b < 16" "n < b \<longrightarrow> n < 16" using 1 by linarith+
  then show ?case using 1 d [of n] d [of "n mod b"] by (subst numeral_in.simps) auto
qed

lemma c_string_id: "CHR 0x00 \<notin> set s \<Longrightarrow> c_string s = s"
  by (auto simp: c_string_def takeWhile_eq_all_conv)

definition int_text :: "int \<Rightarrow> string" where
  "int_text i = (if i < 0 then CHR ''-'' # numeral_in 10 (nat (- i)) else numeral_in 10 (nat i))"

lemma negate_signed: "sint (v :: u32) < 0 \<Longrightarrow> int (unat (- v)) = - sint v"
proof -
  assume "sint v < 0"
  then have r: "0 < - sint v" "- sint v \<le> 2147483648" using sint_ge [of v] by simp_all
  have "- v = word_of_int (- sint v)" by simp
  then have "uint (- v) = - sint v mod 4294967296" by (simp only: uint_word_of_int) simp
  then show ?thesis using r by simp
qed

lemma nonneg_signed: "0 \<le> sint (v :: u32) \<Longrightarrow> int (unat v) = sint v"
proof -
  assume "0 \<le> sint v"
  moreover have "sint v < 4294967296" using sint_lt [of v] by simp
  moreover have "uint (word_of_int (sint v) :: u32) = sint v mod 4294967296" by (simp only: uint_word_of_int) simp
  then have "uint v = sint v mod 4294967296" by simp
  ultimately show ?thesis by simp
qed

lemma print_int_text:
  "print_int v 10 False k = Inr (print_string (numeral_in 10 (unat v)) k)"
  "print_int v 10 True k = Inr (print_string (int_text (sint v)) k)"
proof -
  have digits: "\<exists>r. put_digits 31 10 w '''' = Inr (r, numeral_in 10 (unat w)) \<and> 21 \<le> r" if "w \<noteq> 0" for w :: u32
    using put_digits_numeral [of w 10 10 21 "''''"] that unat_lt_u32 [of w] by (simp add: word_gt_0)
  have zero: "numeral_in 10 0 = ''0''" by (simp add: numeral_in.simps HEX_DIGITS_def)
  show "print_int v 10 False k = Inr (print_string (numeral_in 10 (unat v)) k)"
    using digits [of v] zero by (auto simp: print_int_def)
  show "print_int v 10 True k = Inr (print_string (int_text (sint v)) k)"
  proof (cases "sint v < 0")
    case True
    have e: "- (v + 1) + 1 = - v" by simp
    have "nat (- sint v) = unat (- v)" using negate_signed [OF True] by linarith
    moreover have "- v \<noteq> 0" using True by auto
    moreover obtain r where "put_digits 31 10 (- v) '''' = Inr (r, numeral_in 10 (unat (- v)))" "21 \<le> r"
      using digits \<open>- v \<noteq> 0\<close> by blast
    ultimately show ?thesis using True by (simp add: print_int_def word_sless_alt int_text_def e)
  next
    case False
    then have "nat (sint v) = unat v" using nonneg_signed [of v] by linarith
    then show ?thesis using False digits [of v] zero by (auto simp: print_int_def word_sless_alt int_text_def)
  qed
qed

lemma print_hex_text: "print_hex v k = Inr (print_string (''0x'' @ numeral_in 16 (unat v)) k)"
proof -
  have zero: "numeral_in 16 0 = ''0''" by (simp add: numeral_in.simps HEX_DIGITS_def)
  have split: "print_string (CHR ''0'' # CHR ''x'' # t) k = print_string t (print_string ''0x'' k)" for t
    by (simp add: print_string_def c_string_def)
  show ?thesis
  proof (cases "v = 0")
    case True
    then show ?thesis by (simp add: print_hex_def Let_def zero print_string_def c_string_def)
  next
    case False
    then have "\<exists>r. put_digits (8 + 7) 16 v '''' = Inr (r, numeral_in 16 (unat v) @ '''') \<and> 7 \<le> r"
      using put_digits_numeral [of v 16 8 7 "''''"] unat_lt_u32 [of v] by (simp add: word_gt_0)
    then show ?thesis using False split [of "numeral_in 16 (unat v)"] by (auto simp: print_hex_def Let_def)
  qed
qed

section \<open>Formats\<close>

definition conv_text :: "char \<Rightarrow> va list \<Rightarrow> (string \<times> nat \<times> va list) option" where
  "conv_text f args =
     (if f = CHR ''s'' then (case args of VStr (Some t) # r \<Rightarrow> Some (c_string t, length (c_string t), r)
                             | VStr None # r \<Rightarrow> Some (''(null)'', 6, r) | _ \<Rightarrow> None)
      else if f \<in> {CHR ''d'', CHR ''i''} then (case args of VInt v # r \<Rightarrow> Some (int_text (sint v), 1, r) | _ \<Rightarrow> None)
      else if f = CHR ''u'' then (case args of VInt v # r \<Rightarrow> Some (int_text (uint v), 1, r) | _ \<Rightarrow> None)
      else if f \<in> {CHR ''x'', CHR ''p''} then
        (case args of VInt v # r \<Rightarrow> Some (''0x'' @ numeral_in 16 (unat v), 1, r) | _ \<Rightarrow> None)
      else if f = CHR ''c'' then (case args of VInt v # r \<Rightarrow> Some ([char_of (unat v)], 1, r) | _ \<Rightarrow> None)
      else if f = CHR ''%'' then Some (''%'', 1, args)
      else Some ([CHR ''%'', f], 2, args))"

text \<open>The text a format stands for and the value returned for it, \<open>None\<close> for a format that is misused.\<close>

fun render :: "string \<Rightarrow> va list \<Rightarrow> (string \<times> nat) option" where
  "render [] args = Some ('''', 0)"
| "render [c] args = (if c = CHR ''%'' then None else Some ([c], 1))"
| "render (c # f # format) args =
     (if c = CHR ''%'' then
        (case conv_text f args of None \<Rightarrow> None
         | Some (t, n, args) \<Rightarrow> map_option (\<lambda>(u, m). (t @ u, n + m)) (render format args))
      else map_option (\<lambda>(u, m). (c # u, Suc m)) (render (f # format) args))"

lemma print_string_int: "print_string (int_text i) k = fold printk_putchar (int_text i) k"
  by (simp add: int_text_def print_string_def c_string_id numeral_in_no_nul)

lemma print_string_hex:
  "print_string (CHR ''0'' # CHR ''x'' # numeral_in 16 m) k = fold printk_putchar (CHR ''0'' # CHR ''x'' # numeral_in 16 m) k"
  by (simp add: print_string_def c_string_id numeral_in_no_nul)

lemma c_string_null: "c_string ''(null)'' = ''(null)''"
  by (simp add: c_string_def)

lemma conversion_text:
  assumes "conv_text f args = Some (t, n, r)"
  shows "conversion f args k = Inr (of_nat n, r, fold printk_putchar t k)"
proof -
  have u: "numeral_in 10 (unat v) = int_text (uint v)" for v :: u32
    by (simp add: int_text_def)
  note defs = conv_text_def conversion_def va_str_def va_int_def print_int_text print_hex_text u print_string_int
    print_string_hex
  consider (str) "f = CHR ''s''" | (dec) "f = CHR ''d'' \<or> f = CHR ''i''" | (uns) "f = CHR ''u''"
    | (hex) "f = CHR ''x'' \<or> f = CHR ''p''" | (chr) "f = CHR ''c''" | (pct) "f = CHR ''%''"
    | (other) "f \<notin> {CHR ''s'', CHR ''d'', CHR ''i'', CHR ''u'', CHR ''x'', CHR ''p'', CHR ''c'', CHR ''%''}" by blast
  then show ?thesis
  proof cases
    case str
    then show ?thesis using assms
      by (cases args; cases "hd args") (auto simp: defs print_string_def c_string_null split: option.splits)
  next
    case dec
    then show ?thesis using assms by (elim disjE; cases args; cases "hd args") (auto simp: defs)
  next
    case uns
    then show ?thesis using assms by (cases args; cases "hd args") (auto simp: defs)
  next
    case hex
    then show ?thesis using assms by (elim disjE; cases args; cases "hd args") (auto simp: defs)
  next
    case chr
    then show ?thesis using assms by (cases args; cases "hd args") (auto simp: defs)
  next
    case pct
    then show ?thesis using assms by (auto simp: defs)
  next
    case other
    then have "t = [CHR ''%'', f]" "n = 2" "r = args" using assms by (simp_all add: conv_text_def)
    then show ?thesis using other by (simp add: conversion_def)
  qed
qed

lemma printk_loop_text:
  "render format args = Some (out, n) \<Longrightarrow> printk_loop format args count k = Inr (count + of_nat n, fold printk_putchar out k)"
proof (induction format args arbitrary: count k out n rule: render.induct)
  case (3 c f format args)
  show ?case
  proof (cases "c = CHR ''%''")
    case True
    then obtain t m r u l where tm: "conv_text f args = Some (t, m, r)" "render format r = Some (u, l)" "out = t @ u" "n = m + l"
      using 3(3) by (auto split: option.splits)
    have "printk_loop format r (count + of_nat m) (fold printk_putchar t k) = Inr (count + of_nat m + of_nat l, fold printk_putchar u (fold printk_putchar t k))"
      using 3(1) [OF True tm(1) _ _ tm(2)] by simp
    then show ?thesis using True conversion_text [OF tm(1), of k] tm(3,4) by (simp add: add.assoc)
  next
    case False
    then show ?thesis using 3 by (auto simp: add.assoc)
  qed
qed (auto split: if_splits)

section \<open>The console\<close>

lemma console_loop_reads:
  assumes "klog_inv k" and "n < 4096" and "(unat (console_read_idx k) + n) mod 4096 = unat (log_write_idx k)"
  shows "console_loop k out = Some (out @ ring_read 4096 (\<lambda>i. klog_buf k ! i) (unat (console_read_idx k)) n,
    k\<lparr>console_read_idx := log_write_idx k\<rparr>)"
  using assms
proof (induction n arbitrary: k out)
  case 0
  then have "console_read_idx k = log_write_idx k" by (simp add: klog_inv_def word_unat_eq_iff word_less_nat_alt)
  then show ?case by (subst console_loop.simps) (simp add: ring_read_def)
next
  case (Suc n)
  let ?r = "unat (console_read_idx k)"
  let ?k = "k\<lparr>console_read_idx := (console_read_idx k + 1) mod LOG_BUF_SIZE\<rparr>"
  have r: "?r < 4096" using Suc.prems(1) by (simp add: klog_inv_def word_less_nat_alt)
  have r': "unat (console_read_idx ?k) = (?r + 1) mod 4096"
    using r by (simp add: unat_mod_4096 unat_word_ariths)
  have "(?r + Suc n) mod 4096 \<noteq> ?r" using r Suc.prems(2) by (cases "?r + Suc n < 4096") (auto simp: mod_if)
  then have ne: "console_read_idx k \<noteq> log_write_idx k" using Suc.prems(3) by auto
  have inv: "klog_inv ?k" using Suc.prems(1) r' by (simp add: klog_inv_def word_less_nat_alt unat_mod_4096)
  have "(unat (console_read_idx ?k) + n) mod 4096 = unat (log_write_idx ?k)"
    unfolding r' using Suc.prems(3) by (simp add: mod_simps)
  from Suc.IH [OF inv _ this] Suc.prems(2)
  have "console_loop ?k (out @ [klog_buf k ! ?r]) = Some (out @ klog_buf k ! ?r #
      ring_read 4096 (\<lambda>i. klog_buf k ! i) ((?r + 1) mod 4096) n, k\<lparr>console_read_idx := log_write_idx k\<rparr>)"
    unfolding r' by simp
  moreover have "klog_buf k ! ?r # ring_read 4096 (\<lambda>i. klog_buf k ! i) ((?r + 1) mod 4096) n =
      ring_read 4096 (\<lambda>i. klog_buf k ! i) ?r (Suc n)"
    using r by (simp add: ring_read_def upt_conv_Cons map_Suc_upt [symmetric] mod_simps del: upt_Suc)
  ultimately show ?case using ne by (subst console_loop.simps) simp
qed

text \<open>Where the text written since the write index was \<open>w\<close> lies in the ring.\<close>

lemma fold_put_cells:
  assumes "klog_inv k"
  shows "klog_inv (fold printk_putchar out k)"
    and "unat (log_write_idx (fold printk_putchar out k)) = (unat (log_write_idx k) + length out) mod 4096"
    and "console_read_idx (fold printk_putchar out k) = console_read_idx k"
    and "\<And>i. i < length out \<Longrightarrow> length out \<le> i + 4096 \<Longrightarrow>
      klog_buf (fold printk_putchar out k) ! ((unat (log_write_idx k) + i) mod 4096) = out ! i"
proof -
  let ?w = "unat (log_write_idx k)"
  have w: "?w < 4096" using assms by (simp add: klog_inv_def ring_ok_def)
  show inv: "klog_inv (fold printk_putchar out k)" for out using log_put_all [OF assms] by blast
  have idx: "unat (log_write_idx (fold printk_putchar out k)) = (?w + length out) mod 4096" for out
  proof (induction out rule: rev_induct)
    case (snoc c out)
    then show ?case
      by (simp add: printk_putchar_def log_buf_putchar_def unat_mod_4096 unat_word_ariths) (simp add: mod_simps)
  qed (use w in simp)
  then show "unat (log_write_idx (fold printk_putchar out k)) = (?w + length out) mod 4096" .
  show "console_read_idx (fold printk_putchar out k) = console_read_idx k"
    by (induction out arbitrary: k) (simp_all add: printk_putchar_def log_buf_putchar_def)
  show "klog_buf (fold printk_putchar out k) ! ((?w + i) mod 4096) = out ! i"
    if "i < length out" and "length out \<le> i + 4096" for i
    using that
  proof (induction out rule: rev_induct)
    case (snoc c out)
    let ?k = "fold printk_putchar out k"
    have len: "length (klog_buf ?k) = 4096" using inv [of out] by (simp add: klog_inv_def)
    have b: "klog_buf (fold printk_putchar (out @ [c]) k) = (klog_buf ?k)[(?w + length out) mod 4096 := c]"
      using idx [of out] by (simp add: printk_putchar_def log_buf_putchar_def)
    show ?case
    proof (cases "i = length out")
      case True
      then show ?thesis unfolding b using len by simp
    next
      case False
      then have i: "i < length out" "length out \<le> i + 4096" using snoc.prems by simp_all
      have "(?w + i) mod 4096 \<noteq> (?w + length out) mod 4096"
      proof
        assume "(?w + i) mod 4096 = (?w + length out) mod 4096"
        then have "4096 dvd length out - i" using i(1) by (metis add_diff_cancel_left le_add1 less_imp_le mod_eq_dvd_iff_nat nat_add_left_cancel_le)
        then show False using i snoc.prems(2) by (auto dest: dvd_imp_le)
      qed
      then show ?thesis unfolding b using snoc.IH [OF i] i by (simp add: nth_append)
    qed
  qed simp
qed

section \<open>Properties\<close>

text \<open>
  C20. \<open>printk\<close> logs exactly the text its format stands for: for every format whose conversions match the
  arguments it returns the reference count, never overruns a digit buffer, and appends the reference
  text to the log, of which \<open>dmesg\<close> shows the last 4096 characters and \<open>get_log_buf\<close> a prefix of them.
  The reference writes \<open>%d\<close> as the signed value, the most negative one included.
\<close>

theorem printk_appends_rendering:
  assumes "klog_inv k" and "render (c_string format) args = Some (out, n)"
  shows "\<exists>k'. printk format args k = Inr (of_nat n, k') \<and> klog_inv k' \<and>
    dmesg k' = last_n 4096 (dmesg k @ out) \<and> get_log_buf len k' = take (unat len) (dmesg k')"
  using printk_loop_text [OF assms(2), of 0 k] log_put_all [OF assms(1), of out] get_log_buf_take
  by (simp add: printk_def)

lemma klog_boot: "klog_inv klog_boot" "dmesg klog_boot = ''''"
  by (simp_all add: klog_inv_def klog_boot_def ring_ok_def dmesg_def log_span_def u32_range_def)

theorem printk_appends_rendering_witness:
  "\<exists>k'. printk ''pid %u: %d at %x'' [VInt 42, VInt 0x80000000, VInt 0x1F] klog_boot = Inr (13, k') \<and>
    dmesg k' = ''pid 42: -2147483648 at 0x1f''"
proof -
  have "render (c_string ''pid %u: %d at %x'') [VInt 42, VInt 0x80000000, VInt 0x1F] = Some (''pid 42: -2147483648 at 0x1f'', 13)"
    by (simp add: c_string_def conv_text_def int_text_def numeral_in.simps HEX_DIGITS_def)
  from printk_appends_rendering [OF klog_boot(1) this] show ?thesis by (auto simp: klog_boot(2))
qed

text \<open>
  The console shows what was logged since the last flush only up to the size of the ring: after a
  flush and \<open>n\<close> more characters the next flush ends and prints the last \<open>n\<close> modulo 4096 of them, so
  everything when fewer than 4096 were logged and nothing at all when exactly 4096 were.
\<close>

theorem console_flush_loses_full_laps:
  assumes "klog_inv k" and "console_read_idx k = log_write_idx k"
  shows "\<exists>k'. console_flush (fold printk_putchar out k) = Some (drop (length out - length out mod 4096) out, k') \<and>
    console_read_idx k' = log_write_idx k'"
proof -
  let ?k = "fold printk_putchar out k" and ?w = "unat (log_write_idx k)" and ?n = "length out mod 4096"
  note f = fold_put_cells(1-3) [OF assms(1), of out] fold_put_cells(4) [OF assms(1)]
  have "(unat (console_read_idx ?k) + ?n) mod 4096 = unat (log_write_idx ?k)"
    unfolding f(2,3) assms(2) by (simp add: mod_simps)
  moreover have "?n < 4096" by simp
  ultimately have "console_flush ?k = Some (ring_read 4096 (\<lambda>i. klog_buf ?k ! i) ?w ?n, ?k\<lparr>console_read_idx := log_write_idx ?k\<rparr>)"
    using console_loop_reads [OF f(1), of ?n "''''"] assms(2) f(3) by (simp add: console_flush_def)
  moreover have "ring_read 4096 (\<lambda>i. klog_buf ?k ! i) ?w ?n = drop (length out - ?n) out"
  proof (rule nth_equalityI)
    fix i assume "i < length (ring_read 4096 (\<lambda>i. klog_buf ?k ! i) ?w ?n)"
    then have i: "i < ?n" by simp
    define j where "j = length out - ?n + i"
    have "?n \<le> length out" by simp
    then have j: "j < length out" "length out \<le> j + 4096" using i \<open>?n < 4096\<close> unfolding j_def by linarith+
    have "length out - ?n = 4096 * (length out div 4096)" by (simp add: minus_mod_eq_mult_div)
    then have "?w + j = ?w + i + 4096 * (length out div 4096)" by (simp add: j_def)
    then have "(?w + j) mod 4096 = (?w + i) mod 4096" by (simp only: mod_mult_self2)
    then show "ring_read 4096 (\<lambda>i. klog_buf ?k ! i) ?w ?n ! i = drop (length out - ?n) out ! i"
      using f(4) [OF j] i by (simp add: ring_read_def j_def)
  qed simp
  ultimately show ?thesis by auto
qed

theorem console_flush_loses_full_laps_witness:
  "\<exists>k'. console_flush (fold printk_putchar (replicate 4096 (CHR ''x'')) klog_boot) = Some ('''', k')"
  using console_flush_loses_full_laps [OF klog_boot(1), of "replicate 4096 (CHR ''x'')"] by (auto simp: klog_boot_def)

end
