(* ===== verification/Cpu_Tables.thy ===== *)
theory Cpu_Tables
  imports Printk_Spec
begin

text \<open>
  The tables and devices that are programmed at boot: the segment descriptors of \<open>src/src/cpu/gdt.c\<close>,
  the interrupt gates of \<open>src/src/cpu/idt.c\<close>, the task state segment of \<open>src/src/cpu/tss.c\<close>, the interrupt
  controllers of \<open>src/src/drivers/pic.c\<close> and the timer of \<open>src/src/drivers/pit.c\<close>. The addresses the
  linker gives the tables and the entry stubs are arguments. A port write is an element of the list
  of writes a routine makes, as is the table pointer a routine loads.
\<close>

section \<open>Segment descriptors\<close>

record gdt_entry =
  limit_low :: u16
  base_low :: u16
  base_middle :: u8
  access :: u8
  granularity :: u8
  base_high :: u8

record gdt_ptr =
  gp_limit :: u16
  gp_base :: u32

abbreviation (input) GDT_ENTRIES :: nat where "GDT_ENTRIES \<equiv> 8"

definition gdt_set_gate :: "nat \<Rightarrow> u32 \<Rightarrow> u32 \<Rightarrow> u8 \<Rightarrow> u8 \<Rightarrow> gdt_entry list \<times> klog \<Rightarrow> (gdt_entry list \<times> klog) res" where
  "gdt_set_gate num base limit acc gran s =
     (let (gdt, k) = s in
      bnd (if limit > 0xFFFFF
           then bnd (printk (''<3>GDT: limit > 0xFFFFF is forbidden'' @ [CHR 0x0A]) [] k) (\<lambda>(_, k). Inr k)
           else Inr k) (\<lambda>k.
      if num \<ge> length gdt then Inl (OutOfBounds (of_nat num))
      else Inr (gdt[num := \<lparr>limit_low = ucast (limit AND 0xFFFF),
                            base_low = ucast (base AND 0xFFFF),
                            base_middle = ucast (drop_bit 16 base AND 0xFF),
                            access = acc,
                            granularity = ucast (drop_bit 16 limit AND 0x0F) OR (gran AND 0xF0),
                            base_high = ucast (drop_bit 24 base AND 0xFF)\<rparr>], k)))"

text \<open>The pointer that \<open>gdt_init\<close> hands to \<open>gdt_flush\<close> is returned.\<close>

definition gdt_init :: "u32 \<Rightarrow> u32 \<Rightarrow> gdt_entry list \<times> klog \<Rightarrow> (gdt_ptr \<times> gdt_entry list \<times> klog) res" where
  "gdt_init gdt_addr tss_addr s =
     bnd (gdt_set_gate 0 0 0 0 0 s) (\<lambda>s.
     bnd (gdt_set_gate 1 0 0x000FFFFF 0x9A 0xCF s) (\<lambda>s.
     bnd (gdt_set_gate 2 0 0x000FFFFF 0x92 0xCF s) (\<lambda>s.
     bnd (gdt_set_gate 3 0 0x000FFFFF 0x92 0xCF s) (\<lambda>s.
     bnd (gdt_set_gate 4 0 0x000FFFFF 0xFA 0xCF s) (\<lambda>s.
     bnd (gdt_set_gate 5 0 0x000FFFFF 0xF2 0xCF s) (\<lambda>s.
     bnd (gdt_set_gate 6 0 0x000FFFFF 0xF2 0xCF s) (\<lambda>s.
     bnd (gdt_set_gate 7 tss_addr (104 - 1) 0x89 0x00 s) (\<lambda>s.
     Inr (\<lparr>gp_limit = 8 * 8 - 1, gp_base = gdt_addr\<rparr>, s)))))))))"

section \<open>Interrupt gates\<close>

record idt_entry =
  idt_base_low :: u16
  idt_selector :: u16
  idt_zero :: u8
  type_attr :: u8
  idt_base_high :: u16

definition idt_set_gate :: "u8 \<Rightarrow> u32 \<Rightarrow> u16 \<Rightarrow> u8 \<Rightarrow> idt_entry list \<Rightarrow> idt_entry list" where
  "idt_set_gate num base selector flags idt =
     idt[unat num := \<lparr>idt_base_low = ucast (base AND 0xFFFF), idt_selector = selector, idt_zero = 0,
                      type_attr = flags, idt_base_high = ucast (drop_bit 16 base AND 0xFFFF)\<rparr>]"

text \<open>The vectors that \<open>idt_init\<close> installs a stub for besides the system call, in its order.\<close>

definition isr_vectors :: "u8 list" where
  "isr_vectors = [0, 1, 2, 3, 4, 5, 6, 7, 8, 9, 10, 11, 12, 13, 14, 15, 16, 17, 18, 19, 32, 33, 66]"

definition idt_init :: "u32 \<Rightarrow> (u8 \<Rightarrow> u32) \<Rightarrow> idt_entry list \<Rightarrow> gdt_ptr \<times> idt_entry list" where
  "idt_init idt_addr stub idt =
     (let idt = fold (\<lambda>i. idt_set_gate (of_nat i) 0 0 0) [0..<256] idt;
          idt = fold (\<lambda>n. idt_set_gate n (stub n) 0x08 0x8E) isr_vectors idt;
          idt = idt_set_gate 0x80 (stub 0x80) 0x08 0xEF idt in
      (\<lparr>gp_limit = 8 * 256 - 1, gp_base = idt_addr\<rparr>, idt))"

section \<open>The task state segment\<close>

text \<open>The three fields that are ever non-zero.\<close>

record tss_entry =
  esp0 :: u32
  ss0 :: u32
  iomap_base :: u16

definition tss_init :: "tss_entry \<Rightarrow> tss_entry" where
  "tss_init t = \<lparr>esp0 = 0, ss0 = 0x10, iomap_base = 104\<rparr>"

section \<open>Interrupt controllers and timer\<close>

type_synonym port_write = "u16 \<times> u8"

text \<open>The writes to the unused port 0x80 that \<open>io_wait\<close> makes between the commands to let time pass are left out.\<close>

definition pic_remap :: "port_write list" where
  "pic_remap =
     [(0x20, 0x10 OR 0x01), (0xA0, 0x10 OR 0x01), (0x21, 0x20), (0xA1, 0x28), (0x21, 4), (0xA1, 2),
      (0x21, 0x01), (0xA1, 0x01), (0x21, 0xFC), (0xA1, 0xFF)]"

definition pic_send_eoi :: "u8 \<Rightarrow> port_write list" where
  "pic_send_eoi irq = (if irq \<ge> 8 then [(0xA0, 0x20)] else []) @ [(0x20, 0x20)]"

text \<open>A frequency of 0 divides by zero.\<close>

definition pit_init :: "u32 \<Rightarrow> port_write list res" where
  "pit_init hz =
     (if hz = 0 then Inl (Kpanic ''division by zero'')
      else let divisor = 1193182 div hz in
        Inr [(0x43, 0x36), (0x40, ucast (divisor AND 0xFF)), (0x40, ucast (drop_bit 8 divisor AND 0xFF))])"

section \<open>How the hardware reads them\<close>

text \<open>
  The fields of a segment descriptor and of a gate as the processor decodes them (Intel SDM volume
  3A, 3.4.5 and 6.11).
\<close>

definition seg_base :: "gdt_entry \<Rightarrow> u32" where
  "seg_base e = ucast (base_low e) OR push_bit 16 (ucast (base_middle e)) OR push_bit 24 (ucast (base_high e))"

definition seg_raw_limit :: "gdt_entry \<Rightarrow> u32" where
  "seg_raw_limit e = ucast (limit_low e) OR push_bit 16 (ucast (granularity e AND 0x0F))"

definition seg_limit :: "gdt_entry \<Rightarrow> u32" where
  "seg_limit e = (if bit (granularity e) 7 then push_bit 12 (seg_raw_limit e) OR 0xFFF else seg_raw_limit e)"

definition seg_dpl :: "gdt_entry \<Rightarrow> u8" where
  "seg_dpl e = drop_bit 5 (access e) AND 3"

definition gate_offset :: "idt_entry \<Rightarrow> u32" where
  "gate_offset e = ucast (idt_base_low e) OR push_bit 16 (ucast (idt_base_high e))"

definition gate_present :: "idt_entry \<Rightarrow> bool" where
  "gate_present e \<longleftrightarrow> bit (type_attr e) 7"

definition gate_dpl :: "idt_entry \<Rightarrow> u8" where
  "gate_dpl e = drop_bit 5 (type_attr e) AND 3"

text \<open>A gate of type 14 clears the interrupt flag on entry, one of type 15 leaves it.\<close>

definition gate_masks :: "idt_entry \<Rightarrow> bool" where
  "gate_masks e \<longleftrightarrow> type_attr e AND 0x0F = 14"

text \<open>
  An 8259 controller: a command write with bit 4 set starts the initialisation, whose three data
  writes give the vector base, the wiring and the mode; a data write outside of it is the mask.
\<close>

record pic =
  pic_step :: nat
  pic_base :: u8
  pic_mask :: u8

definition pic_command :: "u8 \<Rightarrow> pic \<Rightarrow> pic" where
  "pic_command v p = (if bit v 4 then p\<lparr>pic_step := 3, pic_mask := 0\<rparr> else p)"

definition pic_data :: "u8 \<Rightarrow> pic \<Rightarrow> pic" where
  "pic_data v p =
     (if pic_step p = 0 then p\<lparr>pic_mask := v\<rparr>
      else if pic_step p = 3 then p\<lparr>pic_step := 2, pic_base := v AND 0xF8\<rparr>
      else p\<lparr>pic_step := pic_step p - 1\<rparr>)"

definition pic_write :: "port_write \<Rightarrow> pic \<times> pic \<Rightarrow> pic \<times> pic" where
  "pic_write w s = (let (master, slave) = s in
     if fst w = 0x20 then (pic_command (snd w) master, slave)
     else if fst w = 0x21 then (pic_data (snd w) master, slave)
     else if fst w = 0xA0 then (master, pic_command (snd w) slave)
     else if fst w = 0xA1 then (master, pic_data (snd w) slave)
     else s)"

text \<open>The vector an interrupt line raises, if it is not masked; the lines 8 to 15 come through line 2.\<close>

definition irq_vector :: "nat \<Rightarrow> pic \<times> pic \<Rightarrow> u8 option" where
  "irq_vector irq s = (let (master, slave) = s in
     if irq < 8 then if bit (pic_mask master) irq then None else Some (pic_base master + of_nat irq)
     else if bit (pic_mask master) 2 \<or> bit (pic_mask slave) (irq - 8) then None
     else Some (pic_base slave + of_nat (irq - 8)))"

end
