(* ===== verification/Cpu_Tables_Spec.thy ===== *)
theory Cpu_Tables_Spec
  imports Cpu_Tables
begin

text \<open>
  The tables of \<open>Cpu_Tables\<close> read back as the processor reads them: what \<open>gdt_set_gate\<close> encodes, the
  segments and gates that are in force after boot, and that every interrupt line left unmasked has a
  gate.
\<close>

section \<open>Bit fields\<close>

lemma masks:
  "(0xFFFF :: u32) = mask 16" "(0xFF :: u32) = mask 8" "(0x0F :: u32) = mask 4" "(0xFFFFF :: u32) = mask 20"
  "(0x0F :: u8) = mask 4" "(0xF0 :: u8) = push_bit 4 (mask 4)"
  by (simp_all add: mask_eq_exp_minus_1)

lemma base_fields:
  "ucast (ucast ((w :: u32) AND 0xFFFF) :: u16) OR push_bit 16 (ucast (ucast (drop_bit 16 w AND 0xFF) :: u8)) OR
     push_bit 24 (ucast (ucast (drop_bit 24 w AND 0xFF) :: u8)) = w"
  unfolding masks
proof (rule bit_word_eqI)
  fix n assume "n < LENGTH(32)"
  then show "bit (ucast (ucast (w AND mask 16) :: u16) OR push_bit 16 (ucast (ucast (drop_bit 16 w AND mask 8) :: u8)) OR
      push_bit 24 (ucast (ucast (drop_bit 24 w AND mask 8) :: u8)) :: u32) n = bit w n"
    by (cases "24 \<le> n") (auto simp: bit_simps)
qed

lemma gate_fields:
  "ucast (ucast ((w :: u32) AND 0xFFFF) :: u16) OR push_bit 16 (ucast (ucast (drop_bit 16 w AND 0xFFFF) :: u16)) = w"
  unfolding masks by (rule bit_word_eqI) (auto simp: bit_simps)

lemma limit_fields:
  "ucast (ucast ((w :: u32) AND 0xFFFF) :: u16) OR
     push_bit 16 (ucast ((ucast (drop_bit 16 w AND 0x0F) OR (g AND 0xF0)) AND 0x0F :: u8)) = w AND 0xFFFFF"
  unfolding masks by (rule bit_word_eqI) (auto simp: bit_simps)

lemma flag_fields: "drop_bit 4 (ucast ((w :: u32) AND 0x0F) OR (g AND 0xF0) :: u8) = drop_bit 4 g"
  unfolding masks by (rule bit_word_eqI) (auto simp: bit_simps dest: bit_imp_le_length)

lemma gdt_set_gate_spec:
  assumes "num < length gdt"
  shows "\<exists>e k'. gdt_set_gate num base limit acc gran (gdt, k) = Inr (gdt[num := e], k') \<and>
    seg_base e = base \<and> seg_raw_limit e = limit AND 0xFFFFF \<and> access e = acc \<and>
    drop_bit 4 (granularity e) = drop_bit 4 gran \<and> (limit \<le> 0xFFFFF \<longrightarrow> k' = k)"
proof -
  have "\<exists>n k'. printk (''<3>GDT: limit > 0xFFFFF is forbidden'' @ [CHR 0x0A]) [] k = Inr (n, k')"
    by (simp add: printk_def c_string_def)
  then show ?thesis using assms base_fields [of base] limit_fields [of limit gran] flag_fields [of "drop_bit 16 limit" gran]
    by (auto simp: gdt_set_gate_def seg_base_def seg_raw_limit_def Let_def)
qed

text \<open>A descriptor that covers the whole address space with 4 KiB granularity.\<close>

definition flat :: "u8 \<Rightarrow> gdt_entry \<Rightarrow> bool" where
  "flat acc e \<longleftrightarrow> seg_base e = 0 \<and> seg_limit e = 0xFFFFFFFF \<and> access e = acc"

text \<open>
  The segments in force after \<open>gdt_init\<close>: flat kernel code, data and stack in ring 0, flat user code,
  data and stack in ring 3, and the task state segment.
\<close>

definition desc :: "u32 \<Rightarrow> u32 \<Rightarrow> u8 \<Rightarrow> u8 \<Rightarrow> gdt_entry" where
  "desc base limit acc gran = \<lparr>limit_low = ucast (limit AND 0xFFFF), base_low = ucast (base AND 0xFFFF),
     base_middle = ucast (drop_bit 16 base AND 0xFF), access = acc,
     granularity = ucast (drop_bit 16 limit AND 0x0F) OR (gran AND 0xF0), base_high = ucast (drop_bit 24 base AND 0xFF)\<rparr>"

lemma gdt_set_gate_desc:
  "limit \<le> 0xFFFFF \<Longrightarrow> num < length gdt \<Longrightarrow> gdt_set_gate num base limit acc gran (gdt, k) = Inr (gdt[num := desc base limit acc gran], k)"
  by (auto simp: gdt_set_gate_def desc_def not_le)

lemma gdt_init_segments:
  assumes "length gdt = 8"
  shows "\<exists>ptr t. gdt_init ga ta (gdt, k) = Inr (ptr, t, k) \<and> gp_base ptr = ga \<and> unat (gp_limit ptr) = 8 * length t - 1 \<and>
    flat 0x9A (t ! 1) \<and> flat 0x92 (t ! 2) \<and> flat 0x92 (t ! 3) \<and> flat 0xFA (t ! 4) \<and> flat 0xF2 (t ! 5) \<and> flat 0xF2 (t ! 6) \<and>
    seg_base (t ! 7) = ta \<and> seg_raw_limit (t ! 7) = 103"
proof -
  have "flat acc (desc 0 0xFFFFF acc 0xCF)" for acc
    by (simp add: flat_def desc_def seg_base_def seg_limit_def seg_raw_limit_def)
  moreover have "seg_base (desc ta 103 0x89 0) = ta" "seg_raw_limit (desc ta 103 0x89 0) = 103"
    using base_fields [of ta] by (simp_all add: desc_def seg_base_def seg_raw_limit_def)
  ultimately show ?thesis using assms by (simp add: gdt_init_def gdt_set_gate_desc)
qed

section \<open>Interrupt gates\<close>

definition gate :: "u32 \<Rightarrow> u16 \<Rightarrow> u8 \<Rightarrow> idt_entry" where
  "gate base sel flags = \<lparr>idt_base_low = ucast (base AND 0xFFFF), idt_selector = sel, idt_zero = 0,
     type_attr = flags, idt_base_high = ucast (drop_bit 16 base AND 0xFFFF)\<rparr>"

lemma gate_offset: "gate_offset (gate base sel flags) = base"
  using gate_fields [of base] by (simp add: gate_offset_def gate_def)

lemma idt_set_gate_gate: "idt_set_gate num base sel flags idt = idt[unat num := gate base sel flags]"
  by (simp add: idt_set_gate_def gate_def)

lemma length_fold_gates [simp]:
  "length (fold (\<lambda>n. idt_set_gate (f n) (b n) sel flags) ns idt) = length idt"
  by (induction ns arbitrary: idt) (simp_all add: idt_set_gate_gate)

lemma fold_gates:
  "i < length idt \<Longrightarrow> fold (\<lambda>n. idt_set_gate (f n) (b n) sel flags) ns idt ! i =
     (case find (\<lambda>n. unat (f n) = i) (rev ns) of None \<Rightarrow> idt ! i | Some n \<Rightarrow> gate (b n) sel flags)"
  by (induction ns rule: rev_induct) (auto simp: idt_set_gate_gate nth_list_update)

lemma find_vector:
  assumes "i < 256"
  shows "find (\<lambda>n. unat (n :: u8) = i) ns = (if of_nat i \<in> set ns then Some (of_nat i) else None)"
proof -
  have "unat n = i \<longleftrightarrow> n = of_nat i" for n :: u8
  proof
    assume "unat n = i"
    then have "of_nat (unat n) = (of_nat i :: u8)" by simp
    then show "n = of_nat i" by simp
  qed (use assms in \<open>simp add: unat_of_nat\<close>)
  then show ?thesis by (induction ns) auto
qed

lemma idt_init_gates:
  assumes "length idt = 256" and "i < 256"
  shows "snd (idt_init addr stub idt) ! i =
    (if i = 128 then gate (stub 0x80) 0x08 0xEF
     else if of_nat i \<in> set isr_vectors then gate (stub (of_nat i)) 0x08 0x8E else gate 0 0 0)"
proof -
  have blank: "fold (\<lambda>i. idt_set_gate (of_nat i) 0 0 0) [0..<256] idt ! i = gate 0 0 0"
  proof -
    have "find (\<lambda>n. unat (of_nat n :: u8) = i) (rev [0..<256]) \<noteq> None"
      using assms(2) by (auto simp: find_None_iff unat_of_nat intro!: bexI [of _ i])
    then show ?thesis using fold_gates [of i idt "\<lambda>i. of_nat i" "\<lambda>_. 0" 0 0 "[0..<256]"] assms by auto
  qed
  show ?thesis using assms blank find_vector [OF assms(2), of "rev isr_vectors"]
      fold_gates [of i "fold (\<lambda>i. idt_set_gate (of_nat i) 0 0 0) [0..<256] idt" "\<lambda>n. n" stub "0x08" "0x8E" isr_vectors]
    by (auto simp: idt_init_def Let_def idt_set_gate_gate nth_list_update)
qed

lemma remap_vector:
  assumes "irq < 16"
  shows "irq_vector irq (fold pic_write pic_remap (m, sl)) = (if irq = 0 then Some 32 else if irq = 1 then Some 33 else None)"
proof -
  have "fold pic_write pic_remap (m, sl) = (m\<lparr>pic_step := 0, pic_base := 0x20, pic_mask := 0xFC\<rparr>,
      sl\<lparr>pic_step := 0, pic_base := 0x28, pic_mask := 0xFF\<rparr>)"
    by (simp add: pic_remap_def pic_write_def pic_command_def pic_data_def)
  moreover have "irq = 0 \<or> irq = 1 \<or> irq = 2 \<or> irq = 3 \<or> irq = 4 \<or> irq = 5 \<or> irq = 6 \<or> irq = 7 \<or> 8 \<le> irq" by linarith
  ultimately show ?thesis by (elim disjE) (simp_all add: irq_vector_def)
qed

text \<open>
  The descriptor a selector names, and the descriptors that hold kernel code: present, privilege level 0,
  a code segment, base 0 and the whole address space.
\<close>

definition selected :: "u16 \<Rightarrow> gdt_entry list \<Rightarrow> gdt_entry" where
  "selected sel g = g ! unat (drop_bit 3 sel)"

definition kernel_code :: "gdt_entry \<Rightarrow> bool" where
  "kernel_code e \<longleftrightarrow> bit (access e) 7 \<and> drop_bit 5 (access e) AND 3 = 0 \<and> bit (access e) 4 \<and> bit (access e) 3 \<and>
     seg_base e = 0 \<and> seg_limit e = 0xFFFFFFFF"

section \<open>Properties\<close>

text \<open>
  C36. A segment descriptor reads back as it was given: base, access byte and flags for every input, and
  the limit when it fits 20 bits. A larger limit is reported in the log as forbidden and installed all
  the same, cut to its low 20 bits. The other descriptors are untouched.
\<close>

theorem gdt_set_gate_roundtrip:
  assumes "num < length gdt"
  shows "\<exists>gdt' k'. gdt_set_gate num base limit acc gran (gdt, k) = Inr (gdt', k') \<and>
    seg_base (gdt' ! num) = base \<and> access (gdt' ! num) = acc \<and>
    drop_bit 4 (granularity (gdt' ! num)) = drop_bit 4 gran \<and>
    seg_raw_limit (gdt' ! num) = (if limit \<le> 0xFFFFF then limit else limit AND 0xFFFFF) \<and>
    (limit \<le> 0xFFFFF \<longrightarrow> k' = k) \<and> (\<forall>j. j \<noteq> num \<longrightarrow> gdt' ! j = gdt ! j)"
proof -
  have "limit AND 0xFFFFF = limit" if "limit \<le> 0xFFFFF"
  proof -
    have "limit = take_bit 20 limit"
      using that by (simp add: word_le_nat_alt word_unat_eq_iff unsigned_take_bit_eq take_bit_nat_eq_self)
    then show ?thesis by (metis masks(4) take_bit_eq_mask)
  qed
  then show ?thesis using gdt_set_gate_spec [OF assms, of base limit acc gran k] assms by auto
qed

theorem gdt_set_gate_roundtrip_witness:
  "\<exists>gdt' k'. gdt_set_gate 7 0x123456 0x67 0x89 0 (replicate 8 undefined, klog_boot) = Inr (gdt', k') \<and>
    seg_base (gdt' ! 7) = 0x123456 \<and> seg_raw_limit (gdt' ! 7) = 0x67"
  using gdt_set_gate_roundtrip [of 7 "replicate 8 undefined" "0x123456" "0x67" "0x89" 0 klog_boot] by auto

text \<open>
  C24. After boot ring 3 can enter the kernel by a software interrupt only through the system call: of
  the 256 gates exactly vector 128 is present with descriptor privilege level 3. Every present gate
  leads to its own stub, through a selector whose descriptor in the table that \<open>gdt_init\<close> built is a
  present code segment of ring 0 over the whole address space, all but the system call with interrupts
  masked, and every interrupt line that \<open>pic_remap\<close> leaves unmasked raises a vector with a present gate.
\<close>

theorem idt_ring3_entry:
  fixes addr stub idt
  defines "t \<equiv> snd (idt_init addr stub idt)"
  assumes "length idt = 256" and "length gdt = 8"
  shows "(\<exists>ptr g. gdt_init ga ta (gdt, k) = Inr (ptr, g, k) \<and>
      (\<forall>n<256. gate_present (t ! n) \<longrightarrow> kernel_code (selected (idt_selector (t ! n)) g))) \<and>
    (\<forall>n<256. (gate_present (t ! n) \<and> gate_dpl (t ! n) = 3 \<longleftrightarrow> n = 128) \<and>
      (gate_present (t ! n) \<longrightarrow> idt_selector (t ! n) = 0x08 \<and> gate_offset (t ! n) = stub (of_nat n) \<and>
        (gate_masks (t ! n) \<longleftrightarrow> n \<noteq> 128))) \<and>
    (\<forall>irq<16. \<forall>v. irq_vector irq (fold pic_write pic_remap pics) = Some v \<longrightarrow>
      v = of_nat (32 + irq) \<and> gate_present (t ! unat v))"
proof (intro conjI)
  note g = idt_init_gates [OF assms(2), of _ addr stub, folded t_def]
  have b: "bit (0x8E :: u8) 7" "bit (0xEF :: u8) 7" "\<not> bit (0 :: u8) 7" by simp_all
  have fields: "gate_present (gate base sel fl) = bit fl 7" "gate_dpl (gate base sel fl) = drop_bit 5 fl AND 3"
    "gate_masks (gate base sel fl) \<longleftrightarrow> fl AND 0x0F = 14" "idt_selector (gate base sel fl) = sel" for base sel fl
    by (simp_all add: gate_def gate_present_def gate_dpl_def gate_masks_def)
  obtain ptr g' where g': "gdt_init ga ta (gdt, k) = Inr (ptr, g', k)" "flat 0x9A (g' ! 1)"
    using gdt_init_segments [OF assms(3)] by blast
  have "kernel_code (selected 0x08 g')" using g'(2) by (simp add: flat_def kernel_code_def selected_def)
  then have "\<forall>n<256. gate_present (t ! n) \<longrightarrow> kernel_code (selected (idt_selector (t ! n)) g')" by (simp add: g fields)
  then show "\<exists>ptr g. gdt_init ga ta (gdt, k) = Inr (ptr, g, k) \<and>
      (\<forall>n<256. gate_present (t ! n) \<longrightarrow> kernel_code (selected (idt_selector (t ! n)) g))" using g'(1) by blast
  show "\<forall>n<256. (gate_present (t ! n) \<and> gate_dpl (t ! n) = 3 \<longleftrightarrow> n = 128) \<and>
      (gate_present (t ! n) \<longrightarrow> idt_selector (t ! n) = 0x08 \<and> gate_offset (t ! n) = stub (of_nat n) \<and>
        (gate_masks (t ! n) \<longleftrightarrow> n \<noteq> 128))"
    by (simp add: g fields gate_offset)
  show "\<forall>irq<16. \<forall>v. irq_vector irq (fold pic_write pic_remap pics) = Some v \<longrightarrow>
      v = of_nat (32 + irq) \<and> gate_present (t ! unat v)"
  proof (intro allI impI)
    fix irq v assume irq: "irq < 16" and v: "irq_vector irq (fold pic_write pic_remap pics) = Some v"
    obtain m sl where p: "pics = (m, sl)" by fastforce
    have i: "irq = 0 \<and> v = 32 \<or> irq = 1 \<and> v = 33" using remap_vector [OF irq, of m sl] v p by (auto split: if_splits)
    have "of_nat 32 \<in> set isr_vectors" "of_nat 33 \<in> set isr_vectors" by (simp_all add: isr_vectors_def)
    then show "v = of_nat (32 + irq) \<and> gate_present (t ! unat v)" using i by (auto simp: g fields)
  qed
qed

theorem idt_ring3_entry_witness:
  "gate_present (snd (idt_init 0x9000 (\<lambda>n. 0x100000 + ucast n) (replicate 256 (gate 1 2 3))) ! 128) \<and>
   gate_dpl (snd (idt_init 0x9000 (\<lambda>n. 0x100000 + ucast n) (replicate 256 (gate 1 2 3))) ! 128) = 3 \<and>
   (\<exists>ptr g. gdt_init 0x800 0x5000 (replicate 8 (desc 0 0 0 0), klog_boot) = Inr (ptr, g, klog_boot) \<and>
     kernel_code (selected (idt_selector (snd (idt_init 0x9000 (\<lambda>n. 0x100000 + ucast n) (replicate 256 (gate 1 2 3))) ! 128)) g))"
proof -
  let ?t = "snd (idt_init 0x9000 (\<lambda>n. 0x100000 + ucast n) (replicate 256 (gate 1 2 3)))"
  note e = idt_ring3_entry [where idt = "replicate 256 (gate 1 2 3)" and gdt = "replicate 8 (desc 0 0 0 0)" and addr = "0x9000"
    and stub = "\<lambda>n. 0x100000 + ucast n" and ga = "0x800" and ta = "0x5000" and k = klog_boot, simplified length_replicate, OF refl refl]
  have p: "gate_present (?t ! 128) \<and> gate_dpl (?t ! 128) = 3" using e [THEN conjunct2, THEN conjunct1, THEN spec [of _ 128]] by simp
  obtain ptr g where g: "gdt_init 0x800 0x5000 (replicate 8 (desc 0 0 0 0), klog_boot) = Inr (ptr, g, klog_boot)"
    "\<forall>n<256. gate_present (?t ! n) \<longrightarrow> kernel_code (selected (idt_selector (?t ! n)) g)"
    using e [THEN conjunct1] by blast
  then have "kernel_code (selected (idt_selector (?t ! 128)) g)" using p by simp
  then show ?thesis using p g(1) by blast
qed

end
