(* ===== verification/Vga.thy ===== *)
theory Vga
  imports Prelude
begin

text \<open>
  The text terminal, \<open>src/src/drivers/vga.c\<close>: 204 rows of 80 cells in video memory of which the CRTC
  shows 25, hardware scrolling, the status bar under the visible text and the scrollback view. Row and
  column counts are natural numbers; they stay far below the width of \<open>size_t\<close>, and no difference in the
  code is negative in the states the operations reach. A cell outside of the 32 KiB of video memory is
  \<open>OutOfBounds\<close>. CRTC registers hold what was last written to them.
\<close>

section \<open>State\<close>

record vga =
  terminal_row :: nat
  terminal_column :: nat
  terminal_color :: u8
  statusbar_color :: u8
  vga_view_top :: nat
  scroll_back :: nat
  saved_bar :: "u16 list"
  saved_bar_row :: nat
  saved_bar_valid :: bool
  cells :: "u16 list"
  crtc :: "u8 \<Rightarrow> u8"

abbreviation (input) VGA_X :: nat where "VGA_X \<equiv> 80"
abbreviation (input) USABLE_ROWS :: nat where "USABLE_ROWS \<equiv> 24"
abbreviation (input) VGA_MAX_VIEW_TOP :: nat where "VGA_MAX_VIEW_TOP \<equiv> 179"
abbreviation (input) SCROLLBACK_ROWS :: nat where "SCROLLBACK_ROWS \<equiv> 154"
abbreviation (input) SCROLLBAR_BAR_LEN :: nat where "SCROLLBAR_BAR_LEN \<equiv> 62"

definition vga_entry_color :: "u8 \<Rightarrow> u8 \<Rightarrow> u8" where
  "vga_entry_color fg bg = fg OR push_bit 4 bg"

definition vga_entry :: "u8 \<Rightarrow> u8 \<Rightarrow> u16" where
  "vga_entry uc color = ucast uc OR push_bit 8 (ucast color)"

definition get_cell :: "nat \<Rightarrow> vga \<Rightarrow> u16 res" where
  "get_cell i s = (if i < 16384 then Inr (cells s ! i) else Inl (OutOfBounds (of_nat i)))"

definition put_cell :: "nat \<Rightarrow> u16 \<Rightarrow> vga \<Rightarrow> vga res" where
  "put_cell i v s = (if i < 16384 then Inr (s\<lparr>cells := (cells s)[i := v]\<rparr>) else Inl (OutOfBounds (of_nat i)))"

definition crtc_out :: "u8 \<Rightarrow> u8 \<Rightarrow> vga \<Rightarrow> vga" where
  "crtc_out reg v s = s\<lparr>crtc := (crtc s)(reg := v)\<rparr>"

definition vga_set_start :: "nat \<Rightarrow> vga \<Rightarrow> vga" where
  "vga_set_start row s =
     (let addr = (of_nat (row * VGA_X) :: u16) in
      crtc_out 0x0D (ucast (addr AND 0xFF)) (crtc_out 0x0C (ucast (drop_bit 8 addr AND 0xFF)) s))"

definition terminal_set_cursor :: "nat \<Rightarrow> nat \<Rightarrow> vga \<Rightarrow> vga" where
  "terminal_set_cursor x y s =
     (let pos = (of_nat (y * VGA_X + x) :: u16) in
      crtc_out 0x0E (ucast (drop_bit 8 pos AND 0xFF)) (crtc_out 0x0F (ucast (pos AND 0xFF)) s))"

definition terminal_update_cursor :: "vga \<Rightarrow> vga" where
  "terminal_update_cursor s =
     (if scroll_back s > 0 then crtc_out 0x0E 0xFF (crtc_out 0x0F 0xFF s)
      else let pos = (of_nat (terminal_row s * VGA_X + terminal_column s) :: u16) in
        crtc_out 0x0E (ucast (drop_bit 8 pos AND 0xFF)) (crtc_out 0x0F (ucast (pos AND 0xFF)) s))"

section \<open>The bars\<close>

definition bar_write_str :: "nat \<Rightarrow> string \<Rightarrow> nat \<Rightarrow> vga \<Rightarrow> vga res" where
  "bar_write_str base str col s =
     for_each (\<lambda>(x, c). put_cell (base + x) (vga_entry (of_char c) (statusbar_color s))) (zip [col..<VGA_X] str) s"

text \<open>
  The digit loops of the bars: \<open>tmp\<close> receives the digits of \<open>v\<close>, least significant first, in a local
  array with \<open>room\<close> places left; the caller copies them in reverse.
\<close>

primrec tmp_digits :: "nat \<Rightarrow> nat \<Rightarrow> string res" where
  "tmp_digits 0 v = (if v = 0 then Inr '''' else Inl (OutOfBounds (of_nat v)))"
| "tmp_digits (Suc room) v =
     (if v = 0 then Inr '''' else bnd (tmp_digits room (v div 10)) (\<lambda>ds. Inr (char_of (48 + v mod 10) # ds)))"

definition bar_number :: "nat \<Rightarrow> nat \<Rightarrow> string res" where
  "bar_number room v = (if v = 0 then Inr ''0'' else bnd (tmp_digits room v) (\<lambda>ds. Inr (rev ds)))"

definition bar_right :: "nat \<Rightarrow> string \<Rightarrow> vga \<Rightarrow> vga res" where
  "bar_right base right s =
     for_each (\<lambda>(j, c). put_cell (base + (VGA_X - length right) + j) (vga_entry (of_char c) (statusbar_color s)))
       (zip [0..<length right] right) s"

definition bar_blank :: "nat \<Rightarrow> vga \<Rightarrow> vga res" where
  "bar_blank base s = for_each (\<lambda>x. put_cell (base + x) (vga_entry 0x20 (statusbar_color s))) [0..<VGA_X] s"

definition statusbar_draw_at :: "nat \<Rightarrow> vga \<Rightarrow> vga res" where
  "statusbar_draw_at row s =
     (let base = row * VGA_X in
      bnd (bar_blank base s) (\<lambda>s.
      bnd (bar_write_str base '' VGA text 80x25'' 0 s) (\<lambda>s.
      bnd (bar_number 6 (terminal_column s)) (\<lambda>c.
      bnd (bar_number 6 (terminal_row s - vga_view_top s)) (\<lambda>r.
      bar_right base (''col:'' @ c @ '' row:'' @ r @ '' '') s)))))"

text \<open>The most lines the view can be scrolled back.\<close>

definition max_back :: "vga \<Rightarrow> nat" where
  "max_back s = (if vga_view_top s < SCROLLBACK_ROWS then vga_view_top s else SCROLLBACK_ROWS)"

definition scrollbar_draw_at :: "nat \<Rightarrow> vga \<Rightarrow> vga res" where
  "scrollbar_draw_at row s =
     (let base = row * VGA_X;
          filled = min SCROLLBAR_BAR_LEN (if max_back s > 0 then (scroll_back s * SCROLLBAR_BAR_LEN) div max_back s else 0);
          total = max 1 ((max_back s + USABLE_ROWS - 1) div USABLE_ROWS);
          now = min total (scroll_back s div USABLE_ROWS + 1) in
      bnd (bar_blank base s) (\<lambda>s.
      bnd (put_cell base (vga_entry (of_char (CHR ''['')) (statusbar_color s)) s) (\<lambda>s.
      bnd (for_each (\<lambda>i. put_cell (base + 1 + i) (vga_entry (if i < filled then 0xDB else 0xB0) (statusbar_color s)))
             [0..<SCROLLBAR_BAR_LEN] s) (\<lambda>s.
      bnd (put_cell (base + 1 + SCROLLBAR_BAR_LEN) (vga_entry (of_char (CHR '']'')) (statusbar_color s)) s) (\<lambda>s.
      bnd (bar_number 4 now) (\<lambda>n.
      bnd (bar_number 4 total) (\<lambda>t.
      bar_right base (''pg '' @ n @ ''/'' @ t @ '' '') s)))))))"

definition statusbar_draw :: "vga \<Rightarrow> vga res" where
  "statusbar_draw s = statusbar_draw_at (vga_view_top s + USABLE_ROWS) s"

section \<open>Scrolling\<close>

definition copy_cell :: "nat \<Rightarrow> nat \<Rightarrow> nat \<Rightarrow> vga \<Rightarrow> vga res" where
  "copy_cell src r c s = bnd (get_cell ((src + r) * VGA_X + c) s) (\<lambda>v. put_cell (r * VGA_X + c) v s)"

definition vga_recycle :: "vga \<Rightarrow> vga res" where
  "vga_recycle s =
     (let keep = (if SCROLLBACK_ROWS > vga_view_top s then vga_view_top s else SCROLLBACK_ROWS);
          src = vga_view_top s - keep;
          total = keep + USABLE_ROWS in
      bnd (for_each (\<lambda>r. for_each (\<lambda>c. copy_cell src r c) [0..<VGA_X]) [0..<total] s) (\<lambda>s.
      Inr (s\<lparr>terminal_row := terminal_row s - src, vga_view_top := keep, scroll_back := 0, saved_bar_valid := False\<rparr>)))"

definition terminal_scroll :: "vga \<Rightarrow> vga res" where
  "terminal_scroll s =
     bnd (if vga_view_top s = VGA_MAX_VIEW_TOP then vga_recycle s else Inr s) (\<lambda>s.
     let s = s\<lparr>vga_view_top := vga_view_top s + 1\<rparr>;
         new_bottom = vga_view_top s + USABLE_ROWS - 1 in
     bnd (for_each (\<lambda>x. put_cell (new_bottom * VGA_X + x) (vga_entry 0x20 (terminal_color s))) [0..<VGA_X] s) (\<lambda>s.
     statusbar_draw (if scroll_back s = 0 then vga_set_start (vga_view_top s) s else s)))"

definition terminal_clear :: "vga \<Rightarrow> vga res" where
  "terminal_clear s =
     (let s = s\<lparr>terminal_row := 0, terminal_column := 0, vga_view_top := 0, scroll_back := 0, saved_bar_valid := False,
               terminal_color := vga_entry_color 7 0\<rparr> in
      bnd (for_each (\<lambda>y. for_each (\<lambda>x. put_cell (y * VGA_X + x) (vga_entry 0x20 (terminal_color s))) [0..<VGA_X])
             [0..<USABLE_ROWS] s) (\<lambda>s.
      bnd (statusbar_draw (vga_set_start 0 s)) (\<lambda>s. Inr (terminal_update_cursor s))))"

text \<open>The argument is the time stamp counter, whose lowest bit picks the colours of the status bar.\<close>

definition terminal_initialize :: "64 word \<Rightarrow> vga \<Rightarrow> vga res" where
  "terminal_initialize rdtsc s =
     terminal_clear (s\<lparr>statusbar_color := (if rdtsc AND 1 \<noteq> 0 then vga_entry_color 15 4 else vga_entry_color 4 15)\<rparr>)"

section \<open>Writing\<close>

definition terminal_setcolor :: "u8 \<Rightarrow> vga \<Rightarrow> vga" where
  "terminal_setcolor color s = s\<lparr>terminal_color := color\<rparr>"

definition terminal_getcolor :: "vga \<Rightarrow> u8" where
  "terminal_getcolor s = terminal_color s"

definition terminal_putentryat :: "char \<Rightarrow> u8 \<Rightarrow> nat \<Rightarrow> nat \<Rightarrow> vga \<Rightarrow> vga res" where
  "terminal_putentryat c color x y s = put_cell (y * VGA_X + x) (vga_entry (of_char c) color) s"

text \<open>The line advance of a newline and of a full row.\<close>

definition next_line :: "vga \<Rightarrow> vga res" where
  "next_line s =
     (let s = s\<lparr>terminal_column := 0, terminal_row := terminal_row s + 1\<rparr> in
      if terminal_row s = vga_view_top s + USABLE_ROWS then terminal_scroll s else Inr s)"

definition terminal_putchar :: "char \<Rightarrow> vga \<Rightarrow> vga res" where
  "terminal_putchar c s =
     (if c = CHR 0x0A then bnd (next_line s) (\<lambda>s. statusbar_draw (terminal_update_cursor s))
      else if c = CHR 0x0D then statusbar_draw (terminal_update_cursor (s\<lparr>terminal_column := 0\<rparr>))
      else if c = CHR 0x08 then
        if terminal_column s > 0 then
          let s = s\<lparr>terminal_column := terminal_column s - 1\<rparr> in
          bnd (terminal_putentryat (CHR '' '') (terminal_color s) (terminal_column s) (terminal_row s) s) (\<lambda>s.
          statusbar_draw (terminal_update_cursor s))
        else Inr s
      else
        bnd (terminal_putentryat c (terminal_color s) (terminal_column s) (terminal_row s) s) (\<lambda>s.
        let s = s\<lparr>terminal_column := terminal_column s + 1\<rparr> in
        bnd (if terminal_column s = VGA_X then next_line s else Inr s) (\<lambda>s.
        statusbar_draw (terminal_update_cursor s))))"

definition terminal_write :: "string \<Rightarrow> vga \<Rightarrow> vga res" where
  "terminal_write str s = for_each terminal_putchar str s"

definition terminal_writestring :: "string \<Rightarrow> vga \<Rightarrow> vga res" where
  "terminal_writestring str s = terminal_write (takeWhile (\<lambda>c. c \<noteq> CHR 0x00) str) s"

section \<open>The scrollback view\<close>

definition scrollback_save_and_draw :: "nat \<Rightarrow> vga \<Rightarrow> vga res" where
  "scrollback_save_and_draw bar_row s =
     bnd (for_each (\<lambda>x s. bnd (get_cell (bar_row * VGA_X + x) s) (\<lambda>v. Inr (s\<lparr>saved_bar := (saved_bar s)[x := v]\<rparr>)))
            [0..<VGA_X] s) (\<lambda>s.
     scrollbar_draw_at bar_row (s\<lparr>saved_bar_row := bar_row, saved_bar_valid := True\<rparr>))"

definition scrollback_restore :: "vga \<Rightarrow> vga res" where
  "scrollback_restore s =
     (if saved_bar_valid s then
        bnd (for_each (\<lambda>x s. put_cell (saved_bar_row s * VGA_X + x) (saved_bar s ! x) s) [0..<VGA_X] s) (\<lambda>s.
        Inr (s\<lparr>saved_bar_valid := False\<rparr>))
      else Inr s)"

text \<open>
  The number of lines is an unbounded integer; the callers pass 1 and 24 and their negatives. In C the
  negation of the least integer would be undefined.
\<close>

definition terminal_scroll_lines :: "int \<Rightarrow> vga \<Rightarrow> vga res" where
  "terminal_scroll_lines delta s =
     (let s = (if delta < 0 then
                 let amount = nat (- delta) in
                 s\<lparr>scroll_back := (if scroll_back s + amount > max_back s then max_back s else scroll_back s + amount)\<rparr>
               else if delta > 0 then
                 let amount = nat delta in
                 s\<lparr>scroll_back := (if amount \<ge> scroll_back s then 0 else scroll_back s - amount)\<rparr>
               else s) in
      bnd (scrollback_restore s) (\<lambda>s.
      bnd (if scroll_back s > 0 then scrollback_save_and_draw (vga_view_top s - scroll_back s + USABLE_ROWS) s
           else statusbar_draw s) (\<lambda>s.
      Inr (terminal_update_cursor (vga_set_start (vga_view_top s - scroll_back s) s)))))"

definition terminal_scroll_reset :: "vga \<Rightarrow> vga res" where
  "terminal_scroll_reset s =
     (if scroll_back s > 0 then
        bnd (scrollback_restore s) (\<lambda>s.
        bnd (statusbar_draw (s\<lparr>scroll_back := 0\<rparr>)) (\<lambda>s.
        Inr (terminal_update_cursor (vga_set_start (vga_view_top s) s))))
      else Inr s)"

end
