(* ===== verification/Vga_Spec.thy ===== *)
theory Vga_Spec
  imports Vga
begin

text \<open>
  What the terminal of \<open>src/src/drivers/vga.c\<close> shows: every operation stays inside of video memory, the
  text is a list of lines to which characters are appended and from which the oldest lines are
  dropped, and looking back through it changes nothing.
\<close>

section \<open>Rows of cells\<close>

lemma for_each_rel:
  assumes "P s" and "\<And>s. R s s" and "\<And>a b c. R a b \<Longrightarrow> R b c \<Longrightarrow> R a c" and "\<And>a b. P a \<Longrightarrow> R a b \<Longrightarrow> P b"
    and "\<And>i s. i \<in> set xs \<Longrightarrow> P s \<Longrightarrow> \<exists>s'. f i s = Inr s' \<and> R s s'"
  shows "\<exists>s'. for_each f xs s = Inr s' \<and> R s s'"
  using assms(1,5)
proof (induction xs arbitrary: s)
  case Nil
  then show ?case using assms(2) by simp
next
  case (Cons x xs)
  from Cons.prems(2) [of x s] Cons.prems(1) obtain s1 where s1: "f x s = Inr s1" "R s s1" by fastforce
  then have "P s1" using Cons.prems(1) assms(4) by blast
  then obtain s2 where s2: "for_each f xs s1 = Inr s2" "R s1 s2" using Cons.IH [of s1] Cons.prems(2) by auto
  then show ?case using s1 assms(3) by fastforce
qed

definition wide :: "vga \<Rightarrow> bool" where
  "wide s \<longleftrightarrow> length (cells s) = 16384"

text \<open>Only cells of row \<open>r\<close> change.\<close>

definition row_only :: "nat \<Rightarrow> vga \<Rightarrow> vga \<Rightarrow> bool" where
  "row_only r s s' \<longleftrightarrow> (\<exists>cs. s' = s\<lparr>cells := cs\<rparr> \<and> length cs = length (cells s) \<and>
     (\<forall>i<length cs. i div 80 \<noteq> r \<longrightarrow> cs ! i = cells s ! i))"

lemma row_only_refl: "row_only r s s"
  unfolding row_only_def by (intro exI [of _ "cells s"]) simp

lemma row_only_trans: "row_only r a b \<Longrightarrow> row_only r b c \<Longrightarrow> row_only r a c"
  by (auto simp: row_only_def)

lemma row_only_wide: "wide a \<Longrightarrow> row_only r a b \<Longrightarrow> wide b"
  by (auto simp: row_only_def wide_def)

lemmas row_rel = row_only_refl row_only_trans row_only_wide

lemma put_cell_row:
  assumes "r < 204" and "x < 80" and "wide s"
  shows "put_cell (r * 80 + x) v s = Inr (s\<lparr>cells := (cells s)[r * 80 + x := v]\<rparr>)"
    and "row_only r s (s\<lparr>cells := (cells s)[r * 80 + x := v]\<rparr>)"
proof -
  have "r * 80 + x < 16384" using assms by simp
  then show "put_cell (r * 80 + x) v s = Inr (s\<lparr>cells := (cells s)[r * 80 + x := v]\<rparr>)" by (simp add: put_cell_def)
  have "(r * 80 + x) div 80 = r" using assms(2) by simp
  then have "(cells s)[r * 80 + x := v] ! i = cells s ! i" if "i div 80 \<noteq> r" for i
    using that by (cases "i = r * 80 + x") auto
  then show "row_only r s (s\<lparr>cells := (cells s)[r * 80 + x := v]\<rparr>)" unfolding row_only_def by auto
qed

lemma put_cells_row:
  assumes "r < 204" and "wide s" and "\<And>i. i \<in> set xs \<Longrightarrow> \<exists>x v. x < 80 \<and> f i = put_cell (r * 80 + x) v"
  shows "\<exists>s'. for_each f xs s = Inr s' \<and> row_only r s s'"
  using row_rel assms put_cell_row [OF assms(1)] by (intro for_each_rel [where P = wide]) (auto, fastforce)

text \<open>A whole row set to given values.\<close>

definition set_row :: "nat \<Rightarrow> (nat \<Rightarrow> u16) \<Rightarrow> vga \<Rightarrow> vga" where
  "set_row r v s = s\<lparr>cells := map (\<lambda>i. if i div 80 = r then v (i mod 80) else cells s ! i) [0..<16384]\<rparr>"

lemma set_row_row: "wide s \<Longrightarrow> row_only r s (set_row r v s)"
  unfolding row_only_def set_row_def
  by (intro exI [of _ "map (\<lambda>i. if i div 80 = r then v (i mod 80) else cells s ! i) [0..<16384]"]) (simp add: wide_def)

lemma set_row_loop:
  assumes "wide s" and "r < 204" and "\<And>x s'. x < 80 \<Longrightarrow> row_only r s s' \<Longrightarrow> f x s' = put_cell (r * 80 + x) (v x) s'"
  shows "for_each f [0..<80] s = Inr (set_row r v s)"
proof -
  let ?part = "\<lambda>n. s\<lparr>cells := map (\<lambda>i. if i div 80 = r \<and> i mod 80 < n then v (i mod 80) else cells s ! i) [0..<16384]\<rparr>"
  have "\<exists>s'. for_each f [0..<80] s = Inr s' \<and> s' = ?part 80"
  proof (rule for_each_invariant [where P = "\<lambda>n s'. s' = ?part n"])
    have "cells s = map (\<lambda>i. cells s ! i) [0..<16384]" using assms(1) by (metis map_nth wide_def)
    then show "s = ?part 0" by simp
  next
    fix n s' assume n: "n < 80" and s': "s' = ?part n"
    have ro: "row_only r s s'"
      unfolding row_only_def s' by (intro exI [of _ "map (\<lambda>i. if i div 80 = r \<and> i mod 80 < n then v (i mod 80) else cells s ! i) [0..<16384]"])
        (use assms(1) in \<open>simp add: wide_def\<close>)
    have "(cells s')[r * 80 + n := v n] = cells (?part (Suc n))"
    proof (rule nth_equalityI)
      fix i assume "i < length ((cells s')[r * 80 + n := v n])"
      then have i: "i < 16384" by (simp add: s')
      have "\<not> (i div 80 = r \<and> i mod 80 = n)" if "i \<noteq> r * 80 + n" using that div_mult_mod_eq [of i 80] by auto
      then show "(cells s')[r * 80 + n := v n] ! i = cells (?part (Suc n)) ! i"
        using i n by (cases "i = r * 80 + n") (auto simp: s' less_Suc_eq)
    qed (simp add: s')
    then show "\<exists>s''. f n s' = Inr s'' \<and> s'' = ?part (Suc n)"
      using assms(3) [OF n ro] put_cell_row(1) [OF assms(2) n row_only_wide [OF assms(1) ro], of "v n"] by (simp add: s')
  qed simp
  then show ?thesis by (simp add: set_row_def)
qed

section \<open>The bars\<close>

lemma tmp_digits_total: "v < 10 ^ room \<Longrightarrow> \<exists>ds. tmp_digits room v = Inr ds \<and> length ds \<le> room"
proof (induction room arbitrary: v)
  case (Suc room)
  have "v div 10 < 10 ^ room" using Suc.prems by (simp add: less_mult_imp_div_less mult.commute)
  from Suc.IH [OF this] show ?case by auto
qed simp

lemma bar_number_total:
  assumes "v < 10 ^ room" and "0 < room"
  shows "\<exists>ds. bar_number room v = Inr ds \<and> length ds \<le> room"
  using tmp_digits_total [OF assms(1)] assms(2) by (auto simp: bar_number_def Suc_le_eq)

lemma bar_blank_row: "r < 204 \<Longrightarrow> wide s \<Longrightarrow> \<exists>s'. bar_blank (r * 80) s = Inr s' \<and> row_only r s s'"
  unfolding bar_blank_def by (rule put_cells_row) auto

lemma bar_write_str_row: "r < 204 \<Longrightarrow> wide s \<Longrightarrow> \<exists>s'. bar_write_str (r * 80) str 0 s = Inr s' \<and> row_only r s s'"
  unfolding bar_write_str_def by (rule put_cells_row) (force dest: set_zip_leftD)+

lemma bar_right_row:
  assumes "r < 204" and "wide s" and "length right \<le> 80"
  shows "\<exists>s'. bar_right (r * 80) right s = Inr s' \<and> row_only r s s'"
  unfolding bar_right_def
proof (rule put_cells_row [OF assms(1,2)])
  fix i assume "i \<in> set (zip [0..<length right] right)"
  then obtain j c where i: "i = (j, c)" "j < length right" by (metis atLeastLessThan_iff set_upt set_zip_leftD surj_pair)
  have "80 - length right + j < 80" using i(2) assms(3) by linarith
  then show "\<exists>x v. x < 80 \<and> (case i of (j, c) \<Rightarrow> put_cell (r * 80 + (80 - length right) + j) (vga_entry (of_char c) (statusbar_color s))) = put_cell (r * 80 + x) v"
    using i(1) by (auto simp: add.assoc)
qed

lemma statusbar_draw_at_row:
  assumes "r < 204" and "wide s" and "terminal_column s < 1000000" and "terminal_row s - vga_view_top s < 1000000"
  shows "\<exists>s'. statusbar_draw_at r s = Inr s' \<and> row_only r s s'"
proof -
  obtain s1 where s1: "bar_blank (r * 80) s = Inr s1" "row_only r s s1" using bar_blank_row [OF assms(1,2)] by blast
  obtain s2 where s2: "bar_write_str (r * 80) '' VGA text 80x25'' 0 s1 = Inr s2" "row_only r s1 s2"
    using bar_write_str_row [OF assms(1) row_only_wide [OF assms(2) s1(2)]] by blast
  have ro: "row_only r s s2" using row_only_trans [OF s1(2) s2(2)] .
  then have same: "terminal_column s2 = terminal_column s" "terminal_row s2 = terminal_row s" "vga_view_top s2 = vga_view_top s"
    by (auto simp: row_only_def)
  obtain c where c: "bar_number 6 (terminal_column s) = Inr c" "length c \<le> 6" using bar_number_total [of "terminal_column s" 6] assms(3) by auto
  obtain d where d: "bar_number 6 (terminal_row s - vga_view_top s) = Inr d" "length d \<le> 6"
    using bar_number_total [of "terminal_row s - vga_view_top s" 6] assms(4) by auto
  obtain s3 where "bar_right (r * 80) (''col:'' @ c @ '' row:'' @ d @ '' '') s2 = Inr s3" "row_only r s2 s3"
    using bar_right_row [OF assms(1) row_only_wide [OF assms(2) ro], of "''col:'' @ c @ '' row:'' @ d @ '' ''"] c d by auto
  then show ?thesis using s1 s2 c d same row_only_trans [OF ro] by (auto simp: statusbar_draw_at_def Let_def)
qed

lemma scrollbar_draw_at_row:
  assumes "r < 204" and "wide s"
  shows "\<exists>s'. scrollbar_draw_at r s = Inr s' \<and> row_only r s s'"
proof -
  define total where "total = max 1 ((max_back s + 24 - 1) div 24)"
  define now where "now = min total (scroll_back s div 24 + 1)"
  define filled where "filled = min 62 (if max_back s > 0 then (scroll_back s * 62) div max_back s else 0)"
  have "max_back s \<le> 154" by (simp add: max_back_def)
  then have "total < 10 ^ 4" "now < 10 ^ 4" by (simp_all add: total_def now_def)
  then obtain n t where nt: "bar_number 4 now = Inr n" "bar_number 4 total = Inr t" "length n \<le> 4" "length t \<le> 4"
    using bar_number_total [of now 4] bar_number_total [of total 4] by auto
  obtain s1 where s1: "bar_blank (r * 80) s = Inr s1" "row_only r s s1" using bar_blank_row [OF assms(1,2)] by blast
  note w1 = row_only_wide [OF assms(2) s1(2)]
  define s2 where "s2 = s1\<lparr>cells := (cells s1)[r * 80 + 0 := vga_entry (of_char (CHR ''['')) (statusbar_color s1)]\<rparr>"
  have s2: "put_cell (r * 80) (vga_entry (of_char (CHR ''['')) (statusbar_color s1)) s1 = Inr s2" "row_only r s1 s2"
    using put_cell_row [OF assms(1) _ w1, of 0] by (simp_all add: s2_def)
  note w2 = row_only_wide [OF w1 s2(2)]
  obtain s3 where s3: "for_each (\<lambda>i. put_cell (r * 80 + 1 + i) (vga_entry (if i < filled then 0xDB else 0xB0) (statusbar_color s2))) [0..<62] s2 = Inr s3"
    "row_only r s2 s3"
  proof -
    have "\<exists>s'. for_each (\<lambda>i. put_cell (r * 80 + 1 + i) (vga_entry (if i < filled then 0xDB else 0xB0) (statusbar_color s2))) [0..<62] s2 = Inr s' \<and> row_only r s2 s'"
    proof (rule put_cells_row [OF assms(1) w2])
      fix i assume "i \<in> set [0..<62 :: nat]"
      then have "1 + i < 80" by simp
      then show "\<exists>x v. x < 80 \<and> put_cell (r * 80 + 1 + i) (vga_entry (if i < filled then 0xDB else 0xB0) (statusbar_color s2)) = put_cell (r * 80 + x) v"
        by (metis add.assoc)
    qed
    then show thesis using that by blast
  qed
  note w3 = row_only_wide [OF w2 s3(2)]
  define s4 where "s4 = s3\<lparr>cells := (cells s3)[r * 80 + 63 := vga_entry (of_char (CHR '']'')) (statusbar_color s3)]\<rparr>"
  have s4: "put_cell (r * 80 + 1 + 62) (vga_entry (of_char (CHR '']'')) (statusbar_color s3)) s3 = Inr s4" "row_only r s3 s4"
    using put_cell_row [OF assms(1) _ w3, of 63] by (simp_all add: s4_def add.commute)
  note w4 = row_only_wide [OF w3 s4(2)]
  obtain s5 where s5: "bar_right (r * 80) (''pg '' @ n @ ''/'' @ t @ '' '') s4 = Inr s5" "row_only r s4 s5"
    using bar_right_row [OF assms(1) w4, of "''pg '' @ n @ ''/'' @ t @ '' ''"] nt by auto
  have "row_only r s s5"
    using row_only_trans [OF row_only_trans [OF row_only_trans [OF row_only_trans [OF s1(2) s2(2)] s3(2)] s4(2)] s5(2)] .
  moreover have "scrollbar_draw_at r s = Inr s5"
    unfolding scrollbar_draw_at_def Let_def filled_def [symmetric] total_def [symmetric] now_def [symmetric]
    by (simp only: s1(1) s2(1) s3(1) s4(1) nt(1,2) s5(1) bnd_simps)
  ultimately show ?thesis by blast
qed

section \<open>The text\<close>

definition cell :: "vga \<Rightarrow> nat \<Rightarrow> nat \<Rightarrow> u16" where
  "cell s r c = cells s ! (r * 80 + c)"

text \<open>
  Row \<open>r\<close> of the text: what video memory holds, except where the scrollback bar covers it. The
  history is all text from the oldest row kept to the last row of the live view.
\<close>

definition text_row :: "vga \<Rightarrow> nat \<Rightarrow> u16 list" where
  "text_row s r = map (\<lambda>c. if saved_bar_valid s \<and> r = saved_bar_row s then saved_bar s ! c else cell s r c) [0..<80]"

definition hist :: "vga \<Rightarrow> u16 list list" where
  "hist s = map (text_row s) [0..<vga_view_top s + 24]"

definition shows_row :: "vga \<Rightarrow> nat \<Rightarrow> bool" where
  "shows_row s r \<longleftrightarrow> (let addr = (of_nat (r * 80) :: u16) in
     crtc s 0x0C = ucast (drop_bit 8 addr AND 0xFF) \<and> crtc s 0x0D = ucast (addr AND 0xFF))"

definition vga_inv :: "vga \<Rightarrow> bool" where
  "vga_inv s \<longleftrightarrow> wide s \<and> length (saved_bar s) = 80 \<and> vga_view_top s \<le> 179 \<and> vga_view_top s \<le> terminal_row s \<and>
     terminal_row s < vga_view_top s + 24 \<and> terminal_column s < 80 \<and> scroll_back s \<le> max_back s \<and>
     (saved_bar_valid s \<longleftrightarrow> 0 < scroll_back s) \<and>
     (saved_bar_valid s \<longrightarrow> saved_bar_row s = vga_view_top s - scroll_back s + 24) \<and>
     shows_row s (vga_view_top s - scroll_back s)"

lemma cell_index: "r < 204 \<Longrightarrow> c < 80 \<Longrightarrow> r * 80 + c < (16384 :: nat)"
  by simp

lemma cell_row_only: "row_only r s s' \<Longrightarrow> wide s \<Longrightarrow> r' \<noteq> r \<Longrightarrow> r' < 204 \<Longrightarrow> c < 80 \<Longrightarrow> cell s' r' c = cell s r' c"
  by (auto simp: row_only_def cell_def wide_def)

lemma cell_set_row: "r' < 204 \<Longrightarrow> c < 80 \<Longrightarrow> cell (set_row r v s) r' c = (if r' = r then v c else cell s r' c)"
  by (simp add: set_row_def cell_def)

lemma row_only_fields:
  assumes "row_only r s s'"
  shows "terminal_row s' = terminal_row s" "terminal_column s' = terminal_column s" "terminal_color s' = terminal_color s"
    "vga_view_top s' = vga_view_top s" "scroll_back s' = scroll_back s" "saved_bar s' = saved_bar s"
    "saved_bar_row s' = saved_bar_row s" "saved_bar_valid s' = saved_bar_valid s" "crtc s' = crtc s"
    "statusbar_color s' = statusbar_color s" "max_back s' = max_back s"
  using assms by (auto simp: row_only_def max_back_def)

lemma wide_set_row [simp]: "wide (set_row r v s)"
  by (simp add: wide_def set_row_def)

lemma set_row_fields [simp]:
  "terminal_row (set_row r v s) = terminal_row s" "terminal_column (set_row r v s) = terminal_column s"
  "terminal_color (set_row r v s) = terminal_color s" "vga_view_top (set_row r v s) = vga_view_top s"
  "scroll_back (set_row r v s) = scroll_back s" "saved_bar (set_row r v s) = saved_bar s"
  "saved_bar_row (set_row r v s) = saved_bar_row s" "saved_bar_valid (set_row r v s) = saved_bar_valid s"
  "crtc (set_row r v s) = crtc s"
  by (simp_all add: set_row_def)

section \<open>Recycling\<close>

lemma cells_twice: "s\<lparr>cells := a, cells := b\<rparr> = s\<lparr>cells := b\<rparr>"
  by simp

lemma copy_row:
  assumes "wide s" and "src + r < 204" and "0 < src"
  shows "for_each (copy_cell src r) [0..<80] s = Inr (set_row r (cell s (src + r)) s)"
proof (rule set_row_loop [OF assms(1)])
  fix x :: nat and s' assume x: "x < 80" and ro: "row_only r s s'"
  have "cell s' (src + r) x = cell s (src + r) x" using cell_row_only [OF ro assms(1), of "src + r" x] assms x by simp
  then show "copy_cell src r x s' = put_cell (r * 80 + x) (cell s (src + r) x) s'"
    using cell_index [OF assms(2) x] by (simp add: copy_cell_def get_cell_def cell_def)
qed (use assms in simp)

lemma copy_rows:
  assumes "wide s" and "0 < src" and "src + m \<le> 204"
  shows "\<exists>cs. for_each (\<lambda>r. for_each (\<lambda>c. copy_cell src r c) [0..<80]) [0..<m] s = Inr (s\<lparr>cells := cs\<rparr>) \<and>
    wide (s\<lparr>cells := cs\<rparr>) \<and> (\<forall>r<m. \<forall>c<80. cell (s\<lparr>cells := cs\<rparr>) r c = cell s (src + r) c)"
proof -
  let ?P = "\<lambda>n s'. (\<exists>cs. s' = s\<lparr>cells := cs\<rparr>) \<and> wide s' \<and> (\<forall>r<204. \<forall>c<80. cell s' r c = (if r < n then cell s (src + r) c else cell s r c))"
  have "\<exists>s'. for_each (\<lambda>r. for_each (\<lambda>c. copy_cell src r c) [0..<80]) [0..<m] s = Inr s' \<and> ?P m s'"
  proof (rule for_each_invariant)
    have "s = s\<lparr>cells := cells s\<rparr>" by simp
    then have "\<exists>cs. s = s\<lparr>cells := cs\<rparr>" by blast
    then show "?P 0 s" using assms(1) by simp
  next
    fix n s' assume n: "n < m" and P: "?P n s'"
    then obtain cs where cs: "s' = s\<lparr>cells := cs\<rparr>" by blast
    have row: "cell s' (src + n) c = cell s (src + n) c" if "c < 80" for c using P n assms(3) that by auto
    have "\<exists>ds. set_row n (cell s' (src + n)) s' = s\<lparr>cells := ds\<rparr>" unfolding set_row_def cs cells_twice by blast
    then have "?P (Suc n) (set_row n (cell s' (src + n)) s')"
      using P n assms(3) row by (auto simp: cell_set_row less_Suc_eq)
    moreover have "for_each (copy_cell src n) [0..<80] s' = Inr (set_row n (cell s' (src + n)) s')"
      using P n assms(2,3) by (intro copy_row) auto
    ultimately show "\<exists>s''. for_each (\<lambda>c. copy_cell src n c) [0..<80] s' = Inr s'' \<and> ?P (Suc n) s''" by blast
  qed simp
  then obtain s' where s': "for_each (\<lambda>r. for_each (\<lambda>c. copy_cell src r c) [0..<80]) [0..<m] s = Inr s'" "?P m s'" by blast
  then obtain cs where "s' = s\<lparr>cells := cs\<rparr>" by blast
  then show ?thesis using s' assms(3) by (intro exI [of _ cs]) auto
qed

section \<open>Framing\<close>

lemma set_start_fields [simp]:
  "terminal_row (vga_set_start r s) = terminal_row s" "terminal_column (vga_set_start r s) = terminal_column s"
  "terminal_color (vga_set_start r s) = terminal_color s" "vga_view_top (vga_set_start r s) = vga_view_top s"
  "scroll_back (vga_set_start r s) = scroll_back s" "saved_bar (vga_set_start r s) = saved_bar s"
  "saved_bar_row (vga_set_start r s) = saved_bar_row s" "saved_bar_valid (vga_set_start r s) = saved_bar_valid s"
  "cells (vga_set_start r s) = cells s" "shows_row (vga_set_start r s) r" "statusbar_color (vga_set_start r s) = statusbar_color s"
  by (simp_all add: vga_set_start_def crtc_out_def Let_def shows_row_def)

lemma update_cursor_fields [simp]:
  "terminal_row (terminal_update_cursor s) = terminal_row s" "terminal_column (terminal_update_cursor s) = terminal_column s"
  "terminal_color (terminal_update_cursor s) = terminal_color s" "vga_view_top (terminal_update_cursor s) = vga_view_top s"
  "scroll_back (terminal_update_cursor s) = scroll_back s" "saved_bar (terminal_update_cursor s) = saved_bar s"
  "saved_bar_row (terminal_update_cursor s) = saved_bar_row s" "saved_bar_valid (terminal_update_cursor s) = saved_bar_valid s"
  "cells (terminal_update_cursor s) = cells s" "shows_row (terminal_update_cursor s) r = shows_row s r"
  "statusbar_color (terminal_update_cursor s) = statusbar_color s"
  by (simp_all add: terminal_update_cursor_def crtc_out_def Let_def shows_row_def)

lemma hist_cong:
  assumes "cells s' = cells s" "saved_bar s' = saved_bar s" "saved_bar_row s' = saved_bar_row s"
    "saved_bar_valid s' = saved_bar_valid s" "vga_view_top s' = vga_view_top s"
  shows "hist s' = hist s"
  using assms by (simp add: hist_def text_row_def cell_def)

lemma hist_crtc [simp]: "hist (vga_set_start r s) = hist s" "hist (terminal_update_cursor s) = hist s"
  by (rule hist_cong; simp)+

lemma inv_update_cursor [simp]: "vga_inv (terminal_update_cursor s) = vga_inv s"
  by (simp add: vga_inv_def wide_def max_back_def)

lemma inv_row_only: "row_only r s s' \<Longrightarrow> vga_inv s \<Longrightarrow> vga_inv s'"
  using row_only_wide by (auto simp: vga_inv_def row_only_fields shows_row_def)

lemma hist_row_only:
  assumes "row_only r s s'" and "wide s" and "vga_view_top s \<le> 179" and "vga_view_top s + 24 \<le> r"
  shows "hist s' = hist s"
  using assms cell_row_only [OF assms(1,2)] row_only_fields [OF assms(1)] by (simp add: hist_def text_row_def)

lemma statusbar_draw_row:
  assumes "wide s" and "vga_view_top s \<le> 179" and "terminal_column s \<le> 80" and "terminal_row s \<le> vga_view_top s + 24"
  shows "\<exists>s'. statusbar_draw s = Inr s' \<and> row_only (vga_view_top s + 24) s s'"
  unfolding statusbar_draw_def using assms by (intro statusbar_draw_at_row) auto

text \<open>Drawing the status bar and moving the hardware cursor keep the text.\<close>

lemma redraw:
  assumes "vga_inv s"
  shows "\<exists>s'. statusbar_draw (terminal_update_cursor s) = Inr s' \<and> vga_inv s' \<and> hist s' = hist s \<and>
    terminal_row s' = terminal_row s \<and> terminal_column s' = terminal_column s \<and> terminal_color s' = terminal_color s \<and>
    vga_view_top s' = vga_view_top s \<and> scroll_back s' = scroll_back s"
proof -
  let ?s = "terminal_update_cursor s"
  have w: "wide ?s" "vga_view_top ?s \<le> 179" using assms by (simp_all add: vga_inv_def wide_def)
  obtain s' where s': "statusbar_draw ?s = Inr s'" "row_only (vga_view_top ?s + 24) ?s s'"
    using statusbar_draw_row [OF w] assms by (auto simp: vga_inv_def)
  have "vga_inv s'" using inv_row_only [OF s'(2)] assms by simp
  moreover have "hist s' = hist s" using hist_row_only [OF s'(2) w] by simp
  ultimately show ?thesis using s' row_only_fields [OF s'(2)] by simp
qed

section \<open>Scrolling\<close>

definition plain_rows :: "vga \<Rightarrow> nat \<Rightarrow> u16 list list" where
  "plain_rows s n = map (\<lambda>r. map (cell s r) [0..<80]) [0..<n]"

lemma hist_plain: "\<not> saved_bar_valid s \<Longrightarrow> hist s = plain_rows s (vga_view_top s + 24)"
  by (simp add: hist_def text_row_def plain_rows_def)

lemma plain_rows_Suc: "plain_rows s (Suc n) = plain_rows s n @ [map (cell s n) [0..<80]]"
  by (simp add: plain_rows_def)

lemma plain_rows_cong:
  "(\<And>r c. r < n \<Longrightarrow> c < 80 \<Longrightarrow> cell s r c = cell s' r c) \<Longrightarrow> plain_rows s n = plain_rows s' n"
  by (simp add: plain_rows_def)

lemma recycle_spec:
  assumes "wide s" and "vga_view_top s = 179" and "terminal_row s = 203"
  shows "\<exists>s1. vga_recycle s = Inr s1 \<and> wide s1 \<and> vga_view_top s1 = 154 \<and> terminal_row s1 = 178 \<and>
    plain_rows s1 178 = drop 25 (plain_rows s 203) \<and> \<not> saved_bar_valid s1 \<and> scroll_back s1 = 0 \<and>
    terminal_column s1 = terminal_column s \<and> terminal_color s1 = terminal_color s \<and> saved_bar s1 = saved_bar s"
proof -
  obtain cs where cs: "for_each (\<lambda>r. for_each (\<lambda>c. copy_cell 25 r c) [0..<80]) [0..<178] s = Inr (s\<lparr>cells := cs\<rparr>)"
    "wide (s\<lparr>cells := cs\<rparr>)" "\<forall>r<178. \<forall>c<80. cell (s\<lparr>cells := cs\<rparr>) r c = cell s (25 + r) c"
    using copy_rows [OF assms(1), of 25 178] by auto
  let ?s1 = "s\<lparr>cells := cs, terminal_row := 178, vga_view_top := 154, scroll_back := 0, saved_bar_valid := False\<rparr>"
  have "plain_rows ?s1 178 = drop 25 (plain_rows s 203)"
  proof (rule nth_equalityI)
    fix i assume "i < length (plain_rows ?s1 178)"
    then have i: "i < 178" by (simp add: plain_rows_def)
    then show "plain_rows ?s1 178 ! i = drop 25 (plain_rows s 203) ! i"
      using cs(3) by (simp add: plain_rows_def) (simp add: cell_def)
  qed (simp add: plain_rows_def)
  moreover have "vga_recycle s = Inr ?s1" using cs(1) assms by (simp add: vga_recycle_def Let_def)
  ultimately show ?thesis using cs(2) by (simp add: wide_def)
qed

text \<open>The state in the middle of a line advance: the cursor may be one row below the live view.\<close>

definition advancing :: "vga \<Rightarrow> bool" where
  "advancing s \<longleftrightarrow> wide s \<and> length (saved_bar s) = 80 \<and> vga_view_top s \<le> 179 \<and> terminal_column s < 80 \<and>
     scroll_back s = 0 \<and> \<not> saved_bar_valid s \<and> terminal_row s = vga_view_top s + 24"

definition drop_oldest :: "'a list \<Rightarrow> 'a list" where
  "drop_oldest ls = (if length ls = 203 then drop 25 ls else ls)"

lemma terminal_scroll_spec:
  assumes "advancing s"
  shows "\<exists>s'. terminal_scroll s = Inr s' \<and> vga_inv s' \<and>
    hist s' = drop_oldest (hist s) @ [replicate 80 (vga_entry 0x20 (terminal_color s))] \<and>
    terminal_row s' = vga_view_top s' + 23 \<and> terminal_column s' = terminal_column s \<and>
    terminal_color s' = terminal_color s \<and> scroll_back s' = 0"
proof -
  let ?v = "vga_view_top s" and ?b = "vga_entry 0x20 (terminal_color s)"
  have "\<exists>s1. (if ?v = 179 then vga_recycle s else Inr s) = Inr s1 \<and> wide s1 \<and> vga_view_top s1 \<le> 178 \<and>
      terminal_row s1 = vga_view_top s1 + 24 \<and> plain_rows s1 (vga_view_top s1 + 24) = drop_oldest (hist s) \<and>
      \<not> saved_bar_valid s1 \<and> scroll_back s1 = 0 \<and> terminal_column s1 = terminal_column s \<and>
      terminal_color s1 = terminal_color s \<and> saved_bar s1 = saved_bar s"
  proof (cases "?v = 179")
    case True
    then have "hist s = plain_rows s 203" "length (plain_rows s 203) = 203"
      using assms hist_plain by (simp_all add: advancing_def plain_rows_def)
    then show ?thesis using True recycle_spec [of s] assms by (auto simp: advancing_def drop_oldest_def)
  next
    case False
    then have "hist s = plain_rows s (?v + 24)" "length (plain_rows s (?v + 24)) \<noteq> 203"
      using assms hist_plain by (simp_all add: advancing_def plain_rows_def)
    then show ?thesis using False assms by (auto simp: advancing_def drop_oldest_def)
  qed
  then obtain s1 where s1: "(if ?v = 179 then vga_recycle s else Inr s) = Inr s1" "wide s1" "vga_view_top s1 \<le> 178"
    "terminal_row s1 = vga_view_top s1 + 24" "plain_rows s1 (vga_view_top s1 + 24) = drop_oldest (hist s)"
    "\<not> saved_bar_valid s1" "scroll_back s1 = 0" "terminal_column s1 = terminal_column s"
    "terminal_color s1 = terminal_color s" "saved_bar s1 = saved_bar s" by blast
  let ?n = "vga_view_top s1 + 24"
  define s2 where "s2 = s1\<lparr>vga_view_top := vga_view_top s1 + 1\<rparr>"
  define s3 where "s3 = vga_set_start (vga_view_top s1 + 1) (set_row ?n (\<lambda>_. ?b) s2)"
  have loop: "for_each (\<lambda>x. put_cell (?n * 80 + x) ?b) [0..<80] s2 = Inr (set_row ?n (\<lambda>_. ?b) s2)"
    using s1(2,3) by (intro set_row_loop) (simp_all add: s2_def wide_def)
  have w3: "wide s3" by (simp add: s3_def wide_def) (simp add: set_row_def)
  have f3: "vga_view_top s3 = vga_view_top s1 + 1" "terminal_row s3 = ?n" "terminal_column s3 = terminal_column s"
    "terminal_color s3 = terminal_color s" "scroll_back s3 = 0" "\<not> saved_bar_valid s3" "saved_bar s3 = saved_bar s"
    "shows_row s3 (vga_view_top s1 + 1)" using s1 by (simp_all add: s3_def s2_def)
  have h3: "hist s3 = drop_oldest (hist s) @ [replicate 80 ?b]"
  proof -
    have c: "cell s3 r c = (if r = ?n then ?b else cell s1 r c)" if "r < 204" "c < 80" for r c
      using cell_set_row [OF that, of ?n "\<lambda>_. ?b" s2] by (simp add: s3_def s2_def cell_def)
    have "plain_rows s3 ?n = plain_rows s1 ?n" using c s1(3) by (intro plain_rows_cong) auto
    moreover have "map (cell s3 ?n) [0..<80] = replicate 80 ?b" using c [of ?n] s1(3) by (intro nth_equalityI) auto
    moreover have "vga_view_top s3 + 24 = Suc ?n" using f3(1) by simp
    ultimately show ?thesis using f3(6) s1(5) hist_plain [of s3] plain_rows_Suc [of s3 ?n] by simp
  qed
  have inv3: "vga_inv s3" using w3 f3 s1(3) assms by (simp add: vga_inv_def max_back_def advancing_def)
  obtain s' where s': "statusbar_draw s3 = Inr s'" "row_only (vga_view_top s3 + 24) s3 s'"
    using statusbar_draw_row [OF w3] f3 s1(3) assms by (auto simp: advancing_def)
  have e2: "vga_view_top s2 + 24 - 1 = ?n" "terminal_color s2 = terminal_color s" using s1(9) by (simp_all add: s2_def)
  have "scroll_back (set_row ?n (\<lambda>_. ?b) s2) = 0" "vga_view_top (set_row ?n (\<lambda>_. ?b) s2) = vga_view_top s1 + 1"
    using s1(7) by (simp_all add: s2_def)
  then have "terminal_scroll s = Inr s'"
    unfolding terminal_scroll_def s1(1) bnd_simps Let_def s2_def [symmetric] e2 loop using s'(1) by (simp add: s3_def)
  moreover have "hist s' = hist s3" using hist_row_only [OF s'(2) w3] f3(1) s1(3) by simp
  ultimately show ?thesis using inv_row_only [OF s'(2) inv3] h3 row_only_fields [OF s'(2)] f3 by simp
qed

section \<open>Typing\<close>

text \<open>
  The terminal as its user sees it: the lines of text, of which the last 24 are in view, and the row
  and column of the cursor in the view. At most 203 lines are kept; when one more is needed the oldest
  25 go.
\<close>

type_synonym screen = "u16 list list \<times> nat \<times> nat"

definition view :: "vga \<Rightarrow> screen" where
  "view s = (hist s, terminal_row s - vga_view_top s, terminal_column s)"

fun feed_line :: "u8 \<Rightarrow> screen \<Rightarrow> screen" where
  "feed_line color (ls, r, c) =
     (if r = 23 then (drop_oldest ls @ [replicate 80 (vga_entry 0x20 color)], 23, 0) else (ls, r + 1, 0))"

fun put_at :: "u16 \<Rightarrow> screen \<Rightarrow> screen" where
  "put_at x (ls, r, c) = (let i = length ls - 24 + r in (ls[i := (ls ! i)[c := x]], r, c))"

definition type_char :: "u8 \<Rightarrow> char \<Rightarrow> screen \<Rightarrow> screen" where
  "type_char color ch v = (case v of (ls, r, c) \<Rightarrow>
     if ch = CHR 0x0A then feed_line color v
     else if ch = CHR 0x0D then (ls, r, 0)
     else if ch = CHR 0x08 then if c > 0 then put_at (vga_entry 0x20 color) (ls, r, c - 1) else v
     else case put_at (vga_entry (of_char ch) color) v of (ls, r, c) \<Rightarrow>
       if c = 79 then feed_line color (ls, r, c) else (ls, r, c + 1))"

lemma length_hist [simp]: "length (hist s) = vga_view_top s + 24"
  by (simp add: hist_def)

lemma inv_column:
  "vga_inv s \<Longrightarrow> c < 80 \<Longrightarrow> vga_inv (s\<lparr>terminal_column := c\<rparr>)"
  by (auto simp: vga_inv_def wide_def max_back_def shows_row_def)

lemma hist_moves [simp]:
  "hist (s\<lparr>terminal_column := c\<rparr>) = hist s" "hist (s\<lparr>terminal_row := r\<rparr>) = hist s"
  by (simp_all add: hist_def text_row_def cell_def)

lemma next_line_spec:
  assumes "vga_inv (s\<lparr>terminal_column := 0\<rparr>)" and "scroll_back s = 0"
  shows "\<exists>s'. next_line s = Inr s' \<and> vga_inv s' \<and> scroll_back s' = 0 \<and> terminal_color s' = terminal_color s \<and>
    view s' = feed_line (terminal_color s) (view s)"
proof -
  let ?s = "s\<lparr>terminal_column := 0, terminal_row := terminal_row s + 1\<rparr>"
  show ?thesis
  proof (cases "terminal_row s + 1 = vga_view_top s + 24")
    case True
    then have "advancing ?s" using assms by (auto simp: vga_inv_def advancing_def wide_def)
    from terminal_scroll_spec [OF this] show ?thesis using True
      by (auto simp: next_line_def Let_def view_def)
  next
    case False
    then have "vga_inv ?s" using assms by (simp add: vga_inv_def wide_def max_back_def shows_row_def)
    moreover have "terminal_row s - vga_view_top s \<noteq> 23" "vga_view_top s \<le> terminal_row s"
      using False assms by (auto simp: vga_inv_def)
    ultimately show ?thesis using False assms(2) by (simp add: next_line_def Let_def view_def Suc_diff_le)
  qed
qed

lemma putentry_spec:
  assumes "vga_inv s" and "scroll_back s = 0"
  shows "\<exists>s'. terminal_putentryat ch color (terminal_column s) (terminal_row s) s = Inr s' \<and> vga_inv s' \<and>
    view s' = put_at (vga_entry (of_char ch) color) (view s) \<and> scroll_back s' = 0 \<and>
    terminal_color s' = terminal_color s \<and> terminal_column s' = terminal_column s"
proof -
  let ?r = "terminal_row s" and ?c = "terminal_column s" and ?v = "vga_entry (of_char ch) color"
  have b: "?r < 204" "?c < 80" "wide s" "?r < vga_view_top s + 24" "vga_view_top s \<le> ?r" "\<not> saved_bar_valid s" "vga_view_top s \<le> 179"
    using assms by (auto simp: vga_inv_def)
  define s' where "s' = s\<lparr>cells := (cells s)[?r * 80 + ?c := ?v]\<rparr>"
  have put: "terminal_putentryat ch color ?c ?r s = Inr s'" "row_only ?r s s'"
    using put_cell_row [OF b(1-3)] by (simp_all add: terminal_putentryat_def s'_def)
  have "hist s' = (hist s)[?r := (hist s ! ?r)[?c := ?v]]"
  proof (rule nth_equalityI)
    fix i assume "i < length (hist s')"
    then have i: "i < vga_view_top s + 24" by (simp add: s'_def)
    have row: "text_row s' i = (if i = ?r then (text_row s i)[?c := ?v] else text_row s i)"
    proof (cases "i = ?r")
      case True
      have "?r * 80 + ?c < length (cells s)" using b(1-3) by (simp add: wide_def)
      then show ?thesis using True b by (intro nth_equalityI) (auto simp: text_row_def s'_def cell_def nth_list_update)
    next
      case False
      then show ?thesis using cell_row_only [OF put(2) b(3) False] i b(6,7) by (auto simp: text_row_def s'_def)
    qed
    then show "hist s' ! i = (hist s)[?r := (hist s ! ?r)[?c := ?v]] ! i"
      using i b by (simp add: hist_def s'_def nth_list_update)
  qed (simp add: s'_def)
  moreover have "vga_view_top s + 24 - 24 + (?r - vga_view_top s) = ?r" using b(5) by simp
  ultimately show ?thesis using put inv_row_only [OF put(2) assms(1)] assms(2) by (simp add: view_def Let_def) (simp add: s'_def)
qed

lemma terminal_putchar_spec:
  assumes "vga_inv s" and "scroll_back s = 0"
  shows "\<exists>s'. terminal_putchar ch s = Inr s' \<and> vga_inv s' \<and> scroll_back s' = 0 \<and> terminal_color s' = terminal_color s \<and>
    view s' = type_char (terminal_color s) ch (view s)"
proof -
  have redraws: "\<exists>s'. statusbar_draw (terminal_update_cursor u) = Inr s' \<and> vga_inv s' \<and> scroll_back s' = 0 \<and>
      terminal_color s' = terminal_color u \<and> view s' = view u" if "vga_inv u" "scroll_back u = 0" for u
    using redraw [OF that(1)] that(2) by (auto simp: view_def)
  have col: "terminal_column s < 80" using assms(1) by (simp add: vga_inv_def)
  consider (nl) "ch = CHR 0x0A" | (cr) "ch = CHR 0x0D" | (bs) "ch = CHR 0x08" | (other) "ch \<notin> {CHR 0x0A, CHR 0x0D, CHR 0x08}" by auto
  then show ?thesis
  proof cases
    case nl
    obtain u where u: "next_line s = Inr u" "vga_inv u" "scroll_back u = 0" "terminal_color u = terminal_color s"
      "view u = feed_line (terminal_color s) (view s)"
      using next_line_spec [OF inv_column [OF assms(1)] assms(2)] by auto
    then show ?thesis using nl redraws [OF u(2,3)] by (auto simp: terminal_putchar_def type_char_def view_def)
  next
    case cr
    then show ?thesis using redraws [OF inv_column [OF assms(1), of 0]] assms(2)
      by (auto simp: terminal_putchar_def type_char_def view_def)
  next
    case bs
    show ?thesis
    proof (cases "terminal_column s > 0")
      case True
      let ?s = "s\<lparr>terminal_column := terminal_column s - 1\<rparr>"
      have "vga_inv ?s" using inv_column [OF assms(1)] col by simp
      then obtain u where u: "terminal_putentryat (CHR '' '') (terminal_color ?s) (terminal_column ?s) (terminal_row ?s) ?s = Inr u"
        "vga_inv u" "view u = put_at (vga_entry 0x20 (terminal_color s)) (view ?s)" "scroll_back u = 0" "terminal_color u = terminal_color s"
        using putentry_spec [of ?s "CHR '' ''" "terminal_color ?s"] assms(2) by auto
      then show ?thesis using bs True redraws [OF u(2,4)]
        by (auto simp: terminal_putchar_def type_char_def Let_def view_def)
    next
      case False
      then show ?thesis using bs assms by (simp add: terminal_putchar_def type_char_def view_def)
    qed
  next
    case other
    obtain u where u: "terminal_putentryat ch (terminal_color s) (terminal_column s) (terminal_row s) s = Inr u" "vga_inv u"
      "view u = put_at (vga_entry (of_char ch) (terminal_color s)) (view s)" "scroll_back u = 0" "terminal_color u = terminal_color s"
      "terminal_column u = terminal_column s" using putentry_spec [OF assms] by blast
    let ?u = "u\<lparr>terminal_column := terminal_column u + 1\<rparr>"
    have "\<exists>w. (if terminal_column ?u = 80 then next_line ?u else Inr ?u) = Inr w \<and> vga_inv w \<and> scroll_back w = 0 \<and>
        terminal_color w = terminal_color s \<and> view w = type_char (terminal_color s) ch (view s)"
    proof (cases "terminal_column s = 79")
      case True
      have "next_line ?u = next_line u" by (simp add: next_line_def)
      then show ?thesis using True next_line_spec [OF inv_column [OF u(2)] u(4)] u(3,5,6) other
        by (auto simp: type_char_def view_def Let_def)
    next
      case False
      then show ?thesis using inv_column [OF u(2), of "terminal_column u + 1"] u col other
        by (auto simp: type_char_def view_def Let_def)
    qed
    then obtain w where w: "(if terminal_column ?u = 80 then next_line ?u else Inr ?u) = Inr w" "vga_inv w" "scroll_back w = 0"
      "terminal_color w = terminal_color s" "view w = type_char (terminal_color s) ch (view s)" by blast
    have "terminal_putchar ch s = statusbar_draw (terminal_update_cursor w)"
      using other by (simp only: terminal_putchar_def u(1) Let_def w(1) bnd_simps) simp
    then show ?thesis using redraws [OF w(2,3)] w(4,5) by auto
  qed
qed

section \<open>Looking back\<close>

lemma restore_spec:
  assumes "wide s" and "saved_bar_valid s \<Longrightarrow> saved_bar_row s < 204" and "vga_view_top s \<le> 179"
  shows "\<exists>cs. scrollback_restore s = Inr (s\<lparr>cells := cs, saved_bar_valid := False\<rparr>) \<and> wide (s\<lparr>cells := cs\<rparr>) \<and>
    hist (s\<lparr>cells := cs, saved_bar_valid := False\<rparr>) = hist s"
proof (cases "saved_bar_valid s")
  case True
  let ?s = "set_row (saved_bar_row s) (\<lambda>x. saved_bar s ! x) s"
  have "for_each (\<lambda>x s. put_cell (saved_bar_row s * 80 + x) (saved_bar s ! x) s) [0..<80] s = Inr ?s"
    using assms True by (intro set_row_loop) (auto simp: row_only_fields)
  moreover have s: "?s = s\<lparr>cells := cells ?s\<rparr>" by (simp add: set_row_def)
  moreover have "wide ?s" by simp
  moreover have "hist (?s\<lparr>saved_bar_valid := False\<rparr>) = hist s"
  proof -
    have "cell (?s\<lparr>saved_bar_valid := False\<rparr>) r c = (if r = saved_bar_row s then saved_bar s ! c else cell s r c)"
      if "r < 204" "c < 80" for r c using cell_set_row [OF that] by (simp add: cell_def)
    then show ?thesis using True assms(3) by (auto simp: hist_def text_row_def intro!: map_cong)
  qed
  ultimately have "scrollback_restore s = Inr (?s\<lparr>saved_bar_valid := False\<rparr>) \<and> wide ?s \<and> hist (?s\<lparr>saved_bar_valid := False\<rparr>) = hist s"
    using True by (simp add: scrollback_restore_def)
  then show ?thesis unfolding set_row_def by blast
next
  case False
  have "s = s\<lparr>cells := cells s, saved_bar_valid := False\<rparr>" using False by simp
  moreover have "hist (s\<lparr>saved_bar_valid := False\<rparr>) = hist s" using False by (intro hist_cong) simp_all
  ultimately show ?thesis using False assms(1) by (intro exI [of _ "cells s"]) (simp add: scrollback_restore_def)
qed

lemma save_loop:
  assumes "r < 204" and "length (saved_bar s) = 80"
  shows "for_each (\<lambda>x s. bnd (get_cell (r * 80 + x) s) (\<lambda>v. Inr (s\<lparr>saved_bar := (saved_bar s)[x := v]\<rparr>))) [0..<80] s =
    Inr (s\<lparr>saved_bar := map (cell s r) [0..<80]\<rparr>)"
proof -
  let ?P = "\<lambda>n s'. s' = s\<lparr>saved_bar := map (cell s r) [0..<n] @ drop n (saved_bar s)\<rparr>"
  have "\<exists>s'. for_each (\<lambda>x s. bnd (get_cell (r * 80 + x) s) (\<lambda>v. Inr (s\<lparr>saved_bar := (saved_bar s)[x := v]\<rparr>))) [0..<80] s = Inr s' \<and> ?P 80 s'"
  proof (rule for_each_invariant)
    fix n s' assume n: "n < 80" and P: "?P n s'"
    have "drop n (saved_bar s) = saved_bar s ! n # drop (Suc n) (saved_bar s)" using n assms(2) by (simp add: Cons_nth_drop_Suc)
    then have "(map (cell s r) [0..<n] @ drop n (saved_bar s))[n := cell s r n] = map (cell s r) [0..<Suc n] @ drop (Suc n) (saved_bar s)"
      by (simp add: list_update_append)
    moreover have "get_cell (r * 80 + n) s' = Inr (cell s r n)"
      using P cell_index [OF assms(1) n] by (simp add: get_cell_def cell_def)
    ultimately show "\<exists>s''. bnd (get_cell (r * 80 + n) s') (\<lambda>v. Inr (s'\<lparr>saved_bar := (saved_bar s')[n := v]\<rparr>)) = Inr s'' \<and> ?P (Suc n) s''"
      using P by simp
  qed simp_all
  then show ?thesis using assms(2) by simp
qed

lemma save_and_draw_spec:
  assumes "wide s" and "r < 204" and "length (saved_bar s) = 80" and "\<not> saved_bar_valid s" and "vga_view_top s \<le> 179"
  shows "\<exists>s'. scrollback_save_and_draw r s = Inr s' \<and> hist s' = hist s \<and>
    row_only r (s\<lparr>saved_bar := map (cell s r) [0..<80], saved_bar_row := r, saved_bar_valid := True\<rparr>) s'"
proof -
  let ?s = "s\<lparr>saved_bar := map (cell s r) [0..<80], saved_bar_row := r, saved_bar_valid := True\<rparr>"
  have w: "wide ?s" using assms(1) by (simp add: wide_def)
  obtain s' where s': "scrollbar_draw_at r ?s = Inr s'" "row_only r ?s s'" using scrollbar_draw_at_row [OF assms(2) w] by blast
  note f = row_only_fields [OF s'(2)]
  have "text_row s' i = text_row s i" if "i < 204" for i
    using cell_row_only [OF s'(2) w, of i] that assms(4) f by (auto simp: text_row_def cell_def)
  then have "hist s' = hist s" using f(4) assms(5) by (auto simp: hist_def)
  then show ?thesis using s' save_loop [OF assms(2,3)] by (auto simp: scrollback_save_and_draw_def)
qed

lemma scroll_lines_spec:
  assumes "vga_inv s"
  shows "\<exists>s'. terminal_scroll_lines d s = Inr s' \<and> vga_inv s' \<and> view s' = view s \<and>
    int (scroll_back s') = max 0 (min (int (max_back s)) (int (scroll_back s) - d))"
proof -
  note inv = assms [unfolded vga_inv_def]
  define n where "n = (if d < 0 then if scroll_back s + nat (- d) > max_back s then max_back s else scroll_back s + nat (- d)
    else if d > 0 then if nat d \<ge> scroll_back s then 0 else scroll_back s - nat d else scroll_back s)"
  have sb: "scroll_back s \<le> max_back s" "max_back s \<le> vga_view_top s" "max_back s \<le> 154" using inv by (auto simp: max_back_def)
  have n: "int n = max 0 (min (int (max_back s)) (int (scroll_back s) - d))" using sb(1) by (auto simp: n_def)
  then have nb: "n \<le> max_back s" by linarith
  define s1 where "s1 = s\<lparr>scroll_back := n\<rparr>"
  have s1: "(if d < 0 then let amount = nat (- d) in
        s\<lparr>scroll_back := (if scroll_back s + amount > max_back s then max_back s else scroll_back s + amount)\<rparr>
      else if d > 0 then let amount = nat d in
        s\<lparr>scroll_back := (if amount \<ge> scroll_back s then 0 else scroll_back s - amount)\<rparr> else s) = s1"
    by (simp add: s1_def n_def Let_def)
  have row: "saved_bar_valid s1 \<Longrightarrow> saved_bar_row s1 < 204" using inv by (auto simp: s1_def)
  obtain cs where cs: "scrollback_restore s1 = Inr (s1\<lparr>cells := cs, saved_bar_valid := False\<rparr>)" "wide (s1\<lparr>cells := cs\<rparr>)"
    "hist (s1\<lparr>cells := cs, saved_bar_valid := False\<rparr>) = hist s1"
    using restore_spec [of s1, OF _ row] inv by (auto simp: s1_def wide_def)
  define s2 where "s2 = s1\<lparr>cells := cs, saved_bar_valid := False\<rparr>"
  have h1: "hist s1 = hist s" by (rule hist_cong) (simp_all add: s1_def)
  have w2: "wide s2" using cs(2) by (simp add: wide_def s2_def)
  have f2: "vga_view_top s2 = vga_view_top s" "scroll_back s2 = n" "terminal_row s2 = terminal_row s" "terminal_column s2 = terminal_column s"
    "length (saved_bar s2) = 80" "\<not> saved_bar_valid s2" "hist s2 = hist s" "max_back s2 = max_back s"
    using inv cs(3) h1 by (simp_all add: s2_def s1_def max_back_def)
  let ?r = "vga_view_top s - n + 24"
  have "\<exists>s3. (if scroll_back s2 > 0 then scrollback_save_and_draw (vga_view_top s2 - scroll_back s2 + 24) s2 else statusbar_draw s2) = Inr s3 \<and>
      hist s3 = hist s \<and> wide s3 \<and> length (saved_bar s3) = 80 \<and> vga_view_top s3 = vga_view_top s \<and> scroll_back s3 = n \<and>
      terminal_row s3 = terminal_row s \<and> terminal_column s3 = terminal_column s \<and> (saved_bar_valid s3 \<longleftrightarrow> 0 < n) \<and>
      (saved_bar_valid s3 \<longrightarrow> saved_bar_row s3 = ?r)"
  proof (cases "n > 0")
    case True
    have r: "?r < 204" and v2: "vga_view_top s2 \<le> 179" using inv f2(1) by auto
    obtain s3 where s3: "scrollback_save_and_draw ?r s2 = Inr s3" "hist s3 = hist s2"
      "row_only ?r (s2\<lparr>saved_bar := map (cell s2 ?r) [0..<80], saved_bar_row := ?r, saved_bar_valid := True\<rparr>) s3"
      using save_and_draw_spec [OF w2 r f2(5,6) v2] by blast
    have "wide s3" using row_only_wide [OF _ s3(3)] w2 by (simp add: wide_def)
    then show ?thesis using True s3 row_only_fields [OF s3(3)] f2 by auto
  next
    case False
    obtain s3 where s3: "statusbar_draw s2 = Inr s3" "row_only (vga_view_top s2 + 24) s2 s3"
      using statusbar_draw_row [OF w2] f2 inv by auto
    have "wide s3" using row_only_wide [OF w2 s3(2)] .
    then show ?thesis using False s3 row_only_fields [OF s3(2)] f2 hist_row_only [OF s3(2) w2] inv by auto
  qed
  then obtain s3 where s3: "(if scroll_back s2 > 0 then scrollback_save_and_draw (vga_view_top s2 - scroll_back s2 + 24) s2 else statusbar_draw s2) = Inr s3"
    "hist s3 = hist s" "wide s3" "length (saved_bar s3) = 80" "vga_view_top s3 = vga_view_top s" "scroll_back s3 = n"
    "terminal_row s3 = terminal_row s" "terminal_column s3 = terminal_column s" "saved_bar_valid s3 \<longleftrightarrow> 0 < n"
    "saved_bar_valid s3 \<longrightarrow> saved_bar_row s3 = ?r" by (elim exE conjE) (rule that)
  let ?s' = "terminal_update_cursor (vga_set_start (vga_view_top s3 - scroll_back s3) s3)"
  have "terminal_scroll_lines d s = Inr ?s'"
    unfolding terminal_scroll_lines_def s1 by (simp only: Let_def cs(1) bnd_simps s2_def [symmetric] s3(1))
  moreover have "max_back ?s' = max_back s" using s3(5) by (simp add: max_back_def)
  then have "vga_inv ?s'" using s3(2-10) inv nb by (simp add: vga_inv_def wide_def)
  moreover have "view ?s' = view s" using s3 by (simp add: view_def)
  ultimately show ?thesis using n s3(6) by auto
qed

lemma scroll_reset_spec:
  assumes "vga_inv s"
  shows "\<exists>s'. terminal_scroll_reset s = Inr s' \<and> vga_inv s' \<and> view s' = view s \<and> scroll_back s' = 0"
proof (cases "scroll_back s > 0")
  case True
  note inv = assms [unfolded vga_inv_def]
  have row: "saved_bar_valid s \<Longrightarrow> saved_bar_row s < 204" using inv by auto
  obtain cs where cs: "scrollback_restore s = Inr (s\<lparr>cells := cs, saved_bar_valid := False\<rparr>)" "wide (s\<lparr>cells := cs\<rparr>)"
    "hist (s\<lparr>cells := cs, saved_bar_valid := False\<rparr>) = hist s"
    using restore_spec [of s, OF _ row] inv by auto
  define s2 where "s2 = s\<lparr>cells := cs, saved_bar_valid := False, scroll_back := 0\<rparr>"
  have w2: "wide s2" using cs(2) by (simp add: wide_def s2_def)
  have h2: "hist s2 = hist s" using cs(3) by (simp add: s2_def hist_def text_row_def cell_def)
  obtain s3 where s3: "statusbar_draw s2 = Inr s3" "row_only (vga_view_top s2 + 24) s2 s3"
    using statusbar_draw_row [OF w2] inv by (auto simp: s2_def)
  note f = row_only_fields [OF s3(2)]
  let ?s' = "terminal_update_cursor (vga_set_start (vga_view_top s3) s3)"
  have "hist s3 = hist s" using hist_row_only [OF s3(2) w2] h2 inv by (simp add: s2_def)
  then have "view ?s' = view s" using f by (simp add: view_def s2_def)
  moreover have "vga_inv ?s'" using f inv row_only_wide [OF w2 s3(2)] by (simp add: vga_inv_def s2_def wide_def max_back_def)
  moreover have "terminal_scroll_reset s = Inr ?s'" using True cs(1) s3(1) by (simp add: terminal_scroll_reset_def s2_def)
  ultimately show ?thesis using f by (simp add: s2_def)
qed (use assms in \<open>simp add: terminal_scroll_reset_def\<close>)

section \<open>Properties\<close>

text \<open>
  C19. Writing a string to the terminal types it on the abstract screen: the call returns, every cell it
  touches lies in video memory, and the lines of text with the cursor are those that typing the
  characters one by one gives, newline, carriage return, backspace, line wrap, scrolling and the
  recycling of the history included. The abstract screen is a bounded one: it holds at most 203 lines,
  and the line that would be the next drops the oldest 25. The terminal shows its live view when the
  writing starts, it is not scrolled back (the keyboard handler resets the view before it passes on a
  key; text written while scrolled back is not covered).
\<close>

theorem terminal_writestring_refines:
  assumes "vga_inv s" and "scroll_back s = 0"
  shows "\<exists>s'. terminal_writestring str s = Inr s' \<and> vga_inv s' \<and> scroll_back s' = 0 \<and>
    view s' = fold (type_char (terminal_color s)) (takeWhile (\<lambda>c. c \<noteq> CHR 0x00) str) (view s)"
proof -
  have "\<exists>s'. terminal_write cs s = Inr s' \<and> vga_inv s' \<and> scroll_back s' = 0 \<and> terminal_color s' = terminal_color s \<and>
    view s' = fold (type_char (terminal_color s)) cs (view s)" for cs
    unfolding terminal_write_def using assms
  proof (induction cs arbitrary: s)
    case (Cons c cs)
    obtain s1 where s1: "terminal_putchar c s = Inr s1" "vga_inv s1" "scroll_back s1 = 0" "terminal_color s1 = terminal_color s"
      "view s1 = type_char (terminal_color s) c (view s)" using terminal_putchar_spec [OF Cons.prems] by blast
    then show ?case using Cons.IH [OF s1(2,3)] by simp
  qed simp
  then show ?thesis by (auto simp: terminal_writestring_def)
qed

lemma terminal_clear_spec:
  assumes "wide s" and "length (saved_bar s) = 80"
  shows "\<exists>s'. terminal_clear s = Inr s' \<and> vga_inv s' \<and> scroll_back s' = 0 \<and> terminal_color s' = 7 \<and>
    view s' = (replicate 24 (replicate 80 (vga_entry 0x20 7)), 0, 0)"
proof -
  define s1 where "s1 = s\<lparr>terminal_row := 0, terminal_column := 0, vga_view_top := 0, scroll_back := 0, saved_bar_valid := False,
    terminal_color := vga_entry_color 7 0\<rparr>"
  have col: "vga_entry_color 7 0 = 7" by (simp add: vga_entry_color_def)
  let ?P = "\<lambda>n s'. (\<exists>cs. s' = s1\<lparr>cells := cs\<rparr>) \<and> wide s' \<and> (\<forall>r<n. \<forall>c<80. cell s' r c = vga_entry 0x20 7)"
  have "\<exists>s'. for_each (\<lambda>y. for_each (\<lambda>x. put_cell (y * 80 + x) (vga_entry 0x20 (terminal_color s1))) [0..<80]) [0..<24] s1 = Inr s' \<and> ?P 24 s'"
  proof (rule for_each_invariant)
    have "s1 = s1\<lparr>cells := cells s1\<rparr>" by simp
    then have "\<exists>cs. s1 = s1\<lparr>cells := cs\<rparr>" by blast
    moreover have "wide s1" using assms(1) by (simp add: s1_def wide_def)
    ultimately show "?P 0 s1" by simp
  next
    fix n s' assume n: "n < 24" and P: "?P n s'"
    let ?s = "set_row n (\<lambda>_. vga_entry 0x20 7) s'"
    obtain cs where "s' = s1\<lparr>cells := cs\<rparr>" using P by blast
    then have "\<exists>ds. ?s = s1\<lparr>cells := ds\<rparr>" unfolding set_row_def by (simp only: cells_twice) blast
    moreover have "for_each (\<lambda>x. put_cell (n * 80 + x) (vga_entry 0x20 (terminal_color s1))) [0..<80] s' = Inr ?s"
      using P n col by (intro set_row_loop) (auto simp: s1_def)
    ultimately show "\<exists>s''. for_each (\<lambda>x. put_cell (n * 80 + x) (vga_entry 0x20 (terminal_color s1))) [0..<80] s' = Inr s'' \<and> ?P (Suc n) s''"
      using P n by (auto simp: cell_set_row less_Suc_eq)
  qed simp
  then obtain cs where cs: "for_each (\<lambda>y. for_each (\<lambda>x. put_cell (y * 80 + x) (vga_entry 0x20 (terminal_color s1))) [0..<80]) [0..<24] s1 = Inr (s1\<lparr>cells := cs\<rparr>)"
    "wide (s1\<lparr>cells := cs\<rparr>)" "\<forall>r<24. \<forall>c<80. cell (s1\<lparr>cells := cs\<rparr>) r c = vga_entry 0x20 7" by blast
  define s2 where "s2 = vga_set_start 0 (s1\<lparr>cells := cs\<rparr>)"
  have f2: "vga_view_top s2 = 0" "terminal_row s2 = 0" "terminal_column s2 = 0" "scroll_back s2 = 0" "\<not> saved_bar_valid s2"
    "terminal_color s2 = 7" "length (saved_bar s2) = 80" "wide s2" "shows_row s2 0"
    using cs(2) assms(2) col by (simp_all add: s2_def s1_def wide_def)
  have inv2: "vga_inv s2" using f2 by (simp add: vga_inv_def max_back_def)
  have c2: "\<forall>r<24. \<forall>c<80. cell s2 r c = vga_entry 0x20 7" using cs(3) by (simp add: s2_def cell_def)
  have h2: "hist s2 = replicate 24 (replicate 80 (vga_entry 0x20 7))"
    using f2 c2 by (intro nth_equalityI) (auto simp: hist_def text_row_def map_replicate_const intro!: nth_equalityI)
  obtain s3 where s3: "statusbar_draw s2 = Inr s3" "row_only (vga_view_top s2 + 24) s2 s3"
    using statusbar_draw_row [OF f2(8)] f2 by auto
  have "terminal_clear s = Inr (terminal_update_cursor s3)"
    unfolding terminal_clear_def s1_def [symmetric] Let_def cs(1) using s3(1) by (simp add: s2_def)
  then show ?thesis using inv_row_only [OF s3(2) inv2] hist_row_only [OF s3(2) f2(8)] h2 row_only_fields [OF s3(2)] f2
    by (simp add: view_def)
qed

definition demo_vga :: vga where
  "demo_vga = \<lparr>terminal_row = 0, terminal_column = 0, terminal_color = 7, statusbar_color = 0x4F, vga_view_top = 0,
     scroll_back = 0, saved_bar = replicate 80 0, saved_bar_row = 0, saved_bar_valid = False,
     cells = replicate 16384 0, crtc = (\<lambda>_. 0)\<rparr>"

lemma demo_vga:
  "vga_inv demo_vga" "scroll_back demo_vga = 0" "terminal_color demo_vga = 7"
  "view demo_vga = (replicate 24 (replicate 80 0), 0, 0)"
proof -
  show "vga_inv demo_vga" by (simp add: demo_vga_def vga_inv_def wide_def max_back_def shows_row_def)
  have "text_row demo_vga r = replicate 80 0" if "r < 24" for r
    using that by (intro nth_equalityI) (simp_all add: text_row_def cell_def demo_vga_def)
  then have "hist demo_vga = replicate 24 (replicate 80 0)"
    by (intro nth_equalityI) (simp_all add: hist_def, simp_all add: demo_vga_def)
  then show "view demo_vga = (replicate 24 (replicate 80 0), 0, 0)" by (simp add: view_def) (simp add: demo_vga_def)
qed (simp_all add: demo_vga_def)

theorem terminal_writestring_refines_witness:
  "\<exists>s'. terminal_writestring ''A'' demo_vga = Inr s' \<and>
    view s' = ((replicate 24 (replicate 80 0))[0 := (replicate 80 0)[0 := vga_entry 0x41 7]], 0, 1)"
  using terminal_writestring_refines [OF demo_vga(1,2), of "''A''"]
  by (auto simp: demo_vga(3,4) type_char_def)

text \<open>
  C34. Looking back through the text is harmless: any sequence of scroll requests returns, keeps within
  the lines there are, shows the row it should, and after \<open>terminal_scroll_reset\<close> the text, the
  cursor and the live view are as they were, the row that the scroll bar covered included.
\<close>

theorem scrollback_restores_text:
  assumes "vga_inv s"
  shows "\<exists>s1 s2. for_each terminal_scroll_lines ds s = Inr s1 \<and> vga_inv s1 \<and>
    shows_row s1 (vga_view_top s1 - scroll_back s1) \<and>
    int (scroll_back s1) = fold (\<lambda>d n. max 0 (min (int (max_back s)) (n - d))) ds (int (scroll_back s)) \<and>
    terminal_scroll_reset s1 = Inr s2 \<and> vga_inv s2 \<and> scroll_back s2 = 0 \<and> view s2 = view s"
proof -
  have "\<exists>s1. for_each terminal_scroll_lines ds s = Inr s1 \<and> vga_inv s1 \<and> view s1 = view s \<and>
    int (scroll_back s1) = fold (\<lambda>d n. max 0 (min (int (max_back s)) (n - d))) ds (int (scroll_back s))"
    using assms
  proof (induction ds arbitrary: s)
    case (Cons d ds)
    obtain s1 where s1: "terminal_scroll_lines d s = Inr s1" "vga_inv s1" "view s1 = view s"
      "int (scroll_back s1) = max 0 (min (int (max_back s)) (int (scroll_back s) - d))"
      using scroll_lines_spec [OF Cons.prems] by blast
    have "length (hist s1) = length (hist s)" using s1(3) by (simp add: view_def del: length_hist)
    then have "max_back s1 = max_back s" by (simp add: max_back_def)
    then show ?case using Cons.IH [OF s1(2)] s1 by simp
  qed simp
  then obtain s1 where s1: "for_each terminal_scroll_lines ds s = Inr s1" "vga_inv s1" "view s1 = view s"
    "int (scroll_back s1) = fold (\<lambda>d n. max 0 (min (int (max_back s)) (n - d))) ds (int (scroll_back s))" by blast
  then show ?thesis using scroll_reset_spec [OF s1(2)] by (auto simp: vga_inv_def)
qed

theorem scrollback_restores_text_witness:
  "\<exists>s1 s2. for_each terminal_scroll_lines [- 1, - 24, 1] demo_vga = Inr s1 \<and> terminal_scroll_reset s1 = Inr s2 \<and> view s2 = view demo_vga"
  using scrollback_restores_text [OF demo_vga(1), of "[- 1, - 24, 1]"] by auto

end
