(* ===== verification/Vga_Screen.thy ===== *)
theory Vga_Screen
  imports Vga_Spec
begin

text \<open>
  Drawing straight into the first 25 rows of video memory, as the panic screen and the process monitor
  do: a relation between the states before and after that drawing routines establish by composition.
\<close>

definition on_screen :: "vga \<Rightarrow> vga \<Rightarrow> bool" where
  "on_screen s s' \<longleftrightarrow> (\<exists>cs cr. s' = s\<lparr>cells := cs, crtc := cr\<rparr> \<and> length cs = length (cells s) \<and>
     (\<forall>i\<ge>2000. cs ! i = cells s ! i) \<and> cr 0x0C = crtc s 0x0C \<and> cr 0x0D = crtc s 0x0D)"

lemma on_screen_refl: "on_screen s s"
  unfolding on_screen_def by (rule exI [of _ "cells s"], rule exI [of _ "crtc s"]) simp

lemma on_screen_trans: "on_screen a b \<Longrightarrow> on_screen b c \<Longrightarrow> on_screen a c"
  unfolding on_screen_def by (elim exE conjE) (simp, metis)

lemma on_screenD:
  assumes "on_screen s s'"
  shows "length (cells s') = length (cells s)" "i \<ge> 2000 \<Longrightarrow> cells s' ! i = cells s ! i"
    "shows_row s' r \<longleftrightarrow> shows_row s r" "wide s' \<longleftrightarrow> wide s"
    "terminal_row s' = terminal_row s" "terminal_column s' = terminal_column s" "terminal_color s' = terminal_color s"
    "vga_view_top s' = vga_view_top s" "scroll_back s' = scroll_back s"
  using assms by (auto simp: on_screen_def shows_row_def wide_def Let_def)

text \<open>A routine that returns and only drew on the screen, with a result next to the state or without.\<close>

definition drawn :: "vga \<Rightarrow> vga res \<Rightarrow> bool" where
  "drawn s r \<longleftrightarrow> (\<exists>s'. r = Inr s' \<and> on_screen s s')"

definition drawn_to :: "nat \<Rightarrow> vga \<Rightarrow> (nat \<times> vga) res \<Rightarrow> bool" where
  "drawn_to m s r \<longleftrightarrow> (\<exists>x s'. r = Inr (x, s') \<and> x \<le> m \<and> on_screen s s')"

lemma drawn_Inr [intro]: "drawn s (Inr s)"
  by (auto simp: drawn_def on_screen_refl)

lemma drawn_bnd [intro]: "drawn s r \<Longrightarrow> (\<And>s'. drawn s' (f s')) \<Longrightarrow> drawn s (bnd r f)"
  unfolding drawn_def using on_screen_trans by (metis bnd_simps(2))

lemma drawn_to_bnd [intro]: "drawn_to m s r \<Longrightarrow> (\<And>x s'. x \<le> m \<Longrightarrow> drawn s' (f (x, s'))) \<Longrightarrow> drawn s (bnd r f)"
  unfolding drawn_to_def drawn_def using on_screen_trans by (metis bnd_simps(2))

lemma drawn_to_bnd2 [intro]:
  "drawn_to m s r \<Longrightarrow> (\<And>x s'. x \<le> m \<Longrightarrow> drawn_to n s' (f (x, s'))) \<Longrightarrow> drawn_to n s (bnd r f)"
  unfolding drawn_to_def using on_screen_trans by (metis bnd_simps(2))

lemma drawn_for_each [intro]:
  assumes "\<And>i s. i \<in> set xs \<Longrightarrow> drawn s (f i s)"
  shows "drawn s (for_each f xs s)"
  using assms
proof (induction xs arbitrary: s)
  case (Cons x xs)
  have "drawn s (bnd (f x s) (for_each f xs))"
    by (rule drawn_bnd) (use Cons in auto)
  then show ?case by simp
qed auto

lemma drawn_put_cell [intro]: "i < 2000 \<Longrightarrow> drawn s (put_cell i v s)"
  unfolding drawn_def put_cell_def on_screen_def
  by (rule exI [of _ "s\<lparr>cells := (cells s)[i := v]\<rparr>"], simp)
    (rule exI [of _ "(cells s)[i := v]"], rule exI [of _ "crtc s"], simp)

lemma drawn_put [intro]: "y < 25 \<Longrightarrow> x < 80 \<Longrightarrow> drawn s (terminal_putentryat c color x y s)"
  unfolding terminal_putentryat_def by (rule drawn_put_cell) simp

lemma on_screen_crtc: "r \<noteq> 0x0C \<Longrightarrow> r \<noteq> 0x0D \<Longrightarrow> on_screen s (crtc_out r v s)"
  unfolding on_screen_def crtc_out_def by (rule exI [of _ "cells s"], rule exI [of _ "(crtc s)(r := v)"]) simp

end
