(* ===== verification/Kpanic.thy ===== *)
theory Kpanic
  imports Vga_Screen
begin

text \<open>
  The panic screen, \<open>src/src/klib/kpanic.c\<close>, on the state of the terminal: \<open>kpanic\<close> writes to the first
  25 rows of video memory and then halts, so the state it leaves is the last one. Elsewhere in the
  development a panic is the error value \<open>Kpanic msg\<close>; this theory says what the user sees of it.
\<close>

section \<open>Model\<close>

abbreviation (input) VGA_PANIC_COLS :: nat where "VGA_PANIC_COLS \<equiv> 80"
abbreviation (input) VGA_PANIC_ROWS :: nat where "VGA_PANIC_ROWS \<equiv> 25"
abbreviation (input) VGA_PANIC_COLOR :: u8 where "VGA_PANIC_COLOR \<equiv> 0x4F"

definition panic_clear_screen :: "vga \<Rightarrow> vga res" where
  "panic_clear_screen s =
     for_each (\<lambda>i. put_cell i (0x20 OR push_bit 8 (ucast VGA_PANIC_COLOR))) [0..<VGA_PANIC_COLS * VGA_PANIC_ROWS] s"

text \<open>A character is signed, so one above 127 extends its sign into the attribute byte.\<close>

definition panic_cell :: "char \<Rightarrow> u16" where
  "panic_cell c = scast (of_char c :: u8) OR push_bit 8 (ucast VGA_PANIC_COLOR)"

definition panic_print :: "nat \<Rightarrow> string \<Rightarrow> vga \<Rightarrow> vga res" where
  "panic_print pos str s =
     for_each (\<lambda>(p, c). put_cell p (panic_cell c))
       (zip [pos..<VGA_PANIC_COLS * VGA_PANIC_ROWS] (takeWhile (\<lambda>c. c \<noteq> CHR 0x00) str)) s"

definition panic_disable_cursor :: "vga \<Rightarrow> vga" where
  "panic_disable_cursor s = crtc_out 0x0A 0x20 s"

definition kpanic :: "string \<Rightarrow> vga \<Rightarrow> vga res" where
  "kpanic msg s =
     bnd (panic_clear_screen (panic_disable_cursor s)) (\<lambda>s.
     bnd (panic_print 0 ''KERNEL PANIC: '' s) (\<lambda>s.
     bnd (panic_print 14 msg s) (\<lambda>s.
     panic_print VGA_PANIC_COLS ''system halted.'' s)))"

section \<open>What the panic leaves\<close>

lemma panic_clear_drawn: "drawn s (panic_clear_screen s)"
  unfolding panic_clear_screen_def by (intro drawn_for_each drawn_put_cell) simp

lemma panic_print_drawn: "drawn s (panic_print pos str s)"
  unfolding panic_print_def by (rule drawn_for_each) (auto dest!: set_zip_leftD)

lemma kpanic_drawn: "\<exists>s'. kpanic msg s = Inr s' \<and> on_screen s s'"
proof -
  have "drawn (panic_disable_cursor s) (kpanic msg s)"
    unfolding kpanic_def by (intro drawn_bnd panic_clear_drawn panic_print_drawn)
  then obtain s' where "kpanic msg s = Inr s'" "on_screen (panic_disable_cursor s) s'" by (auto simp: drawn_def)
  moreover have "on_screen s (panic_disable_cursor s)" unfolding panic_disable_cursor_def by (rule on_screen_crtc) simp_all
  ultimately show ?thesis using on_screen_trans by blast
qed

text \<open>What one print leaves in the cells: the text from its position on, the rest as it was.\<close>

lemma panic_print_cells:
  assumes "wide s" and "CHR 0x00 \<notin> set str" and "pos + length str \<le> 2000" and "panic_print pos str s = Inr s'"
  shows "wide s' \<and> (\<forall>i<2000. cells s' ! i = (if pos \<le> i \<and> i < pos + length str then panic_cell (str ! (i - pos)) else cells s ! i))"
proof -
  have tw: "takeWhile (\<lambda>c. c \<noteq> CHR 0x00) str = str" using assms(2) by (auto simp: takeWhile_eq_all_conv)
  have "\<exists>s'. for_each (\<lambda>(p, c). put_cell p (panic_cell c)) (zip [pos..<2000] str) s = Inr s' \<and> wide s' \<and>
      (\<forall>i<2000. cells s' ! i = (if pos \<le> i \<and> i < pos + length str then panic_cell (str ! (i - pos)) else cells s ! i))"
    using assms(1,3)
  proof (induction str arbitrary: pos s)
    case (Cons c str)
    let ?s = "s\<lparr>cells := (cells s)[pos := panic_cell c]\<rparr>"
    have p: "pos < 2000" using Cons.prems(2) by simp
    have w: "wide ?s" using Cons.prems(1) by (simp add: wide_def)
    obtain s' where s': "for_each (\<lambda>(p, c). put_cell p (panic_cell c)) (zip [Suc pos..<2000] str) ?s = Inr s'" "wide s'"
      "\<forall>i<2000. cells s' ! i = (if Suc pos \<le> i \<and> i < Suc pos + length str then panic_cell (str ! (i - Suc pos)) else cells ?s ! i)"
      using Cons.IH [OF w, of "Suc pos"] Cons.prems(2) by auto
    have "for_each (\<lambda>(p, c). put_cell p (panic_cell c)) (zip [pos..<2000] (c # str)) s = Inr s'"
      using p s'(1) by (simp add: upt_conv_Cons put_cell_def)
    moreover have "cells s' ! i = (if pos \<le> i \<and> i < pos + length (c # str) then panic_cell ((c # str) ! (i - pos)) else cells s ! i)"
      if "i < 2000" for i
      using s'(3) that p Cons.prems(1) by (cases "i = pos") (auto simp: wide_def nth_Cons' le_Suc_eq)
    ultimately show ?case using s'(2) by blast
  qed auto
  then show ?thesis using assms(4) tw by (auto simp: panic_print_def)
qed

section \<open>Properties\<close>

text \<open>The message, when it fits its line: the first row of video memory reads it after the prefix.\<close>

lemma kpanic_first_row:
  assumes "wide s" and "CHR 0x00 \<notin> set msg" and "length msg \<le> 66"
  shows "\<exists>s'. kpanic msg s = Inr s' \<and>
    (\<forall>i<14 + length msg. cell s' 0 i = panic_cell ((''KERNEL PANIC: '' @ msg) ! i))"
proof -
  let ?s0 = "panic_disable_cursor s" and ?h = "''KERNEL PANIC: ''" and ?t = "''system halted.''"
  have w0: "wide ?s0" using assms(1) by (simp add: panic_disable_cursor_def crtc_out_def wide_def)
  obtain s1 where s1: "panic_clear_screen ?s0 = Inr s1" "wide s1"
    using panic_clear_drawn [of ?s0] on_screenD(4) w0 by (auto simp: drawn_def)
  obtain s2 where s2: "panic_print 0 ?h s1 = Inr s2" using panic_print_drawn [of s1 0 ?h] by (auto simp: drawn_def)
  obtain s3 where s3: "panic_print 14 msg s2 = Inr s3" using panic_print_drawn [of s2 14 msg] by (auto simp: drawn_def)
  obtain s4 where s4: "panic_print 80 ?t s3 = Inr s4" using panic_print_drawn [of s3 80 ?t] by (auto simp: drawn_def)
  have c2: "wide s2 \<and> (\<forall>i<2000. cells s2 ! i = (if 0 \<le> i \<and> i < 0 + length ?h then panic_cell (?h ! (i - 0)) else cells s1 ! i))"
    by (rule panic_print_cells [OF s1(2) _ _ s2]) simp_all
  have c3: "wide s3 \<and> (\<forall>i<2000. cells s3 ! i = (if 14 \<le> i \<and> i < 14 + length msg then panic_cell (msg ! (i - 14)) else cells s2 ! i))"
    by (rule panic_print_cells [OF _ assms(2) _ s3]) (use c2 assms(3) in simp_all)
  have c4: "wide s4 \<and> (\<forall>i<2000. cells s4 ! i = (if 80 \<le> i \<and> i < 80 + length ?t then panic_cell (?t ! (i - 80)) else cells s3 ! i))"
    by (rule panic_print_cells [OF _ _ _ s4]) (use c3 in simp_all)
  have hl: "length ?h = 14" by simp
  have "cell s4 0 i = panic_cell ((?h @ msg) ! i)" if i: "i < 14 + length msg" for i
  proof -
    have lt: "i < 2000" "i < 80" using i assms(3) by simp_all
    have "cells s4 ! i = cells s3 ! i" using c4 lt by simp
    also have "\<dots> = panic_cell ((?h @ msg) ! i)"
      using c2 c3 lt i unfolding nth_append hl by (cases "i < 14") (auto simp del: nth_Cons_numeral)
    finally show ?thesis by (simp add: cell_def)
  qed
  moreover have "kpanic msg s = Inr s4" using s1(1) s2 s3 s4 by (simp add: kpanic_def)
  ultimately show ?thesis by blast
qed

text \<open>
  C40. Once 25 lines have scrolled off, a kernel panic is invisible: \<open>kpanic\<close> writes its message to the
  first rows of video memory but leaves the start address of the CRTC, so each of the 25 rows on the
  display keeps what it showed before.
\<close>

theorem kpanic_hidden_after_scrolling:
  assumes "vga_inv s" and "25 \<le> vga_view_top s - scroll_back s"
  shows "\<exists>s'. kpanic msg s = Inr s' \<and> shows_row s' (vga_view_top s - scroll_back s) \<and>
    (\<forall>r<25. \<forall>c<80. cell s' (vga_view_top s - scroll_back s + r) c = cell s (vga_view_top s - scroll_back s + r) c)"
proof -
  let ?top = "vga_view_top s - scroll_back s"
  obtain s' where s': "kpanic msg s = Inr s'" "on_screen s s'" using kpanic_drawn by blast
  have "shows_row s' ?top" using assms(1) on_screenD(3) [OF s'(2)] by (simp add: vga_inv_def)
  moreover have "cell s' (?top + r) c = cell s (?top + r) c" for r c
  proof -
    have "25 * 80 \<le> (?top + r) * 80" using assms(2) by (intro mult_le_mono1) simp
    then show ?thesis using on_screenD(2) [OF s'(2), of "(?top + r) * 80 + c"] by (simp add: cell_def)
  qed
  ultimately show ?thesis using s'(1) by blast
qed

definition scrolled_vga :: vga where
  "scrolled_vga = vga_set_start 30 (demo_vga\<lparr>vga_view_top := 30, terminal_row := 30\<rparr>)"

theorem kpanic_hidden_after_scrolling_witness:
  "\<exists>s'. kpanic ''page fault'' scrolled_vga = Inr s' \<and> shows_row s' 30 \<and> cell s' 31 5 = cell scrolled_vga 31 5"
proof -
  have d: "wide demo_vga" "length (saved_bar demo_vga) = 80" "terminal_column demo_vga < 80" "scroll_back demo_vga = 0"
    "\<not> saved_bar_valid demo_vga" using demo_vga(1,2) by (simp_all add: vga_inv_def)
  have "vga_inv scrolled_vga"
    using d by (simp add: scrolled_vga_def vga_inv_def wide_def vga_set_start_def crtc_out_def shows_row_def Let_def)
  moreover have top: "vga_view_top scrolled_vga - scroll_back scrolled_vga = 30"
    using d by (simp add: scrolled_vga_def vga_set_start_def crtc_out_def Let_def)
  ultimately obtain s' where "kpanic ''page fault'' scrolled_vga = Inr s'" "shows_row s' 30"
      "\<forall>r<25. \<forall>c<80. cell s' (30 + r) c = cell scrolled_vga (30 + r) c"
    using kpanic_hidden_after_scrolling [of scrolled_vga "''page fault''"] by auto
  moreover from this(3) [rule_format, of 1 5] have "cell s' 31 5 = cell scrolled_vga 31 5" by simp
  ultimately show ?thesis by auto
qed

end
