(* ===== verification/Eyeproc.thy ===== *)
theory Eyeproc
  imports Task_Life Vga_Screen
begin

text \<open>
  The process monitor of \<open>src/src/kernel.c\<close>: a grid of four by three cells of 20 by 7 characters with one
  process each, two status rows, and the key loop. Grid positions and counts are natural numbers far
  below the width of \<open>int\<close>. The keyboard controller is polled, so the loop is a function of the sequence
  of scan codes it reads; a sequence that ends before the loop does leaves it waiting, \<open>Diverge\<close>.
\<close>

section \<open>Text\<close>

definition ep_put :: "nat \<Rightarrow> nat \<Rightarrow> char \<Rightarrow> u8 \<Rightarrow> vga \<Rightarrow> vga res" where
  "ep_put x y c color s = terminal_putentryat c color x y s"

definition ep_puts :: "nat \<Rightarrow> nat \<Rightarrow> string \<Rightarrow> u8 \<Rightarrow> nat \<Rightarrow> vga \<Rightarrow> vga res" where
  "ep_puts x y str color width s =
     (let n = min (length str) width in
      bnd (for_each (\<lambda>i. terminal_putentryat (str ! i) color (x + i) y) [0..<n] s) (\<lambda>s.
      for_each (\<lambda>i. terminal_putentryat (CHR '' '') color (x + i) y) [n..<width] s))"

text \<open>The digits of \<open>v\<close>, least significant first, into a local array with \<open>room\<close> places left.\<close>

primrec ep_digits :: "nat \<Rightarrow> u32 \<Rightarrow> string res" where
  "ep_digits 0 v = (if v = 0 then Inr '''' else Inl (OutOfBounds v))"
| "ep_digits (Suc room) v =
     (if v = 0 then Inr '''' else bnd (ep_digits room (v div 10)) (\<lambda>ds. Inr (char_of (48 + unat (v mod 10)) # ds)))"

definition ep_fmt_uint :: "u32 \<Rightarrow> string res" where
  "ep_fmt_uint v = (if v = 0 then Inr ''0'' else bnd (ep_digits 10 v) (\<lambda>ds. Inr (rev ds)))"

primrec hex_tail :: "nat \<Rightarrow> u32 \<Rightarrow> string \<Rightarrow> string" where
  "hex_tail 0 v str = str"
| "hex_tail (Suc n) v str = hex_tail n (drop_bit 4 v) (''0123456789abcdef'' ! unat (v AND 0xF) # str)"

definition ep_fmt_hex8 :: "u32 \<Rightarrow> string" where
  "ep_fmt_hex8 v = hex_tail 8 v ''''"

definition ep_state_name :: "task_state \<Rightarrow> string" where
  "ep_state_name st =
     (case st of TASK_RUNNABLE \<Rightarrow> ''RUNNABLE'' | TASK_RUNNING \<Rightarrow> ''RUNNING '' | TASK_BLOCKED \<Rightarrow> ''BLOCKED ''
      | TASK_ZOMBIE \<Rightarrow> ''ZOMBIE  '' | TASK_STOPPED \<Rightarrow> ''STOPPED '')"

definition ep_state_color :: "task_state \<Rightarrow> u8" where
  "ep_state_color st =
     (case st of TASK_RUNNABLE \<Rightarrow> vga_entry_color 11 0 | TASK_RUNNING \<Rightarrow> vga_entry_color 10 0
      | TASK_BLOCKED \<Rightarrow> vga_entry_color 12 0 | TASK_ZOMBIE \<Rightarrow> vga_entry_color 8 0
      | TASK_STOPPED \<Rightarrow> vga_entry_color 14 0)"

section \<open>One cell\<close>

definition cell_edge :: "nat \<Rightarrow> nat \<Rightarrow> u8 \<Rightarrow> nat \<Rightarrow> vga \<Rightarrow> vga res" where
  "cell_edge x0 y0 bc edge s =
     (let ey = (if edge \<noteq> 0 then y0 + 7 - 1 else y0) in
      bnd (ep_put x0 ey (CHR ''+'') bc s) (\<lambda>s.
      bnd (for_each (\<lambda>i. ep_put (x0 + i) ey (CHR ''-'') bc) [1..<19] s) (ep_put (x0 + 20 - 1) ey (CHR ''+'') bc)))"

definition cell_side :: "nat \<Rightarrow> nat \<Rightarrow> u8 \<Rightarrow> nat \<Rightarrow> vga \<Rightarrow> vga res" where
  "cell_side x0 y0 bc dr s =
     bnd (ep_put x0 (y0 + dr) (CHR ''|'') bc s) (\<lambda>s.
     bnd (ep_puts (x0 + 1) (y0 + dr) '''' bc 18 s) (ep_put (x0 + 20 - 1) (y0 + dr) (CHR ''|'') bc))"

definition cell_stack :: "task \<Rightarrow> string \<times> u32" where
  "cell_stack t =
     (if is_userspace t then (''Stk'', stack_top (task_mm t))
      else (''kSt'', if kstack t \<noteq> 0 then kstack t + KSTACK_PAGES * PAGE_SIZE else 0))"

definition cell_text :: "nat \<Rightarrow> nat \<Rightarrow> task \<Rightarrow> vga \<Rightarrow> vga res" where
  "cell_text x0 y0 t s =
     (let txt = vga_entry_color 15 0; dim = vga_entry_color 7 0; addr = vga_entry_color 14 0 in
      bnd (ep_fmt_uint (pid t)) (\<lambda>p.
      bnd (ep_puts (x0 + 1) (y0 + 1) ((if is_userspace t then CHR ''U'' else CHR ''K'') # ''PID: '' @ p) txt 18 s) (\<lambda>s.
      bnd (ep_puts (x0 + 1) (y0 + 2) ''State: '' dim 7 s) (\<lambda>s.
      bnd (ep_puts (x0 + 8) (y0 + 2) (ep_state_name (state t)) (ep_state_color (state t)) 11 s) (\<lambda>s.
      bnd (ep_fmt_uint (uid t)) (\<lambda>u.
      bnd (ep_puts (x0 + 1) (y0 + 3) (''UID: '' @ u) dim 18 s) (\<lambda>s.
      bnd (ep_puts (x0 + 1) (y0 + 4) (''Cod: 0x'' @ ep_fmt_hex8 (code_start (task_mm t))) addr 18 s) (\<lambda>s.
      let (name, stk) = cell_stack t in
      ep_puts (x0 + 1) (y0 + 5) (name @ '': 0x'' @ ep_fmt_hex8 stk) addr 18 s))))))))"

definition ep_draw_cell :: "nat \<Rightarrow> nat \<Rightarrow> task option \<Rightarrow> vga \<Rightarrow> vga res" where
  "ep_draw_cell gc gr t s =
     (let x0 = gc * 20; y0 = gr * 7;
          bc = (if t \<noteq> None then vga_entry_color 7 0 else vga_entry_color 8 0) in
      bnd (for_each (cell_edge x0 y0 bc) [0..<2] s) (\<lambda>s.
      bnd (for_each (cell_side x0 y0 bc) [1..<6] s) (\<lambda>s.
      case t of None \<Rightarrow> Inr s | Some t \<Rightarrow> cell_text x0 y0 t s)))"

section \<open>The status rows\<close>

definition ep_bar_str :: "string \<Rightarrow> u8 \<Rightarrow> nat \<Rightarrow> nat \<Rightarrow> vga \<Rightarrow> (nat \<times> vga) res" where
  "ep_bar_str str color cx row s =
     bnd (for_each (\<lambda>i. terminal_putentryat (str ! i) color (cx + i) row) [0..<length str] s) (\<lambda>s.
     Inr (cx + length str, s))"

definition ep_bar_uint :: "u32 \<Rightarrow> u8 \<Rightarrow> nat \<Rightarrow> nat \<Rightarrow> vga \<Rightarrow> (nat \<times> vga) res" where
  "ep_bar_uint v color cx row s = bnd (ep_fmt_uint v) (\<lambda>str. ep_bar_str str color cx row s)"

definition bar_navigation :: "nat \<Rightarrow> nat \<Rightarrow> vga \<Rightarrow> vga res" where
  "bar_navigation page total_pages s =
     (let bar = vga_entry_color 0 7; hi = vga_entry_color 2 7 in
      bnd (ep_bar_str ''eyeproc'' hi 1 22 s) (\<lambda>(cx, s).
      bnd (ep_bar_str ''  |  pg '' bar cx 22 s) (\<lambda>(cx, s).
      bnd (ep_bar_uint (of_nat (page + 1)) bar cx 22 s) (\<lambda>(cx, s).
      bnd (terminal_putentryat (CHR ''/'') bar cx 22 s) (\<lambda>s.
      bnd (ep_bar_uint (of_nat total_pages) bar (cx + 1) 22 s) (\<lambda>(cx, s).
      bnd (ep_bar_str ''  |  UP prev   DOWN next   ESC quit'' bar cx 22 s) (\<lambda>(cx, s). Inr s)))))))"

definition bar_statistics :: "nat \<Rightarrow> nat \<Rightarrow> nat \<Rightarrow> nat \<Rightarrow> nat \<Rightarrow> vga \<Rightarrow> vga res" where
  "bar_statistics cnt_run cnt_runnable cnt_blocked cnt_zombie nprocs s =
     (let bar = vga_entry_color 0 7 in
      bnd (ep_bar_str ''procs: '' bar 1 23 s) (\<lambda>(cx, s).
      bnd (ep_bar_uint (of_nat nprocs) bar cx 23 s) (\<lambda>(cx, s).
      bnd (ep_bar_str ''   running: '' bar cx 23 s) (\<lambda>(cx, s).
      bnd (ep_bar_uint (of_nat cnt_run) (vga_entry_color 10 7) cx 23 s) (\<lambda>(cx, s).
      bnd (ep_bar_str ''   runnable: '' bar cx 23 s) (\<lambda>(cx, s).
      bnd (ep_bar_uint (of_nat cnt_runnable) (vga_entry_color 11 7) cx 23 s) (\<lambda>(cx, s).
      bnd (ep_bar_str ''   blocked: '' bar cx 23 s) (\<lambda>(cx, s).
      bnd (ep_bar_uint (of_nat cnt_blocked) (vga_entry_color 12 7) cx 23 s) (\<lambda>(cx, s).
      bnd (ep_bar_str ''   zombie: '' bar cx 23 s) (\<lambda>(cx, s).
      bnd (ep_bar_uint (of_nat cnt_zombie) (vga_entry_color 8 7) cx 23 s) (\<lambda>(cx, s). Inr s)))))))))))"

definition ep_draw_statusbar :: "nat \<Rightarrow> nat \<Rightarrow> nat \<Rightarrow> nat \<Rightarrow> nat \<Rightarrow> nat \<Rightarrow> nat \<Rightarrow> vga \<Rightarrow> vga res" where
  "ep_draw_statusbar page total_pages cnt_run cnt_runnable cnt_blocked cnt_zombie nprocs s =
     (let bar = vga_entry_color 0 7; blk = vga_entry_color 7 0 in
      bnd (for_each (\<lambda>x. ep_put x 21 (CHR '' '') blk) [0..<80] s) (\<lambda>s.
      bnd (for_each (\<lambda>x s. bnd (ep_put x 22 (CHR '' '') bar s) (ep_put x 23 (CHR '' '') bar)) [0..<80] s) (\<lambda>s.
      bnd (for_each (\<lambda>x. ep_put x 24 (CHR '' '') blk) [0..<80] s) (\<lambda>s.
      bnd (bar_navigation page total_pages s) (\<lambda>s.
      bnd (bar_statistics cnt_run cnt_runnable cnt_blocked cnt_zombie nprocs s) (\<lambda>s.
      Inr (terminal_set_cursor 1 22 s)))))))"

section \<open>The grid and the key loop\<close>

definition count_state :: "task_state \<Rightarrow> task list \<Rightarrow> nat" where
  "count_state st procs = length (filter (\<lambda>t. state t = st) procs)"

definition ep_render :: "nat \<Rightarrow> task list \<Rightarrow> nat \<Rightarrow> vga \<Rightarrow> vga res" where
  "ep_render page procs total_pages s =
     bnd (for_each (\<lambda>gr. for_each (\<lambda>gc.
            let idx = page * 12 + gr * 4 + gc in
            ep_draw_cell gc gr (if idx < length procs then Some (procs ! idx) else None)) [0..<4]) [0..<3] s) (\<lambda>s.
     ep_draw_statusbar page total_pages (count_state TASK_RUNNING procs) (count_state TASK_RUNNABLE procs)
       (count_state TASK_BLOCKED procs) (count_state TASK_ZOMBIE procs) (length procs) s)"

text \<open>The tasks of the list, at most as many as the local array holds.\<close>

primrec list_tasks :: "nat \<Rightarrow> kst \<Rightarrow> tptr option \<Rightarrow> tptr list" where
  "list_tasks 0 k t = []"
| "list_tasks (Suc room) k t =
     (case t of None \<Rightarrow> [] | Some p \<Rightarrow> p # list_tasks room k (task_next (tasks k p)))"

primrec ep_keys :: "task list \<Rightarrow> nat \<Rightarrow> nat \<Rightarrow> bool \<Rightarrow> u8 list \<Rightarrow> vga \<Rightarrow> (u8 list \<times> vga) res" where
  "ep_keys procs total_pages page ext [] s = Inl Diverge"
| "ep_keys procs total_pages page ext (sc # scs) s =
     (if sc = 0xE0 then ep_keys procs total_pages page True scs s
      else if ext then
        if sc AND 0x80 = 0 then
          if sc = 0x48 \<and> page > 0 then
            bnd (ep_render (page - 1) procs total_pages s) (ep_keys procs total_pages (page - 1) False scs)
          else if sc = 0x50 \<and> page < total_pages - 1 then
            bnd (ep_render (page + 1) procs total_pages s) (ep_keys procs total_pages (page + 1) False scs)
          else ep_keys procs total_pages page False scs s
        else ep_keys procs total_pages page False scs s
      else if sc AND 0x80 = 0 \<and> sc = 0x01 then Inr (scs, s)
      else ep_keys procs total_pages page False scs s)"

text \<open>
  \<open>shell_eyeproc\<close> up to the prompt it prints, which \<open>cmd_eyeproc\<close> adds; it also returns the scan codes left.
  That the C function runs with interrupts off and enables them at its end, inside the keyboard
  interrupt, is not part of the state.
\<close>

definition shell_eyeproc :: "kst \<Rightarrow> u8 list \<Rightarrow> vga \<Rightarrow> (u8 list \<times> vga) res" where
  "shell_eyeproc k scs s =
     (let procs = map (tasks k) (list_tasks (unat MAX_PROC) k (task_list_head k));
          pages = (length procs + 12 - 1) div 12;
          total_pages = (if pages < 1 then 1 else pages) in
      bnd (terminal_clear s) (\<lambda>s.
      bnd (ep_render 0 procs total_pages s) (\<lambda>s.
      bnd (ep_keys procs total_pages 0 False scs s) (\<lambda>(scs, s).
      bnd (terminal_clear s) (\<lambda>s. Inr (scs, s))))))"

end
