(* ===== verification/Eyeproc_Spec.thy ===== *)
theory Eyeproc_Spec
  imports Eyeproc Task_Tree
begin

text \<open>
  The process monitor draws inside the 25 rows of the screen, never overruns the local arrays it formats
  numbers in, and returns exactly when the escape key is pressed.
\<close>

section \<open>Formatting\<close>

lemma unat_numeral_128: "unat (128 :: u32) = 128"
  by simp

lemma ep_digits_ok: "unat v < 10 ^ n \<Longrightarrow> \<exists>ds. ep_digits n v = Inr ds \<and> length ds \<le> n"
proof (induction n arbitrary: v)
  case 0
  then show ?case by (simp add: unat_eq_zero)
next
  case (Suc n)
  have "unat (v div 10) < 10 ^ n" using Suc.prems by (simp add: unat_div less_mult_imp_div_less)
  from Suc.IH [OF this] show ?case by (auto simp: bnd_simps)
qed

lemma ep_fmt_uint_ok: "\<exists>str. ep_fmt_uint v = Inr str \<and> length str \<le> 10"
proof -
  have "unat v < 4294967296" by (rule unat_lt_u32)
  then have "unat v < 10 ^ 10" by simp
  from ep_digits_ok [OF this] show ?thesis by (auto simp: ep_fmt_uint_def)
qed

section \<open>Drawing stays on the screen\<close>

lemma drawn_at [intro]: "y * 80 + x < 2000 \<Longrightarrow> drawn s (terminal_putentryat c color x y s)"
  unfolding terminal_putentryat_def by (rule drawn_put_cell) simp

lemma ep_put_drawn [intro]: "y * 80 + x < 2000 \<Longrightarrow> drawn s (ep_put x y c color s)"
  unfolding ep_put_def by (rule drawn_at)

lemma ep_puts_drawn [intro]: "y * 80 + x + width \<le> 2000 \<Longrightarrow> drawn s (ep_puts x y str color width s)"
  unfolding ep_puts_def Let_def by (intro drawn_bnd drawn_for_each drawn_at) auto

lemma drawn_fmt_uint: "(\<And>str. length str \<le> 10 \<Longrightarrow> drawn s (f str)) \<Longrightarrow> drawn s (bnd (ep_fmt_uint v) f)"
  using ep_fmt_uint_ok [of v] by auto

lemma cell_text_drawn: "x0 \<le> 60 \<Longrightarrow> y0 \<le> 14 \<Longrightarrow> drawn s (cell_text x0 y0 t s)"
  unfolding cell_text_def Let_def
  by (intro drawn_fmt_uint drawn_bnd ep_puts_drawn) (auto split: prod.splits)

lemma cell_edge_drawn: "x0 \<le> 60 \<Longrightarrow> y0 \<le> 14 \<Longrightarrow> drawn s (cell_edge x0 y0 bc e s)"
  unfolding cell_edge_def Let_def by (intro drawn_bnd drawn_for_each ep_put_drawn) auto

lemma cell_side_drawn: "x0 \<le> 60 \<Longrightarrow> y0 \<le> 14 \<Longrightarrow> dr < 6 \<Longrightarrow> drawn s (cell_side x0 y0 bc dr s)"
  unfolding cell_side_def by (intro drawn_bnd ep_put_drawn ep_puts_drawn) auto

lemma ep_draw_cell_drawn: "gc < 4 \<Longrightarrow> gr < 3 \<Longrightarrow> drawn s (ep_draw_cell gc gr t s)"
  unfolding ep_draw_cell_def Let_def
  by (intro drawn_bnd drawn_for_each cell_edge_drawn cell_side_drawn) (auto simp: cell_text_drawn split: option.splits)

lemma ep_bar_str_drawn: "row * 80 + cx + length str \<le> 2000 \<Longrightarrow> drawn_to (cx + length str) s (ep_bar_str str color cx row s)"
proof -
  assume "row * 80 + cx + length str \<le> 2000"
  then have "drawn s (for_each (\<lambda>i. terminal_putentryat (str ! i) color (cx + i) row) [0..<length str] s)"
    by (intro drawn_for_each drawn_at) auto
  then show ?thesis by (auto simp: drawn_def drawn_to_def ep_bar_str_def)
qed

lemma ep_bar_uint_drawn: "row * 80 + cx + 10 \<le> 2000 \<Longrightarrow> drawn_to (cx + 10) s (ep_bar_uint v color cx row s)"
proof -
  assume fits: "row * 80 + cx + 10 \<le> 2000"
  obtain str where str: "ep_fmt_uint v = Inr str" "length str \<le> 10" using ep_fmt_uint_ok by blast
  have "drawn_to (cx + length str) s (ep_bar_str str color cx row s)" by (rule ep_bar_str_drawn) (use fits str in simp)
  then show ?thesis using str by (force simp: ep_bar_uint_def drawn_to_def)
qed

lemma bar_navigation_drawn: "drawn s (bar_navigation page tp s)"
  unfolding bar_navigation_def Let_def
  by (rule drawn_to_bnd drawn_bnd ep_bar_str_drawn ep_bar_uint_drawn drawn_at drawn_Inr | simp)+

lemma bar_statistics_drawn: "drawn s (bar_statistics a b c d n s)"
  unfolding bar_statistics_def Let_def
  by (rule drawn_to_bnd ep_bar_str_drawn ep_bar_uint_drawn drawn_Inr | simp)+

lemma drawn_cursor: "drawn s (Inr (terminal_set_cursor x y s))"
  unfolding drawn_def terminal_set_cursor_def Let_def
  by (intro exI conjI, rule refl, rule on_screen_trans [OF on_screen_crtc on_screen_crtc]) simp_all

lemma ep_draw_statusbar_drawn: "drawn s (ep_draw_statusbar page tp a b c d n s)"
  unfolding ep_draw_statusbar_def Let_def
  by (intro drawn_bnd drawn_for_each bar_navigation_drawn bar_statistics_drawn drawn_cursor ep_put_drawn) auto

lemma ep_render_drawn: "drawn s (ep_render page procs tp s)"
  unfolding ep_render_def Let_def
  by (intro drawn_bnd drawn_for_each ep_draw_statusbar_drawn ep_draw_cell_drawn) auto

section \<open>The key loop\<close>

text \<open>Position \<open>i\<close> of the scan codes is a press of the escape key and not the second code of a prefixed key.\<close>

definition escape_at :: "u8 list \<Rightarrow> nat \<Rightarrow> bool" where
  "escape_at scs i \<longleftrightarrow> i < length scs \<and> scs ! i = 1 \<and> (i = 0 \<or> scs ! (i - 1) \<noteq> 0xE0)"

definition escaped :: "bool \<Rightarrow> u8 list \<Rightarrow> nat \<Rightarrow> bool" where
  "escaped ext scs i \<longleftrightarrow> i < length scs \<and> scs ! i = 1 \<and> (if i = 0 then \<not> ext else scs ! (i - 1) \<noteq> 0xE0)"

lemma escaped_Cons:
  "escaped ext (sc # scs) 0 \<longleftrightarrow> sc = 1 \<and> \<not> ext"
  "escaped ext (sc # scs) (Suc i) \<longleftrightarrow> escaped (sc = 0xE0) scs i"
  by (auto simp: escaped_def nth_Cons split: nat.splits)

text \<open>What the loop does from a state: it waits for ever, or it returns with the codes after the first escape.\<close>

definition keys_done :: "bool \<Rightarrow> u8 list \<Rightarrow> vga \<Rightarrow> (u8 list \<times> vga) res \<Rightarrow> bool" where
  "keys_done ext scs s r \<longleftrightarrow>
     ((\<forall>i. \<not> escaped ext scs i) \<longrightarrow> r = Inl Diverge) \<and>
     (\<forall>i. escaped ext scs i \<and> (\<forall>j<i. \<not> escaped ext scs j) \<longrightarrow>
        (\<exists>s'. r = Inr (drop (Suc i) scs, s') \<and> on_screen s s'))"

lemma keys_done_step:
  assumes "\<not> escaped ext (sc # scs) 0" and "on_screen s s'" and "keys_done (sc = 0xE0) scs s' r"
  shows "keys_done ext (sc # scs) s r"
  unfolding keys_done_def
proof (intro conjI impI allI)
  assume "\<forall>i. \<not> escaped ext (sc # scs) i"
  then have "\<forall>i. \<not> escaped (sc = 0xE0) scs i" by (auto simp flip: escaped_Cons(2) [of ext])
  then show "r = Inl Diverge" using assms(3) by (simp add: keys_done_def)
next
  fix i assume i: "escaped ext (sc # scs) i \<and> (\<forall>j<i. \<not> escaped ext (sc # scs) j)"
  then obtain k where k: "i = Suc k" using assms(1) by (cases i) auto
  have "escaped (sc = 0xE0) scs k" "\<forall>j<k. \<not> escaped (sc = 0xE0) scs j"
    using i by (auto simp: k simp flip: escaped_Cons(2) [of ext sc])
  then obtain s2 where "r = Inr (drop (Suc k) scs, s2)" "on_screen s' s2" using assms(3) by (auto simp: keys_done_def)
  then show "\<exists>s'. r = Inr (drop (Suc i) (sc # scs), s') \<and> on_screen s s'" using on_screen_trans [OF assms(2)] k by auto
qed

lemma ep_keys_done: "keys_done ext scs s (ep_keys procs tp page ext scs s)"
proof (induction scs arbitrary: ext s page)
  case Nil
  show ?case by (simp add: keys_done_def escaped_def)
next
  case (Cons sc scs)
  show ?case
  proof (cases "escaped ext (sc # scs) 0")
    case True
    then have "ep_keys procs tp page ext (sc # scs) s = Inr (scs, s)" by (simp add: escaped_Cons)
    moreover have "i = 0" if "\<forall>j<i. \<not> escaped ext (sc # scs) j" for i using True that by (cases i) auto
    ultimately show ?thesis using True on_screen_refl unfolding keys_done_def
      by (metis drop0 drop_Suc_Cons)
  next
    case False
    have "\<exists>s' page. ep_keys procs tp page' ext (sc # scs) s = ep_keys procs tp page (sc = 0xE0) scs s' \<and> on_screen s s'" for page'
    proof -
      obtain u where u: "ep_render (page' - 1) procs tp s = Inr u" "on_screen s u"
        using ep_render_drawn unfolding drawn_def by blast
      obtain d where d: "ep_render (page' + 1) procs tp s = Inr d" "on_screen s d"
        using ep_render_drawn unfolding drawn_def by blast
      show ?thesis using False u d on_screen_refl [of s] by (auto simp: escaped_Cons)
    qed
    then show ?thesis using keys_done_step [OF False] Cons.IH by metis
  qed
qed

text \<open>Clearing the terminal writes the first 25 rows only: 24 of text and the status bar.\<close>

lemma terminal_clear_rows:
  assumes "wide s" and "terminal_clear s = Inr s'"
  shows "length (cells s') = length (cells s) \<and> (\<forall>i. 2000 \<le> i \<and> i < length (cells s) \<longrightarrow> cells s' ! i = cells s ! i)"
proof -
  define s1 where "s1 = s\<lparr>terminal_row := 0, terminal_column := 0, vga_view_top := 0, scroll_back := 0, saved_bar_valid := False,
    terminal_color := vga_entry_color 7 0\<rparr>"
  have "drawn s1 (for_each (\<lambda>y. for_each (\<lambda>x. put_cell (y * 80 + x) (vga_entry 0x20 (terminal_color s1))) [0..<80]) [0..<24] s1)"
    by (intro drawn_for_each drawn_put_cell) auto
  then obtain s2 where s2: "for_each (\<lambda>y. for_each (\<lambda>x. put_cell (y * 80 + x) (vga_entry 0x20 (terminal_color s1))) [0..<80]) [0..<24] s1 = Inr s2"
    "on_screen s1 s2" by (auto simp: drawn_def)
  let ?s = "vga_set_start 0 s2"
  have f: "wide ?s" "vga_view_top ?s = 0" "terminal_column ?s = 0" "terminal_row ?s = 0" "cells ?s = cells s2"
    using on_screenD [OF s2(2)] assms(1) by (simp_all add: s1_def wide_def)
  then obtain s3 where s3: "statusbar_draw ?s = Inr s3" "row_only 24 ?s s3" using statusbar_draw_row [of ?s] by auto
  have "s' = terminal_update_cursor s3"
    using assms(2) s3(1) unfolding terminal_clear_def s1_def [symmetric] Let_def s2(1) by simp
  then have c: "cells s' = cells s3" by (simp add: terminal_update_cursor_def Let_def crtc_out_def)
  have "length (cells s3) = length (cells s2)" "\<forall>i<length (cells s3). i div 80 \<noteq> 24 \<longrightarrow> cells s3 ! i = cells s2 ! i"
    using s3(2) f(5) by (auto simp: row_only_def)
  moreover have "i div 80 \<noteq> 24" if "2000 \<le> i" for i :: nat using that by linarith
  ultimately show ?thesis using on_screenD(1,2) [OF s2(2)] c by (auto simp: s1_def)
qed

text \<open>
  C27. The process monitor draws only on the screen, whatever the tasks, and leaves it exactly on a press
  of the escape key. Rendering any page of any tasks returns and changes none of the video memory past
  the 2000 cells of the first 25 rows, and neither does a whole run of the monitor, which shows those
  rows. When the first code 1 that does not follow a prefix 0xE0 is the \<open>i\<close>-th of the scan codes,
  \<open>shell_eyeproc\<close> returns having read the codes up to it, with the terminal blank and consistent and the
  cursor home; when there is none, it polls for ever.
\<close>

theorem shell_eyeproc_leaves_on_escape:
  assumes "wide s" and "length (saved_bar s) = 80"
  shows "((\<forall>i. \<not> escape_at scs i) \<longrightarrow> shell_eyeproc k scs s = Inl Diverge) \<and>
    (\<forall>i. escape_at scs i \<and> (\<forall>j<i. \<not> escape_at scs j) \<longrightarrow>
      (\<exists>s'. shell_eyeproc k scs s = Inr (drop (Suc i) scs, s') \<and> vga_inv s' \<and> scroll_back s' = 0 \<and>
        view s' = (replicate 24 (replicate 80 (vga_entry 0x20 7)), 0, 0) \<and>
        (\<forall>n. 2000 \<le> n \<and> n < length (cells s) \<longrightarrow> cells s' ! n = cells s ! n))) \<and>
    (\<forall>page procs tp u. \<exists>u'. ep_render page procs tp u = Inr u' \<and> length (cells u') = length (cells u) \<and>
      (\<forall>n\<ge>2000. cells u' ! n = cells u ! n))"
proof -
  define procs where "procs = map (tasks k) (list_tasks 128 k (task_list_head k))"
  define pages where "pages = (length procs + 12 - 1) div 12"
  define tp where "tp = (if pages < 1 then 1 else pages)"
  obtain s1 where s1: "terminal_clear s = Inr s1" "vga_inv s1" using terminal_clear_spec [OF assms] by blast
  obtain s2 where s2: "ep_render 0 procs tp s1 = Inr s2" "on_screen s1 s2"
    using ep_render_drawn [of s1 0 procs tp] by (auto simp: drawn_def)
  have eq: "shell_eyeproc k scs s = bnd (ep_keys procs tp 0 False scs s2) (\<lambda>(scs, s). bnd (terminal_clear s) (\<lambda>s. Inr (scs, s)))"
    unfolding shell_eyeproc_def Let_def unat_numeral_128 procs_def [symmetric] pages_def [symmetric] tp_def [symmetric]
    by (simp add: s1 s2(1))
  have esc: "escaped False scs = escape_at scs" by (auto simp: escaped_def escape_at_def fun_eq_iff)
  note keys = ep_keys_done [of False scs s2 procs tp 0, unfolded keys_done_def esc]
  show ?thesis
  proof (intro conjI impI allI)
    assume "\<forall>i. \<not> escape_at scs i"
    then show "shell_eyeproc k scs s = Inl Diverge" using keys by (simp add: eq)
  next
    fix i assume "escape_at scs i \<and> (\<forall>j<i. \<not> escape_at scs j)"
    then obtain s3 where s3: "ep_keys procs tp 0 False scs s2 = Inr (drop (Suc i) scs, s3)" "on_screen s2 s3" using keys by blast
    have on: "on_screen s1 s3" by (rule on_screen_trans [OF s2(2) s3(2)])
    then have w3: "wide s3" "length (saved_bar s3) = 80" using s1(2) by (auto simp: on_screen_def vga_inv_def wide_def)
    from terminal_clear_spec [OF this] obtain s4 where s4: "terminal_clear s3 = Inr s4" "vga_inv s4" "scroll_back s4 = 0"
      "view s4 = (replicate 24 (replicate 80 (vga_entry 0x20 7)), 0, 0)" by blast
    have "cells s4 ! n = cells s ! n" if "2000 \<le> n" "n < length (cells s)" for n
      using that terminal_clear_rows [OF assms(1) s1(1)] on_screenD(1,2) [OF on] terminal_clear_rows [OF w3(1) s4(1)] by simp
    then show "\<exists>s'. shell_eyeproc k scs s = Inr (drop (Suc i) scs, s') \<and> vga_inv s' \<and> scroll_back s' = 0 \<and>
      view s' = (replicate 24 (replicate 80 (vga_entry 0x20 7)), 0, 0) \<and>
      (\<forall>n. 2000 \<le> n \<and> n < length (cells s) \<longrightarrow> cells s' ! n = cells s ! n)" using s4 by (simp add: eq s3(1))
  next
    fix page procs tp u
    show "\<exists>u'. ep_render page procs tp u = Inr u' \<and> length (cells u') = length (cells u) \<and>
      (\<forall>n\<ge>2000. cells u' ! n = cells u ! n)"
      using ep_render_drawn [of u page procs tp] on_screenD(1,2) unfolding drawn_def by blast
  qed
qed

text \<open>The arrow down, then escape: the monitor returns with the remaining code unread.\<close>

theorem shell_eyeproc_leaves_on_escape_witness:
  "\<exists>s'. shell_eyeproc demo_kst [0xE0, 0x50, 1, 0x1E] demo_vga = Inr ([0x1E], s') \<and>
     view s' = (replicate 24 (replicate 80 (vga_entry 0x20 7)), 0, 0) \<and> cells s' ! 8000 = cells demo_vga ! 8000"
proof -
  have esc: "escape_at [0xE0, 0x50, 1, 0x1E] 2 \<and> (\<forall>j<2. \<not> escape_at [0xE0, 0x50, 1, 0x1E] j)"
    by (simp add: escape_at_def less_2_cases_iff)
  have w: "wide demo_vga" "length (saved_bar demo_vga) = 80" by (simp_all add: demo_vga_def wide_def)
  have d: "drop (Suc 2) [0xE0, 0x50, 1, 0x1E :: u8] = [0x1E]" by (simp add: numeral_2_eq_2)
  obtain s' where s': "shell_eyeproc demo_kst [0xE0, 0x50, 1, 0x1E] demo_vga = Inr ([0x1E], s')"
    "view s' = (replicate 24 (replicate 80 (vga_entry 0x20 7)), 0, 0)"
    "\<forall>n. 2000 \<le> n \<and> n < length (cells demo_vga) \<longrightarrow> cells s' ! n = cells demo_vga ! n"
    using shell_eyeproc_leaves_on_escape [OF w, of "[0xE0, 0x50, 1, 0x1E]" demo_kst, THEN conjunct2, THEN conjunct1,
      THEN spec, THEN mp, OF esc] unfolding d by blast
  moreover have "length (cells demo_vga) = 16384" using w(1) by (simp add: wide_def)
  ultimately show ?thesis by simp
qed

end
