(* ===== verification/Trap_Report.thy ===== *)
theory Trap_Report
  imports Interrupts Printk
begin

text \<open>
  What a trap writes to the kernel log: \<open>src/src/cpu/trap_frame.c\<close> and the canary self-test of
  \<open>src/src/cpu/isr.c\<close>, vector 66. The kernel is built without \<open>DEBUG\<close>, where \<open>pr_debug\<close> is empty and its
  arguments are not evaluated; \<open>pr_err\<close>, \<open>pr_warn\<close> and \<open>pr_info\<close> are \<open>printk\<close> with a level in front.
\<close>

definition log_line :: "string \<Rightarrow> va list \<Rightarrow> klog \<Rightarrow> klog res" where
  "log_line format args k = bnd (printk format args k) (\<lambda>(_, k). Inr k)"

definition pr_err :: "string \<Rightarrow> va list \<Rightarrow> klog \<Rightarrow> klog res" where
  "pr_err format = log_line (''<3>'' @ format @ [CHR 0x0A])"

definition pr_warn :: "string \<Rightarrow> va list \<Rightarrow> klog \<Rightarrow> klog res" where
  "pr_warn format = log_line (''<4>'' @ format @ [CHR 0x0A])"

definition pr_info :: "string \<Rightarrow> va list \<Rightarrow> klog \<Rightarrow> klog res" where
  "pr_info format = log_line (''<6>'' @ format @ [CHR 0x0A])"

definition trap_frame_display :: "trap_frame \<Rightarrow> klog \<Rightarrow> klog res" where
  "trap_frame_display tframe = log_line [CHR 0x0A] []"

text \<open>
  The walk along the chain of saved frame pointers, at most \<open>depth\<close> further frames. The return address is an
  argument of \<open>pr_debug\<close>, but it is loaded into a variable before. The frames visited are the result.
\<close>

primrec frame_walk :: "nat \<Rightarrow> u32 \<Rightarrow> mm \<Rightarrow> u32 list res" where
  "frame_walk 0 ebp m = Inr []"
| "frame_walk (Suc depth) ebp m =
     (if ebp = 0 \<or> ebp AND 3 \<noteq> 0 then Inr []
      else
        bnd (vread32 m (ebp + 4)) (\<lambda>ret_addr.
        bnd (vread32 m ebp) (\<lambda>next_ebp.
        if next_ebp \<le> ebp then Inr [ebp]
        else bnd (frame_walk depth next_ebp m) (\<lambda>fs. Inr (ebp # fs)))))"

definition trap_frame_stack_trace :: "trap_frame \<Rightarrow> mm \<Rightarrow> klog \<Rightarrow> klog res" where
  "trap_frame_stack_trace tframe m k = bnd (frame_walk 16 (tf_ebp tframe) m) (\<lambda>_. log_line [CHR 0x0A] [] k)"

text \<open>The registers that the self-test compares, with the value each must have.\<close>

definition canaries :: "trap_frame \<Rightarrow> (string \<times> u32 \<times> u32) list" where
  "canaries f =
     [(''FAIL: int_no=%d'', tf_int_no f, 66), (''FAIL: err_code=0x%x'', tf_err_code f, 0),
      (''FAIL: eax=0x%x'', tf_eax f, 0xAAAAAAAA), (''FAIL: ebx=0x%x'', tf_ebx f, 0xBBBBBBBB),
      (''FAIL: ecx=0x%x'', tf_ecx f, 0xCCCCCCCC), (''FAIL: edx=0x%x'', tf_edx f, 0xDDDDDDDD),
      (''FAIL: esi=0x%x'', tf_esi f, 0x11111111), (''FAIL: edi=0x%x'', tf_edi f, 0x22222222),
      (''FAIL: cs=0x%x'', tf_cs f, 0x08)]"

definition canary_report :: "trap_frame \<Rightarrow> mm \<Rightarrow> klog \<Rightarrow> klog res" where
  "canary_report f m k =
     bnd (trap_frame_display f k) (\<lambda>k.
     bnd (trap_frame_stack_trace f m k) (\<lambda>k.
     for_each (\<lambda>(format, got, want) k. if got \<noteq> want then pr_err format [VInt got] k else Inr k) (canaries f) k))"

text \<open>
  \<open>trigger_trap_test\<close>: the registers it loads before \<open>int 0x42\<close>; the rest of the frame is what the processor
  and the stub push.
\<close>

definition canary_frame :: "trap_frame \<Rightarrow> trap_frame" where
  "canary_frame f = f\<lparr>tf_eax := 0xAAAAAAAA, tf_ebx := 0xBBBBBBBB, tf_ecx := 0xCCCCCCCC, tf_edx := 0xDDDDDDDD,
     tf_esi := 0x11111111, tf_edi := 0x22222222, tf_int_no := 66, tf_err_code := 0\<rparr>"

definition trigger_trap_test :: "u32 \<Rightarrow> trap_frame \<Rightarrow> kst \<Rightarrow> klog \<Rightarrow> (unit flow \<times> kst \<times> klog) res" where
  "trigger_trap_test fp f s k =
     (let s = s\<lparr>tframes := (tframes s)(fp := canary_frame f)\<rparr> in
      bnd (canary_report (tframes s fp) (kmm s) k) (\<lambda>k.
      bnd (isr_trap fp s) (\<lambda>(r, s). Inr (r, s, k))))"

lemma canary_report_silent:
  "canary_ok f \<longleftrightarrow> (\<forall>(format, got, want) \<in> set (canaries f). got = want)"
  by (simp add: canary_ok_def canaries_def)

text \<open>The frames visited go strictly upwards, are aligned, and are at most as many as the depth.\<close>

lemma frame_walk_ascending:
  "frame_walk n ebp m = Inr fs \<Longrightarrow>
     length fs \<le> n \<and> sorted_wrt (<) fs \<and> (\<forall>b \<in> set fs. ebp \<le> b \<and> b \<noteq> 0 \<and> b AND 3 = 0)"
proof (induction n arbitrary: ebp fs)
  case (Suc n)
  show ?case
  proof (cases "ebp = 0 \<or> ebp AND 3 \<noteq> 0")
    case False
    then obtain r nxt where rd: "vread32 m (ebp + 4) = Inr r" "vread32 m ebp = Inr nxt"
      using Suc.prems by (auto split: if_splits)
    show ?thesis
    proof (cases "nxt \<le> ebp")
      case True
      then show ?thesis using Suc.prems False rd by auto
    next
      case nxt: False
      then obtain gs where gs: "frame_walk n nxt m = Inr gs" "fs = ebp # gs"
        using Suc.prems False rd by (auto split: if_splits)
      show ?thesis using Suc.IH [OF gs(1)] gs(2) nxt False by fastforce
    qed
  qed (use Suc.prems in auto)
qed simp

end
