(* ===== verification/Shell.thy ===== *)
theory Shell
  imports Eyeproc Trap_Report Vmalloc
begin

text \<open>
  The shell of \<open>src/src/kernel.c\<close>: argument parsing, the commands, the command interpreter and the line
  editor that the keyboard interrupt feeds. The shell runs inside that interrupt with interrupts off, so
  nothing interleaves with a command. Command lines are C strings without their terminator. Of the
  kernel log the model keeps the lines that the shell itself writes. The addresses the linker chooses and the
  register contents at the calls of \<open>get_esp\<close> and \<open>trigger_trap_test\<close> are the record \<open>image\<close>.
\<close>

section \<open>State\<close>

record image =
  kth_heartbeat_fn :: "u32 \<times> u32"
  kth_compute_fn :: "u32 \<times> u32"
  kth_memwrite_fn :: "u32 \<times> u32"
  kth_memread_fn :: "u32 \<times> u32"
  kth_slow_fn :: "u32 \<times> u32"
  kth_idle_fn :: "u32 \<times> u32"
  ufork_fn :: "u32 \<times> u32"
  uid_fn :: "u32 \<times> u32"
  uspin_fn :: "u32 \<times> u32"
  udiv_fn :: "u32 \<times> u32"
  usig_fn :: "u32 \<times> u32"
  uread_fn :: "u32 \<times> u32"
  uhandler :: u32
  proc_code_buf :: u32
  shell_debug_sig_handler :: u32
  live_esp :: u32
  stack_ends :: "u32 \<times> u32"
  trap_fp :: u32
  trap_frame_rest :: trap_frame

text \<open>
  \<open>scancodes\<close> are the codes that a reader which polls the keyboard controller gets, \<open>ports\<close> the words written
  to I/O ports, latest first.
\<close>

record shell =
  ks :: kst
  con :: vga
  slog :: klog
  keys :: kbd
  vzn :: vzone
  cmd_buffer :: string
  cmd_index :: nat
  scancodes :: "u8 list"
  ports :: "(u16 \<times> u16) list"

abbreviation (input) CMD_BUFFER_SIZE :: nat where "CMD_BUFFER_SIZE \<equiv> 256"

definition on_con :: "(vga \<Rightarrow> vga res) \<Rightarrow> shell \<Rightarrow> shell res" where
  "on_con f sh = bnd (f (con sh)) (\<lambda>v. Inr (sh\<lparr>con := v\<rparr>))"

definition say :: "string \<Rightarrow> shell \<Rightarrow> shell res" where
  "say str = on_con (terminal_writestring str)"

definition say_line :: "string \<Rightarrow> shell \<Rightarrow> shell res" where
  "say_line str = say (str @ [CHR 0x0A])"

definition putc :: "char \<Rightarrow> shell \<Rightarrow> shell res" where
  "putc c = on_con (terminal_putchar c)"

definition on_log :: "(klog \<Rightarrow> klog res) \<Rightarrow> shell \<Rightarrow> shell res" where
  "on_log f sh = bnd (f (slog sh)) (\<lambda>k. Inr (sh\<lparr>slog := k\<rparr>))"

definition out_port :: "u16 \<Rightarrow> u16 \<Rightarrow> shell \<Rightarrow> shell" where
  "out_port port v sh = sh\<lparr>ports := (port, v) # ports sh\<rparr>"

text \<open>The calls of a routine one after the other.\<close>

definition seq :: "(shell \<Rightarrow> shell res) list \<Rightarrow> shell \<Rightarrow> shell res" where
  "seq fs sh = for_each (\<lambda>f. f) fs sh"

section \<open>Parsing\<close>

fun starts_loop :: "nat \<Rightarrow> string \<Rightarrow> string \<Rightarrow> nat" where
  "starts_loop i cmd [] = i"
| "starts_loop i [] (p # ps) = 0"
| "starts_loop i (c # cs) (p # ps) = (if c \<noteq> p then 0 else starts_loop (i + 1) cs ps)"

definition shell_starts_with :: "string \<Rightarrow> string \<Rightarrow> nat" where
  "shell_starts_with cmd prefix = starts_loop 0 cmd prefix"

definition is_digit :: "char \<Rightarrow> bool" where
  "is_digit c \<longleftrightarrow> 48 \<le> (of_char c :: nat) \<and> (of_char c :: nat) \<le> 57"

primrec parse_loop :: "u32 \<Rightarrow> string \<Rightarrow> u32 \<times> string" where
  "parse_loop v [] = (v, [])"
| "parse_loop v (c # s) = (if is_digit c then parse_loop (v * 10 + of_nat (of_char c - 48)) s else (v, c # s))"

definition shell_parse_uint :: "string \<Rightarrow> (u32 \<times> string) option" where
  "shell_parse_uint p =
     (case p of [] \<Rightarrow> None | c # _ \<Rightarrow> if is_digit c then Some (parse_loop 0 p) else None)"

primrec shell_skip_spaces :: "string \<Rightarrow> string" where
  "shell_skip_spaces [] = []"
| "shell_skip_spaces (c # p) = (if c = CHR '' '' then shell_skip_spaces p else c # p)"

text \<open>The same search as that of \<open>task.c\<close>.\<close>

definition shell_find_task :: "u32 \<Rightarrow> kst \<Rightarrow> tptr option res" where
  "shell_find_task p s = (case find_pid s p (task_list_head s) of None \<Rightarrow> Inl Diverge | Some r \<Rightarrow> Inr r)"

text \<open>The character at a position of a C string, whose terminator follows its last character.\<close>

definition char_at :: "string \<Rightarrow> nat \<Rightarrow> char" where
  "char_at p i = (if i < length p then p ! i else CHR 0x00)"

section \<open>Signals and tasks\<close>

definition shell_kill :: "u32 \<Rightarrow> int \<Rightarrow> shell \<Rightarrow> shell res" where
  "shell_kill p signum sh =
     (if signum \<le> 0 \<or> signum \<ge> NSIG then say_line ''kill: invalid signal'' sh
      else bnd (shell_find_task p (ks sh)) (\<lambda>r.
        case r of None \<Rightarrow> say_line ''kill: pid not found'' sh
        | Some t \<Rightarrow>
            on_log (pr_info ''kill: sent sig %d to pid %u'' [VInt (of_int signum), VInt p])
              (sh\<lparr>ks := kernel_signal_send t signum (ks sh)\<rparr>)))"

definition shell_signal :: "image \<Rightarrow> u32 \<Rightarrow> int \<Rightarrow> shell \<Rightarrow> shell res" where
  "shell_signal im p signum sh =
     (if signum \<le> 0 \<or> signum \<ge> NSIG then say_line ''signal: invalid signal'' sh
      else bnd (shell_find_task p (ks sh)) (\<lambda>r.
        case r of None \<Rightarrow> say_line ''signal: pid not found'' sh
        | Some t \<Rightarrow>
            if SIGMASK signum AND SIG_IMMUTABLE_MASK \<noteq> 0 then
              on_log (pr_warn ''signal: sig %d disposition is immutable on pid %u'' [VInt (of_int signum), VInt p]) sh
            else
              let user = is_userspace (tasks (ks sh) t);
                  handler = (if user then USER_CODE_BASE + (uhandler im - fst (usig_fn im))
                             else shell_debug_sig_handler im) in
              on_log (pr_info ''signal: installed %s handler for sig %d on pid %u''
                  [VStr (Some (if user then ''ring3'' else ''debug'')), VInt (of_int signum), VInt p])
                (sh\<lparr>ks := kernel_signal_register t signum handler (ks sh)\<rparr>)))"

definition kthread_of_slot :: "image \<Rightarrow> int \<Rightarrow> u32 \<times> u32" where
  "kthread_of_slot im slot =
     (if slot = 1 then kth_heartbeat_fn im else if slot = 2 then kth_compute_fn im
      else if slot = 3 then kth_memwrite_fn im else if slot = 4 then kth_memread_fn im
      else if slot = 5 then kth_slow_fn im else kth_idle_fn im)"

definition shell_spawnkthread :: "image \<Rightarrow> int \<Rightarrow> shell \<Rightarrow> shell res" where
  "shell_spawnkthread im slot sh =
     (if slot < 1 \<or> slot > 6 then say_line ''spawntsk -k: slot must be 1..6'' sh
      else
        let (fn, fn_end) = kthread_of_slot im slot; sz = fn_end - fn in
        if sz = 0 \<or> sz > PAGE_SIZE then say_line ''spawntsk -k: invalid function size'' sh
        else bnd (exec_fn (proc_code_buf im + of_int (slot - 1) * PAGE_SIZE) fn sz (ks sh)) (\<lambda>s.
             say_line ''spawntsk -k: launched'' (sh\<lparr>ks := s\<rparr>)))"

definition user_of_slot :: "image \<Rightarrow> int \<Rightarrow> u32 \<times> u32" where
  "user_of_slot im slot =
     (if slot = 1 then ufork_fn im else if slot = 2 then uid_fn im
      else if slot = 3 then uspin_fn im else if slot = 4 then udiv_fn im
      else if slot = 5 then usig_fn im else uread_fn im)"

definition shell_spawnuser :: "image \<Rightarrow> int \<Rightarrow> shell \<Rightarrow> shell res" where
  "shell_spawnuser im slot sh =
     (if slot < 1 \<or> slot > 6 then say_line ''spawntsk -u: slot must be 1..6'' sh
      else
        let (fn, fn_end) = user_of_slot im slot; sz = fn_end - fn in
        if sz = 0 \<or> sz > PAGE_SIZE then say_line ''spawntsk -u: invalid function size'' sh
        else bnd (exec_user_fn fn sz (init_proc (ks sh)) (ks sh)) (\<lambda>s.
             say_line ''spawntsk -u: launched'' (sh\<lparr>ks := s\<rparr>)))"

section \<open>Prompt and power\<close>

definition shell_print_prompt :: "shell \<Rightarrow> shell res" where
  "shell_print_prompt sh =
     (let saved_color = terminal_getcolor (con sh);
          color = (\<lambda>c. on_con (\<lambda>v. Inr (terminal_setcolor c v))) in
      seq [color (vga_entry_color 12 0), say ''hekaterm'', color (vga_entry_color 7 0), say ''> '', color saved_color] sh)"

text \<open>The three commands below end in \<open>disable_interrupts_and_halt\<close>: the state in which the processor stops.\<close>

definition shell_reboot :: "shell \<Rightarrow> shell res" where
  "shell_reboot sh = bnd (say_line ''rebooting...'' sh) (\<lambda>sh. Inr (out_port 0x64 0xFE sh))"

definition shell_halt :: "shell \<Rightarrow> shell res" where
  "shell_halt sh = say_line ''system halted.'' sh"

definition shell_shutdown :: "shell \<Rightarrow> shell res" where
  "shell_shutdown sh =
     bnd (say_line ''shutting down...'' sh) (\<lambda>sh.
     say_line ''ACPI shutdown failed, halting.''
       (out_port 0x4004 0x3400 (out_port 0xB004 0x2000 (out_port 0x604 0x2000 sh))))"

section \<open>Numbers and reports\<close>

text \<open>The digit loops: \<open>room\<close> places are left in front of the characters already produced.\<close>

primrec digit_loop :: "nat \<Rightarrow> u32 \<Rightarrow> u32 \<Rightarrow> string \<Rightarrow> string res" where
  "digit_loop 0 base v p = (if v = 0 then Inr p else Inl (OutOfBounds v))"
| "digit_loop (Suc room) base v p =
     (if v = 0 then Inr p else digit_loop room base (v div base) (''0123456789abcdef'' ! unat (v mod base) # p))"

definition terminal_write_uint :: "u32 \<Rightarrow> shell \<Rightarrow> shell res" where
  "terminal_write_uint v sh =
     bnd (if v = 0 then Inr ''0'' else digit_loop 10 10 v '''') (\<lambda>p. say p sh)"

definition terminal_write_hex :: "u32 \<Rightarrow> shell \<Rightarrow> shell res" where
  "terminal_write_hex v sh =
     bnd (say ''0x'' sh) (\<lambda>sh.
     if v = 0 then putc (CHR ''0'') sh else bnd (digit_loop 8 16 v '''') (\<lambda>p. say p sh))"

definition shell_memdump :: "shell \<Rightarrow> shell res" where
  "shell_memdump sh =
     bnd (say_line ''#### memory dump ####'' sh) (\<lambda>sh.
     bnd (kmalloc_query (pool (ks sh))) (\<lambda>kq.
     bnd (seq [say ''kmalloc (chunk pool): zone='', terminal_write_hex KCPOOL_VIRT_BASE, say '' | '',
               terminal_write_uint (pool_pages kq), say '' pages | '', terminal_write_uint (free_objects kq),
               say_line '' free objects''] sh) (\<lambda>sh.
     bnd (vmalloc_query (vzn sh)) (\<lambda>vq.
     seq [say ''vmalloc: zone='', terminal_write_hex VMALLOC_BASE, say ''-'', terminal_write_hex VMALLOC_MAX, say '' | '',
          terminal_write_uint (used_pages vq), say ''/'', terminal_write_uint (total_pages vq),
          say_line '' pages used''] sh))))"

definition state_str :: "task_state \<Rightarrow> string" where
  "state_str st =
     (case st of TASK_RUNNABLE \<Rightarrow> ''RUNNABLE'' | TASK_RUNNING \<Rightarrow> ''RUNNING'' | TASK_BLOCKED \<Rightarrow> ''BLOCKED''
      | TASK_ZOMBIE \<Rightarrow> ''ZOMBIE'' | TASK_STOPPED \<Rightarrow> ''STOPPED'')"

definition shell_momentum :: "image \<Rightarrow> shell \<Rightarrow> shell res" where
  "shell_momentum im sh =
     (let t = tasks (ks sh) (current_task (ks sh)); nl = putc (CHR 0x0A) in
      seq ([say_line ''#### current execution context ####'', say ''pid:        '', terminal_write_uint (pid t), nl] @
           (case parent t of None \<Rightarrow> []
            | Some q \<Rightarrow> [say ''ppid:       '', terminal_write_uint (pid (tasks (ks sh) q)), nl]) @
           [say ''uid:        '', terminal_write_uint (uid t), say ''  euid: '', terminal_write_uint (euid t), nl,
            say ''state:      '', say (state_str (state t)), nl,
            say ''quantum:    '', terminal_write_uint (time_left t), say '' / '', terminal_write_uint (quantum t),
            say_line '' ticks'',
            say ''thread.esp: '', terminal_write_hex (thr_esp (thread t)), nl,
            say ''live esp:   '', terminal_write_hex (live_esp im), nl,
            say ''thread.tf:  '',
            (if thr_tf (thread t) \<noteq> 0 then terminal_write_hex (thr_tf (thread t)) else say ''(null, not preempted)''), nl,
            say ''cr3:        '', terminal_write_hex (pgdir (task_mm t)), nl,
            say ''code:       '', terminal_write_hex (code_start (task_mm t)), say '' - '',
            terminal_write_hex (code_end (task_mm t)), nl,
            say ''stack_top:  '', terminal_write_hex (stack_top (task_mm t)), nl]) sh)"

end
