(* ===== verification/Shell_Exec.thy ===== *)
theory Shell_Exec
  imports Shell
begin

text \<open>
  The command table, the interpreter \<open>shell_execute\<close>, the line editor \<open>shell_add_char\<close> and the keyboard
  interrupt that feeds it (\<open>src/src/kernel.c\<close> and the service of IRQ 1 in \<open>src/src/cpu/isr.c\<close>).
\<close>

section \<open>The command table\<close>

datatype cmd_cat = CMD_MAN | CMD_HW | CMD_SW

record shell_cmd =
  cmd_name :: string
  cmd_cat :: cmd_cat
  cmd_desc :: string
  cmd_detail :: string

definition lines :: "string list \<Rightarrow> string" where
  "lines ls = concat (map (\<lambda>l. l @ [CHR 0x0A]) ls)"

definition shell_commands :: "shell_cmd list" where
  "shell_commands = [
     \<lparr>cmd_name = ''help'', cmd_cat = CMD_MAN, cmd_desc = ''show this help message'', cmd_detail = lines
       [''  list every command grouped by section (MAN / HW / SW),'',
        ''  with a one-line description each.'']\<rparr>,
     \<lparr>cmd_name = ''man <cmd>'', cmd_cat = CMD_MAN, cmd_desc = ''per-command manual page (basic, in v0.5.0)'', cmd_detail = lines
       [''  show the manual page for <cmd>. basic version lands in v0.5.0;'',
        ''  use '' @ [CHR 0x27] @ ''def <cmd>'' @ [CHR 0x27] @ '' for a detailed explanation in the meantime.'']\<rparr>,
     \<lparr>cmd_name = ''def <cmd>'', cmd_cat = CMD_MAN, cmd_desc = ''explain a command in detail'', cmd_detail = lines
       [''  print a detailed explanation of <cmd>: usage, flags and behaviour.'',
        ''  example: def spawntsk'']\<rparr>,
     \<lparr>cmd_name = ''reboot'', cmd_cat = CMD_HW, cmd_desc = ''reboot the system'', cmd_detail = lines
       [''  reset the machine via the keyboard controller (out 0x64, 0xFE);'',
        ''  halts the CPU if the reset pulse does not take.'']\<rparr>,
     \<lparr>cmd_name = ''shutdown'', cmd_cat = CMD_HW, cmd_desc = ''power off the system (ACPI)'', cmd_detail = lines
       [''  power off via ACPI: write SLP_EN to the PM1a control block'',
        ''  (QEMU 0x604, Bochs 0xB004, VirtualBox 0x4004). halts on failure.'']\<rparr>,
     \<lparr>cmd_name = ''halt'', cmd_cat = CMD_HW, cmd_desc = ''halt the CPU'', cmd_detail = lines
       [''  mask interrupts and park the CPU in hlt; nothing runs afterwards.'']\<rparr>,
     \<lparr>cmd_name = ''keymap qwerty|azerty'', cmd_cat = CMD_HW, cmd_desc = ''select keyboard layout'', cmd_detail = lines
       [''  switch the scancode-to-ASCII layout used by the keyboard driver.'',
        ''  takes effect immediately.'']\<rparr>,
     \<lparr>cmd_name = ''traptest'', cmd_cat = CMD_HW, cmd_desc = ''trigger INT 0x42 and dump the trap frame'', cmd_detail = lines
       [''  raise software interrupt INT 0x42 to exercise the trap-frame'',
        ''  save/restore path, then dump the captured frame. no side effects.'']\<rparr>,
     \<lparr>cmd_name = ''clear'', cmd_cat = CMD_SW, cmd_desc = ''clear the terminal screen'', cmd_detail = lines
       [''  reinitialise the terminal: blank the screen and home the cursor.'']\<rparr>,
     \<lparr>cmd_name = ''momentum'', cmd_cat = CMD_SW, cmd_desc = ''dump current task execution context'', cmd_detail = lines
       [''  dump the current task'' @ [CHR 0x27] @ ''s execution context: pid, parent, state'',
        ''  and live register/stack snapshot.'']\<rparr>,
     \<lparr>cmd_name = ''memdump'', cmd_cat = CMD_SW, cmd_desc = ''display memory usage summary'', cmd_detail = lines
       [''  summarise kernel allocators: kmalloc chunk pool (zone, pages,'',
        ''  free objects) and vmalloc zone (used/total pages). not physical RAM.'']\<rparr>,
     \<lparr>cmd_name = ''dmesg'', cmd_cat = CMD_SW, cmd_desc = ''display kernel ring buffer'', cmd_detail = lines
       [''  print the kernel log ring buffer (pr_* messages since boot).'']\<rparr>,
     \<lparr>cmd_name = ''plog <pid>'', cmd_cat = CMD_SW, cmd_desc = ''dump a process output log'', cmd_detail = lines
       [''  print what process <pid> wrote to fd 1/2, captured in its own'',
        ''  per-task ring buffer. lost once the process is reaped.'']\<rparr>,
     \<lparr>cmd_name = ''pfeed <pid> <text>'', cmd_cat = CMD_SW, cmd_desc = ''inject input into a process'', cmd_detail = lines
       [''  push <text> plus a newline into process <pid>'' @ [CHR 0x27] @ ''s input buffer;'',
        ''  the process reads it back via read(fd 0). non-blocking.'']\<rparr>,
     \<lparr>cmd_name = ''eyeproc'', cmd_cat = CMD_SW, cmd_desc = ''full-screen process grid (ESC to quit)'', cmd_detail = lines
       [''  full-screen live grid of all processes; refreshes continuously.'',
        ''  press ESC to return to the shell.'']\<rparr>,
     \<lparr>cmd_name = ''spawntsk -k|-u [N]'', cmd_cat = CMD_SW, cmd_desc = ''run kthread/user test N (or all)'', cmd_detail = lines
       [''  launch a test payload. -k: kernel thread (ring 0);'',
        ''  -u: user process (ring 3, syscalls via int 0x80).'',
        ''  [N]: 1-based slot to run a single test; omit to launch them all.'']\<rparr>,
     \<lparr>cmd_name = ''kill <pid> <sig>'', cmd_cat = CMD_SW, cmd_desc = ''send signal sig to pid'', cmd_detail = lines
       [''  send signal <sig> to process <pid> (both decimal). the default'',
        ''  action applies unless a handler was installed (see '' @ [CHR 0x27] @ ''def signal'' @ [CHR 0x27] @ '').'']\<rparr>,
     \<lparr>cmd_name = ''signal <pid> <sig>'', cmd_cat = CMD_SW, cmd_desc = ''install a debug handler on pid for sig'', cmd_detail = lines
       [''  install a debug handler on <pid> for signal <sig>, so delivery'',
        ''  is logged instead of taking the default action. pair with kill.'']\<rparr>
   ]"

definition shell_help_section :: "string \<Rightarrow> cmd_cat \<Rightarrow> shell \<Rightarrow> shell res" where
  "shell_help_section title cat sh =
     (let width = fold (\<lambda>c w. if cmd_cat c = cat then let len = length (cmd_name c) in if len > w then len else w else w)
                    shell_commands 0 in
      bnd (say_line title sh)
        (for_each (\<lambda>c sh.
           if cmd_cat c \<noteq> cat then Inr sh
           else seq ([say ''  '', say (cmd_name c)] @ map (\<lambda>_. putc (CHR '' '')) [length (cmd_name c)..<width] @
                     [say '' - '', say (cmd_desc c), putc (CHR 0x0A)]) sh) shell_commands))"

definition shell_help :: "shell \<Rightarrow> shell res" where
  "shell_help = seq [say_line (''available commands:'' @ [CHR 0x0A]), shell_help_section ''MAN:'' CMD_MAN,
     putc (CHR 0x0A), shell_help_section ''HW:'' CMD_HW, putc (CHR 0x0A), shell_help_section ''SW:'' CMD_SW]"

text \<open>The comparison loop of \<open>shell_def\<close>: the argument against the name up to its first space.\<close>

fun base_matches :: "string \<Rightarrow> string \<Rightarrow> bool" where
  "base_matches [] arg = (arg = [])"
| "base_matches (n # name) [] = (n = CHR '' '')"
| "base_matches (n # name) (a # arg) = (n \<noteq> CHR '' '' \<and> a = n \<and> base_matches name arg)"

definition shell_def :: "string \<Rightarrow> shell \<Rightarrow> shell res" where
  "shell_def arg sh =
     (let arg = shell_skip_spaces arg in
      if arg = [] then say_line ''def: usage: def <command>'' sh
      else case find (\<lambda>c. base_matches (cmd_name c) arg) shell_commands of
          Some c \<Rightarrow> seq [say (cmd_name c), putc (CHR 0x0A), say (cmd_detail c)] sh
        | None \<Rightarrow> seq [say ''def: unknown command: '', say arg, putc (CHR 0x0A)] sh)"

section \<open>Commands with arguments\<close>

definition cmd_plog :: "string \<Rightarrow> shell \<Rightarrow> shell res" where
  "cmd_plog p sh =
     (case shell_parse_uint (shell_skip_spaces p) of
        None \<Rightarrow> say_line ''plog: usage: plog <pid>'' sh
      | Some (n, _) \<Rightarrow>
          bnd (task_dump_log n ((ks sh)\<lparr>terminal := []\<rparr>)) (\<lambda>s.
          on_con (terminal_write (map (\<lambda>b. char_of (unat b)) (rev (terminal s)))) (sh\<lparr>ks := s\<lparr>terminal := terminal (ks sh)\<rparr>\<rparr>)))"

definition cmd_pfeed :: "string \<Rightarrow> shell \<Rightarrow> shell res" where
  "cmd_pfeed p sh =
     (case shell_parse_uint (shell_skip_spaces p) of
        None \<Rightarrow> say_line ''pfeed: usage: pfeed <pid> <text>'' sh
      | Some (n, p) \<Rightarrow>
          let p = shell_skip_spaces p in
          if p = [] then say_line ''pfeed: usage: pfeed <pid> <text>'' sh
          else bnd (task_feed n (map of_char p) (ks sh)) (\<lambda>(r, s).
               if r \<noteq> 0 then say_line ''pfeed: no such pid or out of memory'' (sh\<lparr>ks := s\<rparr>)
               else Inr (sh\<lparr>ks := s\<rparr>)))"

definition cmd_spawntsk :: "image \<Rightarrow> string \<Rightarrow> shell \<Rightarrow> shell res" where
  "cmd_spawntsk im p sh =
     (let p = shell_skip_spaces p; usage = say_line ''spawntsk: usage: spawntsk -k|-u [slot]'' in
      if char_at p 0 \<noteq> CHR ''-'' \<or> (char_at p 1 \<noteq> CHR ''k'' \<and> char_at p 1 \<noteq> CHR ''u'') \<or>
         (char_at p 2 \<noteq> CHR 0x00 \<and> char_at p 2 \<noteq> CHR '' '')
      then usage sh
      else
        let spawn = (if char_at p 1 = CHR ''k'' then shell_spawnkthread im else shell_spawnuser im);
            p = shell_skip_spaces (drop 2 p) in
        if p = [] then for_each spawn [1, 2, 3, 4, 5, 6] sh
        else case shell_parse_uint p of None \<Rightarrow> usage sh | Some (slot, _) \<Rightarrow> spawn (s32 slot) sh)"

definition cmd_kill :: "string \<Rightarrow> shell \<Rightarrow> shell res" where
  "cmd_kill p sh =
     (case shell_parse_uint (shell_skip_spaces p) of
        None \<Rightarrow> say_line ''kill: usage: kill <pid> <sig>'' sh
      | Some (n, p) \<Rightarrow>
          (case shell_parse_uint (shell_skip_spaces p) of
             None \<Rightarrow> say_line ''kill: usage: kill <pid> <sig>'' sh
           | Some (sig, _) \<Rightarrow> shell_kill n (s32 sig) sh))"

definition cmd_signal :: "image \<Rightarrow> string \<Rightarrow> shell \<Rightarrow> shell res" where
  "cmd_signal im p sh =
     (case shell_parse_uint (shell_skip_spaces p) of
        None \<Rightarrow> say_line ''signal: usage: signal <pid> <sig>'' sh
      | Some (n, p) \<Rightarrow>
          (case shell_parse_uint (shell_skip_spaces p) of
             None \<Rightarrow> say_line ''signal: usage: signal <pid> <sig>'' sh
           | Some (sig, _) \<Rightarrow> shell_signal im n (s32 sig) sh))"

text \<open>The trap returns: its vector is neither a system call nor a fault.\<close>

definition cmd_traptest :: "image \<Rightarrow> shell \<Rightarrow> shell res" where
  "cmd_traptest im sh =
     bnd (say_line ''triggering INT 0x42 (trap frame test)...'' sh) (\<lambda>sh.
     bnd (trigger_trap_test (trap_fp im) (trap_frame_rest im) (ks sh) (slog sh)) (\<lambda>(r, s, k).
     say_line ''returned from trap, trap frame OK'' (sh\<lparr>ks := s, slog := k\<rparr>)))"

definition cmd_eyeproc :: "shell \<Rightarrow> shell res" where
  "cmd_eyeproc sh =
     bnd (shell_eyeproc (ks sh) (scancodes sh) (con sh)) (\<lambda>(scs, v).
     shell_print_prompt (sh\<lparr>scancodes := scs, con := v\<rparr>))"

section \<open>The interpreter\<close>

text \<open>How a command ends: the prompt follows, it has printed the prompt itself, or the processor has stopped.\<close>

datatype verdict = Prompt | Quiet | Off

definition prompting :: "shell res \<Rightarrow> (verdict \<times> shell) res" where
  "prompting r = bnd r (\<lambda>sh. Inr (Prompt, sh))"

definition halting :: "shell res \<Rightarrow> (verdict \<times> shell) res" where
  "halting r = bnd r (\<lambda>sh. Inr (Off, sh))"

definition shell_dispatch :: "image \<Rightarrow> string \<Rightarrow> shell \<Rightarrow> (verdict \<times> shell) res" where
  "shell_dispatch im cmd sh =
     (if cmd = ''reboot'' then halting (shell_reboot sh)
      else if cmd = ''shutdown'' then halting (shell_shutdown sh)
      else if cmd = ''halt'' then halting (shell_halt sh)
      else if cmd = ''help'' then prompting (shell_help sh)
      else if cmd = ''man'' \<or> shell_starts_with cmd ''man '' > 0 then
        prompting (say_line (''man: basic manual pages available in v0.5.0; use '' @ [CHR 0x27] @ ''def <cmd>'' @
          [CHR 0x27] @ '' for now'') sh)
      else if cmd = ''def'' then prompting (shell_def '''' sh)
      else if shell_starts_with cmd ''def '' > 0 then prompting (shell_def (drop 4 cmd) sh)
      else if cmd = ''clear'' then prompting (on_con terminal_clear sh)
      else if cmd = ''momentum'' then prompting (shell_momentum im sh)
      else if cmd = ''dmesg'' then prompting (on_con (terminal_write (dmesg (slog sh))) sh)
      else if shell_starts_with cmd ''plog '' > 0 then prompting (cmd_plog (drop 5 cmd) sh)
      else if shell_starts_with cmd ''pfeed '' > 0 then prompting (cmd_pfeed (drop 6 cmd) sh)
      else if cmd = ''memdump'' then prompting (shell_memdump sh)
      else if cmd = ''traptest'' then prompting (cmd_traptest im sh)
      else if cmd = ''keymap azerty'' then
        prompting (say_line ''keymap: azerty'' (sh\<lparr>keys := set_keymap KEYMAP_AZERTY (keys sh)\<rparr>))
      else if cmd = ''keymap qwerty'' then
        prompting (say_line ''keymap: qwerty'' (sh\<lparr>keys := set_keymap KEYMAP_QWERTY (keys sh)\<rparr>))
      else if cmd = ''eyeproc'' then bnd (cmd_eyeproc sh) (\<lambda>sh. Inr (Quiet, sh))
      else if shell_starts_with cmd ''spawntsk '' > 0 then prompting (cmd_spawntsk im (drop 9 cmd) sh)
      else if shell_starts_with cmd ''kill '' > 0 then prompting (cmd_kill (drop 5 cmd) sh)
      else if shell_starts_with cmd ''signal '' > 0 then prompting (cmd_signal im (drop 7 cmd) sh)
      else if cmd \<noteq> [] then
        prompting (seq [say ''unknown command: '', say cmd,
          say_line ([CHR 0x0A] @ ''type '' @ [CHR 0x27] @ ''help'' @ [CHR 0x27] @ '' for available commands.'')] sh)
      else Inr (Prompt, sh))"

text \<open>The first component says whether the processor still runs.\<close>

definition shell_execute :: "image \<Rightarrow> string \<Rightarrow> shell \<Rightarrow> (bool \<times> shell) res" where
  "shell_execute im cmd sh =
     bnd (shell_dispatch im cmd sh) (\<lambda>(r, sh).
     case r of Prompt \<Rightarrow> bnd (shell_print_prompt sh) (\<lambda>sh. Inr (True, sh)) | Quiet \<Rightarrow> Inr (True, sh) | Off \<Rightarrow> Inr (False, sh))"

section \<open>The line editor\<close>

definition shell_add_char :: "image \<Rightarrow> char \<Rightarrow> shell \<Rightarrow> (bool \<times> shell) res" where
  "shell_add_char im c sh =
     (if c = CHR 0x0A then
        bnd (putc (CHR 0x0A) sh) (\<lambda>sh.
        if cmd_index sh \<ge> CMD_BUFFER_SIZE then Inl (OutOfBounds (of_nat (cmd_index sh)))
        else
          let sh = sh\<lparr>cmd_buffer := (cmd_buffer sh)[cmd_index sh := CHR 0x00]\<rparr> in
          bnd (shell_execute im (c_string (cmd_buffer sh)) sh) (\<lambda>(runs, sh).
          Inr (runs, if runs then sh\<lparr>cmd_index := 0\<rparr> else sh)))
      else if c = CHR 0x08 then
        if cmd_index sh > 0 then bnd (putc (CHR 0x08) (sh\<lparr>cmd_index := cmd_index sh - 1\<rparr>)) (\<lambda>sh. Inr (True, sh))
        else Inr (True, sh)
      else if cmd_index sh < CMD_BUFFER_SIZE - 1 then
        bnd (putc c (sh\<lparr>cmd_buffer := (cmd_buffer sh)[cmd_index sh := c], cmd_index := cmd_index sh + 1\<rparr>)) (\<lambda>sh.
        Inr (True, sh))
      else Inr (True, sh))"

definition run_call :: "image \<Rightarrow> kbd_call \<Rightarrow> shell \<Rightarrow> (bool \<times> shell) res" where
  "run_call im call sh =
     (case call of
        Scroll_lines n \<Rightarrow> bnd (on_con (terminal_scroll_lines n) sh) (\<lambda>sh. Inr (True, sh))
      | Scroll_reset \<Rightarrow> bnd (on_con terminal_scroll_reset sh) (\<lambda>sh. Inr (True, sh))
      | Shell_add_char c \<Rightarrow> shell_add_char im (char_of (unat c)) sh)"

text \<open>
  The keyboard interrupt with the calls it makes, in order, up to the first that stops the processor. A stopped
  processor does not reach the end of the interrupt.
\<close>

primrec run_calls :: "image \<Rightarrow> kbd_call list \<Rightarrow> shell \<Rightarrow> (bool \<times> shell) res" where
  "run_calls im [] sh = Inr (True, sh)"
| "run_calls im (c # cs) sh = bnd (run_call im c sh) (\<lambda>(runs, sh). if runs then run_calls im cs sh else Inr (False, sh))"

definition shell_key :: "image \<Rightarrow> u8 \<Rightarrow> u8 \<Rightarrow> shell \<Rightarrow> (bool \<times> shell) res" where
  "shell_key im status scancode sh =
     bnd (keyboard_irq status scancode (keys sh)) (\<lambda>(k, calls). run_calls im calls (sh\<lparr>keys := k\<rparr>))"

section \<open>Start-up messages\<close>

definition kprint_stack_info :: "image \<Rightarrow> klog \<Rightarrow> klog res" where
  "kprint_stack_info im k =
     (let (stack_bottom_addr, stack_top_addr) = stack_ends im; esp = live_esp im;
          stack_size = stack_top_addr - stack_bottom_addr;
          stack_used = stack_top_addr - esp;
          stack_free = esp - stack_bottom_addr in
      for_each (\<lambda>f. f)
        [pr_info ''#### kernel stack ####'' [], pr_info ''stack top:        %p'' [VInt stack_top_addr],
         pr_info ''stack bottom:     %p'' [VInt stack_bottom_addr],
         pr_info ''stack size:       %d bytes (%d KB)'' [VInt stack_size, VInt (stack_size div 1024)],
         pr_info ''current ESP:      %p'' [VInt esp], pr_info ''used:             %d bytes'' [VInt stack_used],
         pr_info ''free:             %d bytes'' [VInt stack_free], log_line [CHR 0x0A] []] k)"

definition banner_rows :: "string list" where
  "banner_rows =
     [''##  ##  ######  ##  ##   ###    ####    ####'', ''##  ##  ##      ## ##   ## ##  ##  ##  ##   '',
      ''######  ####    ####   ##  ##  ##  ##   ### '', ''##  ##  ##      ## ##  ######  ##  ##     ##'',
      ''##  ##  ######  ##  ## ##  ##   ####   #### '']"

text \<open>
  The five rows of the title are written alike, each in its colour between the borders; a border and the start of
  the next row are one string in the code.
\<close>

definition print_banner :: "vga \<Rightarrow> vga res" where
  "print_banner v =
     (let border = terminal_setcolor (vga_entry_color 15 0); title = terminal_setcolor (vga_entry_color 4 0);
          stars = replicate 60 (CHR ''*'') @ [CHR 0x0A];
          blank = ''*'' @ replicate 58 (CHR '' '') @ ''*'' @ [CHR 0x0A] in
      bnd (for_each terminal_writestring [[CHR 0x0A], stars, blank] (border v)) (\<lambda>v.
      bnd (for_each (\<lambda>row v.
             bnd (terminal_writestring ''*  '' v) (\<lambda>v.
             bnd (terminal_writestring row (title v)) (\<lambda>v.
             terminal_writestring (''            *'' @ [CHR 0x0A]) (border v)))) banner_rows v) (\<lambda>v.
      bnd (for_each terminal_writestring [blank, stars, [CHR 0x0A]] v) (\<lambda>v.
      Inr (terminal_setcolor (vga_entry_color 7 0) v)))))"

end
