(* ===== verification/Task_Rings.thy ===== *)
theory Task_Rings
  imports Syscall_Spec Ring_Buffer
begin

text \<open>
  The two ring buffers of a task, \<open>task_log_putchar\<close> and \<open>task_dump_log\<close>, \<open>task_feed\<close> and
  \<open>task_input_read\<close> of \<open>src/src/task.c\<close>: the log keeps the last 1024 characters written, the input ring
  is a first-in first-out queue of at most 255 characters that \<open>read\<close> drains into the caller's buffer.
\<close>

section \<open>The input queue\<close>

text \<open>The interface of a queue that drops what does not fit.\<close>

locale bounded_queue =
  fixes inv :: "'s \<Rightarrow> bool" and queue :: "'s \<Rightarrow> 'v list" and push :: "'v \<Rightarrow> 's \<Rightarrow> 's" and cap :: nat
  assumes push_inv: "inv s \<Longrightarrow> inv (push v s)"
    and push_queue: "inv s \<Longrightarrow> queue (push v s) = (if length (queue s) < cap then queue s @ [v] else queue s)"
    and queue_bound: "inv s \<Longrightarrow> length (queue s) \<le> cap"
begin

lemma push_all: "inv s \<Longrightarrow> inv (fold push vs s) \<and> queue (fold push vs s) = take cap (queue s @ vs)"
proof (induction vs arbitrary: s)
  case Nil
  then show ?case using queue_bound by simp
next
  case (Cons v vs)
  have "take cap (queue (push v s) @ vs) = take cap (queue s @ v # vs)"
    using push_queue [OF Cons.prems, of v] queue_bound [OF Cons.prems]
    by (auto simp: Suc_diff_Suc take_Cons')
  then show ?case using Cons.IH [OF push_inv [OF Cons.prems, of v]] by simp
qed

end

definition in_inv :: "tptr \<Rightarrow> kst \<Rightarrow> bool" where
  "in_inv t s \<longleftrightarrow> in_head (tasks s t) < TASK_INPUT_SIZE \<and> in_tail (tasks s t) < TASK_INPUT_SIZE"

definition in_count :: "task \<Rightarrow> nat" where
  "in_count x = (unat (in_head x) + 256 - unat (in_tail x)) mod 256"

definition in_queue :: "tptr \<Rightarrow> kst \<Rightarrow> u8 list" where
  "in_queue t s = (let x = tasks s t in
     map (\<lambda>i. kbytes s (in_buf x + of_nat ((unat (in_tail x) + i) mod 256))) [0..<in_count x])"

lemma unat_and_ff: "unat ((w :: u32) AND 0xFF) = unat w mod 256"
proof -
  have "w AND 0xFF = take_bit 8 w" by (simp add: take_bit_eq_mask mask_eq_exp_minus_1)
  then show ?thesis by (simp add: take_bit_eq_mod unat_mod)
qed

lemma advance_ff: "w < 256 \<Longrightarrow> unat ((w + 1) AND 0xFF :: u32) = (unat w + 1) mod 256"
  by (simp add: unat_and_ff unat_word_ariths word_less_nat_alt)

lemma ring_cell_inject:
  assumes "i < 1024" and "j < 1024"
  shows "(b :: u32) + of_nat i = b + of_nat j \<longleftrightarrow> i = j"
proof
  assume "b + of_nat i = b + of_nat j"
  then have "unat (of_nat i :: u32) = unat (of_nat j :: u32)" by simp
  then show "i = j" using assms by (simp add: unat_of_nat_u32)
qed simp

lemma in_count_less: "in_count x < 256"
  by (simp add: in_count_def)

lemma mod_256:
  fixes i :: nat
  assumes "i < 512"
  shows "i mod 256 = (if i < 256 then i else i - 256)"
  using assms by (simp add: mod_if)

lemma ring_count:
  fixes g t :: nat
  assumes "g < 256" and "t < 256"
  shows "(g + 256 - t) mod 256 = (if t \<le> g then g - t else g + 256 - t)"
  using mod_256 [of "g + 256 - t"] assms by auto

lemma ring_suc: "(h :: nat) < 256 \<Longrightarrow> (h + 1) mod 256 = (if h = 255 then 0 else h + 1)"
  using mod_256 [of "h + 1"] by auto

lemma ring_full:
  fixes h t :: nat
  assumes "h < 256" and "t < 256"
  shows "(h + 1) mod 256 = t \<longleftrightarrow> (h + 256 - t) mod 256 = 255"
    and "(h + 1) mod 256 \<noteq> t \<Longrightarrow> ((h + 1) mod 256 + 256 - t) mod 256 = (h + 256 - t) mod 256 + 1"
    and "(t + (h + 256 - t) mod 256) mod 256 = h"
    and "i < (h + 256 - t) mod 256 \<Longrightarrow> (t + i) mod 256 \<noteq> h"
proof -
  note count = ring_count [OF _ assms(2)] and suc = ring_suc [OF assms(1)]
  have add: "(t + j) mod 256 = (if t + j < 256 then t + j else t + j - 256)" if "j < 256" for j
    using mod_256 [of "t + j"] that assms(2) by simp
  have s1: "(h + 1) mod 256 < 256" by simp
  show "(h + 1) mod 256 = t \<longleftrightarrow> (h + 256 - t) mod 256 = 255"
    unfolding suc count [OF assms(1)] using assms by auto
  show "((h + 1) mod 256 + 256 - t) mod 256 = (h + 256 - t) mod 256 + 1" if "(h + 1) mod 256 \<noteq> t"
    using that assms unfolding count [OF s1] count [OF assms(1)] unfolding suc by (cases "h = 255") auto
  have c: "(h + 256 - t) mod 256 < 256" by simp
  show "(t + (h + 256 - t) mod 256) mod 256 = h"
    unfolding add [OF c] unfolding count [OF assms(1)] using assms by auto
  show "(t + i) mod 256 \<noteq> h" if "i < (h + 256 - t) mod 256"
  proof -
    have "i < 256" using that c by linarith
    then show ?thesis using that assms unfolding count [OF assms(1)] add [OF \<open>i < 256\<close>] by (auto split: if_splits)
  qed
qed

lemma task_input_push_spec:
  assumes "in_inv t s"
  shows "in_inv t (task_input_push t c s)"
    and "in_queue t (task_input_push t c s) = (if length (in_queue t s) < 255 then in_queue t s @ [c] else in_queue t s)"
proof -
  let ?x = "tasks s t"
  define h q n where "h = unat (in_head ?x)" and "q = unat (in_tail ?x)" and "n = in_count ?x"
  have hq: "h < 256" "q < 256" using assms by (simp_all add: in_inv_def h_def q_def word_less_nat_alt)
  have n: "n = (h + 256 - q) mod 256" "n < 256" by (simp_all add: n_def in_count_def h_def q_def)
  have adv: "unat ((in_head ?x + 1) AND 0xFF) = (h + 1) mod 256" using assms advance_ff by (simp add: in_inv_def h_def)
  have full: "(in_head ?x + 1) AND 0xFF = in_tail ?x \<longleftrightarrow> n = 255"
    using ring_full(1) [OF hq] adv n(1) by (simp add: word_unat_eq_iff q_def)
  have len: "length (in_queue t s) = n" by (simp add: in_queue_def Let_def n_def)
  show "in_inv t (task_input_push t c s)"
    using assms and_mask_less(2) by (simp add: in_inv_def task_input_push_def Let_def)
  show "in_queue t (task_input_push t c s) = (if length (in_queue t s) < 255 then in_queue t s @ [c] else in_queue t s)"
  proof (cases "n = 255")
    case True
    then show ?thesis using full len by (simp add: task_input_push_def Let_def)
  next
    case False
    then have "(h + 1) mod 256 \<noteq> q" using ring_full(1) [OF hq] n(1) by simp
    then have n': "in_count (?x\<lparr>in_head := (in_head ?x + 1) AND 0xFF\<rparr>) = Suc n"
      using ring_full(2) [OF hq] n(1) adv by (simp add: in_count_def q_def)
    have cell: "(q + i) mod 256 \<noteq> h" if "i < n" for i using ring_full(4) [OF hq] that n(1) by simp
    have last: "(q + n) mod 256 = h" using ring_full(3) [OF hq] n(1) by simp
    have e: "task_input_push t c s = upd t (\<lambda>x. x\<lparr>in_head := (in_head ?x + 1) AND 0xFF\<rparr>)
        (s\<lparr>kbytes := (kbytes s)(in_buf ?x + in_head ?x := c)\<rparr>)"
      using False full by (simp add: task_input_push_def Let_def)
    have hh: "in_head ?x = of_nat h" by (simp add: h_def)
    have same: "kbytes (task_input_push t c s) (in_buf ?x + of_nat ((q + i) mod 256)) = kbytes s (in_buf ?x + of_nat ((q + i) mod 256))"
      if "i < n" for i
      using cell [OF that] ring_cell_inject [of "(q + i) mod 256" h "in_buf ?x"] hq by (simp add: e hh del: of_nat_mod)
    have new: "kbytes (task_input_push t c s) (in_buf ?x + of_nat ((q + n) mod 256)) = c"
      unfolding last by (simp add: e hh)
    have "in_queue t (task_input_push t c s) = map (\<lambda>i. kbytes (task_input_push t c s) (in_buf ?x + of_nat ((q + i) mod 256))) [0..<Suc n]"
      by (simp only: in_queue_def Let_def) (simp add: e n' q_def del: of_nat_mod upt_Suc)
    also have "\<dots> = in_queue t s @ [c]"
      using same new by (simp add: in_queue_def Let_def q_def n_def del: of_nat_mod)
    finally show ?thesis using False len n(2) by simp
  qed
qed

interpretation input: bounded_queue "in_inv t" "in_queue t" "task_input_push t" 255 for t
proof unfold_locales
  fix s show "length (in_queue t s) \<le> 255" using in_count_less [of "tasks s t"] by (simp add: in_queue_def Let_def)
qed (use task_input_push_spec in simp_all)


text \<open>Taking the oldest character off the queue.\<close>

definition in_pop :: "tptr \<Rightarrow> kst \<Rightarrow> kst" where
  "in_pop t s = upd t (\<lambda>x. x\<lparr>in_tail := (in_tail x + 1) AND 0xFF\<rparr>) s"

lemma in_queue_frame [simp]: "in_queue t (s\<lparr>kmm := m\<rparr>) = in_queue t s" "in_inv t (s\<lparr>kmm := m\<rparr>) = in_inv t s"
  by (simp_all add: in_queue_def in_inv_def)

lemma in_queue_Nil: "in_inv t s \<Longrightarrow> in_queue t s = [] \<longleftrightarrow> in_head (tasks s t) = in_tail (tasks s t)"
  using ring_count [of "unat (in_head (tasks s t))" "unat (in_tail (tasks s t))"]
  by (auto simp: in_queue_def Let_def in_count_def in_inv_def word_less_nat_alt word_unat_eq_iff split: if_splits)

lemma in_pop:
  assumes "in_inv t s" and "in_head (tasks s t) \<noteq> in_tail (tasks s t)"
  shows "in_inv t (in_pop t s)"
    and "in_queue t s = kbytes s (in_buf (tasks s t) + in_tail (tasks s t)) # in_queue t (in_pop t s)"
proof -
  let ?x = "tasks s t"
  define h q where "h = unat (in_head ?x)" and "q = unat (in_tail ?x)"
  have hq: "h < 256" "q < 256" "h \<noteq> q"
    using assms by (simp_all add: in_inv_def h_def q_def word_less_nat_alt word_unat_eq_iff)
  show "in_inv t (in_pop t s)" using assms(1) and_mask_less(2) by (simp add: in_inv_def in_pop_def)
  have adv: "unat ((in_tail ?x + 1) AND 0xFF) = (q + 1) mod 256"
    using assms(1) advance_ff by (simp add: in_inv_def q_def)
  have "(h + 256 - q) mod 256 = Suc ((h + 256 - (q + 1) mod 256) mod 256)"
    using ring_count [OF hq(1,2)] ring_count [OF hq(1), of "(q + 1) mod 256"] ring_suc [OF hq(2)] hq
    by (cases "q = 255") auto
  then have n: "in_count ?x = Suc (in_count (?x\<lparr>in_tail := (in_tail ?x + 1) AND 0xFF\<rparr>))"
    by (simp add: in_count_def adv h_def [symmetric] q_def [symmetric])
  have ix: "(Suc q mod 256 + i) mod 256 = Suc (q + i) mod 256" for i by (simp add: mod_simps)
  have "in_queue t (in_pop t s) = map (\<lambda>i. kbytes s (in_buf ?x + of_nat ((q + Suc i) mod 256)))
      [0..<in_count (?x\<lparr>in_tail := (in_tail ?x + 1) AND 0xFF\<rparr>)]"
    by (simp only: in_queue_def Let_def) (simp add: in_pop_def adv ix del: of_nat_mod)
  moreover have "in_queue t s = map (\<lambda>i. kbytes s (in_buf ?x + of_nat ((q + i) mod 256))) [0..<in_count ?x]"
    by (simp only: in_queue_def Let_def q_def)
  moreover have "in_tail ?x = of_nat ((q + 0) mod 256)" using hq(2) by (simp add: q_def)
  ultimately show "in_queue t s = kbytes s (in_buf ?x + in_tail ?x) # in_queue t (in_pop t s)"
    unfolding n by (simp only: upt_conv_Cons zero_less_Suc list.map map_Suc_upt [symmetric] map_map comp_def)
qed

text \<open>The read loop copies the front of the queue into the caller's window and removes it.\<close>

lemma input_read_loop_spec:
  assumes "in_inv t s" and "in_buf (tasks s t) \<noteq> 0" and "window (kmm s) a lo w" and "k + n \<le> 4 * w"
  shows "\<exists>m s'. user_bytes.put lo k (take n (in_queue t s)) (kmm s) = Inr m \<and>
    input_read_loop t (lo + of_nat k) n s = Inr (of_nat (min n (length (in_queue t s))), s') \<and>
    kmm s' = m \<and> in_inv t s' \<and> in_queue t s' = drop n (in_queue t s)"
  using assms
proof (induction n arbitrary: s k)
  case 0
  then show ?case by simp
next
  case (Suc n)
  let ?x = "tasks s t"
  show ?case
  proof (cases "in_head ?x = in_tail ?x")
    case True
    then have "in_queue t s = []" using in_queue_Nil [OF Suc.prems(1)] by simp
    then show ?thesis using True Suc.prems(1) by simp
  next
    case False
    let ?c = "kbytes s (in_buf ?x + in_tail ?x)"
    have q: "in_queue t s = ?c # in_queue t (in_pop t s)" using in_pop(2) [OF Suc.prems(1) False] .
    obtain m1 where m1: "vwrite8 (kmm s) (lo + of_nat k) ?c = Inr m1" "window m1 a lo w"
      using user_bytes.wr [OF Suc.prems(3), of k ?c] Suc.prems(4) by auto
    let ?s1 = "in_pop t (s\<lparr>kmm := m1\<rparr>)"
    have q1: "in_queue t ?s1 = in_queue t (in_pop t s)" "kmm ?s1 = m1" "in_buf (tasks ?s1 t) = in_buf ?x"
      by (simp_all add: in_pop_def in_queue_def)
    have "in_inv t ?s1" using in_pop(1) [of t "s\<lparr>kmm := m1\<rparr>"] Suc.prems(1) False by simp
    from Suc.IH [OF this, of "Suc k"] q1 m1(2) Suc.prems(2,4) obtain m s' where
      m: "user_bytes.put lo (Suc k) (take n (in_queue t (in_pop t s))) m1 = Inr m"
      "input_read_loop t (lo + of_nat (Suc k)) n ?s1 = Inr (of_nat (min n (length (in_queue t (in_pop t s)))), s')"
      "kmm s' = m" "in_inv t s'" "in_queue t s' = drop n (in_queue t (in_pop t s))" by auto
    have e: "lo + of_nat (Suc k) = lo + of_nat k + 1" by (simp add: algebra_simps)
    have "input_read_loop t (lo + of_nat k) (Suc n) s = Inr (of_nat (min (Suc n) (length (in_queue t s))), s')"
      using m(2) m1(1) False Suc.prems(2) unfolding e in_pop_def q by (simp add: Let_def add.commute)
    then show ?thesis using m m1(1) unfolding q by auto
  qed
qed

lemma s32_of_nat: "k < 2147483648 \<Longrightarrow> s32 (of_nat k) = int k"
  by (simp add: s32_def signed_of_nat signed_take_bit_int_eq_self)

section \<open>The log\<close>

definition log_inv :: "task \<Rightarrow> bool" where
  "log_inv x \<longleftrightarrow> log_head x < TASK_LOG_SIZE \<and> log_len x \<le> TASK_LOG_SIZE \<and> (log_len x < TASK_LOG_SIZE \<longrightarrow> log_head x = log_len x)"

lemma log_inv_ring: "log_inv x \<longleftrightarrow> ring_ok 1024 (unat (log_head x)) (unat (log_len x))"
  by (auto simp: log_inv_def ring_ok_def word_less_nat_alt word_le_nat_alt word_unat_eq_iff)

lemma log_contents_ring:
  assumes "log_inv x"
  shows "log_contents x s = ring_view 1024 (\<lambda>i. kbytes s (log_buf x + of_nat i)) (unat (log_head x)) (unat (log_len x))"
proof -
  define st where "st = (if log_len x < TASK_LOG_SIZE then 0 else log_head x)"
  have st: "unat st < 1024" using assms by (auto simp: st_def log_inv_def word_less_nat_alt)
  have "(st + of_nat i) AND 0x3FF = of_nat ((unat st + i) mod 1024)" if "i < unat (log_len x)" for i
  proof -
    have "i < 1024" using that assms by (simp add: log_inv_def word_le_nat_alt)
    then have "unat (st + of_nat i) = unat st + i" using st by (simp add: unat_word_ariths unat_of_nat_u32)
    then have "unat ((st + of_nat i) AND 0x3FF) = (unat st + i) mod 1024" by (simp add: unat_and_3ff)
    then have "of_nat (unat ((st + of_nat i) AND 0x3FF)) = (of_nat ((unat st + i) mod 1024) :: u32)" by (simp only:)
    then show ?thesis by (simp only: of_nat_unat ucast_id)
  qed
  then show ?thesis
    by (auto simp: log_contents_def Let_def ring_view_def ring_read_def u32_range_def st_def [symmetric] intro!: map_cong)
      (simp_all add: st_def word_less_nat_alt)
qed


text \<open>Nothing but the log of \<open>t\<close> changes.\<close>

definition only_log :: "tptr \<Rightarrow> kst \<Rightarrow> kst \<Rightarrow> bool" where
  "only_log t s s' \<longleftrightarrow> (\<exists>b h n. s' = s\<lparr>kbytes := b, tasks := (tasks s)(t := tasks s t\<lparr>log_head := h, log_len := n\<rparr>)\<rparr>)"

lemma only_log_refl: "only_log t s s"
proof -
  have "s = s\<lparr>kbytes := kbytes s, tasks := (tasks s)(t := tasks s t\<lparr>log_head := log_head (tasks s t), log_len := log_len (tasks s t)\<rparr>)\<rparr>"
    by simp
  then show ?thesis unfolding only_log_def by blast
qed

lemma only_log_trans: "only_log t s s1 \<Longrightarrow> only_log t s1 s2 \<Longrightarrow> only_log t s s2"
  unfolding only_log_def by (elim exE) (simp, blast)

lemma only_logD:
  assumes "only_log t s s'"
  shows "kmm s' = kmm s" "current_task s' = current_task s" "task_list_head s' = task_list_head s" "terminal s' = terminal s"
    "task_next (tasks s' u) = task_next (tasks s u)" "pid (tasks s' u) = pid (tasks s u)" "log_buf (tasks s' u) = log_buf (tasks s u)"
  using assms by (auto simp: only_log_def)

lemma task_log_putchar_spec:
  assumes "log_buf (tasks s t) \<noteq> 0" and "log_inv (tasks s t)"
  shows "\<exists>s'. task_log_putchar t c s = Inr s' \<and> log_contents (tasks s' t) s' = last_n 1024 (log_contents (tasks s t) s @ [c]) \<and>
    log_inv (tasks s' t) \<and> only_log t s s'"
proof -
  let ?x = "tasks s t"
  let ?h = "unat (log_head ?x)" and ?n = "unat (log_len ?x)"
  let ?b = "\<lambda>i. kbytes s (log_buf ?x + of_nat i)"
  define y where "y = ?x\<lparr>log_head := (log_head ?x + 1) AND 0x3FF, log_len := (if log_len ?x < TASK_LOG_SIZE then log_len ?x + 1 else log_len ?x)\<rparr>"
  define s' where "s' = s\<lparr>kbytes := (kbytes s)(log_buf ?x + log_head ?x := c), tasks := (tasks s)(t := y)\<rparr>"
  have ok: "ring_ok 1024 ?h ?n" using assms(2) by (simp add: log_inv_ring)
  have h: "?h < 1024" "?n \<le> 1024" using ok by (simp_all add: ring_ok_def)
  have hd: "unat (log_head y) = (?h + 1) mod 1024" using h(1) by (simp add: y_def unat_and_3ff unat_word_ariths)
  have len: "unat (log_len y) = min 1024 (?n + 1)"
    using h by (auto simp: y_def word_less_nat_alt unat_word_ariths)
  have inv: "log_inv y" using ring_store(2) [OF ok] by (simp add: log_inv_ring hd len)
  have "log_buf ?x + of_nat i = log_buf ?x + log_head ?x \<longleftrightarrow> i = ?h" if "i < 1024" for i
    using ring_cell_inject [OF that h(1), of "log_buf ?x"] by simp
  then have "log_contents y s' = ring_view 1024 (?b(?h := c)) ((?h + 1) mod 1024) (min 1024 (?n + 1))"
    unfolding log_contents_ring [OF inv] hd len ring_view_def by (intro ring_read_cong) (auto simp: s'_def y_def)
  then have "log_contents y s' = last_n 1024 (log_contents ?x s @ [c])"
    using ring_store(1) [OF ok] log_contents_ring [OF assms(2)] by simp
  moreover have "task_log_putchar t c s = Inr s'"
    using assms(1) by (simp add: task_log_putchar_def Let_def s'_def y_def upd_def)
  moreover have "only_log t s s'" unfolding only_log_def s'_def y_def by blast
  moreover have "tasks s' t = y" by (simp add: s'_def)
  ultimately show ?thesis using inv by auto
qed

lemma write_loop_spec:
  assumes "log_buf (tasks s (current_task s)) \<noteq> 0" and "log_inv (tasks s (current_task s))"
    and "\<And>i. i < n \<Longrightarrow> vread8 (kmm s) (buf + of_nat i) = Inr (bs i)"
  defines "c \<equiv> current_task s"
  shows "\<exists>s'. for_each (write_byte buf) (map of_nat [0..<n]) s = Inr s' \<and>
    log_contents (tasks s' c) s' = last_n 1024 (log_contents (tasks s c) s @ map bs [0..<n]) \<and>
    log_inv (tasks s' c) \<and> only_log c s s'"
  using assms(3)
proof (induction n)
  case 0
  have "length (log_contents (tasks s c) s) \<le> 1024"
    using assms(2) by (simp add: c_def log_contents_ring ring_view_def log_inv_ring ring_ok_def)
  then show ?case using assms(2) only_log_refl by (simp add: last_n_def c_def)
next
  case (Suc n)
  from Suc obtain s1 where s1: "for_each (write_byte buf) (map of_nat [0..<n]) s = Inr s1"
    "log_contents (tasks s1 c) s1 = last_n 1024 (log_contents (tasks s c) s @ map bs [0..<n])"
    "log_inv (tasks s1 c)" "only_log c s s1" by auto
  have "log_buf (tasks s1 c) \<noteq> 0" using assms(1) only_logD(7) [OF s1(4)] by (simp add: c_def)
  then obtain s2 where s2: "task_log_putchar c (bs n) s1 = Inr s2"
    "log_contents (tasks s2 c) s2 = last_n 1024 (log_contents (tasks s1 c) s1 @ [bs n])"
    "log_inv (tasks s2 c)" "only_log c s1 s2"
    using task_log_putchar_spec [OF _ s1(3), of "bs n"] by auto
  have "write_byte buf (of_nat n) s1 = Inr s2"
    using s2(1) Suc.prems [of n] only_logD(1,2) [OF s1(4)] by (simp add: write_byte_def c_def)
  then have "for_each (write_byte buf) (map of_nat [0..<Suc n]) s = Inr s2"
    using s1(1) by (simp add: for_each_append)
  then show ?case using s2 s1(2) only_log_trans [OF s1(4) s2(4)] by (auto simp: last_n_append)
qed

section \<open>Properties\<close>

text \<open>
  C21. A line typed for a task reaches it in order: \<open>task_feed\<close> appends the line and a newline to the
  task's input queue, dropping what exceeds 255 characters, and \<open>read\<close> moves the front of that queue,
  as much as fits the caller's buffer, to the buffer and returns how much that was; the rest stays
  queued.
\<close>

theorem task_feed_read_fifo:
  assumes "runq s xs" and "find (\<lambda>t. pid (tasks s t) = p) xs = Some (current_task s)"
    and "in_inv (current_task s) s" and "in_buf (tasks s (current_task s)) \<noteq> 0"
    and "window (kmm s) a lo w" and "unat n \<le> 4 * w" and "user_range_ok lo n"
  shows "\<exists>s1 s2 k. task_feed p line s = Inr (0, s1) \<and>
    in_queue (current_task s) s1 = take 255 (in_queue (current_task s) s @ line @ [10]) \<and>
    k = min (unat n) (length (in_queue (current_task s) s1)) \<and>
    sys_read 0 lo n s1 = Inr (Done (int k), s2) \<and>
    (\<forall>i<k. vread8 (kmm s2) (lo + of_nat i) = Inr (in_queue (current_task s) s1 ! i)) \<and>
    in_queue (current_task s) s2 = drop k (in_queue (current_task s) s1)"
proof -
  let ?c = "current_task s"
  let ?s1 = "fold (task_input_push ?c) (line @ [10]) s"
  have f: "find_pid s p (task_list_head s) = Some (Some ?c)"
    using assms(1,2) find_pid_chain [of s _ xs p] by (simp add: runq_def)
  have feed: "task_feed p line s = Inr (0, ?s1)" using assms(4) by (simp add: task_feed_def f)
  have q: "in_inv ?c ?s1" "in_queue ?c ?s1 = take 255 (in_queue ?c s @ line @ [10])"
    using input.push_all [OF assms(3), of "line @ [10]"] by simp_all
  have keep: "kmm (fold (task_input_push ?c) l s) = kmm s \<and> current_task (fold (task_input_push ?c) l s) = ?c \<and>
      in_buf (tasks (fold (task_input_push ?c) l s) ?c) = in_buf (tasks s ?c)" for l
    by (induction l rule: rev_induct) (auto simp: task_input_push_def Let_def)
  let ?k = "min (unat n) (length (in_queue ?c ?s1))"
  obtain m s2 where s2: "user_bytes.put lo 0 (take (unat n) (in_queue ?c ?s1)) (kmm ?s1) = Inr m"
    "input_read_loop ?c (lo + of_nat 0) (unat n) ?s1 = Inr (of_nat ?k, s2)" "kmm s2 = m"
    "in_queue ?c s2 = drop (unat n) (in_queue ?c ?s1)"
    using input_read_loop_spec [OF q(1), of a lo w 0 "unat n"] keep [of "line @ [10]"] assms(4-6) by auto
  have k: "?k \<le> 255" using input.queue_bound [OF q(1)] by simp
  have "s32 (of_nat ?k) = int ?k" using k by (intro s32_of_nat) simp
  then have "sys_read 0 lo n ?s1 = Inr (Done (int ?k), s2)"
    using s2(2) keep [of "line @ [10]"] assms(7) by (simp add: sys_read_def task_input_read_def)
  moreover have "\<forall>i<?k. vread8 (kmm s2) (lo + of_nat i) = Inr (in_queue ?c ?s1 ! i)"
    using user_bytes.put_spec [of "kmm ?s1" a lo w 0 "take (unat n) (in_queue ?c ?s1)"] s2(1,3) keep [of "line @ [10]"] assms(5,6)
    by auto
  moreover have "in_queue ?c s2 = drop ?k (in_queue ?c ?s1)" using s2(4) by (simp add: min_def)
  ultimately show ?thesis using feed q(2) by blast
qed

text \<open>A task with both rings allocated.\<close>

definition demo_rings :: kst where
  "demo_rings = upd (Dyn 0x100) (\<lambda>x. x\<lparr>in_buf := 0x5000, log_buf := 0x6000\<rparr>) demo_user"

lemma demo_rings:
  "runq demo_rings [Dyn 0x100, Init_task]" "find (\<lambda>t. pid (tasks demo_rings t) = 0) [Dyn 0x100, Init_task] = Some (current_task demo_rings)"
  "current_task demo_rings = Dyn 0x100" "in_inv (Dyn 0x100) demo_rings" "in_queue (Dyn 0x100) demo_rings = []"
  "in_buf (tasks demo_rings (Dyn 0x100)) = 0x5000" "log_buf (tasks demo_rings (Dyn 0x100)) = 0x6000"
  "log_inv (tasks demo_rings (Dyn 0x100))" "log_contents (tasks demo_rings (Dyn 0x100)) demo_rings = []"
  "kmm demo_rings = boot_mm one_free"
proof -
  have t: "tasks demo_rings (Dyn 0x100) = zero_task\<lparr>parent := Some Init_task, sibling := Some Kthreadd_task,
      task_next := Some Init_task, in_buf := 0x5000, log_buf := 0x6000\<rparr>"
    using demo_user(4) by (simp add: demo_rings_def)
  show c: "current_task demo_rings = Dyn 0x100" using demo_user(2) by (simp add: demo_rings_def)
  show "runq demo_rings [Dyn 0x100, Init_task]" using demo_user(1) by (simp add: runq_def demo_rings_def)
  show "find (\<lambda>t. pid (tasks demo_rings t) = 0) [Dyn 0x100, Init_task] = Some (current_task demo_rings)"
    using c by (simp add: t zero_task_def)
  show "kmm demo_rings = boot_mm one_free" using demo_user(6) by (simp add: demo_rings_def)
qed (simp_all add: demo_rings_def demo_user(4) zero_task_def in_inv_def in_queue_def in_count_def log_inv_def log_contents_def u32_range_def)

theorem task_feed_read_fifo_witness:
  "\<exists>s1 s2. task_feed 0 [104, 105] demo_rings = Inr (0, s1) \<and> sys_read 0 0x09000000 8 s1 = Inr (Done 3, s2) \<and>
    vread8 (kmm s2) 0x09000001 = Inr 105 \<and> in_queue (Dyn 0x100) s2 = []"
proof -
  have "window (kmm demo_rings) (\<lambda>i. 0x09000000 + 4 * of_nat i) 0x09000000 2"
    unfolding demo_rings(10) by (rule flat_window) simp_all
  from task_feed_read_fifo [OF demo_rings(1) demo_rings(2) _ _ this, of 8 "[104, 105]"] demo_rings(3-6)
  obtain s1 s2 k where "task_feed 0 [104, 105] demo_rings = Inr (0, s1)"
    "in_queue (Dyn 0x100) s1 = [104, 105, 10]" "k = min 8 (length (in_queue (Dyn 0x100) s1))"
    "sys_read 0 0x09000000 8 s1 = Inr (Done (int k), s2)"
    "\<forall>i<k. vread8 (kmm s2) (0x09000000 + of_nat i) = Inr (in_queue (Dyn 0x100) s1 ! i)"
    "in_queue (Dyn 0x100) s2 = drop k (in_queue (Dyn 0x100) s1)"
    by (auto simp: user_range_ok_def)
  then show ?thesis by (intro exI [of _ s1] exI [of _ s2]) (auto dest: spec [of _ 1])
qed

text \<open>
  C35. What a task writes is what \<open>plog\<close> shows: \<open>write\<close> appends the bytes of a readable user buffer to the
  task's log, of which the last 1024 are kept, and returns their number, and \<open>task_dump_log\<close> of the
  task's pid then prints exactly that log.
\<close>

theorem sys_write_then_dump:
  assumes "runq s xs" and "find (\<lambda>t. pid (tasks s t) = p) xs = Some (current_task s)"
    and "log_inv (tasks s (current_task s))" and "log_buf (tasks s (current_task s)) \<noteq> 0"
    and "user_range_ok buf n" and "n \<noteq> 0" and "fd = 1 \<or> fd = 2"
    and "\<And>i. i < unat n \<Longrightarrow> vread8 (kmm s) (buf + of_nat i) = Inr (bs i)"
  shows "\<exists>s1 s2. sys_write fd buf n s = Inr (Done (s32 n), s1) \<and> task_dump_log p s1 = Inr s2 \<and>
    rev (terminal s2) = rev (terminal s) @ last_n 1024 (log_contents (tasks s (current_task s)) s @ map bs [0..<unat n])"
proof -
  let ?c = "current_task s"
  obtain s1 where s1: "for_each (write_byte buf) (map of_nat [0..<unat n]) s = Inr s1"
    "log_contents (tasks s1 ?c) s1 = last_n 1024 (log_contents (tasks s ?c) s @ map bs [0..<unat n])" "only_log ?c s s1"
    using write_loop_spec [OF assms(4,3), of "unat n" buf bs] assms(8) by auto
  note same = only_logD [OF s1(3)]
  have w: "sys_write fd buf n s = Inr (Done (s32 n), s1)"
    using s1(1) assms(5,7) by (auto simp: sys_write_def u32_range_def)
  have "find_pid s1 p (task_list_head s1) = Some (Some ?c)"
    using find_pid_chain [of s1 _ xs p] assms(1,2) by (simp add: same runq_def)
  moreover have "log_len (tasks s1 ?c) \<noteq> 0"
  proof
    assume "log_len (tasks s1 ?c) = 0"
    then have "log_contents (tasks s1 ?c) s1 = []" by (simp add: log_contents_def u32_range_def)
    moreover have "0 < unat n" using assms(6) by (simp add: unat_gt_0)
    ultimately show False using s1(2) by (auto simp: last_n_def)
  qed
  ultimately have "task_dump_log p s1 = Inr (s1\<lparr>terminal := rev (log_contents (tasks s1 ?c) s1) @ terminal s1\<rparr>)"
    using assms(4) same(7) by (simp add: task_dump_log_def Let_def)
  then show ?thesis using w s1(2) same(4) by simp
qed

theorem sys_write_then_dump_witness:
  "\<exists>s1 s2. sys_write 1 0x09000000 3 demo_rings = Inr (Done 3, s1) \<and> task_dump_log 0 s1 = Inr s2 \<and>
    rev (terminal s2) = rev (terminal demo_rings) @ [0, 0, 0]"
  using sys_write_then_dump [OF demo_rings(1) demo_rings(2), of "0x09000000" 3 1 "\<lambda>_. 0"]
  by (auto simp: demo_rings flat_read user_range_ok_def s32_def last_n_def upt_conv_Cons)

end
