(* ===== verification/Shell_Spec.thy ===== *)
theory Shell_Spec
  imports Shell_Exec Printk_Spec Task_Rings
begin

text \<open>
  The shell: what it needs of the terminal as an interface, decimal numbers round trip between its output and
  its parser, the line editor refines an abstract line with its echo, and a \<open>kill\<close> line does to the tasks what
  \<open>kernel_signal_send\<close> does for the numbers typed.
\<close>

section \<open>The terminal as a character device\<close>

locale char_device =
  fixes put :: "char \<Rightarrow> 'v \<Rightarrow> 'v res"
    and ok :: "'v \<Rightarrow> bool"
    and tint :: "'v \<Rightarrow> u8"
    and shown :: "'v \<Rightarrow> 'a"
    and typed :: "u8 \<Rightarrow> char \<Rightarrow> 'a \<Rightarrow> 'a"
  assumes put_types: "ok v \<Longrightarrow> \<exists>v'. put c v = Inr v' \<and> ok v' \<and> tint v' = tint v \<and> shown v' = typed (tint v) c (shown v)"
begin

lemma puts_types:
  "ok v \<Longrightarrow> \<exists>v'. for_each put cs v = Inr v' \<and> ok v' \<and> tint v' = tint v \<and> shown v' = fold (typed (tint v)) cs (shown v)"
proof (induction cs arbitrary: v)
  case (Cons c cs)
  obtain v1 where v1: "put c v = Inr v1" "ok v1" "tint v1 = tint v" "shown v1 = typed (tint v) c (shown v)"
    using put_types [OF Cons.prems] by blast
  then show ?case using Cons.IH [OF v1(2)] by simp
qed simp

end

definition console_ok :: "vga \<Rightarrow> bool" where
  "console_ok v \<longleftrightarrow> vga_inv v \<and> scroll_back v = 0"

interpretation dev: char_device terminal_putchar console_ok terminal_color view type_char
  by unfold_locales (use terminal_putchar_spec in \<open>auto simp: console_ok_def\<close>)

section \<open>Output leaves the rest of the state alone\<close>

definition quiet :: "shell \<Rightarrow> shell res \<Rightarrow> bool" where
  "quiet sh r \<longleftrightarrow> (\<exists>v. r = Inr (sh\<lparr>con := v\<rparr>) \<and> console_ok v \<and> terminal_color v = terminal_color (con sh))"

lemma quietE:
  assumes "quiet sh r"
  obtains v where "r = Inr (sh\<lparr>con := v\<rparr>)" "console_ok v" "terminal_color v = terminal_color (con sh)"
  using assms by (auto simp: quiet_def)

lemma putc_types:
  assumes "console_ok (con sh)"
  shows "\<exists>v. putc c sh = Inr (sh\<lparr>con := v\<rparr>) \<and> console_ok v \<and> terminal_color v = terminal_color (con sh) \<and>
    view v = type_char (terminal_color (con sh)) c (view (con sh))"
  using dev.put_types [OF assms, of c] by (auto simp: putc_def on_con_def)

lemma writestring_quiet:
  assumes "console_ok v"
  shows "\<exists>v'. terminal_writestring str v = Inr v' \<and> console_ok v' \<and> terminal_color v' = terminal_color v"
  using dev.puts_types [OF assms, of "takeWhile (\<lambda>c. c \<noteq> CHR 0x00) str"]
  by (auto simp: terminal_writestring_def terminal_write_def)

lemma say_quiet: "console_ok (con sh) \<Longrightarrow> quiet sh (say str sh)" "console_ok (con sh) \<Longrightarrow> quiet sh (say_line str sh)"
proof -
  show "quiet sh (say str sh)" if "console_ok (con sh)" for str
    using writestring_quiet [OF that, of str] by (auto simp: say_def on_con_def quiet_def)
  then show "console_ok (con sh) \<Longrightarrow> quiet sh (say_line str sh)" by (simp add: say_line_def)
qed

lemma console_ok_color [simp]: "console_ok (v\<lparr>terminal_color := c\<rparr>) \<longleftrightarrow> console_ok v"
  by (simp add: console_ok_def vga_inv_def wide_def max_back_def shows_row_def)

lemma shell_print_prompt_quiet:
  assumes "console_ok (con sh)"
  shows "quiet sh (shell_print_prompt sh)"
proof -
  define v0 where "v0 = (con sh)\<lparr>terminal_color := vga_entry_color 12 0\<rparr>"
  obtain v1 where v1: "terminal_writestring ''hekaterm'' v0 = Inr v1" "console_ok v1"
    using writestring_quiet [of v0 "''hekaterm''"] assms by (auto simp: v0_def)
  define v2 where "v2 = v1\<lparr>terminal_color := vga_entry_color 7 0\<rparr>"
  obtain v3 where v3: "terminal_writestring ''> '' v2 = Inr v3" "console_ok v3"
    using writestring_quiet [of v2 "''> ''"] v1(2) by (auto simp: v2_def)
  have "shell_print_prompt sh = Inr (sh\<lparr>con := v3\<lparr>terminal_color := terminal_color (con sh)\<rparr>\<rparr>)"
    using v1(1) v3(1) unfolding v2_def v0_def
    by (simp add: shell_print_prompt_def seq_def Let_def on_con_def say_def terminal_setcolor_def terminal_getcolor_def)
  then show ?thesis using v3(2) unfolding quiet_def
    by (intro exI [of _ "v3\<lparr>terminal_color := terminal_color (con sh)\<rparr>"]) simp
qed

section \<open>Numbers\<close>

lemma digit_char: "i < 10 \<Longrightarrow> is_digit (HEX_DIGITS ! i) \<and> of_char (HEX_DIGITS ! i) = 48 + i"
proof -
  assume "i < 10"
  then have "i \<in> {0, 1, 2, 3, 4, 5, 6, 7, 8, 9}" by auto
  then show ?thesis by (auto simp: HEX_DIGITS_def is_digit_def)
qed

lemma parse_loop_append: "list_all is_digit ds \<Longrightarrow> parse_loop v (ds @ rest) = parse_loop (fst (parse_loop v ds)) rest"
  by (induction ds arbitrary: v) auto

lemma numeral_digits: "list_all is_digit (numeral_in 10 n) \<and> numeral_in 10 n \<noteq> []"
proof (induction n rule: less_induct)
  case (less n)
  show ?case using less [of "n div 10"] digit_char [of n] digit_char [of "n mod 10"]
    by (subst (1 2) numeral_in.simps) (auto simp: not_less)
qed

lemma parse_numeral: "fst (parse_loop 0 (numeral_in 10 n)) = of_nat n"
proof (induction n rule: less_induct)
  case (less n)
  show ?case
  proof (cases "n < 10")
    case True
    then show ?thesis using digit_char [of n] by (subst numeral_in.simps) simp
  next
    case False
    let ?d = "HEX_DIGITS ! (n mod 10)"
    have d: "is_digit ?d" "of_char ?d - 48 = n mod 10" using digit_char [of "n mod 10"] by simp_all
    have "n = n div 10 * 10 + n mod 10" by simp
    then have n: "(of_nat n :: u32) = of_nat (n div 10) * 10 + of_nat (n mod 10)"
      by (metis of_nat_add of_nat_mult of_nat_numeral)
    show ?thesis using less [of "n div 10"] False d numeral_digits [of "n div 10"] n
      by (subst numeral_in.simps) (simp add: parse_loop_append)
  qed
qed

definition ends_number :: "string \<Rightarrow> bool" where
  "ends_number rest \<longleftrightarrow> rest = [] \<or> \<not> is_digit (hd rest)"

lemma shell_parse_numeral:
  assumes "ends_number rest"
  shows "shell_parse_uint (numeral_in 10 n @ rest) = Some (of_nat n, rest)"
proof -
  have "parse_loop v rest = (v, rest)" for v using assms by (cases rest) (auto simp: ends_number_def)
  then have "parse_loop 0 (numeral_in 10 n @ rest) = (of_nat n, rest)"
    using parse_loop_append [of "numeral_in 10 n" 0 rest] numeral_digits [of n] parse_numeral [of n] by simp
  then show ?thesis using numeral_digits [of n]
    by (cases "numeral_in 10 n") (auto simp: shell_parse_uint_def)
qed

lemma digit_loop_put_digits: "digit_loop n base v p = bnd (put_digits n base v p) (\<lambda>(_, p). Inr p)"
  by (induction n arbitrary: v p) (auto simp: HEX_DIGITS_def word_gt_0)

lemma digit_loop_numeral:
  "0 < v \<Longrightarrow> unat v < unat base ^ n \<Longrightarrow> 2 \<le> unat base \<Longrightarrow> digit_loop n base v '''' = Inr (numeral_in (unat base) (unat v))"
  using put_digits_numeral [of v base n 0 "''''"] by (auto simp: digit_loop_put_digits)

lemma terminal_write_uint_numeral: "terminal_write_uint v sh = say (numeral_in 10 (unat v)) sh"
proof (cases "v = 0")
  case True
  then show ?thesis by (simp add: terminal_write_uint_def numeral_in.simps HEX_DIGITS_def)
next
  case False
  then have "digit_loop 10 10 v '''' = Inr (numeral_in 10 (unat v))"
    using digit_loop_numeral [of v 10 10] unat_lt_u32 [of v] by (simp add: word_gt_0)
  then show ?thesis using False by (simp add: terminal_write_uint_def)
qed

text \<open>
  The digits that \<open>terminal_write_uint\<close> prints for a value, copied into a command line, are read back by
  \<open>shell_parse_uint\<close> as that value, up to the first character that is not a digit; printing never runs out of its
  local buffer.
\<close>

theorem write_parse_uint_roundtrip:
  assumes "rest = [] \<or> \<not> is_digit (hd rest)"
  shows "terminal_write_uint v sh = say (numeral_in 10 (unat v)) sh \<and>
    shell_parse_uint (numeral_in 10 (unat v) @ rest) = Some (v, rest)"
  using terminal_write_uint_numeral [of v sh] shell_parse_numeral [of rest "unat v"] assms by (simp add: ends_number_def)

text \<open>The value 1024 between a label and a space.\<close>

theorem write_parse_uint_roundtrip_witness:
  "(\<forall>sh. terminal_write_uint 1024 sh = say ''1024'' sh) \<and> shell_parse_uint ''1024 9'' = Some (1024, '' 9'')"
proof -
  have "\<not> is_digit (hd '' 9'')" by (simp add: is_digit_def)
  moreover have "numeral_in 10 (unat (1024 :: u32)) = ''1024''" by (simp add: numeral_in.simps HEX_DIGITS_def)
  ultimately show ?thesis using write_parse_uint_roundtrip [of "'' 9''" 1024] by simp
qed

section \<open>The line editor\<close>

text \<open>The line typed so far.\<close>

definition line :: "shell \<Rightarrow> string" where
  "line sh = take (cmd_index sh) (cmd_buffer sh)"

definition editor_ok :: "shell \<Rightarrow> bool" where
  "editor_ok sh \<longleftrightarrow> console_ok (con sh) \<and> length (cmd_buffer sh) = 256 \<and> cmd_index sh < 256"

text \<open>One key on the abstract editor: a line of at most 255 characters and the screen it is echoed on.\<close>

fun type_key :: "u8 \<Rightarrow> char \<Rightarrow> string \<times> screen \<Rightarrow> string \<times> screen" where
  "type_key color c (l, v) =
     (if c = CHR 0x08 then if l = [] then (l, v) else (butlast l, type_char color c v)
      else if length l < 255 then (l @ [c], type_char color c v) else (l, v))"

text \<open>The states that differ in the console and the line only.\<close>

definition edits :: "shell \<Rightarrow> shell \<Rightarrow> bool" where
  "edits sh sh' \<longleftrightarrow> sh'\<lparr>con := con sh, cmd_buffer := cmd_buffer sh, cmd_index := cmd_index sh\<rparr> = sh"

lemma edits_refl: "edits sh sh"
  by (simp add: edits_def)

lemma edits_trans: "edits a b \<Longrightarrow> edits b c \<Longrightarrow> edits a c"
  unfolding edits_def by (cases a; cases b; cases c) simp

lemma length_line: "editor_ok sh \<Longrightarrow> length (line sh) = cmd_index sh"
  by (simp add: line_def editor_ok_def)

lemma shell_add_char_step:
  assumes "editor_ok sh" and "c \<noteq> CHR 0x0A"
  shows "\<exists>sh'. shell_add_char im c sh = Inr (True, sh') \<and> editor_ok sh' \<and> edits sh sh' \<and>
    terminal_color (con sh') = terminal_color (con sh) \<and>
    (line sh', view (con sh')) = type_key (terminal_color (con sh)) c (line sh, view (con sh))"
proof -
  have ok: "console_ok (con sh)" "length (cmd_buffer sh) = 256" "cmd_index sh < 256" using assms(1) by (simp_all add: editor_ok_def)
  have len: "length (line sh) = cmd_index sh" by (rule length_line [OF assms(1)])
  consider (bs) "c = CHR 0x08" "0 < cmd_index sh" | (bs0) "c = CHR 0x08" "cmd_index sh = 0"
    | (room) "c \<noteq> CHR 0x08" "cmd_index sh < 255" | (full) "c \<noteq> CHR 0x08" "cmd_index sh = 255" using ok(3) by linarith
  then show ?thesis
  proof cases
    case bs
    let ?sh = "sh\<lparr>cmd_index := cmd_index sh - 1\<rparr>"
    obtain v where v: "putc c ?sh = Inr (?sh\<lparr>con := v\<rparr>)" "console_ok v" "terminal_color v = terminal_color (con sh)"
      "view v = type_char (terminal_color (con sh)) c (view (con sh))" using putc_types [of ?sh c] ok(1) by auto
    moreover have "butlast (line sh) = take (cmd_index sh - 1) (cmd_buffer sh)"
      using ok(2,3) bs(2) by (simp add: line_def butlast_take)
    moreover have "line sh \<noteq> []" using bs(2) len by auto
    ultimately show ?thesis using bs ok by (simp add: shell_add_char_def editor_ok_def edits_def line_def)
  next
    case bs0
    then show ?thesis using assms(1) by (simp add: shell_add_char_def edits_refl line_def)
  next
    case room
    let ?sh = "sh\<lparr>cmd_buffer := (cmd_buffer sh)[cmd_index sh := c], cmd_index := cmd_index sh + 1\<rparr>"
    obtain v where v: "putc c ?sh = Inr (?sh\<lparr>con := v\<rparr>)" "console_ok v" "terminal_color v = terminal_color (con sh)"
      "view v = type_char (terminal_color (con sh)) c (view (con sh))" using putc_types [of ?sh c] ok(1) by auto
    moreover have "take (Suc (cmd_index sh)) ((cmd_buffer sh)[cmd_index sh := c]) = line sh @ [c]"
      using ok(2,3) by (simp add: line_def take_Suc_conv_app_nth)
    ultimately show ?thesis using room ok len assms(2) by (simp add: shell_add_char_def editor_ok_def edits_def line_def)
  next
    case full
    then show ?thesis using assms len by (simp add: shell_add_char_def edits_refl)
  qed
qed

lemma char_roundtrip: "char_of (unat (of_char c :: u8)) = c"
proof -
  have "unat (of_char c :: u8) = of_char c mod 2 ^ 8"
    using unat_of_nat [of "of_char c", where ?'a = 8] by (simp add: of_nat_of_char)
  also have "\<dots> = (of_char (char_of (of_char c :: nat)) :: nat)" by (simp only: of_char_of) simp
  finally show ?thesis by simp
qed

definition key_calls :: "string \<Rightarrow> kbd_call list" where
  "key_calls cs = map (\<lambda>c. Shell_add_char (of_char c)) cs"

lemma typing:
  assumes "editor_ok sh" and "CHR 0x0A \<notin> set cs"
  shows "\<exists>sh'. run_calls im (key_calls cs) sh = Inr (True, sh') \<and> editor_ok sh' \<and> edits sh sh' \<and>
    terminal_color (con sh') = terminal_color (con sh) \<and>
    (line sh', view (con sh')) = fold (type_key (terminal_color (con sh))) cs (line sh, view (con sh))"
  using assms
proof (induction cs arbitrary: sh)
  case (Cons c cs)
  obtain s1 where s1: "shell_add_char im c sh = Inr (True, s1)" "editor_ok s1" "edits sh s1"
    "terminal_color (con s1) = terminal_color (con sh)"
    "(line s1, view (con s1)) = type_key (terminal_color (con sh)) c (line sh, view (con sh))"
    using shell_add_char_step [OF Cons.prems(1), of c im] Cons.prems(2) by auto
  obtain s2 where s2: "run_calls im (key_calls cs) s1 = Inr (True, s2)" "editor_ok s2" "edits s1 s2"
    "terminal_color (con s2) = terminal_color (con s1)"
    "(line s2, view (con s2)) = fold (type_key (terminal_color (con s1))) cs (line s1, view (con s1))"
    using Cons.IH [OF s1(2)] Cons.prems(2) by auto
  have "run_calls im (key_calls (c # cs)) sh = Inr (True, s2)"
    using s1(1) s2(1) by (simp add: key_calls_def run_call_def char_roundtrip)
  then show ?case using s2 s1(4,5) edits_trans [OF s1(3) s2(3)] by simp
qed (simp add: key_calls_def edits_refl)

lemma type_key_chars:
  "set (fst (fold (type_key color) cs (l, v))) \<subseteq> set l \<union> set cs \<and> (length l \<le> 255 \<longrightarrow> length (fst (fold (type_key color) cs (l, v))) \<le> 255)"
proof (induction cs arbitrary: l v)
  case (Cons c cs)
  obtain l' v' where lv: "type_key color c (l, v) = (l', v')" using surj_pair by metis
  have l': "l' = (if c = CHR 0x08 then butlast l else if length l < 255 then l @ [c] else l)"
    using arg_cong [OF lv, of fst] by (cases "l = []") (simp_all split: if_splits)
  have "set l' \<subseteq> set l \<union> {c}" unfolding l' using in_set_butlastD [of _ l] by (simp add: subset_iff)
  moreover have "length l \<le> 255 \<longrightarrow> length l' \<le> 255" unfolding l' by auto
  moreover have "fold (type_key color) (c # cs) (l, v) = fold (type_key color) cs (l', v')" by (simp only: fold_simps lv)
  ultimately show ?case using Cons.IH [of l' v'] by (simp add: subset_iff) blast
qed simp

lemma entered_line:
  assumes "editor_ok sh" and "CHR 0x00 \<notin> set (line sh)"
  shows "c_string ((cmd_buffer sh)[cmd_index sh := CHR 0x00]) = line sh"
proof -
  have i: "cmd_index sh < length (cmd_buffer sh)" using assms(1) by (simp add: editor_ok_def)
  have "takeWhile (\<lambda>c. c \<noteq> CHR 0x00) (line sh @ CHR 0x00 # drop (Suc (cmd_index sh)) (cmd_buffer sh)) = line sh"
    using assms(2) by (auto simp: takeWhile_append takeWhile_eq_all_conv)
  then show ?thesis by (simp only: c_string_def upd_conv_take_nth_drop [OF i] line_def)
qed

text \<open>
  C25. The line editor. From a consistent editor, any characters other than newline and NUL behave as on an
  abstract line of at most 255 characters: each is appended and echoed, backspace removes the last one and
  echoes, both are ignored at the ends, and nothing else in the kernel changes. A newline then makes the shell
  execute exactly the edited line, after which the line is empty unless the processor was stopped.
\<close>

theorem shell_line_editor:
  assumes "editor_ok sh" and "CHR 0x0A \<notin> set cs" and "CHR 0x00 \<notin> set (line sh) \<union> set cs"
  shows "\<exists>sh1 sh2. run_calls im (key_calls cs) sh = Inr (True, sh1) \<and> editor_ok sh1 \<and> edits sh sh1 \<and>
    (line sh1, view (con sh1)) = fold (type_key (terminal_color (con sh))) cs (line sh, view (con sh)) \<and>
    shell_add_char im (CHR 0x0A) sh1 =
      bnd (shell_execute im (line sh1) sh2) (\<lambda>(runs, sh'). Inr (runs, if runs then sh'\<lparr>cmd_index := 0\<rparr> else sh')) \<and>
    editor_ok sh2 \<and> edits sh sh2 \<and> view (con sh2) = type_char (terminal_color (con sh)) (CHR 0x0A) (view (con sh1))"
proof -
  obtain sh1 where sh1: "run_calls im (key_calls cs) sh = Inr (True, sh1)" "editor_ok sh1" "edits sh sh1"
    "terminal_color (con sh1) = terminal_color (con sh)"
    "(line sh1, view (con sh1)) = fold (type_key (terminal_color (con sh))) cs (line sh, view (con sh))"
    using typing [OF assms(1,2)] by blast
  have "line sh1 = fst (fold (type_key (terminal_color (con sh))) cs (line sh, view (con sh)))"
    using sh1(5) by (metis fst_conv)
  then have nul: "CHR 0x00 \<notin> set (line sh1)"
    using type_key_chars [of "terminal_color (con sh)" cs "line sh" "view (con sh)"] assms(3) by auto
  have ok: "console_ok (con sh1)" "cmd_index sh1 < 256" using sh1(2) by (simp_all add: editor_ok_def)
  obtain v where v: "putc (CHR 0x0A) sh1 = Inr (sh1\<lparr>con := v\<rparr>)" "console_ok v"
    "view v = type_char (terminal_color (con sh1)) (CHR 0x0A) (view (con sh1))" using putc_types [OF ok(1)] by blast
  define sh2 where "sh2 = sh1\<lparr>con := v, cmd_buffer := (cmd_buffer sh1)[cmd_index sh1 := CHR 0x00]\<rparr>"
  have "shell_add_char im (CHR 0x0A) sh1 =
      bnd (shell_execute im (line sh1) sh2) (\<lambda>(runs, sh'). Inr (runs, if runs then sh'\<lparr>cmd_index := 0\<rparr> else sh'))"
    using v(1) ok(2) entered_line [OF sh1(2) nul] by (simp add: shell_add_char_def Let_def sh2_def)
  moreover have "editor_ok sh2" using sh1(2) v(2) by (simp add: editor_ok_def sh2_def)
  moreover have "edits sh sh2" by (rule edits_trans [OF sh1(3)]) (simp add: edits_def sh2_def)
  moreover have "view (con sh2) = type_char (terminal_color (con sh)) (CHR 0x0A) (view (con sh1))"
    using v(3) sh1(4) by (simp add: sh2_def)
  ultimately show ?thesis using sh1 by blast
qed

definition demo_shell :: shell where
  "demo_shell = \<lparr>ks = demo_rings, con = demo_vga, slog = klog_boot, keys = \<lparr>active_keymap = keymap_qwerty, extended = False\<rparr>,
     vzn = \<lparr>vbitmap = replicate 2016 0, region_list = 0, regions = \<lambda>_. None\<rparr>, cmd_buffer = replicate 256 (CHR 0x00), cmd_index = 0, scancodes = [], ports = []\<rparr>"

lemma demo_shell: "editor_ok demo_shell" "line demo_shell = ''''" "con demo_shell = demo_vga" "ks demo_shell = demo_rings"
  using demo_vga by (simp_all add: demo_shell_def editor_ok_def console_ok_def line_def)

text \<open>The keys h, a, x, backspace, l, t: the line entered is \<open>halt\<close>.\<close>

theorem shell_line_editor_witness:
  "\<forall>im. \<exists>sh1 sh2. run_calls im (key_calls (''hax'' @ [CHR 0x08] @ ''lt'')) demo_shell = Inr (True, sh1) \<and> line sh1 = ''halt'' \<and>
     shell_add_char im (CHR 0x0A) sh1 =
       bnd (shell_execute im ''halt'' sh2) (\<lambda>(runs, sh'). Inr (runs, if runs then sh'\<lparr>cmd_index := 0\<rparr> else sh'))"
proof
  fix im
  have l: "fst (fold (type_key 7) (''hax'' @ [CHR 0x08] @ ''lt'') ('''', v)) = ''halt''" for v by simp
  obtain sh1 sh2 where r: "run_calls im (key_calls (''hax'' @ [CHR 0x08] @ ''lt'')) demo_shell = Inr (True, sh1)"
    "(line sh1, view (con sh1)) = fold (type_key 7) (''hax'' @ [CHR 0x08] @ ''lt'') ('''', view demo_vga)"
    "shell_add_char im (CHR 0x0A) sh1 =
       bnd (shell_execute im (line sh1) sh2) (\<lambda>(runs, sh'). Inr (runs, if runs then sh'\<lparr>cmd_index := 0\<rparr> else sh'))"
    using shell_line_editor [OF demo_shell(1), of "''hax'' @ [CHR 0x08] @ ''lt''" im] demo_shell(2,3) demo_vga(3) by auto
  have "line sh1 = ''halt''" using arg_cong [OF r(2), of fst] l by simp
  then show "\<exists>sh1 sh2. run_calls im (key_calls (''hax'' @ [CHR 0x08] @ ''lt'')) demo_shell = Inr (True, sh1) \<and>
    line sh1 = ''halt'' \<and> shell_add_char im (CHR 0x0A) sh1 =
      bnd (shell_execute im ''halt'' sh2) (\<lambda>(runs, sh'). Inr (runs, if runs then sh'\<lparr>cmd_index := 0\<rparr> else sh'))"
    using r(1,3) by auto
qed

section \<open>The kill command\<close>

lemma log_line_renders:
  "render (c_string format) args = Some (out, n) \<Longrightarrow> log_line format args k = Inr (fold printk_putchar out k)"
  using printk_loop_text [of "c_string format" args out n 0 k] by (simp add: log_line_def printk_def)

lemma kill_note: "\<exists>k'. pr_info ''kill: sent sig %d to pid %u'' [VInt a, VInt b] k = Inr k'"
proof -
  have "\<exists>out n. render (c_string (''<6>'' @ ''kill: sent sig %d to pid %u'' @ [CHR 0x0A])) [VInt a, VInt b] = Some (out, n)"
    by (simp add: c_string_def conv_text_def)
  then show ?thesis unfolding pr_info_def using log_line_renders by blast
qed

lemma skip_blanks: "shell_skip_spaces (replicate n (CHR '' '') @ p) = shell_skip_spaces p"
  by (induction n) simp_all

lemma skip_numeral: "shell_skip_spaces (numeral_in 10 n @ p) = numeral_in 10 n @ p"
  using numeral_digits [of n] by (cases "numeral_in 10 n") (auto simp: is_digit_def)

lemma shell_dispatch_kill: "shell_dispatch im (''kill '' @ p) sh = prompting (cmd_kill p sh)"
  by (simp add: shell_dispatch_def shell_starts_with_def)

lemma cmd_kill_numbers:
  assumes "ends_number rest"
  shows "cmd_kill (replicate a (CHR '' '') @ numeral_in 10 p @ replicate (Suc b) (CHR '' '') @ numeral_in 10 q @ rest) sh =
    shell_kill (of_nat p) (s32 (of_nat q)) sh"
proof -
  have "ends_number (replicate (Suc b) (CHR '' '') @ numeral_in 10 q @ rest)" by (simp add: ends_number_def is_digit_def)
  from shell_parse_numeral [OF this] shell_parse_numeral [OF assms] show ?thesis
    by (simp only: cmd_kill_def skip_blanks skip_numeral option.case prod.case)
qed

text \<open>The task a number names, and what the kill command does to the tasks.\<close>

definition kill_effect :: "tptr list \<Rightarrow> nat \<Rightarrow> nat \<Rightarrow> kst \<Rightarrow> kst" where
  "kill_effect xs p q s =
     (case find (\<lambda>t. pid (tasks s t) = of_nat p) xs of
        Some t \<Rightarrow> if s32 (of_nat q) \<in> {1..31} then kernel_signal_send t (s32 (of_nat q)) s else s
      | None \<Rightarrow> s)"

lemma shell_kill_effect:
  assumes "chain (\<lambda>t. task_next (tasks (ks sh) t)) (task_list_head (ks sh)) xs" and "console_ok (con sh)"
  shows "\<exists>v k. shell_kill (of_nat p) (s32 (of_nat q)) sh = Inr (sh\<lparr>ks := kill_effect xs p q (ks sh), con := v, slog := k\<rparr>) \<and>
    console_ok v \<and> terminal_color v = terminal_color (con sh)"
proof -
  let ?sig = "s32 (of_nat q)"
  have found: "shell_find_task (of_nat p) (ks sh) = Inr (find (\<lambda>t. pid (tasks (ks sh) t) = of_nat p) xs)"
    using find_pid_chain [OF assms(1)] by (simp add: shell_find_task_def)
  have same: "\<exists>v k. quiet_result = Inr (sh\<lparr>con := v, slog := k\<rparr>) \<and> console_ok v \<and> terminal_color v = terminal_color (con sh)"
    if q: "quiet sh quiet_result" for quiet_result
  proof -
    obtain v where v: "quiet_result = Inr (sh\<lparr>con := v\<rparr>)" "console_ok v" "terminal_color v = terminal_color (con sh)"
      using q by (rule quietE)
    moreover have "sh\<lparr>con := v\<rparr> = sh\<lparr>con := v, slog := slog sh\<rparr>" by simp
    ultimately show ?thesis by metis
  qed
  consider (bad) "?sig \<notin> {1..31}" | (none) "?sig \<in> {1..31}" "find (\<lambda>t. pid (tasks (ks sh) t) = of_nat p) xs = None"
    | (some) t where "?sig \<in> {1..31}" "find (\<lambda>t. pid (tasks (ks sh) t) = of_nat p) xs = Some t" by fastforce
  then show ?thesis
  proof cases
    case bad
    then have "shell_kill (of_nat p) ?sig sh = say_line ''kill: invalid signal'' sh" "kill_effect xs p q (ks sh) = ks sh"
      by (auto simp: shell_kill_def kill_effect_def split: option.splits)
    then show ?thesis using same [OF say_quiet(2) [OF assms(2)]] by simp
  next
    case none
    then have "shell_kill (of_nat p) ?sig sh = say_line ''kill: pid not found'' sh" "kill_effect xs p q (ks sh) = ks sh"
      by (auto simp: shell_kill_def kill_effect_def found)
    then show ?thesis using same [OF say_quiet(2) [OF assms(2)]] by simp
  next
    case (some t)
    obtain k where "pr_info ''kill: sent sig %d to pid %u'' [VInt (of_int ?sig), VInt (of_nat p)] (slog sh) = Inr k"
      using kill_note by blast
    then have "shell_kill (of_nat p) ?sig sh = Inr (sh\<lparr>ks := kill_effect xs p q (ks sh), slog := k\<rparr>)"
      using some by (simp add: shell_kill_def kill_effect_def found on_log_def)
    then show ?thesis using assms(2)
      by (intro exI [of _ "con sh"] exI [of _ k]) simp
  qed
qed

text \<open>
  C26. A line \<open>kill p q\<close> with two decimal numbers of any size, any blanks between and anything but a digit after,
  makes the shell return to its prompt having posted signal \<open>q\<close> to the first task of the list with pid \<open>p\<close>, both
  read modulo 2 to the 32, when the signal is 1 to 31 and there is such a task, and changed no task otherwise;
  the rest of the kernel state stays as it was except the terminal and the log.
\<close>

theorem kill_line_posts_signal:
  assumes "chain (\<lambda>t. task_next (tasks (ks sh) t)) (task_list_head (ks sh)) xs" and "console_ok (con sh)"
    and "rest = [] \<or> \<not> is_digit (hd rest)"
  shows "\<exists>v k. shell_execute im (''kill '' @ replicate a (CHR '' '') @ numeral_in 10 p @ replicate (Suc b) (CHR '' '') @
      numeral_in 10 q @ rest) sh = Inr (True, sh\<lparr>ks := kill_effect xs p q (ks sh), con := v, slog := k\<rparr>) \<and> console_ok v"
proof -
  obtain v k where vk: "shell_kill (of_nat p) (s32 (of_nat q)) sh =
      Inr (sh\<lparr>ks := kill_effect xs p q (ks sh), con := v, slog := k\<rparr>)" "console_ok v"
    using shell_kill_effect [OF assms(1,2)] by blast
  define sh1 where "sh1 = sh\<lparr>ks := kill_effect xs p q (ks sh), con := v, slog := k\<rparr>"
  have "quiet sh1 (shell_print_prompt sh1)" by (rule shell_print_prompt_quiet) (simp add: sh1_def vk(2))
  then obtain w where "shell_print_prompt sh1 = Inr (sh1\<lparr>con := w\<rparr>)" "console_ok w" by (rule quietE)
  then have "shell_print_prompt (sh\<lparr>ks := kill_effect xs p q (ks sh), con := v, slog := k\<rparr>) =
      Inr (sh\<lparr>ks := kill_effect xs p q (ks sh), con := w, slog := k\<rparr>)" "console_ok w" by (simp_all add: sh1_def)
  then show ?thesis using vk cmd_kill_numbers [of rest a p b q sh] assms(3)
    by (simp only: shell_execute_def shell_dispatch_kill prompting_def ends_number_def) auto
qed

text \<open>
  On a list of two tasks with pid 0, the line sends SIGUSR1 to the first; the pid 4294967296 means the same task.
\<close>

theorem kill_line_posts_signal_witness:
  "\<forall>im. \<exists>v k. shell_execute im ''kill  4294967296 10'' demo_shell =
     Inr (True, demo_shell\<lparr>ks := kernel_signal_send (Dyn 0x100) 10 demo_rings, con := v, slog := k\<rparr>)"
proof
  fix im
  have n: "numeral_in 10 4294967296 = ''4294967296''" "numeral_in 10 10 = ''10''"
    by (simp_all add: numeral_in.simps HEX_DIGITS_def)
  have zero: "(of_nat 4294967296 :: u32) = 0" by (simp add: word_eq_iff_unsigned unsigned_of_nat)
  have e: "kill_effect [Dyn 0x100, Init_task] 4294967296 10 demo_rings = kernel_signal_send (Dyn 0x100) 10 demo_rings"
    unfolding kill_effect_def zero demo_rings(2) demo_rings(3) by (simp add: s32_def)
  have "chain (\<lambda>t. task_next (tasks (ks demo_shell) t)) (task_list_head (ks demo_shell)) [Dyn 0x100, Init_task]"
    "console_ok (con demo_shell)" using demo_rings(1) demo_shell(1,4) by (simp_all add: runq_def editor_ok_def)
  from kill_line_posts_signal [OF this, of "''''" im 1 4294967296 0 10]
  show "\<exists>v k. shell_execute im ''kill  4294967296 10'' demo_shell =
     Inr (True, demo_shell\<lparr>ks := kernel_signal_send (Dyn 0x100) 10 demo_rings, con := v, slog := k\<rparr>)"
    by (auto simp: n e demo_shell(4))
qed

end
