(* ===== verification/Spec2Isabelle.thy ===== *)
theory Spec2Isabelle
  imports Phys_Mem_Test Kmem_Test Signal_Test Signal_Frame Sched_Inv Klib_String Boot Fault_Spec Cpu_Tables_Spec Kpanic Eyeproc_Spec Shell_Spec
begin

text \<open>
  HekaOS is a 32-bit teaching kernel for the i386. This library models its C code under \<open>src/src\<close> and proves what
  makes each part correct.

  \<^bold>\<open>The program.\<close> A bitmap hands out physical frames (\<open>memory/phys_page_frame.c\<close>). Paging (\<open>cpu/paging.c\<close>) maps them through a
  recursive page-table window and gives each process its directory. Three allocators sit on top: a boundary-tag heap
  (\<open>memory/kmem_dyn_alloc.c\<close>), a pool of size classes (\<open>memory/kmalloc.c\<close>) for task descriptors, and a page-granular zone
  (\<open>memory/vmalloc.c\<close>). Tasks (\<open>task.c\<close>) form a circularly scheduled list and a tree; signals (\<open>signal.c\<close>) are posted as bits
  and delivered in ring 0 or through a frame on the user stack; the scheduler (\<open>sched.c\<close>) picks round robin on the timer;
  system calls (\<open>cpu/syscall.c\<close>) and traps (\<open>cpu/isr.c\<close>) enter the kernel through the tables of \<open>cpu/gdt.c\<close>, \<open>cpu/idt.c\<close> and
  \<open>cpu/tss.c\<close>. The terminal (\<open>drivers/vga.c\<close>), the kernel log (\<open>klib/printk.c\<close>) and the keyboard serve the shell of \<open>kernel.c\<close>,
  whose commands call into all of the above. \<open>klib/kpanic.c\<close> is the end of every failed check.

  \<^bold>\<open>How code becomes definitions.\<close> A C function is a definition of the same name over explicit state. \<open>u8\<close>, \<open>u16\<close> and \<open>u32\<close> are
  words, so that arithmetic wraps as in C; positions on the screen and loop counters far below the width are naturals. A
  routine that can fail to return has a result \<open>kerror + 'a\<close>: a panic with its message, a page fault, an access outside an
  array, a bad pointer, or a loop that does not end. \<open>bnd\<close> sequences such results and \<open>for_each\<close> is a counted loop
  (\<open>Prelude\<close>). Loops along linked lists are \<open>partial_function (option)\<close>, where \<open>None\<close> is a loop that never ends and becomes
  \<open>Diverge\<close>; wherever a property says that such a routine returns, this is proved from a finite list. The only numeric
  bounds are those of the code: the depth 16 of the stack walk, the sizes of its arrays, and the local digit buffers, whose
  overrun is an error value and is proved not to happen.

  Task descriptors, trap frames and the headers of heap and pool are stores of their own, apart from the physical memory that
  paging and ring 3 see. A store of the kernel through a user pointer it did not check (the status of \<open>wait\<close>, the signal frame
  on the user stack) therefore changes no descriptor in the model, as it could in the kernel: theorems about descriptors are
  about runs without such stores.

  \<^bold>\<open>The reaper.\<close> Properties about the end of a task say what happens to the reaper, PID 1: while it has children its exit does
  not return. Without children it exits as any other task.

  \<^bold>\<open>Memory.\<close>
  \<^item> \<open>Phys_Page_Frame\<close>: the frame bitmap; first fit for single and contiguous frames, the locale \<open>frame_allocator\<close>. \<open>Bit_Array\<close> is the
    contract of a bitmap, interpreted for the frames and for the \<open>vmalloc\<close> zone. \<open>Phys_Mem_Test\<close> proves that the boot-time
    self-test never reaches a panic.
  \<^item> \<open>Paging\<close> and \<open>Address_Space\<close>: \<open>map_page\<close>, \<open>unmap_page\<close>, \<open>alloc_page\<close>, \<open>free_page\<close>, process directories, fork copy and release,
    over word-addressed physical memory. \<open>mmu_walk\<close> is the hardware. The recursive window computes what the hardware computes, one
    page changes at a time, and the locale \<open>page_provider\<close> is what the allocators above rely on.
  \<^item> \<open>Kmem_Dyn_Alloc\<close> and \<open>Kmem_Heap\<close>: the heap refines a list of blocks with first fit, splitting and merging, and fails only
    when the zone or the frames are short. \<open>Kmem_Test\<close>: its self-test passes.
  \<^item> \<open>Kmalloc\<close> and \<open>Kmalloc_Spec\<close>: the pool refines a set of live chunks (locale \<open>object_provider\<close>) and gives back empty pages.
  \<^item> \<open>Vmalloc\<close> and \<open>Vmalloc_Spec\<close>: the zone refines a set of disjoint areas with first fit; \<open>vmalloc\<close> uses the pool and the pages through
    their locales.

  \<^bold>\<open>Tasks.\<close>
  \<^item> \<open>Task\<close>, \<open>Task_Life\<close>: descriptors, the kernel state \<open>kst\<close>, pids, creation, fork, exit, wait, reaping, the rings. \<open>Task_Tree\<close> proves the
    tree of children against a function from a task to its list (locale \<open>child_lists\<close>) and that \<open>do_exit\<close> hands the children on.
    \<open>Task_Rings\<close> proves the log and the input ring (\<open>Ring_Buffer\<close>, locale \<open>bounded_queue\<close>).
  \<^item> \<open>Signal\<close>, \<open>Signal_Spec\<close>, \<open>Signal_Frame\<close>: dispatch in order, default actions, the frame on the user stack and \<open>sigreturn\<close>.
    \<open>Signal_Test\<close>: the self-test passes on every state.
    \<open>User_Memory\<close> states ring 3 memory as an array of words and of bytes (locale \<open>array_store\<close>).
  \<^item> \<open>Sched\<close>, \<open>Sched_Spec\<close>, \<open>Sched_Inv\<close>: the pick is round robin, every waiting task comes closer, one task runs; the
    scheduler returns as long as no signal that would make the reaper exit is pending for it.
  \<^item> \<open>Syscall\<close>, \<open>Interrupts\<close>, \<open>Syscall_Spec\<close>: every handler, the trap dispatch, the context switch; range check, permissions.
    \<open>Fault_Spec\<close>: a ring 3 fault kills the task, or parks it for good when the signal is caught (\<open>parked_step\<close> is the run of the
    machine around the parked task).
  \<^item> \<open>Kernel_Inv\<close>: the kernel as a transition system whose steps are the entries into it, interleaved with arbitrary ring 3
    steps; the invariant of all reachable states by rule induction.
  \<^item> \<open>Boot\<close>: the initialisations in the order of \<open>kernel_main\<close>; the property below shows that they establish the invariants that
    the other properties assume.

  \<^bold>\<open>Devices and shell.\<close>
  \<^item> \<open>Cpu_Tables\<close> and \<open>Cpu_Tables_Spec\<close>: descriptor tables, the interrupt controller, the timer, read back as the hardware reads them.
  \<^item> \<open>Klib_String\<close>, \<open>Printk\<close>, \<open>Printk_Spec\<close>: strings on byte memory; formats against a rendering over integers; the log ring.
  \<^item> \<open>Vga\<close> and \<open>Vga_Spec\<close>: the terminal refines an abstract screen with history. \<open>Vga_Screen\<close>, \<open>Kpanic\<close>: direct drawing, the panic
    screen.
  \<^item> \<open>Eyeproc\<close> and \<open>Eyeproc_Spec\<close>: the process monitor and its key loop.
  \<^item> \<open>Trap_Report\<close>: the stack walk and the canary self-test of traps.
  \<^item> \<open>Shell\<close>, \<open>Shell_Exec\<close>, \<open>Shell_Spec\<close>: commands, interpreter, line editor and keyboard service; the terminal is the locale
    \<open>char_device\<close>. The addresses of linked code are the parameter \<open>image\<close>.

  \<^bold>\<open>What is found.\<close> Some theorems show behaviour that the code does not intend: the exit of the reaper with children loops
  (\<open>do_exit_of_reaper_diverges\<close>), a caught fault parks its task and the handler is never entered (\<open>user_fault_caught_never_delivered\<close>), an unmapped
  buffer passed to \<open>write\<close> panics the kernel (\<open>sys_write_unmapped_buffer_panics\<close>), the console loses whole laps of the log
  (\<open>console_flush_loses_full_laps\<close>), a panic after scrolling is invisible (\<open>kpanic_hidden_after_scrolling\<close>), pids in shell commands are
  read modulo 2 to the 32 (\<open>kill_line_posts_signal\<close>).

  \<^bold>\<open>Not modelled.\<close> The rest of \<open>kernel_main\<close>, which interleaves the initialisations with self-tests and messages; the self-tests
  of paging, pool and zone, which are sequences of calls of modelled operations with a log line each; the code of
  the test threads and ring 3 programs, which the kernel copies as bytes; assembly stubs except the context switch and the
  return path of interrupts; the Rust demonstration; log lines of the components other than the shell and the trap report,
  which change nothing but the log; interrupts during a system call, since the kernel runs with them off except where it
  parks or sleeps, which are separate steps; caches, the TLB and timing.
\<close>

text \<open>
  C3. Boot establishes every invariant that the properties of the components assume. From page-aligned static tables
  in the first 4 MiB that do not overlap and a bitmap of the right size, the initialisations in the order of
  \<open>kernel_main\<close> return, and afterwards: kernel pages map distinct frames that are neither free nor page tables, the heap is
  one free block on one page, the pool is well formed and empty, the zone is well formed and empty, every descriptor is
  well formed, the tree has \<open>kthreadd\<close> under \<open>init_task\<close>, and the idle task is alone in the run queue.
\<close>

theorem kernel_init_establishes_invariants:
  assumes "static_tables m" and "bitmap_wf (frame_bitmap m)"
    and "cpool_hdrs kp = Map.empty" and "length (vbitmap v) = 2016" and "region_list v = 0"
  shows "\<exists>s v'. kernel_init m k kp v = Inr (s, v') \<and> page_inv (kmm s) \<and> kheap_inv (kheap s) (kmm s) [(4080, False)] \<and>
    pool_inv (pool s) (kmm s) \<and> live (pool s) = {} \<and> vz_inv v' (pool s) (kmm s) \<and> areas v' = {} \<and>
    kinv s \<and> tree s ((\<lambda>_. [])(Init_task := [Kthreadd_task])) \<and> runq s [Init_task]"
proof -
  obtain bm where bm: "phys_mem_init (frame_bitmap (paging_init m)) = Inr bm"
      "page_inv ((paging_init m)\<lparr>frame_bitmap := bm\<rparr>)" "mapped_pages ((paging_init m)\<lparr>frame_bitmap := bm\<rparr>) = {}"
      "free_frames bm = {1024..<16384}" by (rule memory_ready [OF assms(1,2)])
  have "2 \<le> card (free_frames (frame_bitmap ((paging_init m)\<lparr>frame_bitmap := bm\<rparr>)))" by (simp add: bm(4))
  from heap_ready [OF bm(2,3) this] obtain k' s' where
    ks: "kmem_dyn_alloc_init k ((paging_init m)\<lparr>frame_bitmap := bm\<rparr>) = Inr (k', s')" "kheap_inv k' s' [(4080, False)]"
      "mapped_pages s' = {0xC0000000}" "page_inv s'" by metis
  have "zone_pages s' = {}" by (auto simp: zone_pages_def ks(3))
  note pl = kmalloc_init_inv [OF ks(4) this assms(3)]
  have "vpage i \<notin> mapped_pages s'" if "i < 64512" for i
    using vpage(1) [OF that] by (auto simp: ks(3) dest: arg_cong [where f = unat])
  from vmalloc_init_inv [OF assms(4,5) pl(1) this] obtain v' where
    v': "vmalloc_init v = Inr v'" "vz_inv v' (kmalloc_init kp) s'" "areas v' = {}" by blast
  define s where "s = task_init (cr3 s') (boot_kst s' k' (kmalloc_init kp))"
  have f: "kmm s = s'" "kheap s = k'" "pool s = kmalloc_init kp"
    by (simp_all add: s_def task_init_def Let_def task_add_child_def boot_kst_def)
  have "kernel_init m k kp v = Inr (s, v')" by (simp add: kernel_init_def bm(1) ks(1) v'(1) s_def)
  then show ?thesis using ks pl v' boot_kinv [of "cr3 s'" s' k' "kmalloc_init kp"]
      task_init_tree [of "cr3 s'" s' k' "kmalloc_init kp"] task_init_run_queue [of "cr3 s'" s' k' "kmalloc_init kp"]
    unfolding f s_def [symmetric] by (intro exI [of _ s] exI [of _ v']) (simp add: f)
qed

text \<open>Zeroed memory with the tables where a linker could put them.\<close>

theorem kernel_init_establishes_invariants_witness:
  "\<exists>s v'. kernel_init (boot_mm (replicate 512 0)) \<lparr>kmem_heap_head = 0, kmem_heap_end = 0, kblocks = Map.empty\<rparr> empty_pool
     empty_zone = Inr (s, v') \<and> kheap_inv (kheap s) (kmm s) [(4080, False)] \<and> vz_inv v' (pool s) (kmm s)"
proof -
  have "bitmap_wf (frame_bitmap (boot_mm (replicate 512 0)))" by (simp add: boot_mm(2) bitmap_wf_def)
  from kernel_init_establishes_invariants [OF boot_mm(1) this, of empty_pool empty_zone] show ?thesis
    by (fastforce simp: empty_pool_def empty_zone_def)
qed

end
